(* ===== verification/Cervus_Prelude.thy ===== *)
theory Cervus_Prelude
  imports Main "HOL-Library.Word"
begin

text \<open>
  Shared vocabulary of the development: the C integer types of the kernel as words, the errno
  constants of \<open>kernel/include/syscall/errno.h\<close> as a datatype, the result types of fallible and of
  faulting code, the conversions between C integer types, and the generic facts on slot tables
  (arrays of structures with a \<open>used\<close> flag), list updates and words that the components share.
\<close>

unbundle bit_operations_syntax

section \<open>C integer types\<close>

type_synonym u8 = "8 word"
type_synonym u16 = "16 word"
type_synonym u32 = "32 word"
type_synonym u64 = "64 word"

text \<open>
  \<open>(int)x\<close> for a 64-bit unsigned \<open>x\<close> keeps the low 32 bits and reads them as two's complement;
  a 32-bit signed result that leaves its range wraps the same way.
\<close>

definition to_int32 :: "u64 \<Rightarrow> int" where
  "to_int32 x = sint (ucast x :: u32)"

definition wrap_int32 :: "int \<Rightarrow> int" where
  "wrap_int32 x = sint (word_of_int x :: u32)"

definition INT32_MAX :: int where
  "INT32_MAX = 2147483647"

section \<open>Error codes and outcomes\<close>

text \<open>The error numbers of the generic calls; the stream and socket numbers of the header are not used here.\<close>

datatype errno =
    EPERM | ENOENT | ESRCH | EINTR | EIO | ENXIO | E2BIG | ENOEXEC | EBADF | ECHILD | EAGAIN
  | ENOMEM | EACCES | EFAULT | EBUSY | EEXIST | EXDEV | ENODEV | ENOTDIR | EISDIR | EINVAL
  | ENFILE | EMFILE | ENOTTY | EFBIG | ENOSPC | ESPIPE | EROFS | EMLINK | EPIPE | ERANGE
  | EDEADLK | ENAMETOOLONG | ENOLCK | ENOSYS | ENOTEMPTY | ELOOP | ENOMSG | EIDRM | ETIMEDOUT

text \<open>The number behind each name; a failing call returns its negation.\<close>

primrec errno_code :: "errno \<Rightarrow> int" where
  "errno_code EPERM = 1"
| "errno_code ENOENT = 2"
| "errno_code ESRCH = 3"
| "errno_code EINTR = 4"
| "errno_code EIO = 5"
| "errno_code ENXIO = 6"
| "errno_code E2BIG = 7"
| "errno_code ENOEXEC = 8"
| "errno_code EBADF = 9"
| "errno_code ECHILD = 10"
| "errno_code EAGAIN = 11"
| "errno_code ENOMEM = 12"
| "errno_code EACCES = 13"
| "errno_code EFAULT = 14"
| "errno_code EBUSY = 16"
| "errno_code EEXIST = 17"
| "errno_code EXDEV = 18"
| "errno_code ENODEV = 19"
| "errno_code ENOTDIR = 20"
| "errno_code EISDIR = 21"
| "errno_code EINVAL = 22"
| "errno_code ENFILE = 23"
| "errno_code EMFILE = 24"
| "errno_code ENOTTY = 25"
| "errno_code EFBIG = 27"
| "errno_code ENOSPC = 28"
| "errno_code ESPIPE = 29"
| "errno_code EROFS = 30"
| "errno_code EMLINK = 31"
| "errno_code EPIPE = 32"
| "errno_code ERANGE = 34"
| "errno_code EDEADLK = 35"
| "errno_code ENAMETOOLONG = 36"
| "errno_code ENOLCK = 37"
| "errno_code ENOSYS = 38"
| "errno_code ENOTEMPTY = 39"
| "errno_code ELOOP = 40"
| "errno_code ENOMSG = 42"
| "errno_code EIDRM = 43"
| "errno_code ETIMEDOUT = 110"

text \<open>A call that returns a value or a negative error number.\<close>

type_synonym 'a result = "errno + 'a"

text \<open>
  \<open>Fault\<close>: the C code reads or writes outside the array or object it names, so nothing is
  promised of what follows.
\<close>

datatype 'a exec = Ret 'a | Fault

text \<open>
  One pass of a blocking call under its lock: it returns, or it sleeps and runs the next pass on
  whatever state it finds then.
\<close>

datatype 'a pass = Done 'a | Block

text \<open>A \<open>for\<close> loop whose body may fail to return.\<close>

fun foldo :: "('a \<Rightarrow> 's \<Rightarrow> 's option) \<Rightarrow> 'a list \<Rightarrow> 's \<Rightarrow> 's option" where
  "foldo f [] s = Some s"
| "foldo f (x # xs) s = (case f x s of None \<Rightarrow> None | Some s' \<Rightarrow> foldo f xs s')"

section \<open>Slot tables\<close>

text \<open>
  The loop \<open>for (i = 0; i < MAX; i++) if (P(a[i])) { slot = i; break; }\<close> with which the kernel
  searches its fixed tables.
\<close>

fun find_slot :: "('a \<Rightarrow> bool) \<Rightarrow> 'a list \<Rightarrow> nat option" where
  "find_slot P [] = None"
| "find_slot P (x # xs) = (if P x then Some 0 else map_option Suc (find_slot P xs))"

lemma find_slot_SomeD:
  "find_slot P xs = Some i \<Longrightarrow> i < length xs \<and> P (xs ! i) \<and> (\<forall>j < i. \<not> P (xs ! j))"
proof (induction xs arbitrary: i)
  case Nil
  then show ?case by simp
next
  case (Cons x xs)
  show ?case
  proof (cases "P x")
    case True
    with Cons.prems show ?thesis by simp
  next
    case False
    with Cons.prems obtain k where k: "find_slot P xs = Some k" and i: "i = Suc k" by auto
    from Cons.IH [OF k] False i show ?thesis by (auto simp: nth_Cons split: nat.splits)
  qed
qed

lemma find_slot_None: "find_slot P xs = None \<longleftrightarrow> (\<forall>x \<in> set xs. \<not> P x)"
  by (induction xs) auto

lemma find_slot_None_nth: "find_slot P xs = None \<longleftrightarrow> (\<forall>i < length xs. \<not> P (xs ! i))"
  by (auto simp: find_slot_None all_set_conv_all_nth)

lemma find_slot_SomeI:
  "i < length xs \<Longrightarrow> P (xs ! i) \<Longrightarrow> \<forall>j < i. \<not> P (xs ! j) \<Longrightarrow> find_slot P xs = Some i"
proof -
  assume i: "i < length xs" and P: "P (xs ! i)" and least: "\<forall>j < i. \<not> P (xs ! j)"
  from i P have "find_slot P xs \<noteq> None" by (auto simp: find_slot_None_nth)
  then obtain k where k: "find_slot P xs = Some k" by blast
  from find_slot_SomeD [OF k] i P least have "k = i" by (metis linorder_neqE_nat)
  with k show ?thesis by simp
qed

lemma find_slot_Some:
  "find_slot P xs = Some i \<longleftrightarrow> i < length xs \<and> P (xs ! i) \<and> (\<forall>j < i. \<not> P (xs ! j))"
  using find_slot_SomeD find_slot_SomeI by metis

lemmas find_slot_lt = find_slot_SomeD [THEN conjunct1]

text \<open>After storing a match in a table that had none, the search finds exactly that slot.\<close>

lemma find_slot_update:
  assumes "find_slot P xs = None" and "i < length xs" and "P y"
  shows "find_slot P (xs[i := y]) = Some i"
  using assms by (auto simp: find_slot_Some find_slot_None_nth nth_list_update)

section \<open>Tables searched by identifier\<close>

text \<open>
  Several kernel tables (semaphore sets, shared memory segments, the ARP cache) are arrays of slots
  with a liveness flag and an identifier, searched linearly. No two live slots share an identifier.
\<close>

definition unique_live :: "('s \<Rightarrow> bool) \<Rightarrow> ('s \<Rightarrow> 'k) \<Rightarrow> 's list \<Rightarrow> bool" where
  "unique_live live ident xs \<longleftrightarrow>
    (\<forall>i < length xs. \<forall>j < length xs.
       live (xs ! i) \<longrightarrow> live (xs ! j) \<longrightarrow> ident (xs ! i) = ident (xs ! j) \<longrightarrow> i = j)"

lemma unique_liveD:
  "unique_live live ident xs \<Longrightarrow> i < length xs \<Longrightarrow> j < length xs \<Longrightarrow> live (xs ! i) \<Longrightarrow> live (xs ! j) \<Longrightarrow>
    ident (xs ! i) = ident (xs ! j) \<Longrightarrow> i = j"
  by (simp add: unique_live_def)

lemma unique_live_store:
  assumes "unique_live live ident xs"
    and "\<And>j. j < length xs \<Longrightarrow> j \<noteq> i \<Longrightarrow> live (xs ! j) \<Longrightarrow> live y \<Longrightarrow> ident (xs ! j) \<noteq> ident y"
  shows "unique_live live ident (xs[i := y])"
  unfolding unique_live_def
proof (intro allI impI)
  fix a b
  assume ab: "a < length (xs[i := y])" "b < length (xs[i := y])"
    and live: "live (xs[i := y] ! a)" "live (xs[i := y] ! b)"
    and same: "ident (xs[i := y] ! a) = ident (xs[i := y] ! b)"
  show "a = b"
  proof (cases "a = i \<or> b = i")
    case True
    with ab live same assms(2) [of a] assms(2) [of b] show ?thesis
      by (cases "a = i"; cases "b = i") auto
  next
    case False
    with ab live same show ?thesis by (auto intro: unique_liveD [OF assms(1)])
  qed
qed

locale keyed_table =
  fixes live :: "'s \<Rightarrow> bool" and ident :: "'s \<Rightarrow> 'k"
    and slots :: "'st \<Rightarrow> 's list" and get :: "'k \<Rightarrow> 'st \<Rightarrow> nat option"
  assumes get_sound: "get k st = Some i \<Longrightarrow>
      i < length (slots st) \<and> live (slots st ! i) \<and> ident (slots st ! i) = k"
    and get_complete: "get k st = None \<Longrightarrow> i < length (slots st) \<Longrightarrow> live (slots st ! i) \<Longrightarrow>
      ident (slots st ! i) \<noteq> k"
begin

lemma get_eq_iff:
  assumes "unique_live live ident (slots st)" and "i < length (slots st)"
  shows "get k st = Some i \<longleftrightarrow> live (slots st ! i) \<and> ident (slots st ! i) = k"
proof
  assume "get k st = Some i"
  then show "live (slots st ! i) \<and> ident (slots st ! i) = k" using get_sound by blast
next
  assume here: "live (slots st ! i) \<and> ident (slots st ! i) = k"
  show "get k st = Some i"
  proof (cases "get k st")
    case None
    with here get_complete assms(2) show ?thesis by blast
  next
    case (Some j)
    with here get_sound [OF Some] assms show ?thesis by (auto dest: unique_liveD)
  qed
qed

lemma get_stored:
  assumes "slots st' = (slots st)[i := y]" and "unique_live live ident (slots st')"
    and "i < length (slots st)" and "live y"
  shows "get (ident y) st' = Some i"
  using assms by (subst get_eq_iff) simp_all

lemma get_other:
  assumes st': "slots st' = (slots st)[i := y]"
    and uniq: "unique_live live ident (slots st)" "unique_live live ident (slots st')"
    and old: "live (slots st ! i) \<Longrightarrow> ident (slots st ! i) \<noteq> k"
    and new: "live y \<Longrightarrow> ident y \<noteq> k"
  shows "get k st' = get k st"
proof (cases "get k st")
  case (Some j)
  with get_sound [OF Some] old have j: "j < length (slots st)" "j \<noteq> i" by auto
  with Some get_sound [OF Some] uniq(2) st' show ?thesis
    by (simp add: get_eq_iff)
next
  case None
  show ?thesis
  proof (cases "get k st'")
    case (Some j)
    with get_sound [OF Some] st' new have "j < length (slots st)" "j \<noteq> i" by auto
    with get_sound [OF Some] st' get_complete [OF None, of j] show ?thesis by simp
  qed (simp add: None)
qed

end

section \<open>Wrapped arithmetic\<close>

lemma wrap_int32_id: "- 2147483648 \<le> x \<Longrightarrow> x \<le> INT32_MAX \<Longrightarrow> wrap_int32 x = x"
  by (simp add: wrap_int32_def INT32_MAX_def sint_sbintrunc' signed_take_bit_int_eq_self)

lemma wrap_int32_wrap: "wrap_int32 (wrap_int32 x + y) = wrap_int32 (x + y)"
proof -
  have "(word_of_int (sint (word_of_int x :: u32) + y) :: u32) = word_of_int (x + y)"
    by (simp add: of_int_add)
  then show ?thesis by (simp add: wrap_int32_def)
qed

lemma wrap_int32_range: "- 2147483648 \<le> wrap_int32 x \<and> wrap_int32 x \<le> INT32_MAX"
  using sint_range_size [of "word_of_int x :: u32"]
  by (simp add: wrap_int32_def INT32_MAX_def word_size)

lemma wrap_int32_idem [simp]: "wrap_int32 (wrap_int32 x) = wrap_int32 x"
  using wrap_int32_range by (simp add: wrap_int32_id)

end
