(* ===== verification/Sem.thy ===== *)
theory Sem
  imports Cervus_Prelude
begin

text \<open>
  System V semaphores, \<open>kernel/src/syscall/mem/sem.c\<close>: the table \<open>g_sems\<close> of 32 semaphore sets,
  \<open>sys_semget\<close>, \<open>sys_semop\<close> and \<open>sys_semctl\<close>. Every critical section under \<open>g_lock\<close> is one
  function on the state; \<open>sys_semop\<close>, which sleeps and retries, is the function of one pass of its
  loop, and runs of interleaved calls are sequences of passes.
\<close>

section \<open>State\<close>

definition SEM_MAX :: nat where "SEM_MAX = 32"
definition SEM_NSEMS_MAX :: nat where "SEM_NSEMS_MAX = 32"
definition SEM_IPC_CREAT :: u64 where "SEM_IPC_CREAT = 512"
definition IPC_NOWAIT :: int where "IPC_NOWAIT = 2048"
definition SEM_IPC_RMID :: u64 where "SEM_IPC_RMID = 0"
definition GETVAL :: u64 where "GETVAL = 12"
definition SETVAL :: u64 where "SETVAL = 16"

text \<open>One operation of a \<open>semop\<close> call: an unsigned 16-bit index, two signed 16-bit values.\<close>

record sembuf =
  sem_num :: u16
  sem_op :: "16 word"
  sem_flg :: "16 word"

record sem_set =
  ss_used :: bool
  ss_key :: int
  ss_id :: int
  ss_nsems :: int
  ss_val :: "int list"
  ss_marked :: int

record sem_state =
  g_sems :: "sem_set list"
  g_next_id :: int

definition sem_set_zero :: sem_set where
  "sem_set_zero = \<lparr>ss_used = False, ss_key = 0, ss_id = 0, ss_nsems = 0,
     ss_val = replicate SEM_NSEMS_MAX 0, ss_marked = 0\<rparr>"

definition sem_init :: sem_state where
  "sem_init = \<lparr>g_sems = replicate SEM_MAX sem_set_zero, g_next_id = 1\<rparr>"

section \<open>Operations\<close>

definition set_by_id :: "int \<Rightarrow> sem_state \<Rightarrow> nat option" where
  "set_by_id i st = find_slot (\<lambda>s. ss_used s \<and> ss_id s = i) (g_sems st)"

definition sys_semget :: "u64 \<Rightarrow> u64 \<Rightarrow> u64 \<Rightarrow> sem_state \<Rightarrow> int result \<times> sem_state" where
  "sys_semget key nsems flags st =
    (if nsems > of_nat SEM_NSEMS_MAX then (Inl EINVAL, st)
     else case (if key \<noteq> 0
                then find_slot (\<lambda>s. ss_used s \<and> ss_key s = to_int32 key) (g_sems st)
                else None) of
       Some i \<Rightarrow> (Inr (ss_id (g_sems st ! i)), st)
     | None \<Rightarrow>
         if key \<noteq> 0 \<and> flags AND SEM_IPC_CREAT = 0 then (Inl ENOENT, st)
         else if nsems = 0 then (Inl EINVAL, st)
         else case find_slot (\<lambda>s. \<not> ss_used s) (g_sems st) of
           None \<Rightarrow> (Inl ENOSPC, st)
         | Some slot \<Rightarrow>
             let s = sem_set_zero\<lparr>ss_used := True, ss_key := to_int32 key,
                       ss_id := g_next_id st, ss_nsems := to_int32 nsems\<rparr>
             in (Inr (ss_id s),
                 st\<lparr>g_sems := (g_sems st)[slot := s],
                    g_next_id := wrap_int32 (g_next_id st + 1)\<rparr>))"

text \<open>
  The checking loop of a pass: \<open>None\<close> when an index is out of range (\<open>EFBIG\<close>), otherwise the flags
  \<open>ok\<close> and \<open>nowait\<close> the loop ends with. Each operation is checked against the values as they stand
  before the call.
\<close>

fun semop_check :: "sem_set \<Rightarrow> sembuf list \<Rightarrow> bool \<Rightarrow> bool \<Rightarrow> (bool \<times> bool) option" where
  "semop_check s [] ok nowait = Some (ok, nowait)"
| "semop_check s (b # bs) ok nowait =
    (let n = uint (sem_num b); sop = sint (sem_op b) in
     if n < 0 \<or> n \<ge> ss_nsems s then None
     else if sop < 0 \<and> ss_val s ! nat n + sop < 0 \<or> sop = 0 \<and> ss_val s ! nat n \<noteq> 0
     then semop_check s bs False (nowait \<or> sint (sem_flg b) AND IPC_NOWAIT \<noteq> 0)
     else semop_check s bs ok nowait)"

fun semop_apply :: "sembuf list \<Rightarrow> int list \<Rightarrow> int list" where
  "semop_apply [] val = val"
| "semop_apply (b # bs) val =
    semop_apply bs
      (val[unat (sem_num b) := wrap_int32 (val ! unat (sem_num b) + sint (sem_op b))])"

definition semop_pass ::
  "bool \<Rightarrow> u64 \<Rightarrow> sembuf list \<Rightarrow> sem_state \<Rightarrow> int result pass \<times> sem_state" where
  "semop_pass pending_kill semid ops st =
    (case set_by_id (to_int32 semid) st of
       None \<Rightarrow> (Done (Inl EINVAL), st)
     | Some i \<Rightarrow>
         let s = g_sems st ! i in
         case semop_check s ops True False of
           None \<Rightarrow> (Done (Inl EFBIG), st)
         | Some (ok, nowait) \<Rightarrow>
             if ok then
               (Done (Inr 0),
                st\<lparr>g_sems := (g_sems st)[i := s\<lparr>ss_val := semop_apply ops (ss_val s)\<rparr>]\<rparr>)
             else if nowait then (Done (Inl EAGAIN), st)
             else if pending_kill then (Done (Inl EINTR), st)
             else (Block, st))"

text \<open>
  The whole call: the argument checks, the copy of the operation array from user memory
  (\<open>None\<close> when the range is not readable), then the first pass.
\<close>

definition sys_semop ::
  "bool \<Rightarrow> u64 \<Rightarrow> sembuf list option \<Rightarrow> u64 \<Rightarrow> sem_state \<Rightarrow> int result pass \<times> sem_state" where
  "sys_semop pending_kill semid sops nsops st =
    (if nsops = 0 \<or> nsops > of_nat SEM_NSEMS_MAX then (Done (Inl EINVAL), st)
     else case sops of
       None \<Rightarrow> (Done (Inl EFAULT), st)
     | Some ops \<Rightarrow> semop_pass pending_kill semid ops st)"

text \<open>
  \<open>sys_semctl\<close> checks \<open>(int)num\<close> but indexes \<open>val\<close> with the full 64-bit \<open>num\<close>.
\<close>

definition sys_semctl ::
  "u64 \<Rightarrow> u64 \<Rightarrow> u64 \<Rightarrow> u64 \<Rightarrow> sem_state \<Rightarrow> int result exec \<times> sem_state" where
  "sys_semctl semid num cmd arg st =
    (case set_by_id (to_int32 semid) st of
       None \<Rightarrow> (Ret (Inl EINVAL), st)
     | Some i \<Rightarrow>
         let s = g_sems st ! i in
         if cmd = SEM_IPC_RMID then
           (Ret (Inr 0), st\<lparr>g_sems := (g_sems st)[i := s\<lparr>ss_used := False\<rparr>]\<rparr>)
         else if cmd = SETVAL then
           if 0 \<le> to_int32 num \<and> to_int32 num < ss_nsems s then
             if unat num < SEM_NSEMS_MAX then
               (Ret (Inr 0), st\<lparr>g_sems :=
                  (g_sems st)[i := s\<lparr>ss_val := (ss_val s)[unat num := to_int32 arg]\<rparr>]\<rparr>)
             else (Fault, st)
           else (Ret (Inl EINVAL), st)
         else if cmd = GETVAL then
           if 0 \<le> to_int32 num \<and> to_int32 num < ss_nsems s then
             if unat num < SEM_NSEMS_MAX then (Ret (Inr (ss_val s ! unat num)), st)
             else (Fault, st)
           else (Ret (Inl EINVAL), st)
         else (Ret (Inr 0), st))"

section \<open>The table of sets\<close>

definition sem_inv :: "sem_state \<Rightarrow> bool" where
  "sem_inv st \<longleftrightarrow>
    length (g_sems st) = SEM_MAX \<and>
    unique_live ss_used ss_id (g_sems st) \<and>
    (\<forall>s \<in> set (g_sems st). length (ss_val s) = SEM_NSEMS_MAX \<and>
       (\<forall>v \<in> set (ss_val s). wrap_int32 v = v) \<and>
       (ss_used s \<longrightarrow> 0 < ss_nsems s \<and> ss_nsems s \<le> int SEM_NSEMS_MAX \<and> ss_id s < g_next_id st))"

interpretation semtab: keyed_table ss_used ss_id g_sems set_by_id
  by unfold_locales (auto simp: set_by_id_def find_slot_Some find_slot_None_nth)

lemmas sem_consts = SEM_MAX_def SEM_NSEMS_MAX_def

lemma sem_inv_len: "sem_inv st \<Longrightarrow> length (g_sems st) = SEM_MAX"
  by (simp add: sem_inv_def)

lemma sem_inv_set:
  "sem_inv st \<Longrightarrow> i < length (g_sems st) \<Longrightarrow> ss_used (g_sems st ! i) \<Longrightarrow>
    0 < ss_nsems (g_sems st ! i) \<and> ss_nsems (g_sems st ! i) \<le> 32 \<and>
    ss_id (g_sems st ! i) < g_next_id st \<and> length (ss_val (g_sems st ! i)) = 32"
  by (auto simp: sem_inv_def sem_consts)

lemma sem_inv_vals:
  "sem_inv st \<Longrightarrow> i < length (g_sems st) \<Longrightarrow>
    length (ss_val (g_sems st ! i)) = 32 \<and> (\<forall>v \<in> set (ss_val (g_sems st ! i)). wrap_int32 v = v)"
  by (auto simp: sem_inv_def sem_consts)

text \<open>Changing the values of a set, or clearing its flag, keeps the invariant.\<close>

lemma sem_inv_update:
  assumes inv: "sem_inv st" and i: "i < length (g_sems st)"
    and y: "ss_used y \<longrightarrow> ss_used (g_sems st ! i)" "ss_id y = ss_id (g_sems st ! i)"
      "ss_nsems y = ss_nsems (g_sems st ! i)" "length (ss_val y) = 32"
      "\<forall>v \<in> set (ss_val y). wrap_int32 v = v"
  shows "sem_inv (st\<lparr>g_sems := (g_sems st)[i := y]\<rparr>)"
proof -
  have "unique_live ss_used ss_id ((g_sems st)[i := y])"
    using inv i y by (intro unique_live_store) (auto simp: sem_inv_def dest: unique_liveD)
  moreover have "\<forall>s \<in> set ((g_sems st)[i := y]). length (ss_val s) = SEM_NSEMS_MAX \<and>
      (\<forall>v \<in> set (ss_val s). wrap_int32 v = v) \<and>
      (ss_used s \<longrightarrow> 0 < ss_nsems s \<and> ss_nsems s \<le> int SEM_NSEMS_MAX \<and> ss_id s < g_next_id st)"
    using inv sem_inv_set [OF inv i] y
    by (auto simp: sem_inv_def sem_consts dest!: set_update_subset_insert [THEN subsetD])
  ultimately show ?thesis using inv by (simp add: sem_inv_def)
qed

lemma to_int32_small: "n \<le> 32 \<Longrightarrow> to_int32 n = uint n"
proof -
  assume "n \<le> 32"
  then have le: "uint n \<le> 32" by (simp add: word_le_def)
  then have "uint (ucast n :: u32) = uint n"
    by (simp add: unsigned_ucast_eq take_bit_int_eq_self)
  moreover have "- 2147483648 \<le> uint n" by (rule order_trans [OF _ uint_ge_0]) simp
  ultimately show ?thesis using le
    by (simp add: to_int32_def sint_uint signed_take_bit_int_eq_self)
qed

lemma semop_apply_length [simp]: "length (semop_apply ops val) = length val"
  by (induction ops val rule: semop_apply.induct) simp_all

lemma semop_apply_wrap:
  "\<forall>v \<in> set val. wrap_int32 v = v \<Longrightarrow> \<forall>v \<in> set (semop_apply ops val). wrap_int32 v = v"
proof (induction ops val rule: semop_apply.induct)
  case (2 b bs val)
  have "\<forall>v \<in> set (val[unat (sem_num b) :=
      wrap_int32 (val ! unat (sem_num b) + sint (sem_op b))]). wrap_int32 v = v"
    using "2.prems" by (auto dest!: set_update_subset_insert [THEN subsetD])
  from "2.IH" [OF this] show ?case by simp
qed simp

lemma to_int32_wrap [simp]: "wrap_int32 (to_int32 x) = to_int32 x"
  by (simp add: wrap_int32_def to_int32_def)

lemma semop_pass_inv:
  assumes "sem_inv st"
  shows "sem_inv (snd (semop_pass pk semid ops st))"
proof -
  have wrapped: "wrap_int32 v = v"
    if "i < length (g_sems st)" "v \<in> set (semop_apply ops (ss_val (g_sems st ! i)))" for i v
    using that semop_apply_wrap sem_inv_vals [OF assms] by blast
  show ?thesis
    using assms semtab.get_sound [of "to_int32 semid" st] sem_inv_vals [OF assms]
    by (auto simp: semop_pass_def Let_def intro!: sem_inv_update wrapped split: option.splits)
qed

lemma sys_semctl_inv:
  assumes "sem_inv st"
  shows "sem_inv (snd (sys_semctl semid num cmd arg st))"
  using assms semtab.get_sound [of "to_int32 semid" st] sem_inv_vals [OF assms]
  by (auto simp: sys_semctl_def Let_def intro!: sem_inv_update split: option.splits
      dest!: set_update_subset_insert [THEN subsetD])

lemma sys_semget_inv:
  assumes inv: "sem_inv st" and room: "g_next_id st < INT32_MAX" "0 \<le> g_next_id st"
  shows "sem_inv (snd (sys_semget key nsems flags st))"
proof -
  have wrap: "wrap_int32 (g_next_id st + 1) = g_next_id st + 1"
    using room by (simp add: wrap_int32_id INT32_MAX_def)
  have fresh: "\<And>s. s \<in> set (g_sems st) \<Longrightarrow> ss_used s \<Longrightarrow> ss_id s < g_next_id st"
    using inv by (auto simp: sem_inv_def)
  have created: "sem_inv (st\<lparr>g_sems := (g_sems st)[slot := s], g_next_id := g_next_id st + 1\<rparr>)"
    if "s = sem_set_zero\<lparr>ss_used := True, ss_key := k, ss_id := g_next_id st,
          ss_nsems := to_int32 nsems\<rparr>"
      and "nsems \<le> of_nat SEM_NSEMS_MAX" and "nsems \<noteq> 0" for slot s k
  proof -
    have n: "0 < to_int32 nsems \<and> to_int32 nsems \<le> 32"
      using that by (auto simp: sem_consts to_int32_small word_le_def less_le
          unsigned_eq_0_iff)
    have "unique_live ss_used ss_id ((g_sems st)[slot := s])"
      using inv that(1) by (intro unique_live_store) (auto simp: sem_inv_def dest!: fresh [rotated])
    moreover have "\<forall>s' \<in> set ((g_sems st)[slot := s]). length (ss_val s') = SEM_NSEMS_MAX \<and>
        (\<forall>v \<in> set (ss_val s'). wrap_int32 v = v) \<and>
        (ss_used s' \<longrightarrow> 0 < ss_nsems s' \<and> ss_nsems s' \<le> int SEM_NSEMS_MAX \<and>
          ss_id s' < g_next_id st + 1)"
      using inv n that(1)
      by (force simp: sem_inv_def sem_consts sem_set_zero_def wrap_int32_id INT32_MAX_def
          dest!: set_update_subset_insert [THEN subsetD])
    ultimately show ?thesis using inv by (simp add: sem_inv_def)
  qed
  show ?thesis
    using inv wrap created by (auto simp: sys_semget_def Let_def not_less split: option.splits)
qed

section \<open>What a completed \<open>semop\<close> does\<close>

definition op_sum :: "sembuf list \<Rightarrow> nat \<Rightarrow> int" where
  "op_sum ops n = (\<Sum>b \<leftarrow> ops. if unat (sem_num b) = n then sint (sem_op b) else 0)"

lemma op_sum_simps [simp]:
  "op_sum [] n = 0"
  "op_sum (b # bs) n = (if unat (sem_num b) = n then sint (sem_op b) else 0) + op_sum bs n"
  by (simp_all add: op_sum_def)

lemma semop_apply_nth:
  assumes "n < length val" and "wrap_int32 (val ! n) = val ! n"
  shows "semop_apply ops val ! n = wrap_int32 (val ! n + op_sum ops n)"
  using assms
proof (induction ops val rule: semop_apply.induct)
  case (2 b bs val)
  show ?case
  proof (cases "unat (sem_num b) = n")
    case True
    have "semop_apply (b # bs) val ! n =
        wrap_int32 (wrap_int32 (val ! n + sint (sem_op b)) + op_sum bs n)"
      using "2.IH" "2.prems" True by simp
    then show ?thesis using True by (simp add: wrap_int32_wrap add.assoc)
  next
    case False
    then show ?thesis using "2.IH" "2.prems" by simp
  qed
qed simp

lemma semop_check_true:
  "semop_check s ops ok nw = Some (True, nw') \<Longrightarrow>
    ok \<and> (\<forall>b \<in> set ops. uint (sem_num b) < ss_nsems s \<and>
      (sint (sem_op b) < 0 \<longrightarrow> 0 \<le> ss_val s ! unat (sem_num b) + sint (sem_op b)) \<and>
      (sint (sem_op b) = 0 \<longrightarrow> ss_val s ! unat (sem_num b) = 0))"
  by (induction ops arbitrary: ok nw)
    (fastforce simp: Let_def split: if_splits)+

lemma semop_check_false:
  "semop_check s ops ok nw = Some (False, nw') \<Longrightarrow>
    \<not> ok \<or> (\<exists>b \<in> set ops. uint (sem_num b) < ss_nsems s \<and>
      (sint (sem_op b) < 0 \<and> ss_val s ! unat (sem_num b) + sint (sem_op b) < 0 \<or>
       sint (sem_op b) = 0 \<and> ss_val s ! unat (sem_num b) \<noteq> 0))"
  by (induction ops arbitrary: ok nw)
    (fastforce simp: Let_def split: if_splits)+

lemma op_sum_notin: "n \<notin> (\<lambda>b. unat (sem_num b)) ` set ops \<Longrightarrow> op_sum ops n = 0"
  by (induction ops) auto

lemma op_sum_distinct:
  assumes "distinct (map sem_num ops)" and "b \<in> set ops"
  shows "op_sum ops (unat (sem_num b)) = sint (sem_op b)"
  using assms
proof (induction ops)
  case (Cons c ops)
  have notin: "sem_num c \<notin> sem_num ` set ops" using Cons.prems by simp
  then have z: "op_sum ops (unat (sem_num c)) = 0"
    by (intro op_sum_notin) (auto simp: image_iff dest: unsigned_word_eqI)
  from Cons show ?case using z notin by (auto dest: unsigned_word_eqI)
qed simp

section \<open>Properties\<close>

text \<open>C40: A \<open>semop\<close> pass is all or nothing. When it returns 0, every semaphore of the set holds its
  old value plus the sum of the operations that name it (in 32-bit arithmetic) and no other set has
  changed; whatever else it returns, or when it goes to sleep, the table is untouched.\<close>

theorem semop_atomic:
  assumes inv: "sem_inv st" and run: "semop_pass pk semid ops st = (r, st')"
  shows "if r = Done (Inr 0)
    then \<exists>i v. set_by_id (to_int32 semid) st = Some i \<and>
           st' = st\<lparr>g_sems := (g_sems st)[i := (g_sems st ! i)\<lparr>ss_val := v\<rparr>]\<rparr> \<and> length v = 32 \<and>
           (\<forall>n < 32. v ! n = wrap_int32 (ss_val (g_sems st ! i) ! n + op_sum ops n))
    else st' = st"
proof -
  have nth: "semop_apply ops (ss_val (g_sems st ! i)) ! n =
      wrap_int32 (ss_val (g_sems st ! i) ! n + op_sum ops n)"
    if "set_by_id (to_int32 semid) st = Some i" and "n < 32" for i n
    using that semtab.get_sound [OF that(1)] sem_inv_vals [OF inv, of i]
    by (intro semop_apply_nth) auto
  show ?thesis
    using run nth semtab.get_sound [of "to_int32 semid" st] sem_inv_vals [OF inv]
    by (auto simp: semop_pass_def Let_def split: option.splits if_splits)
qed

text \<open>Every value of every live set is non-negative.\<close>

definition sem_nonneg :: "sem_state \<Rightarrow> bool" where
  "sem_nonneg st \<longleftrightarrow> (\<forall>s \<in> set (g_sems st). ss_used s \<longrightarrow> (\<forall>v \<in> set (ss_val s). 0 \<le> v))"

lemma semop_apply_nonneg:
  assumes chk: "semop_check s ops True False = Some (True, nw)"
    and dist: "distinct (map sem_num ops)" and len: "length (ss_val s) = 32"
    and vals: "\<forall>v \<in> set (ss_val s). 0 \<le> v \<and> v + 32767 \<le> INT32_MAX"
  shows "\<forall>v \<in> set (semop_apply ops (ss_val s)). 0 \<le> v"
proof -
  have "0 \<le> semop_apply ops (ss_val s) ! n" if n: "n < 32" for n
  proof -
    have v: "0 \<le> ss_val s ! n" "ss_val s ! n + 32767 \<le> INT32_MAX" using vals len n by auto
    have w: "wrap_int32 (ss_val s ! n) = ss_val s ! n"
      using v by (simp add: wrap_int32_id INT32_MAX_def)
    have sum: "0 \<le> ss_val s ! n + op_sum ops n \<and> op_sum ops n \<le> 32767"
    proof (cases "\<exists>b \<in> set ops. unat (sem_num b) = n")
      case True
      then obtain b where b: "b \<in> set ops" "unat (sem_num b) = n" by blast
      have "sint (sem_op b) \<le> 32767" using sint_range_size [of "sem_op b"] by (simp add: word_size)
      with b v semop_check_true [OF chk] op_sum_distinct [OF dist b(1)] show ?thesis by force
    next
      case False
      then have "op_sum ops n = 0" by (intro op_sum_notin) auto
      with v show ?thesis by simp
    qed
    have "wrap_int32 (ss_val s ! n + op_sum ops n) = ss_val s ! n + op_sum ops n"
      using sum v by (intro wrap_int32_id) linarith+
    with sum semop_apply_nth [of n "ss_val s" ops] n len w show ?thesis by simp
  qed
  then show ?thesis using len by (auto simp: in_set_conv_nth)
qed

text \<open>A \<open>semop\<close> pass whose operations name pairwise different semaphores never makes a value
  negative, as long as the stored values leave room for one more signed 16-bit addition.\<close>

theorem semop_keeps_nonneg:
  assumes inv: "sem_inv st" and nn: "sem_nonneg st" and dist: "distinct (map sem_num ops)"
    and room: "\<forall>s \<in> set (g_sems st). \<forall>v \<in> set (ss_val s). v + 32767 \<le> INT32_MAX"
  shows "sem_nonneg (snd (semop_pass pk semid ops st))"
proof (cases "fst (semop_pass pk semid ops st) = Done (Inr 0)")
  case True
  then obtain i nw where i: "set_by_id (to_int32 semid) st = Some i"
    and chk: "semop_check (g_sems st ! i) ops True False = Some (True, nw)"
    by (auto simp: semop_pass_def Let_def split: option.splits if_splits)
  from semtab.get_sound [OF i] have il: "i < length (g_sems st)" "ss_used (g_sems st ! i)" by auto
  have "\<forall>v \<in> set (semop_apply ops (ss_val (g_sems st ! i))). 0 \<le> v"
    using il nn room sem_inv_vals [OF inv il(1)] dist
    by (intro semop_apply_nonneg [OF chk]) (auto simp: sem_nonneg_def)
  then show ?thesis using nn i chk
    by (auto simp: semop_pass_def sem_nonneg_def Let_def
        dest!: set_update_subset_insert [THEN subsetD])
next
  case False
  then have "snd (semop_pass pk semid ops st) = st"
    by (auto simp: semop_pass_def Let_def split: option.splits if_splits)
  with nn show ?thesis by simp
qed

definition dec_op :: sembuf where
  "dec_op = \<lparr>sem_num = 0, sem_op = - 1, sem_flg = 0\<rparr>"

definition sem_demo :: sem_state where
  "sem_demo = snd (sys_semctl 1 0 SETVAL 1 (snd (sys_semget 0 2 0 sem_init)))"

lemma sem_init_inv: "sem_inv sem_init"
  by (auto simp: sem_inv_def sem_init_def sem_set_zero_def unique_live_def wrap_int32_def)

lemma sem_demo_inv: "sem_inv sem_demo"
  unfolding sem_demo_def
  by (intro sys_semctl_inv sys_semget_inv sem_init_inv) (simp_all add: sem_init_def INT32_MAX_def)

lemma sem_demo_eval:
  "sem_demo = \<lparr>g_sems = \<lparr>ss_used = True, ss_key = 0, ss_id = 1, ss_nsems = 2,
     ss_val = 1 # replicate 31 0, ss_marked = 0\<rparr> # replicate 31 sem_set_zero, g_next_id = 2\<rparr>"
  by code_simp

lemma sem_demo_nonneg: "sem_nonneg sem_demo"
  by (auto simp: sem_nonneg_def sem_demo_eval sem_set_zero_def)

text \<open>Two decrements of one semaphore in a single call are both checked against the value
  before the call, so a semaphore at 1 passes both checks and is left at -1.\<close>

theorem semop_repeated_goes_negative:
  "\<exists>st ops. sem_inv st \<and> sem_nonneg st \<and> fst (semop_pass False 1 ops st) = Done (Inr 0) \<and>
     ss_val (g_sems (snd (semop_pass False 1 ops st)) ! 0) ! 0 = - 1"
proof (intro exI [of _ sem_demo] exI [of _ "[dec_op, dec_op]"] conjI sem_demo_inv sem_demo_nonneg)
  show "fst (semop_pass False 1 [dec_op, dec_op] sem_demo) = Done (Inr 0)" by code_simp
  show "ss_val (g_sems (snd (semop_pass False 1 [dec_op, dec_op] sem_demo)) ! 0) ! 0 = - 1"
    by code_simp
qed

theorem semop_atomic_witness:
  "sem_inv sem_demo \<and> semop_pass False 1 [dec_op] sem_demo =
     (Done (Inr 0), snd (semop_pass False 1 [dec_op] sem_demo)) \<and>
   (\<exists>i v. set_by_id (to_int32 1) sem_demo = Some i \<and>
      snd (semop_pass False 1 [dec_op] sem_demo) =
        sem_demo\<lparr>g_sems := (g_sems sem_demo)[i := (g_sems sem_demo ! i)\<lparr>ss_val := v\<rparr>]\<rparr> \<and>
      length v = 32 \<and>
      (\<forall>n < 32. v ! n = wrap_int32 (ss_val (g_sems sem_demo ! i) ! n + op_sum [dec_op] n)))"
proof -
  have run: "semop_pass False 1 [dec_op] sem_demo =
      (Done (Inr 0), snd (semop_pass False 1 [dec_op] sem_demo))" by code_simp
  from semop_atomic [OF sem_demo_inv run] run sem_demo_inv show ?thesis by simp
qed

theorem semop_keeps_nonneg_witness:
  "distinct (map sem_num [dec_op]) \<and> sem_nonneg (snd (semop_pass False 1 [dec_op] sem_demo))"
proof -
  have "\<forall>s \<in> set (g_sems sem_demo). \<forall>v \<in> set (ss_val s). v + 32767 \<le> INT32_MAX"
    by (auto simp: sem_demo_eval sem_set_zero_def INT32_MAX_def)
  with semop_keeps_nonneg [OF sem_demo_inv sem_demo_nonneg, of "[dec_op]" False 1]
  show ?thesis by simp
qed

text \<open>\<open>semget\<close> with a non-zero key is idempotent: once it has returned an identifier, asking
  again for that key returns the same identifier and changes nothing.\<close>

theorem semget_again:
  assumes key: "key \<noteq> 0" and n': "n' \<le> of_nat SEM_NSEMS_MAX"
    and run: "sys_semget key n flags st = (Inr i, st')"
  shows "sys_semget key n' flags' st' = (Inr i, st')"
proof (cases "find_slot (\<lambda>s. ss_used s \<and> ss_key s = to_int32 key) (g_sems st)")
  case (Some j)
  with key n' run show ?thesis by (auto simp: sys_semget_def not_less split: if_splits)
next
  case None
  define s where "s = sem_set_zero\<lparr>ss_used := True, ss_key := to_int32 key,
    ss_id := g_next_id st, ss_nsems := to_int32 n\<rparr>"
  from None key run obtain slot where
    slot: "find_slot (\<lambda>s. \<not> ss_used s) (g_sems st) = Some slot"
    and i: "ss_id s = i" and st': "g_sems st' = (g_sems st)[slot := s]"
    by (auto simp: sys_semget_def Let_def s_def split: if_splits option.splits)
  have s: "ss_used s" "ss_key s = to_int32 key" by (simp_all add: s_def)
  have "find_slot (\<lambda>s. ss_used s \<and> ss_key s = to_int32 key) (g_sems st') = Some slot"
    unfolding st' using find_slot_update [OF None find_slot_lt [OF slot], of s] s by simp
  with key n' i st' find_slot_lt [OF slot] show ?thesis by (simp add: sys_semget_def not_less)
qed

theorem semget_again_witness:
  "sys_semget 7 1 0 (snd (sys_semget 7 2 SEM_IPC_CREAT sem_init)) =
     (Inr 1, snd (sys_semget 7 2 SEM_IPC_CREAT sem_init))"
proof -
  have "sys_semget 7 2 SEM_IPC_CREAT sem_init = (Inr 1, snd (sys_semget 7 2 SEM_IPC_CREAT sem_init))"
    by code_simp
  from semget_again [OF _ _ this, of 1] show ?thesis by (simp add: SEM_NSEMS_MAX_def)
qed

text \<open>\<open>semctl\<close> range-checks the low 32 bits of the semaphore number and then indexes with all 64:
  it leaves the array exactly when the command is \<open>GETVAL\<close> or \<open>SETVAL\<close>, the identifier is live, the
  truncated number is in range and the full number is not.\<close>

theorem semctl_fault_iff:
  "fst (sys_semctl semid num cmd arg st) = Fault \<longleftrightarrow>
    (\<exists>i. set_by_id (to_int32 semid) st = Some i \<and> (cmd = GETVAL \<or> cmd = SETVAL) \<and>
       0 \<le> to_int32 num \<and> to_int32 num < ss_nsems (g_sems st ! i) \<and> 32 \<le> unat num)"
  by (auto simp: sys_semctl_def Let_def GETVAL_def SETVAL_def SEM_IPC_RMID_def SEM_NSEMS_MAX_def
      split: option.splits)

end
