(* ===== verification/Pmm.thy ===== *)
theory Pmm
  imports Cervus_Prelude "HOL-Library.Multiset"
begin

text \<open>
  The physical memory manager, \<open>kernel/src/memory/pmm.c\<close>: a binary buddy allocator over the memory
  map handed over by the boot loader. A free list is the list of its blocks in link order (the
  sentinel \<open>head\<close> closes the ring); a block is named by its address in the direct map (HHDM). The
  memory itself is kept as 64-bit cells, for the code that clears pages and builds page tables in
  them; the links of a free block, which the C code keeps in the first cells of the block, are in the
  list and not in the cells. A loop that never ends is the value \<open>None\<close>.
\<close>

section \<open>State\<close>

definition PAGE_SIZE :: u64 where "PAGE_SIZE = 4096"
definition PAGE_SHIFT :: nat where "PAGE_SHIFT = 12"
definition PMM_MAX_ORDER :: nat where "PMM_MAX_ORDER = 13"
definition PMM_FREE_MIN_PHYS :: u64 where "PMM_FREE_MIN_PHYS = 0x100000"

record pmm_block =
  blk_addr :: u64
  blk_order :: nat

record pmm_free_list =
  fl_blocks :: "pmm_block list"
  fl_count :: u64

record pmm_state =
  hhdm_offset :: u64
  mem_start :: u64
  mem_end :: u64
  total_pages :: u64
  usable_pages :: u64
  free_pages :: u64
  orders :: "pmm_free_list list"
  alloc_count :: u64
  free_count :: u64
  kmem :: "u64 \<Rightarrow> u64"

datatype boot_mem_type =
    BOOT_MEM_USABLE | BOOT_MEM_RESERVED | BOOT_MEM_ACPI_RECLAIMABLE | BOOT_MEM_ACPI_NVS
  | BOOT_MEM_BAD | BOOT_MEM_BOOTLOADER_RECLAIMABLE | BOOT_MEM_KERNEL | BOOT_MEM_FRAMEBUFFER

record boot_mmap_entry =
  me_base :: u64
  me_length :: u64
  me_type :: boot_mem_type

text \<open>\<open>memset(p, 0, n)\<close> for a cell-aligned pointer and a whole number of cells.\<close>

definition mem_zero :: "u64 \<Rightarrow> u64 \<Rightarrow> (u64 \<Rightarrow> u64) \<Rightarrow> u64 \<Rightarrow> u64" where
  "mem_zero p n m = (\<lambda>a. if a - p < n then 0 else m a)"

section \<open>Helpers\<close>

definition align_up :: "u64 \<Rightarrow> u64 \<Rightarrow> u64" where
  "align_up v a = (v + a - 1) AND NOT (a - 1)"

text \<open>
  The loop \<open>while (cap < limit) { cap <<= 1; order++; }\<close>. The capacity reaches zero after 64
  doublings and stays there, so a run that has not stopped within 65 tests never stops.
\<close>

fun dbl_loop :: "nat \<Rightarrow> u64 \<Rightarrow> nat \<Rightarrow> u64 \<Rightarrow> (u64 \<times> nat) option" where
  "dbl_loop 0 cap order limit = None"
| "dbl_loop (Suc n) cap order limit =
    (if cap < limit then dbl_loop n (push_bit 1 cap) (Suc order) limit else Some (cap, order))"

text \<open>\<open>None\<close>: does not return; \<open>Some None\<close>: returns -1.\<close>

definition pages_to_order :: "u64 \<Rightarrow> nat option option" where
  "pages_to_order pages =
    map_option (\<lambda>(cap, order). if order > PMM_MAX_ORDER then None else Some order)
      (dbl_loop 65 1 0 pages)"

definition blk_phys :: "pmm_state \<Rightarrow> pmm_block \<Rightarrow> u64" where
  "blk_phys st b = blk_addr b - hhdm_offset st"

definition phys_to_block :: "pmm_state \<Rightarrow> u64 \<Rightarrow> u64" where
  "phys_to_block st phys = phys + hhdm_offset st"

section \<open>Free lists\<close>

definition fl_empty :: pmm_free_list where
  "fl_empty = \<lparr>fl_blocks = [], fl_count = 0\<rparr>"

definition fl_push :: "nat \<Rightarrow> u64 \<Rightarrow> pmm_state \<Rightarrow> pmm_state" where
  "fl_push order addr st =
    (let fl = orders st ! order;
         b = \<lparr>blk_addr = addr, blk_order = order\<rparr>
     in st\<lparr>orders := (orders st)[order := \<lparr>fl_blocks = b # fl_blocks fl, fl_count = fl_count fl + 1\<rparr>]\<rparr>)"

definition fl_del :: "nat \<Rightarrow> pmm_block \<Rightarrow> pmm_state \<Rightarrow> pmm_state" where
  "fl_del order b st =
    (let fl = orders st ! order
     in st\<lparr>orders := (orders st)[order := \<lparr>fl_blocks = remove1 b (fl_blocks fl), fl_count = fl_count fl - 1\<rparr>]\<rparr>)"

text \<open>A link is the sentinel (\<open>None\<close>) or the address of a block.\<close>

definition block_ptr_valid :: "pmm_state \<Rightarrow> u64 option \<Rightarrow> bool" where
  "block_ptr_valid st p = (case p of None \<Rightarrow> True | Some a \<Rightarrow>
     if a < hhdm_offset st then False
     else let phys = a - hhdm_offset st in
       if phys < mem_start st \<or> phys \<ge> mem_end st then False
       else if phys AND 0xFFF \<noteq> 0 then False
       else True)"

fun link_of :: "pmm_block list \<Rightarrow> u64 option" where
  "link_of [] = None"
| "link_of (b # bs) = Some (blk_addr b)"

text \<open>The walk of \<open>_fl_find\<close>, with its bound on the number of steps.\<close>

fun fl_walk :: "pmm_state \<Rightarrow> nat \<Rightarrow> u64 \<Rightarrow> pmm_block list \<Rightarrow> pmm_block option" where
  "fl_walk st limit phys [] = None"
| "fl_walk st limit phys (b # bs) =
    (if \<not> block_ptr_valid st (Some (blk_addr b)) then None
     else if blk_phys st b = phys then Some b
     else if \<not> block_ptr_valid st (link_of bs) then None
     else if limit = 0 then None
     else fl_walk st (limit - 1) phys bs)"

definition fl_find :: "pmm_state \<Rightarrow> nat \<Rightarrow> u64 \<Rightarrow> pmm_block option" where
  "fl_find st order phys =
    fl_walk st (unat (total_pages st + 16)) phys (fl_blocks (orders st ! order))"

section \<open>Buddy operations\<close>

text \<open>The halves given back while a block of order \<open>found\<close> is cut down to \<open>order\<close>.\<close>

fun split_down :: "nat \<Rightarrow> nat \<Rightarrow> u64 \<Rightarrow> pmm_state \<Rightarrow> pmm_state" where
  "split_down 0 order phys st = st"
| "split_down (Suc f) order phys st =
    (if Suc f > order
     then split_down f order phys (fl_push f (phys_to_block st (phys + push_bit f PAGE_SIZE)) st)
     else st)"

definition buddy_alloc_order :: "nat \<Rightarrow> pmm_state \<Rightarrow> u64 \<times> pmm_state" where
  "buddy_alloc_order order st =
    (case find (\<lambda>o'. fl_blocks (orders st ! o') \<noteq> []) [order ..< Suc PMM_MAX_ORDER] of
       None \<Rightarrow> (0, st)
     | Some found \<Rightarrow>
         let b = hd (fl_blocks (orders st ! found)) in
         if \<not> block_ptr_valid st (link_of (tl (fl_blocks (orders st ! found))))
         then (0, st\<lparr>orders := (orders st)[found := fl_empty]\<rparr>)
         else
           let st1 = fl_del found b st;
               phys = blk_phys st b;
               st2 = split_down found order phys st1
           in (phys, st2\<lparr>free_pages := free_pages st2 - push_bit order 1\<rparr>))"

text \<open>The coalescing loop: the block it ends with, its order, and the lists without the buddies.\<close>

function coalesce :: "u64 \<Rightarrow> nat \<Rightarrow> pmm_state \<Rightarrow> u64 \<times> nat \<times> pmm_state" where
  "coalesce phys order st =
    (if order < PMM_MAX_ORDER then
       let buddy_phys = phys XOR push_bit order PAGE_SIZE in
       if buddy_phys < PMM_FREE_MIN_PHYS then (phys, order, st)
       else if buddy_phys < mem_start st \<or> buddy_phys \<ge> mem_end st then (phys, order, st)
       else case fl_find st order buddy_phys of
         None \<Rightarrow> (phys, order, st)
       | Some buddy_b \<Rightarrow>
           if blk_order buddy_b \<noteq> order then (phys, order, st)
           else coalesce (if buddy_phys < phys then buddy_phys else phys) (Suc order)
                  (fl_del order buddy_b st)
     else (phys, order, st))"
  by pat_completeness auto
termination
  by (relation "measure (\<lambda>(_, order, _). PMM_MAX_ORDER - order)") auto

declare coalesce.simps [simp del]

definition add_free_pages :: "u64 \<Rightarrow> pmm_state \<Rightarrow> pmm_state" where
  "add_free_pages n st =
    (let fp = free_pages st + n
     in st\<lparr>free_pages := if fp > usable_pages st then usable_pages st else fp\<rparr>)"

definition buddy_free_order :: "u64 \<Rightarrow> nat \<Rightarrow> pmm_state \<Rightarrow> pmm_state" where
  "buddy_free_order phys order st =
    (if phys < PMM_FREE_MIN_PHYS then st
     else
       let (phys', order', st1) = coalesce phys order st
       in add_free_pages (push_bit order' 1) (fl_push order' (phys_to_block st1 phys') st1))"

definition buddy_free_nocoalesce :: "u64 \<Rightarrow> pmm_state \<Rightarrow> pmm_state" where
  "buddy_free_nocoalesce phys st = add_free_pages 1 (fl_push 0 (phys_to_block st phys) st)"

section \<open>Initialisation\<close>

definition scan_entry :: "boot_mmap_entry \<Rightarrow> u64 \<times> u64 \<Rightarrow> u64 \<times> u64" where
  "scan_entry e acc =
    (let (max_phys, usable) = acc in
     if me_type e = BOOT_MEM_USABLE then
       let end = me_base e + me_length e
       in (if end > max_phys then end else max_phys, usable + me_length e div PAGE_SIZE)
     else (max_phys, usable))"

text \<open>\<open>while (order > 0)\<close>: the largest order the rest of the region can start with.\<close>

fun fit_order :: "nat \<Rightarrow> u64 \<Rightarrow> u64 \<Rightarrow> nat" where
  "fit_order 0 base rem = 0"
| "fit_order (Suc n) base rem =
    (let bpages = push_bit (Suc n) 1 in
     if base AND (bpages * PAGE_SIZE - 1) = 0 \<and> rem \<ge> bpages then Suc n
     else fit_order n base rem)"

text \<open>
  \<open>while (base < end)\<close>. Every round takes at least one page, so the number of pages of the region
  bounds the number of rounds.
\<close>

fun add_region :: "nat \<Rightarrow> u64 \<Rightarrow> u64 \<Rightarrow> pmm_state \<Rightarrow> pmm_state" where
  "add_region 0 base end st = st"
| "add_region (Suc n) base end st =
    (if base < end then
       let rem = drop_bit PAGE_SHIFT (end - base);
           order = fit_order PMM_MAX_ORDER base rem;
           st1 = fl_push order (phys_to_block st base) st;
           st2 = st1\<lparr>free_pages := free_pages st1 + push_bit order 1\<rparr>
       in add_region n (base + push_bit order PAGE_SIZE) end st2
     else st)"

definition add_entry :: "boot_mmap_entry \<Rightarrow> pmm_state \<Rightarrow> pmm_state" where
  "add_entry e st =
    (if me_type e \<noteq> BOOT_MEM_USABLE then st
     else
       let base = align_up (me_base e) PAGE_SIZE;
           end = (me_base e + me_length e) AND NOT (PAGE_SIZE - 1);
           base' = (if base < PMM_FREE_MIN_PHYS then PMM_FREE_MIN_PHYS else base)
       in if base < PMM_FREE_MIN_PHYS \<and> base' \<ge> end then st
          else add_region (unat (drop_bit PAGE_SHIFT (end - base'))) base' end st)"

definition pmm_init :: "u64 \<Rightarrow> boot_mmap_entry list \<Rightarrow> pmm_state \<Rightarrow> pmm_state" where
  "pmm_init hhdm mmap st =
    (let (max_phys, usable) = fold scan_entry mmap (0, 0);
         max_phys' = align_up max_phys PAGE_SIZE;
         st1 = st\<lparr>hhdm_offset := hhdm, free_pages := 0, mem_start := 0, mem_end := max_phys',
                  total_pages := drop_bit PAGE_SHIFT max_phys', usable_pages := usable,
                  orders := replicate (Suc PMM_MAX_ORDER) fl_empty\<rparr>
     in fold add_entry mmap st1)"

section \<open>Interface\<close>

text \<open>\<open>NULL\<close> is 0; \<open>None\<close> is a call that does not return.\<close>

definition pmm_alloc :: "u64 \<Rightarrow> pmm_state \<Rightarrow> (u64 \<times> pmm_state) option" where
  "pmm_alloc pages st =
    (if pages = 0 then Some (0, st)
     else case pages_to_order pages of
       None \<Rightarrow> None
     | Some None \<Rightarrow> Some (0, st)
     | Some (Some order) \<Rightarrow>
         let (phys, st1) = buddy_alloc_order order st in
         if phys \<noteq> 0 \<and> \<not> phys < PMM_FREE_MIN_PHYS
         then Some (phys + hhdm_offset st1, st1\<lparr>alloc_count := alloc_count st1 + push_bit order 1\<rparr>)
         else Some (0, st1))"

definition pmm_alloc_zero :: "u64 \<Rightarrow> pmm_state \<Rightarrow> (u64 \<times> pmm_state) option" where
  "pmm_alloc_zero pages st =
    (if pages = 0 then Some (0, st)
     else case pages_to_order pages of
       None \<Rightarrow> None
     | Some None \<Rightarrow> Some (0, st)
     | Some (Some order) \<Rightarrow>
         map_option
           (\<lambda>(p, st1). if p = 0 then (p, st1)
                      else (p, st1\<lparr>kmem := mem_zero p (pages * PAGE_SIZE) (kmem st1)\<rparr>))
           (pmm_alloc pages st))"

text \<open>The alignment rounded up to a page and then to a power of two.\<close>

definition round_alignment :: "u64 \<Rightarrow> u64 option" where
  "round_alignment alignment =
    (let a = (if alignment < PAGE_SIZE then PAGE_SIZE else alignment) in
     if a AND (a - 1) \<noteq> 0 then map_option fst (dbl_loop 65 1 0 a) else Some a)"

definition pmm_alloc_aligned :: "u64 \<Rightarrow> u64 \<Rightarrow> pmm_state \<Rightarrow> (u64 \<times> pmm_state) option" where
  "pmm_alloc_aligned pages alignment st =
    (if pages = 0 then Some (0, st)
     else case round_alignment alignment of
       None \<Rightarrow> None
     | Some al \<Rightarrow>
         let align_pages = al div PAGE_SIZE;
             req = (if pages > align_pages then pages else align_pages)
         in case pages_to_order req of
              None \<Rightarrow> None
            | Some None \<Rightarrow> Some (0, st)
            | Some (Some order) \<Rightarrow>
                let (phys, st1) = buddy_alloc_order order st in
                if phys = 0 then Some (0, st1)
                else if phys AND (al - 1) \<noteq> 0 then Some (0, buddy_free_order phys order st1)
                else Some (phys + hhdm_offset st1, st1))"

text \<open>The first block of an order, in list order, that lies below the limit.\<close>

definition below_candidate :: "u64 \<Rightarrow> u64 \<Rightarrow> pmm_state \<Rightarrow> pmm_block \<Rightarrow> bool" where
  "below_candidate span max_phys st b \<longleftrightarrow>
    \<not> blk_phys st b < PMM_FREE_MIN_PHYS \<and> \<not> blk_phys st b + span > max_phys"

fun below_search :: "u64 \<Rightarrow> u64 \<Rightarrow> pmm_state \<Rightarrow> nat list \<Rightarrow> (nat \<times> pmm_block) option" where
  "below_search span max_phys st [] = None"
| "below_search span max_phys st (o' # os) =
    (case find (below_candidate span max_phys st) (fl_blocks (orders st ! o')) of
       Some b \<Rightarrow> Some (o', b)
     | None \<Rightarrow> below_search span max_phys st os)"

definition pmm_alloc_below :: "u64 \<Rightarrow> u64 \<Rightarrow> pmm_state \<Rightarrow> (u64 \<times> pmm_state) option" where
  "pmm_alloc_below pages max_phys st =
    (if pages = 0 then Some (0, st)
     else case pages_to_order pages of
       None \<Rightarrow> None
     | Some None \<Rightarrow> Some (0, st)
     | Some (Some order) \<Rightarrow>
         (case below_search (push_bit order PAGE_SIZE) max_phys st [order ..< Suc PMM_MAX_ORDER] of
            None \<Rightarrow> Some (0, st)
          | Some (found, b) \<Rightarrow>
              let bp = blk_phys st b;
                  st1 = split_down found order bp (fl_del found b st);
                  st2 = st1\<lparr>free_pages := free_pages st1 - push_bit order 1\<rparr>
              in Some (bp + hhdm_offset st2, st2)))"

definition pmm_free :: "u64 \<Rightarrow> u64 \<Rightarrow> pmm_state \<Rightarrow> pmm_state option" where
  "pmm_free addr pages st =
    (if addr = 0 \<or> pages = 0 then Some st
     else
       let phys = addr - hhdm_offset st in
       if phys < mem_start st \<or> phys \<ge> mem_end st then Some st
       else if phys < 0x100000 then Some st
       else case pages_to_order pages of
         None \<Rightarrow> None
       | Some None \<Rightarrow> Some st
       | Some (Some order) \<Rightarrow>
           if fl_find st order phys \<noteq> None then Some st
           else
             let st1 = st\<lparr>kmem := mem_zero addr 64 (kmem st)\<rparr>;
                 st2 = buddy_free_order phys order st1
             in Some (st2\<lparr>free_count := free_count st2 + push_bit order 1\<rparr>))"

definition pmm_free_single :: "u64 \<Rightarrow> pmm_state \<Rightarrow> pmm_state" where
  "pmm_free_single addr st =
    (if addr = 0 then st
     else
       let phys = addr - hhdm_offset st in
       if phys < mem_start st \<or> phys \<ge> mem_end st then st
       else buddy_free_nocoalesce phys st)"

definition pmm_phys_to_virt :: "u64 \<Rightarrow> pmm_state \<Rightarrow> u64" where
  "pmm_phys_to_virt phys st = phys + hhdm_offset st"

definition pmm_virt_to_phys :: "u64 \<Rightarrow> pmm_state \<Rightarrow> u64" where
  "pmm_virt_to_phys vaddr st = vaddr - hhdm_offset st"

definition pmm_get_free_pages :: "pmm_state \<Rightarrow> u64" where
  "pmm_get_free_pages st =
    (let fp = free_pages st in if fp > usable_pages st then usable_pages st else fp)"

definition pmm_get_used_pages :: "pmm_state \<Rightarrow> u64" where
  "pmm_get_used_pages st =
    (let a = alloc_count st; f = free_count st in
     if a \<le> f then 0
     else let u = a - f in if u > usable_pages st then usable_pages st else u)"

section \<open>Abstraction: the multiset of free frames\<close>

text \<open>Frame numbers of a block of order \<open>order\<close> at physical address \<open>phys\<close>.\<close>

definition range_frames :: "u64 \<Rightarrow> nat \<Rightarrow> nat multiset" where
  "range_frames phys order = mset [unat phys div 4096 ..< unat phys div 4096 + 2 ^ order]"

definition list_frames :: "pmm_state \<Rightarrow> nat \<Rightarrow> nat multiset" where
  "list_frames st order =
    sum_list (map (\<lambda>b. range_frames (blk_phys st b) order) (fl_blocks (orders st ! order)))"

definition free_frames :: "pmm_state \<Rightarrow> nat multiset" where
  "free_frames st = (\<Sum>order \<in> {..PMM_MAX_ORDER}. list_frames st order)"

text \<open>A block of that order at that address is naturally aligned and inside the managed memory.\<close>

definition range_ok :: "pmm_state \<Rightarrow> u64 \<Rightarrow> nat \<Rightarrow> bool" where
  "range_ok st phys order \<longleftrightarrow> order \<le> PMM_MAX_ORDER \<and> 2 ^ (12 + order) dvd unat phys \<and>
     0x100000 \<le> unat phys \<and> unat phys + 2 ^ (12 + order) \<le> unat (mem_end st)"

definition blk_ok :: "pmm_state \<Rightarrow> nat \<Rightarrow> pmm_block \<Rightarrow> bool" where
  "blk_ok st order b \<longleftrightarrow> blk_order b = order \<and> hhdm_offset st \<le> blk_addr b \<and>
     range_ok st (blk_phys st b) order"

definition geom_ok :: "pmm_state \<Rightarrow> bool" where
  "geom_ok st \<longleftrightarrow> mem_start st = 0 \<and> 4096 dvd unat (mem_end st) \<and>
     unat (hhdm_offset st) + unat (mem_end st) < 2 ^ 64 \<and>
     total_pages st = drop_bit PAGE_SHIFT (mem_end st) \<and>
     length (orders st) = Suc PMM_MAX_ORDER"

definition blocks_ok :: "pmm_state \<Rightarrow> bool" where
  "blocks_ok st \<longleftrightarrow> geom_ok st \<and>
     (\<forall>order \<le> PMM_MAX_ORDER. fl_count (orders st ! order) = of_nat (length (fl_blocks (orders st ! order))) \<and>
        (\<forall>b \<in> set (fl_blocks (orders st ! order)). blk_ok st order b))"

definition frames_distinct :: "nat multiset \<Rightarrow> bool" where
  "frames_distinct M \<longleftrightarrow> (\<forall>f. count M f \<le> 1)"

definition pmm_inv :: "pmm_state \<Rightarrow> bool" where
  "pmm_inv st \<longleftrightarrow> blocks_ok st \<and> frames_distinct (free_frames st)"

text \<open>Two states with the same boundaries of the managed memory.\<close>

definition same_geom :: "pmm_state \<Rightarrow> pmm_state \<Rightarrow> bool" where
  "same_geom st st' \<longleftrightarrow> hhdm_offset st' = hhdm_offset st \<and> mem_start st' = mem_start st \<and>
     mem_end st' = mem_end st \<and> total_pages st' = total_pages st \<and> usable_pages st' = usable_pages st"

subsection \<open>Words\<close>

lemmas pmm_consts = PAGE_SIZE_def PAGE_SHIFT_def PMM_MAX_ORDER_def PMM_FREE_MIN_PHYS_def

lemma push_bit_page: "push_bit n PAGE_SIZE = 2 ^ (12 + n)"
  by (simp add: push_bit_eq_mult PAGE_SIZE_def power_add)

lemma unat_pow2: "n < 64 \<Longrightarrow> unat (2 ^ n :: u64) = 2 ^ n"
proof -
  assume "n < 64"
  then have "(2::nat) ^ n < 2 ^ LENGTH(64)" by (intro power_strict_increasing) simp_all
  then have "unat (of_nat (2 ^ n) :: u64) = 2 ^ n"
    by (simp only: unsigned_of_nat take_bit_nat_eq_self of_nat_id)
  then show ?thesis by simp
qed

lemma unat_add_lt: "unat (a::u64) + unat b < 2 ^ 64 \<Longrightarrow> unat (a + b) = unat a + unat b"
  by (simp add: unat_word_ariths)

lemma unat_sub_le: "b \<le> (a::u64) \<Longrightarrow> unat (a - b) = unat a - unat b"
  by (rule unat_sub)

lemma unat_lt64: "unat (a::u64) < 2 ^ 64"
  using unsigned_less [of a] by simp

lemma range_ok_lt: "range_ok st phys order \<Longrightarrow> unat phys + 2 ^ (12 + order) < 2 ^ 64"
  using unat_lt64 [of "mem_end st"] by (simp add: range_ok_def)

lemma range_ok_order: "range_ok st phys order \<Longrightarrow> order \<le> 13"
  by (simp add: range_ok_def PMM_MAX_ORDER_def)

lemma unat_half:
  assumes "range_ok st phys (Suc order)"
  shows "unat (phys + push_bit order PAGE_SIZE) = unat phys + 2 ^ (12 + order)"
proof -
  have "unat (push_bit order PAGE_SIZE) = 2 ^ (12 + order)"
    using range_ok_order [OF assms] by (simp only: push_bit_page) (rule unat_pow2, simp)
  moreover have "unat phys + 2 ^ (12 + order) < 2 ^ 64"
    by (rule le_less_trans [OF _ range_ok_lt [OF assms]]) simp
  ultimately show ?thesis by (simp add: unat_add_lt)
qed

lemma pow13: "(2::nat) ^ (13 + order) = 2 * 2 ^ (12 + order)"
  by (simp add: power_add)

lemma unset_bit_nat_sub: "bit (p::nat) n \<Longrightarrow> unset_bit n p = p - 2 ^ n"
proof -
  assume "bit p n"
  then have "p = set_bit n (unset_bit n p)" by (intro bit_eqI) (auto simp: bit_simps)
  also have "\<dots> = unset_bit n p + 2 ^ n" by (simp add: set_bit_eq bit_simps)
  finally show ?thesis by simp
qed

text \<open>The buddy of an aligned block: the other half of the block of the next order.\<close>

lemma unat_buddy:
  assumes "2 ^ (12 + order) dvd unat (phys::u64)" and "order \<le> 13"
  shows "unat (phys XOR push_bit order PAGE_SIZE) =
    (if 2 ^ (13 + order) dvd unat phys then unat phys + 2 ^ (12 + order)
     else unat phys - 2 ^ (12 + order))"
proof -
  let ?n = "12 + order" and ?p = "unat phys"
  have "push_bit order PAGE_SIZE = (push_bit ?n 1 :: u64)"
    by (simp only: push_bit_page) (simp add: push_bit_eq_mult)
  then have x: "phys XOR push_bit order PAGE_SIZE = flip_bit ?n phys"
    by (simp add: flip_bit_eq_xor)
  have "unat (flip_bit ?n phys) = flip_bit ?n ?p"
    using assms(2) unat_pow2 [of ?n]
    by (simp add: flip_bit_eq_xor unsigned_xor_eq push_bit_eq_mult)
  also have "\<dots> = (if bit ?p ?n then ?p - 2 ^ ?n else ?p + 2 ^ ?n)"
    by (simp add: flip_bit_eq_if set_bit_eq unset_bit_nat_sub)
  also have "bit ?p ?n \<longleftrightarrow> \<not> 2 ^ (13 + order) dvd ?p"
  proof -
    from assms(1) obtain k where k: "?p = 2 ^ ?n * k" by blast
    have "2 ^ (13 + order) dvd ?p \<longleftrightarrow> 2 ^ ?n * 2 dvd 2 ^ ?n * k" unfolding k pow13
      by (simp only: mult.commute)
    also have "\<dots> \<longleftrightarrow> even k" by simp
    finally show ?thesis using k by (simp add: bit_iff_odd)
  qed
  finally show ?thesis using x by simp
qed

subsection \<open>Lists and frames\<close>

lemma pow2_page: "(2::nat) ^ (12 + order) div 4096 = 2 ^ order"
  by (simp add: power_add)

lemma frames_split:
  assumes "4096 dvd unat phys" and "unat phys' = unat phys + 2 ^ (12 + order)"
  shows "range_frames phys (Suc order) = range_frames phys order + range_frames phys' order"
proof -
  have p': "unat phys' div 4096 = unat phys div 4096 + 2 ^ order"
    using assms by (simp add: div_add power_add)
  have "[unat phys div 4096 ..< unat phys div 4096 + 2 ^ Suc order] =
      [unat phys div 4096 ..< unat phys div 4096 + 2 ^ order] @
      [unat phys' div 4096 ..< unat phys' div 4096 + 2 ^ order]"
    unfolding p' using upt_add_eq_append [of "unat phys div 4096" "unat phys div 4096 + 2 ^ order" "2 ^ order"]
    by (simp add: mult_2 add.assoc)
  then show ?thesis by (simp only: range_frames_def mset_append)
qed

lemma range_ok_page: "range_ok st phys order \<Longrightarrow> 4096 dvd unat phys"
  using dvd_trans [of "4096::nat" "2 ^ (12 + order)" "unat phys"] by (simp add: range_ok_def power_add)

lemma range_ok_split:
  assumes "range_ok st phys (Suc order)"
  shows "range_ok st phys order" and "range_ok st (phys + push_bit order PAGE_SIZE) order"
    and "range_frames phys (Suc order) =
      range_frames phys order + range_frames (phys + push_bit order PAGE_SIZE) order"
proof -
  have d: "(2::nat) ^ (12 + order) dvd unat phys"
    using assms dvd_trans [of "(2::nat) ^ (12 + order)" "2 ^ (12 + Suc order)"]
    by (simp add: range_ok_def le_imp_power_dvd)
  have le: "unat phys + 2 * 2 ^ (12 + order) \<le> unat (mem_end st)"
    using assms by (simp add: range_ok_def pow13)
  show "range_ok st phys order"
    using assms d le by (simp add: range_ok_def)
  show "range_ok st (phys + push_bit order PAGE_SIZE) order"
    using assms d le by (simp add: range_ok_def unat_half [OF assms])
  show "range_frames phys (Suc order) =
      range_frames phys order + range_frames (phys + push_bit order PAGE_SIZE) order"
    by (rule frames_split [OF range_ok_page [OF assms] unat_half [OF assms]])
qed

lemma range_ok_merge:
  assumes a: "range_ok st phys order" and b: "range_ok st buddy order"
    and buddy: "buddy = phys XOR push_bit order PAGE_SIZE" and order: "order < PMM_MAX_ORDER"
  shows "range_ok st (if buddy < phys then buddy else phys) (Suc order)" (is ?ok)
    and "range_frames (if buddy < phys then buddy else phys) (Suc order) =
      range_frames phys order + range_frames buddy order" (is ?fr)
proof -
  have al: "(2::nat) ^ (12 + order) dvd unat phys" "(2::nat) ^ (12 + order) dvd unat buddy"
    and o13: "order \<le> 13"
    using a b order by (simp_all add: range_ok_def PMM_MAX_ORDER_def)
  note ub = unat_buddy [OF al(1) o13, folded buddy]
  have "?ok \<and> ?fr"
  proof (cases "2 ^ (13 + order) dvd unat phys")
    case True
    then have u: "unat buddy = unat phys + 2 ^ (12 + order)" using ub by simp
    then have "\<not> buddy < phys" by (simp add: word_less_nat_alt)
    with True u a b order frames_split [OF range_ok_page [OF a] u] show ?thesis
      by (simp add: range_ok_def pow13)
  next
    case False
    then have ge: "2 ^ (12 + order) \<le> unat phys" using al(1) by (intro dvd_imp_le) (auto intro: gr0I)
    from False ub ge have u: "unat phys = unat buddy + 2 ^ (12 + order)" by simp
    then have lt: "buddy < phys" by (simp add: word_less_nat_alt)
    have "2 ^ (13 + order) dvd unat buddy"
    proof -
      from al(2) obtain k where k: "unat buddy = 2 ^ (12 + order) * k" by blast
      have phys: "unat phys = 2 ^ (12 + order) * (k + 1)" using u k by simp
      have "\<not> 2 ^ (12 + order) * 2 dvd 2 ^ (12 + order) * (k + 1)"
        using False unfolding phys pow13 by (simp only: mult.commute not_False_eq_True)
      then have "\<not> 2 dvd k + 1" using mult_dvd_mono [OF dvd_refl] by blast
      then have "even k" by simp
      then show ?thesis using k by (simp add: mult_dvd_mono power_add)
    qed
    with lt u a b order frames_split [OF range_ok_page [OF b] u] show ?thesis
      by (simp add: range_ok_def add.commute [of "range_frames phys order"] pow13)
  qed
  then show ?ok ?fr by blast+
qed

subsection \<open>Pushing and removing blocks\<close>

lemma fl_push_geom [simp]:
  "hhdm_offset (fl_push order a st) = hhdm_offset st" "mem_start (fl_push order a st) = mem_start st"
  "mem_end (fl_push order a st) = mem_end st" "total_pages (fl_push order a st) = total_pages st"
  "usable_pages (fl_push order a st) = usable_pages st" "free_pages (fl_push order a st) = free_pages st"
  "kmem (fl_push order a st) = kmem st"
  by (simp_all add: fl_push_def Let_def)

lemma fl_del_geom [simp]:
  "hhdm_offset (fl_del order b st) = hhdm_offset st" "mem_start (fl_del order b st) = mem_start st"
  "mem_end (fl_del order b st) = mem_end st" "total_pages (fl_del order b st) = total_pages st"
  "usable_pages (fl_del order b st) = usable_pages st" "free_pages (fl_del order b st) = free_pages st"
  "kmem (fl_del order b st) = kmem st"
  by (simp_all add: fl_del_def Let_def)

lemma same_geom_refl [simp]: "same_geom st st"
  by (simp add: same_geom_def)

lemma same_geom_trans: "same_geom a b \<Longrightarrow> same_geom b c \<Longrightarrow> same_geom a c"
  by (simp add: same_geom_def)

lemma same_geom_push [simp]: "same_geom st (fl_push order a st)"
  and same_geom_del [simp]: "same_geom st (fl_del order b st)"
  by (simp_all add: same_geom_def)

lemma range_ok_push [simp]: "range_ok (fl_push k a st) phys order = range_ok st phys order"
  and range_ok_del [simp]: "range_ok (fl_del k b st) phys order = range_ok st phys order"
  by (simp_all add: range_ok_def)

lemma same_geom_push_iff [simp]: "same_geom (fl_push k a st) st' = same_geom st st'"
  and same_geom_del_iff [simp]: "same_geom (fl_del k b st) st' = same_geom st st'"
  by (simp_all add: same_geom_def)

lemma same_geom_range_ok: "same_geom st st' \<Longrightarrow> range_ok st' phys order = range_ok st phys order"
  by (simp add: same_geom_def range_ok_def)

lemma same_geom_blk:
  "same_geom st st' \<Longrightarrow> blk_phys st' b = blk_phys st b"
  "same_geom st st' \<Longrightarrow> blk_ok st' order b = blk_ok st order b"
  by (simp_all add: same_geom_def blk_phys_def blk_ok_def range_ok_def)

lemma phys_to_block_phys [simp]: "blk_phys st \<lparr>blk_addr = phys_to_block st phys, blk_order = order\<rparr> = phys"
  by (simp add: blk_phys_def phys_to_block_def)

lemma free_frames_cong:
  assumes "same_geom st st'" and "\<And>order. order \<le> PMM_MAX_ORDER \<Longrightarrow>
      fl_blocks (orders st' ! order) = fl_blocks (orders st ! order)"
  shows "free_frames st' = free_frames st"
  unfolding free_frames_def using assms
  by (intro sum.cong) (simp_all add: list_frames_def same_geom_blk)

text \<open>Changing the list of one order changes the free frames by that list alone.\<close>

lemma free_frames_update:
  assumes "length (orders st) = Suc PMM_MAX_ORDER" and "order \<le> PMM_MAX_ORDER"
    and "same_geom st st'" and "orders st' = (orders st)[order := fl]"
  shows "free_frames st' + list_frames st order = free_frames st +
    sum_list (map (\<lambda>b. range_frames (blk_phys st b) order) (fl_blocks fl))"
proof -
  have "free_frames st' = list_frames st' order + (\<Sum>k \<in> {..PMM_MAX_ORDER} - {order}. list_frames st' k)"
    unfolding free_frames_def using assms(2) by (simp add: sum.remove)
  also have "(\<Sum>k \<in> {..PMM_MAX_ORDER} - {order}. list_frames st' k) =
      (\<Sum>k \<in> {..PMM_MAX_ORDER} - {order}. list_frames st k)"
    using assms by (intro sum.cong) (auto simp: list_frames_def same_geom_blk)
  finally have st': "free_frames st' = list_frames st' order +
      (\<Sum>k \<in> {..PMM_MAX_ORDER} - {order}. list_frames st k)" .
  have "free_frames st = list_frames st order + (\<Sum>k \<in> {..PMM_MAX_ORDER} - {order}. list_frames st k)"
    unfolding free_frames_def using assms(2) by (simp add: sum.remove)
  moreover have "list_frames st' order =
      sum_list (map (\<lambda>b. range_frames (blk_phys st b) order) (fl_blocks fl))"
    using assms by (simp add: list_frames_def same_geom_blk)
  ultimately show ?thesis using st' by (simp add: ac_simps)
qed

lemma free_frames_push:
  assumes "length (orders st) = Suc PMM_MAX_ORDER" and "order \<le> PMM_MAX_ORDER"
  shows "free_frames (fl_push order (phys_to_block st phys) st) = free_frames st + range_frames phys order"
proof -
  let ?st' = "fl_push order (phys_to_block st phys) st"
  have "free_frames ?st' + list_frames st order =
      free_frames st + (range_frames phys order + list_frames st order)"
    by (subst free_frames_update [OF assms, where fl = "orders ?st' ! order"])
      (use assms in \<open>simp_all add: fl_push_def Let_def list_frames_def same_geom_def\<close>)
  then show ?thesis by (simp add: ac_simps)
qed

lemma sum_list_remove1:
  fixes f :: "'b \<Rightarrow> 'a multiset"
  shows "x \<in> set xs \<Longrightarrow> sum_list (map f xs) = f x + sum_list (map f (remove1 x xs))"
  by (induction xs) (auto simp: ac_simps)

lemma free_frames_del:
  assumes "length (orders st) = Suc PMM_MAX_ORDER" and "order \<le> PMM_MAX_ORDER"
    and "b \<in> set (fl_blocks (orders st ! order))"
  shows "free_frames st = free_frames (fl_del order b st) + range_frames (blk_phys st b) order"
proof -
  let ?st' = "fl_del order b st"
  let ?L = "sum_list (map (\<lambda>b. range_frames (blk_phys st b) order)
    (remove1 b (fl_blocks (orders st ! order))))"
  have "free_frames ?st' + list_frames st order = free_frames st + ?L"
    by (subst free_frames_update [OF assms(1,2), where fl = "orders ?st' ! order"])
      (use assms in \<open>simp_all add: fl_del_def Let_def same_geom_def\<close>)
  moreover have "list_frames st order = range_frames (blk_phys st b) order + ?L"
    unfolding list_frames_def by (rule sum_list_remove1 [OF assms(3)])
  ultimately show ?thesis by (simp add: ac_simps)
qed

lemma blocks_ok_geom: "blocks_ok st \<Longrightarrow> geom_ok st"
  by (simp add: blocks_ok_def)

lemma geom_ok_len: "geom_ok st \<Longrightarrow> length (orders st) = Suc PMM_MAX_ORDER"
  by (simp add: geom_ok_def)

lemma blocks_ok_blk:
  "blocks_ok st \<Longrightarrow> order \<le> PMM_MAX_ORDER \<Longrightarrow> b \<in> set (fl_blocks (orders st ! order)) \<Longrightarrow> blk_ok st order b"
  by (simp add: blocks_ok_def)

lemma phys_to_block_ge:
  assumes "geom_ok st" and "range_ok st phys order"
  shows "hhdm_offset st \<le> phys_to_block st phys"
proof -
  have "unat phys + unat (hhdm_offset st) < 2 ^ 64"
    using assms by (simp add: geom_ok_def range_ok_def)
  then show ?thesis by (simp add: phys_to_block_def word_le_nat_alt unat_add_lt)
qed

lemma blocks_ok_update:
  assumes ok: "blocks_ok st" and order: "order \<le> PMM_MAX_ORDER" and geom: "same_geom st st'"
    and st': "orders st' = (orders st)[order := fl]"
    and fl: "fl_count fl = of_nat (length (fl_blocks fl))" "\<And>b. b \<in> set (fl_blocks fl) \<Longrightarrow> blk_ok st order b"
  shows "blocks_ok st'"
proof -
  have len: "length (orders st) = Suc PMM_MAX_ORDER" using ok by (simp add: blocks_ok_def geom_ok_def)
  have "geom_ok st'" using ok geom st' by (simp add: blocks_ok_def geom_ok_def same_geom_def)
  moreover have "fl_count (orders st' ! k) = of_nat (length (fl_blocks (orders st' ! k))) \<and>
      (\<forall>b \<in> set (fl_blocks (orders st' ! k)). blk_ok st' k b)" if "k \<le> PMM_MAX_ORDER" for k
    using that ok order fl len unfolding st' same_geom_blk(2) [OF geom]
    by (cases "k = order") (auto simp: blocks_ok_def)
  ultimately show ?thesis by (simp add: blocks_ok_def)
qed

lemma blocks_ok_push:
  assumes ok: "blocks_ok st" and range: "range_ok st phys order"
  shows "blocks_ok (fl_push order (phys_to_block st phys) st)"
proof -
  let ?b = "\<lparr>blk_addr = phys_to_block st phys, blk_order = order\<rparr>" and ?fl = "orders st ! order"
  have order: "order \<le> PMM_MAX_ORDER" using range by (simp add: range_ok_def)
  have b: "blk_ok st order ?b"
    using range phys_to_block_ge [OF blocks_ok_geom [OF ok] range] by (simp add: blk_ok_def)
  have count: "fl_count ?fl = of_nat (length (fl_blocks ?fl))"
    using ok order by (simp add: blocks_ok_def)
  show ?thesis
  proof (rule blocks_ok_update [OF ok order same_geom_push])
    show "orders (fl_push order (phys_to_block st phys) st) = (orders st)[order :=
        \<lparr>fl_blocks = ?b # fl_blocks ?fl, fl_count = fl_count ?fl + 1\<rparr>]"
      by (simp add: fl_push_def Let_def)
  qed (use count b blocks_ok_blk [OF ok order] in auto)
qed

lemma blocks_ok_del:
  assumes ok: "blocks_ok st" and order: "order \<le> PMM_MAX_ORDER"
    and b: "b \<in> set (fl_blocks (orders st ! order))"
  shows "blocks_ok (fl_del order b st)"
proof -
  let ?fl = "orders st ! order"
  have count: "fl_count ?fl = of_nat (length (fl_blocks ?fl))"
    using ok order by (simp add: blocks_ok_def)
  have pos: "1 \<le> length (fl_blocks ?fl)" using length_pos_if_in_set [OF b] by linarith
  show ?thesis
  proof (rule blocks_ok_update [OF ok order same_geom_del])
    show "orders (fl_del order b st) = (orders st)[order :=
        \<lparr>fl_blocks = remove1 b (fl_blocks ?fl), fl_count = fl_count ?fl - 1\<rparr>]"
      by (simp add: fl_del_def Let_def)
  next
    fix c assume "c \<in> set (fl_blocks \<lparr>fl_blocks = remove1 b (fl_blocks ?fl), fl_count = fl_count ?fl - 1\<rparr>)"
    then show "blk_ok st order c"
      using notin_set_remove1 [of c "fl_blocks ?fl" b] blocks_ok_blk [OF ok order] by auto
  qed (use count pos b in \<open>simp add: length_remove1 of_nat_diff\<close>)
qed

subsection \<open>Splitting and coalescing\<close>

lemma split_down_spec:
  assumes "blocks_ok st" and "range_ok st phys found" and "order \<le> found"
  shows "blocks_ok (split_down found order phys st) \<and> same_geom st (split_down found order phys st) \<and>
    kmem (split_down found order phys st) = kmem st \<and>
    free_pages (split_down found order phys st) = free_pages st \<and> range_ok st phys order \<and>
    free_frames (split_down found order phys st) + range_frames phys order =
      free_frames st + range_frames phys found"
  using assms
proof (induction found arbitrary: st)
  case (Suc f)
  show ?case
  proof (cases "Suc f > order")
    case True
    note half = range_ok_split [OF Suc.prems(2)]
    let ?up = "phys + push_bit f PAGE_SIZE"
    let ?st = "fl_push f (phys_to_block st ?up) st"
    have f: "f \<le> PMM_MAX_ORDER" using half(2) by (simp add: range_ok_def)
    have "blocks_ok ?st" by (rule blocks_ok_push [OF Suc.prems(1) half(2)])
    moreover have "range_ok ?st phys f" using half(1) same_geom_range_ok [OF same_geom_push] by blast
    moreover have "free_frames ?st = free_frames st + range_frames ?up f"
      using free_frames_push [OF _ f] Suc.prems(1) by (simp add: blocks_ok_def geom_ok_def)
    ultimately show ?thesis
      using Suc.IH [of ?st] True half(3) by (simp add: ac_simps)
  next
    case False
    with Suc.prems have "order = Suc f" by simp
    with Suc.prems show ?thesis by simp
  qed
qed simp

lemma fl_walk_Some: "fl_walk st limit phys bs = Some b \<Longrightarrow> b \<in> set bs \<and> blk_phys st b = phys"
  by (induction st limit phys bs rule: fl_walk.induct) (auto split: if_splits)

lemma fl_find_Some:
  "fl_find st order phys = Some b \<Longrightarrow> b \<in> set (fl_blocks (orders st ! order)) \<and> blk_phys st b = phys"
  unfolding fl_find_def by (rule fl_walk_Some)

lemma coalesce_spec:
  assumes "blocks_ok st" and "range_ok st phys order" and "coalesce phys order st = (phys', order', st')"
  shows "blocks_ok st' \<and> same_geom st st' \<and> kmem st' = kmem st \<and> free_pages st' = free_pages st \<and>
    range_ok st phys' order' \<and> order \<le> order' \<and>
    free_frames st' + range_frames phys' order' = free_frames st + range_frames phys order"
  using assms
proof (induction phys order st rule: coalesce.induct)
  case (1 phys order st)
  let ?buddy = "phys XOR push_bit order PAGE_SIZE"
  show ?case
  proof (cases "order < PMM_MAX_ORDER \<and> \<not> ?buddy < PMM_FREE_MIN_PHYS \<and>
      \<not> (?buddy < mem_start st \<or> ?buddy \<ge> mem_end st) \<and>
      (\<exists>b. fl_find st order ?buddy = Some b \<and> blk_order b = order)")
    case False
    then have "coalesce phys order st = (phys, order, st)"
      by (subst coalesce.simps) (auto simp: Let_def split: option.splits)
    with "1.prems" show ?thesis by simp
  next
    case True
    then obtain b where b: "fl_find st order ?buddy = Some b" "blk_order b = order" by blast
    let ?low = "if ?buddy < phys then ?buddy else phys" and ?st = "fl_del order b st"
    have o13: "order \<le> PMM_MAX_ORDER" using True by simp
    from fl_find_Some [OF b(1)] have bin: "b \<in> set (fl_blocks (orders st ! order))"
      and bp: "blk_phys st b = ?buddy" by auto
    have bok: "range_ok st ?buddy order"
      using blocks_ok_blk [OF "1.prems"(1) o13 bin] bp by (simp add: blk_ok_def)
    note mrg = range_ok_merge [OF "1.prems"(2) bok refl conjunct1 [OF True]]
    have rec: "coalesce phys order st = coalesce ?low (Suc order) ?st"
      using True b by (subst coalesce.simps) (simp add: Let_def)
    have "blocks_ok ?st" by (rule blocks_ok_del [OF "1.prems"(1) o13 bin])
    moreover have "range_ok ?st ?low (Suc order)" using mrg(1) by (simp add: range_ok_def)
    moreover have "free_frames st = free_frames ?st + range_frames ?buddy order"
      using free_frames_del [OF _ o13 bin] "1.prems"(1) bp by (simp add: blocks_ok_def geom_ok_def)
    ultimately show ?thesis
      using "1.IH" [OF _ refl _ _ b(1)] True b(2) "1.prems"(3) rec mrg(2) by (simp add: ac_simps)
  qed
qed

end
