(* ===== verification/Pmm_Alloc.thy ===== *)
theory Pmm_Alloc
  imports Pmm
begin

text \<open>
  Correctness of the buddy allocator of \<open>pmm.c\<close>: what allocation, release and initialisation do to
  the multiset of free frames, the invariant they keep, and the contract by which the page-table
  code uses the allocator.
\<close>

section \<open>Searching a free list\<close>

lemma page_aligned_mask: "4096 dvd unat (p::u64) \<Longrightarrow> p AND 0xFFF = 0"
proof -
  assume "4096 dvd unat p"
  have eq: "(0xFFF :: u64) = mask 12" by (simp add: mask_eq_exp_minus_1)
  have "p AND 0xFFF = take_bit 12 p" unfolding eq by (rule take_bit_eq_mask [symmetric])
  then have "unat (p AND 0xFFF) = unat p mod 4096"
    by (simp only: unsigned_take_bit_eq) (simp add: take_bit_eq_mod)
  with \<open>4096 dvd unat p\<close> show ?thesis by (simp add: unat_eq_0)
qed

lemma blk_ok_valid:
  assumes "geom_ok st" and "blk_ok st order b"
  shows "block_ptr_valid st (Some (blk_addr b))"
proof -
  have r: "range_ok st (blk_phys st b) order" and ge: "hhdm_offset st \<le> blk_addr b"
    using assms by (auto simp: blk_ok_def)
  have "unat (blk_phys st b) < unat (mem_end st)"
    using r by (simp add: range_ok_def) (metis add_lessD1 le_neq_implies_less less_add_same_cancel1
        less_le_trans zero_less_numeral zero_less_power)
  moreover have "blk_phys st b AND 0xFFF = 0"
    by (rule page_aligned_mask [OF range_ok_page [OF r]])
  ultimately show ?thesis
    using assms(1) ge by (simp add: block_ptr_valid_def geom_ok_def blk_phys_def word_less_nat_alt
        word_le_nat_alt Let_def not_le)
qed

lemma link_valid:
  assumes "geom_ok st" and "\<forall>b \<in> set bs. blk_ok st order b"
  shows "block_ptr_valid st (link_of bs)"
proof (cases bs)
  case Nil
  then show ?thesis by (simp add: block_ptr_valid_def)
next
  case (Cons b bs')
  with assms blk_ok_valid [of st order b] show ?thesis by simp
qed

lemma fl_walk_None:
  assumes "geom_ok st" and "\<forall>b \<in> set bs. blk_ok st order b" and "length bs \<le> limit"
  shows "fl_walk st limit phys bs = None \<longleftrightarrow> (\<forall>b \<in> set bs. blk_phys st b \<noteq> phys)"
  using assms(2,3)
proof (induction bs arbitrary: limit)
  case (Cons b bs)
  with blk_ok_valid [OF assms(1)] link_valid [OF assms(1)] show ?case by auto
qed simp

text \<open>Free frames are frames of the managed memory, each counted once, so no list is longer than
  the number of pages and the bound on the walk is never what ends it.\<close>

lemma frames_sum_mem:
  assumes "\<forall>b \<in> set bs. range_ok st (blk_phys st b) order"
    and "f \<in># sum_list (map (\<lambda>b. range_frames (blk_phys st b) order) bs)"
  shows "256 \<le> f \<and> f < unat (mem_end st) div 4096"
  using assms
proof (induction bs)
  case (Cons b bs)
  show ?case
  proof (cases "f \<in># range_frames (blk_phys st b) order")
    case True
    have r: "range_ok st (blk_phys st b) order" using Cons.prems by simp
    have "unat (blk_phys st b) div 4096 + 2 ^ order = (unat (blk_phys st b) + 2 ^ (12 + order)) div 4096"
      by (simp add: power_add)
    also have "\<dots> \<le> unat (mem_end st) div 4096" using r by (intro div_le_mono) (simp add: range_ok_def)
    finally have up: "unat (blk_phys st b) div 4096 + 2 ^ order \<le> unat (mem_end st) div 4096" .
    have "1048576 div 4096 \<le> unat (blk_phys st b) div 4096"
      using r by (intro div_le_mono) (simp add: range_ok_def)
    with True up show ?thesis by (auto simp: range_frames_def)
  next
    case False
    with Cons show ?thesis by simp
  qed
qed simp

lemma in_sum_frames: "finite A \<Longrightarrow> f \<in># sum g A \<longleftrightarrow> (\<exists>x \<in> A. f \<in># g x)"
  by (induction A rule: finite_induct) auto

lemma free_frames_range:
  assumes "blocks_ok st" and "f \<in># free_frames st"
  shows "256 \<le> f \<and> f < unat (mem_end st) div 4096"
proof -
  from assms(2) obtain order where "order \<le> PMM_MAX_ORDER" "f \<in># list_frames st order"
    by (auto simp: free_frames_def in_sum_frames)
  with assms(1) show ?thesis
    by (intro frames_sum_mem [of "fl_blocks (orders st ! order)" st order])
      (auto simp: list_frames_def blocks_ok_def blk_ok_def)
qed

lemma size_distinct_le:
  assumes "frames_distinct M" and "\<And>f. f \<in># M \<Longrightarrow> f < n"
  shows "size M \<le> n"
proof -
  have "M = mset_set (set_mset M)"
    using assms(1) by (intro multiset_eqI)
      (auto simp: frames_distinct_def count_mset_set' le_Suc_eq not_in_iff intro: antisym)
  then have "size M = card (set_mset M)" by (metis size_mset_set)
  also have "\<dots> \<le> card {..<n}" using assms(2) by (intro card_mono) auto
  finally show ?thesis by simp
qed

lemma length_le_frames: "length bs \<le> size (sum_list (map (\<lambda>b. range_frames (blk_phys st b) order) bs))"
proof (induction bs)
  case (Cons b bs)
  have "1 \<le> size (range_frames (blk_phys st b) order)" by (simp add: range_frames_def)
  with Cons show ?case by simp
qed simp

lemma unat_total_pages: "geom_ok st \<Longrightarrow> unat (total_pages st) = unat (mem_end st) div 4096"
  by (simp add: geom_ok_def PAGE_SHIFT_def drop_bit_eq_div unat_div_distrib)

lemma list_length_le:
  assumes "pmm_inv st" and "order \<le> PMM_MAX_ORDER"
  shows "length (fl_blocks (orders st ! order)) \<le> unat (total_pages st + 16)"
proof -
  have geom: "geom_ok st" using assms by (simp add: pmm_inv_def blocks_ok_def)
  have "length (fl_blocks (orders st ! order)) \<le> size (list_frames st order)"
    unfolding list_frames_def by (rule length_le_frames)
  also have "\<dots> \<le> size (free_frames st)"
    unfolding free_frames_def using assms(2)
    by (intro size_mset_mono) (simp add: sum.remove [of _ order])
  also have "\<dots> \<le> unat (mem_end st) div 4096"
    using assms free_frames_range by (intro size_distinct_le) (auto simp: pmm_inv_def)
  also have "\<dots> \<le> unat (total_pages st + 16)"
  proof -
    have "unat (mem_end st) div 4096 \<le> 2 ^ 52"
      using div_le_mono [OF less_imp_le [OF unat_lt64 [of "mem_end st"]], of 4096] by simp
    then have "unat (total_pages st + 16) = unat (total_pages st) + unat (16 :: u64)"
      using unat_total_pages [OF geom] by (intro unat_add_lt) simp
    with unat_total_pages [OF geom] show ?thesis by simp
  qed
  finally show ?thesis .
qed

lemma fl_find_None:
  assumes "pmm_inv st" and "order \<le> PMM_MAX_ORDER"
  shows "fl_find st order phys = None \<longleftrightarrow>
    (\<forall>b \<in> set (fl_blocks (orders st ! order)). blk_phys st b \<noteq> phys)"
  unfolding fl_find_def using assms list_length_le [OF assms]
  by (intro fl_walk_None) (auto simp: pmm_inv_def blocks_ok_def)

section \<open>Orders\<close>

lemma push_bit_pow2: "push_bit 1 (2 ^ j :: u64) = 2 ^ Suc j"
  by (simp add: push_bit_eq_mult mult.commute)

lemma dbl_loop_returns:
  assumes "unat limit \<le> 2 ^ 63" and "j \<le> 63" and "64 \<le> n + j"
  shows "\<exists>m. j \<le> m \<and> m \<le> 63 \<and> dbl_loop n (2 ^ j) j limit = Some (2 ^ m, m) \<and> unat limit \<le> 2 ^ m \<and>
    (m = j \<or> 2 ^ (m - 1) < unat limit)"
  using assms
proof (induction n arbitrary: j)
  case (Suc n)
  have uj: "unat (2 ^ j :: u64) = 2 ^ j" using Suc.prems by (intro unat_pow2) simp
  show ?case
  proof (cases "(2 ^ j :: u64) < limit")
    case True
    then have lt: "2 ^ j < unat limit" using uj by (simp add: word_less_nat_alt)
    have "j \<noteq> 63"
    proof
      assume "j = 63"
      with lt Suc.prems(1) show False by simp
    qed
    with Suc.prems have "Suc j \<le> 63" "64 \<le> n + Suc j" by simp_all
    from Suc.IH [OF Suc.prems(1) this] obtain m where
      m: "Suc j \<le> m" "m \<le> 63" "dbl_loop n (2 ^ Suc j) (Suc j) limit = Some (2 ^ m, m)"
        "unat limit \<le> 2 ^ m" "m = Suc j \<or> 2 ^ (m - 1) < unat limit" by blast
    with True lt show ?thesis
      by (intro exI [of _ m]) (auto simp: mult.commute)
  next
    case False
    then show ?thesis using Suc.prems uj
      by (intro exI [of _ j]) (simp add: word_less_nat_alt not_less)
  qed
qed simp

lemma dbl_loop_stuck:
  assumes "2 ^ 63 < unat (limit :: u64)"
  shows "dbl_loop n (2 ^ j) j limit = None"
proof (induction n arbitrary: j)
  case (Suc n)
  have "unat (2 ^ j :: u64) \<le> 2 ^ 63"
  proof (cases "j < 64")
    case True
    then show ?thesis using power_increasing [of j 63 "2::nat"] by (simp add: unat_pow2)
  next
    case False
    then have zero: "(2 ^ j :: u64) = 0" by (simp add: exp_eq_zero_iff)
    show ?thesis unfolding zero by simp
  qed
  then have "(2 ^ j :: u64) < limit" using assms by (simp add: word_less_nat_alt)
  then show ?case using Suc [of "Suc j"] by (simp add: mult.commute)
qed simp

text \<open>The three outcomes of \<open>_pages_to_order\<close>.\<close>

lemma pages_to_order_cases:
  "unat pages \<le> 2 ^ 13 \<Longrightarrow> \<exists>m \<le> 13. pages_to_order pages = Some (Some m) \<and> unat pages \<le> 2 ^ m \<and>
     (m = 0 \<or> 2 ^ (m - 1) < unat pages)"
  "2 ^ 13 < unat pages \<Longrightarrow> unat pages \<le> 2 ^ 63 \<Longrightarrow> pages_to_order pages = Some None"
  "2 ^ 63 < unat pages \<Longrightarrow> pages_to_order pages = None"
proof -
  assume le: "unat pages \<le> 2 ^ 13"
  from le have "unat pages \<le> 2 ^ 63" by simp
  from dbl_loop_returns [OF this, of 0 65] obtain m where
    m: "dbl_loop 65 1 0 pages = Some (2 ^ m, m)" "unat pages \<le> 2 ^ m" "m = 0 \<or> 2 ^ (m - 1) < unat pages"
    by auto
  have "m \<le> 13"
  proof (rule ccontr)
    assume "\<not> m \<le> 13"
    then have "(2::nat) ^ 13 \<le> 2 ^ (m - 1)" by (intro power_increasing) auto
    with m(3) le \<open>\<not> m \<le> 13\<close> show False by auto
  qed
  with m show "\<exists>m \<le> 13. pages_to_order pages = Some (Some m) \<and> unat pages \<le> 2 ^ m \<and>
     (m = 0 \<or> 2 ^ (m - 1) < unat pages)"
    by (auto simp: pages_to_order_def PMM_MAX_ORDER_def)
next
  assume gt: "2 ^ 13 < unat pages" and le: "unat pages \<le> 2 ^ 63"
  from dbl_loop_returns [OF le, of 0 65] obtain m where
    m: "dbl_loop 65 1 0 pages = Some (2 ^ m, m)" "unat pages \<le> 2 ^ m" by auto
  have "\<not> m \<le> 13"
  proof
    assume "m \<le> 13"
    then have "(2::nat) ^ m \<le> 2 ^ 13" by (intro power_increasing) auto
    with m(2) gt show False by linarith
  qed
  with m show "pages_to_order pages = Some None" by (simp add: pages_to_order_def PMM_MAX_ORDER_def)
next
  assume "2 ^ 63 < unat pages"
  from dbl_loop_stuck [OF this, of 65 0] show "pages_to_order pages = None"
    by (simp add: pages_to_order_def)
qed

section \<open>Allocation and release by order\<close>

lemma frames_distinct_add:
  "frames_distinct (A + B) \<longleftrightarrow>
     frames_distinct A \<and> frames_distinct B \<and> set_mset A \<inter> set_mset B = {}"
proof
  assume d: "frames_distinct (A + B)"
  then have c: "count A f + count B f \<le> 1" for f by (simp add: frames_distinct_def)
  have "False" if "f \<in># A" "f \<in># B" for f
    using c [of f] that by (simp flip: count_greater_zero_iff)
  moreover have "frames_distinct A" "frames_distinct B"
    unfolding frames_distinct_def using c by (blast intro: add_leD1 add_leD2)+
  ultimately show "frames_distinct A \<and> frames_distinct B \<and> set_mset A \<inter> set_mset B = {}" by blast
next
  assume d: "frames_distinct A \<and> frames_distinct B \<and> set_mset A \<inter> set_mset B = {}"
  have "count (A + B) f \<le> 1" for f
  proof (cases "f \<in># A")
    case True
    with d have "count B f = 0" by (auto simp: not_in_iff [symmetric])
    with d show ?thesis by (simp add: frames_distinct_def)
  next
    case False
    with d show ?thesis by (simp add: frames_distinct_def not_in_iff)
  qed
  then show "frames_distinct (A + B)" by (simp add: frames_distinct_def)
qed

lemma frames_distinct_range [simp]: "frames_distinct (range_frames phys order)"
  using distinct_count_atmost_1 [of "[unat phys div 4096 ..< unat phys div 4096 + 2 ^ order]"]
  by (auto simp: frames_distinct_def range_frames_def)

text \<open>Fields that the free lists and their frames do not depend on.\<close>

lemma free_frames_fields [simp]:
  "free_frames (st\<lparr>free_pages := n\<rparr>) = free_frames st" "free_frames (st\<lparr>kmem := m\<rparr>) = free_frames st"
  "free_frames (st\<lparr>alloc_count := n\<rparr>) = free_frames st" "free_frames (st\<lparr>free_count := n\<rparr>) = free_frames st"
  by (simp_all add: free_frames_def list_frames_def blk_phys_def)

lemma blocks_ok_fields [simp]:
  "blocks_ok (st\<lparr>free_pages := n\<rparr>) = blocks_ok st" "blocks_ok (st\<lparr>kmem := m\<rparr>) = blocks_ok st"
  "blocks_ok (st\<lparr>alloc_count := n\<rparr>) = blocks_ok st" "blocks_ok (st\<lparr>free_count := n\<rparr>) = blocks_ok st"
  by (simp_all add: blocks_ok_def geom_ok_def blk_ok_def range_ok_def blk_phys_def)

lemma pmm_inv_fields [simp]:
  "pmm_inv (st\<lparr>free_pages := n\<rparr>) = pmm_inv st" "pmm_inv (st\<lparr>kmem := m\<rparr>) = pmm_inv st"
  "pmm_inv (st\<lparr>alloc_count := n\<rparr>) = pmm_inv st" "pmm_inv (st\<lparr>free_count := n\<rparr>) = pmm_inv st"
  by (simp_all add: pmm_inv_def)

lemma same_geom_fields [simp]:
  "same_geom st (st'\<lparr>free_pages := n\<rparr>) = same_geom st st'" "same_geom st (st'\<lparr>kmem := m\<rparr>) = same_geom st st'"
  "same_geom st (st'\<lparr>alloc_count := n\<rparr>) = same_geom st st'" "same_geom st (st'\<lparr>free_count := n\<rparr>) = same_geom st st'"
  by (simp_all add: same_geom_def)

lemma range_ok_fields [simp]: "range_ok (st\<lparr>kmem := m\<rparr>) = range_ok st"
  by (simp add: range_ok_def fun_eq_iff)

lemma take_block_spec:
  assumes inv: "pmm_inv st" and f: "order \<le> found" "found \<le> PMM_MAX_ORDER"
    and b: "b \<in> set (fl_blocks (orders st ! found))"
  defines "st' \<equiv> split_down found order (blk_phys st b) (fl_del found b st)"
  shows "range_ok st (blk_phys st b) order \<and> pmm_inv st' \<and> same_geom st st' \<and> kmem st' = kmem st \<and>
    free_pages st' = free_pages st \<and> free_frames st = free_frames st' + range_frames (blk_phys st b) order"
proof -
  have ok: "blocks_ok st" and geom: "geom_ok st" using inv by (auto simp: pmm_inv_def blocks_ok_def)
  have rf: "range_ok (fl_del found b st) (blk_phys st b) found"
    using blocks_ok_blk [OF ok f(2) b] by (simp add: blk_ok_def)
  note sd = split_down_spec [OF blocks_ok_del [OF ok f(2) b] rf f(1), folded st'_def]
  have fr: "free_frames st = free_frames st' + range_frames (blk_phys st b) order"
    using free_frames_del [OF geom_ok_len [OF geom] f(2) b] sd by simp
  then have "frames_distinct (free_frames st')"
    using inv frames_distinct_add by (simp add: pmm_inv_def)
  with sd fr show ?thesis by (simp add: pmm_inv_def)
qed

lemma buddy_alloc_order_spec:
  assumes inv: "pmm_inv st" and order: "order \<le> PMM_MAX_ORDER"
    and run: "buddy_alloc_order order st = (phys, st')"
  shows "phys = 0 \<and> st' = st \<and> (\<forall>k \<in> {order..PMM_MAX_ORDER}. fl_blocks (orders st ! k) = []) \<or>
    range_ok st phys order \<and> pmm_inv st' \<and> same_geom st st' \<and> kmem st' = kmem st \<and>
    free_pages st' = free_pages st - push_bit order 1 \<and>
    free_frames st = free_frames st' + range_frames phys order"
proof (cases "find (\<lambda>o'. fl_blocks (orders st ! o') \<noteq> []) [order ..< Suc PMM_MAX_ORDER]")
  case None
  then have "phys = 0 \<and> st' = st" using run by (simp add: buddy_alloc_order_def del: upt_Suc)
  moreover have "\<forall>k \<in> {order..PMM_MAX_ORDER}. fl_blocks (orders st ! k) = []"
    using None by (simp add: find_None_iff less_Suc_eq_le del: upt_Suc)
  ultimately show ?thesis by blast
next
  case (Some found)
  then have f: "order \<le> found" "found \<le> PMM_MAX_ORDER" "fl_blocks (orders st ! found) \<noteq> []"
    by (auto simp: find_Some_iff less_Suc_eq_le simp del: upt_Suc)
  let ?b = "hd (fl_blocks (orders st ! found))"
  have ok: "blocks_ok st" and geom: "geom_ok st" using inv by (auto simp: pmm_inv_def blocks_ok_def)
  have b: "?b \<in> set (fl_blocks (orders st ! found))" using f by simp
  have "block_ptr_valid st (link_of (tl (fl_blocks (orders st ! found))))"
    using blocks_ok_blk [OF ok f(2)] list.set_sel(2) [OF f(3)]
    by (intro link_valid [OF geom, of _ found]) blast
  with Some run have phys: "phys = blk_phys st ?b"
    and st': "st' = (split_down found order phys (fl_del found ?b st))
      \<lparr>free_pages := free_pages (split_down found order phys (fl_del found ?b st)) - push_bit order 1\<rparr>"
    by (auto simp: buddy_alloc_order_def Let_def simp del: upt_Suc)
  from take_block_spec [OF inv f(1,2) b] phys show ?thesis unfolding st' by simp
qed

lemma buddy_free_order_spec:
  assumes inv: "pmm_inv st" and range: "range_ok st phys order"
    and fresh: "set_mset (range_frames phys order) \<inter> set_mset (free_frames st) = {}"
  shows "pmm_inv (buddy_free_order phys order st) \<and> same_geom st (buddy_free_order phys order st) \<and>
    kmem (buddy_free_order phys order st) = kmem st \<and>
    free_frames (buddy_free_order phys order st) = free_frames st + range_frames phys order"
proof -
  obtain phys' order' st1 where c: "coalesce phys order st = (phys', order', st1)"
    by (cases "coalesce phys order st") auto
  have ok: "blocks_ok st" using inv by (simp add: pmm_inv_def)
  note co = coalesce_spec [OF ok range c]
  have min: "\<not> phys < PMM_FREE_MIN_PHYS"
    using range by (simp add: range_ok_def PMM_FREE_MIN_PHYS_def word_less_nat_alt)
  let ?st2 = "fl_push order' (phys_to_block st1 phys') st1"
  have r1: "range_ok st1 phys' order'" using co same_geom_range_ok by blast
  have "free_frames ?st2 = free_frames st1 + range_frames phys' order'"
    using co r1 by (intro free_frames_push) (auto simp: blocks_ok_def geom_ok_def range_ok_def)
  then have ff: "free_frames ?st2 = free_frames st + range_frames phys order" using co by simp
  have "blocks_ok ?st2" using co r1 by (intro blocks_ok_push) auto
  moreover have "frames_distinct (free_frames ?st2)"
    unfolding ff frames_distinct_add using inv fresh by (auto simp: pmm_inv_def)
  moreover have "same_geom st ?st2" using co same_geom_trans same_geom_push by blast
  ultimately show ?thesis using co ff min
    by (simp add: buddy_free_order_def c add_free_pages_def Let_def pmm_inv_def)
qed

section \<open>The interface\<close>

definition frame_of :: "u64 \<Rightarrow> pmm_state \<Rightarrow> nat" where
  "frame_of p st = unat (p - hhdm_offset st) div 4096"

lemma range_ok_phys_min: "range_ok st phys order \<Longrightarrow> phys \<noteq> 0 \<and> \<not> phys < PMM_FREE_MIN_PHYS"
  by (auto simp: range_ok_def PMM_FREE_MIN_PHYS_def word_less_nat_alt)

lemma pmm_alloc_spec:
  assumes inv: "pmm_inv st" and pages: "pages \<noteq> 0" "unat pages \<le> 2 ^ 13"
  obtains order r st' where "pages_to_order pages = Some (Some order)" "order \<le> 13"
    "pmm_alloc pages st = Some (r, st')"
    "r = 0 \<and> st' = st \<and> (\<forall>k \<in> {order..13}. fl_blocks (orders st ! k) = []) \<or>
     r \<noteq> 0 \<and> range_ok st (r - hhdm_offset st) order \<and> pmm_inv st' \<and> same_geom st st' \<and>
     kmem st' = kmem st \<and>
     free_frames st = free_frames st' + range_frames (r - hhdm_offset st) order"
proof -
  from pages_to_order_cases(1) [OF pages(2)] obtain order where
    order: "order \<le> 13" "pages_to_order pages = Some (Some order)" by blast
  obtain phys st1 where run: "buddy_alloc_order order st = (phys, st1)" by fastforce
  have o13: "order \<le> PMM_MAX_ORDER" using order by (simp add: PMM_MAX_ORDER_def)
  from buddy_alloc_order_spec [OF inv o13 run] show thesis
  proof (elim disjE conjE)
    assume "phys = 0" "st1 = st" "\<forall>k \<in> {order..PMM_MAX_ORDER}. fl_blocks (orders st ! k) = []"
    then show thesis
      using order pages run by (intro that [of order 0 st]) (auto simp: pmm_alloc_def PMM_MAX_ORDER_def)
  next
    assume r: "range_ok st phys order" and inv1: "pmm_inv st1" and geom: "same_geom st st1"
      and km: "kmem st1 = kmem st" and fr: "free_frames st = free_frames st1 + range_frames phys order"
    have hh: "hhdm_offset st1 = hhdm_offset st" using geom by (simp add: same_geom_def)
    have "unat phys + unat (hhdm_offset st) < 2 ^ 64"
      using r inv by (simp add: pmm_inv_def blocks_ok_def geom_ok_def range_ok_def)
    then have "unat (phys + hhdm_offset st) \<noteq> 0"
      using r by (simp add: unat_add_lt range_ok_def)
    then have nz: "phys + hhdm_offset st \<noteq> 0" by (metis unat_0)
    show thesis
      using order pages run range_ok_phys_min [OF r] r inv1 geom km fr hh nz
      by (intro that [of order "phys + hhdm_offset st" "st1\<lparr>alloc_count := alloc_count st1 + push_bit order 1\<rparr>"])
        (auto simp: pmm_alloc_def)
  qed
qed

lemma pmm_free_spec:
  assumes inv: "pmm_inv st" and addr: "addr \<noteq> 0" and pages: "pages \<noteq> 0"
    and order: "pages_to_order pages = Some (Some order)"
    and range: "range_ok st (addr - hhdm_offset st) order"
    and fresh: "set_mset (range_frames (addr - hhdm_offset st) order) \<inter> set_mset (free_frames st) = {}"
  obtains st' where "pmm_free addr pages st = Some st'" "pmm_inv st'" "same_geom st st'"
    "free_frames st' = free_frames st + range_frames (addr - hhdm_offset st) order"
    "kmem st' = mem_zero addr 64 (kmem st)"
proof -
  let ?phys = "addr - hhdm_offset st" and ?st1 = "st\<lparr>kmem := mem_zero addr 64 (kmem st)\<rparr>"
  have o13: "order \<le> PMM_MAX_ORDER" using range by (simp add: range_ok_def)
  have "blk_phys st b \<noteq> ?phys" if b: "b \<in> set (fl_blocks (orders st ! order))" for b
  proof
    assume eq: "blk_phys st b = ?phys"
    have "range_frames ?phys order \<subseteq># list_frames st order"
      unfolding list_frames_def sum_list_remove1 [OF b] using eq by simp
    also have "\<dots> \<subseteq># free_frames st"
      unfolding free_frames_def using o13 by (simp add: sum.remove [of _ order])
    finally have "set_mset (range_frames ?phys order) \<subseteq> set_mset (free_frames st)"
      by (rule set_mset_mono)
    moreover have "unat ?phys div 4096 \<in># range_frames ?phys order" by (simp add: range_frames_def)
    ultimately show False using fresh by blast
  qed
  then have none: "fl_find st order ?phys = None" using fl_find_None [OF inv o13] by blast
  have lim: "\<not> ?phys < mem_start st" "\<not> ?phys \<ge> mem_end st" "\<not> ?phys < 0x100000"
  proof -
    have "0 < (2::nat) ^ (12 + order)" by simp
    then have "unat ?phys < unat (mem_end st)" using range unfolding range_ok_def by linarith
    then show "\<not> ?phys \<ge> mem_end st" by (simp add: word_le_nat_alt)
    show "\<not> ?phys < mem_start st" using inv by (simp add: pmm_inv_def blocks_ok_def geom_ok_def)
    show "\<not> ?phys < 0x100000" using range by (simp add: range_ok_def word_less_nat_alt)
  qed
  have "pmm_inv ?st1" "range_ok ?st1 ?phys order"
    "set_mset (range_frames ?phys order) \<inter> set_mset (free_frames ?st1) = {}"
    using inv range fresh by simp_all
  note fr = buddy_free_order_spec [OF this]
  have geom: "same_geom st (buddy_free_order ?phys order ?st1)"
    using fr by (simp add: same_geom_def)
  show thesis
    by (rule that [of "(buddy_free_order ?phys order ?st1)
          \<lparr>free_count := free_count (buddy_free_order ?phys order ?st1) + push_bit order 1\<rparr>"])
      (use addr pages order none lim fr geom in \<open>simp_all add: pmm_free_def Let_def\<close>)
qed

section \<open>Initialisation\<close>

lemma and_not_mask: "x AND NOT (mask n) = push_bit n (drop_bit n (x :: u64))"
  by (rule bit_word_eqI) (auto simp: bit_simps)

lemma unat_page_floor: "unat (x AND NOT (PAGE_SIZE - 1)) = unat x div 4096 * 4096"
proof -
  have eq: "PAGE_SIZE - 1 = mask 12" by (simp add: PAGE_SIZE_def mask_eq_exp_minus_1)
  have "unat x div 4096 * 4096 < 2 ^ 64"
    by (rule le_less_trans [OF _ unat_lt64 [of x]]) (rule div_times_less_eq_dividend)
  then show ?thesis unfolding eq and_not_mask
    by (simp add: drop_bit_eq_div push_bit_eq_mult unat_word_ariths unat_div_distrib)
qed

lemma unat_align_up:
  assumes "unat v + 4095 < 2 ^ 64"
  shows "unat (align_up v PAGE_SIZE) = (unat v + 4095) div 4096 * 4096"
proof -
  have "align_up v PAGE_SIZE = (v + 4095) AND NOT (PAGE_SIZE - 1)"
    by (simp add: align_up_def PAGE_SIZE_def add.commute)
  moreover have "unat (v + 4095) = unat v + 4095" using assms by (simp add: unat_add_lt)
  ultimately show ?thesis by (simp only: unat_page_floor)
qed

lemma fit_test:
  assumes "k \<le> 13"
  shows "base AND (push_bit k 1 * PAGE_SIZE - 1) = 0 \<longleftrightarrow> 2 ^ (12 + k) dvd unat (base :: u64)"
proof -
  have "(push_bit k 1 * PAGE_SIZE - 1 :: u64) = mask (12 + k)"
    by (simp add: push_bit_eq_mult PAGE_SIZE_def mask_eq_exp_minus_1 power_add)
  then have "base AND (push_bit k 1 * PAGE_SIZE - 1) = take_bit (12 + k) base"
    by (simp only: take_bit_eq_mask)
  moreover have "unat (take_bit (12 + k) base) = unat base mod 2 ^ (12 + k)"
    by (simp only: unsigned_take_bit_eq) (simp add: take_bit_eq_mod)
  ultimately show ?thesis by (metis mod_0_imp_dvd mod_eq_0_iff_dvd unat_eq_0)
qed

lemma fit_order_spec:
  assumes "n \<le> 13" and "4096 dvd unat base" and "1 \<le> unat rem"
  shows "fit_order n base rem \<le> n \<and> 2 ^ (12 + fit_order n base rem) dvd unat base \<and>
    2 ^ fit_order n base rem \<le> unat rem"
  using assms(1)
proof (induction n)
  case 0
  then show ?case using assms by simp
next
  case (Suc n)
  show ?case
  proof (cases "base AND (push_bit (Suc n) 1 * PAGE_SIZE - 1) = 0 \<and> rem \<ge> push_bit (Suc n) 1")
    case True
    have "unat (push_bit (Suc n) 1 :: u64) = 2 ^ Suc n"
      using Suc.prems by (simp only: push_bit_eq_mult mult_1 unat_pow2)
    then have "2 ^ Suc n \<le> unat rem" using True by (simp add: word_le_nat_alt)
    moreover have "2 ^ (12 + Suc n) dvd unat base" using True fit_test [OF Suc.prems] by blast
    ultimately show ?thesis using True by (simp add: Let_def)
  next
    case False
    with Suc show ?thesis by (auto simp: Let_def)
  qed
qed

lemma add_region_spec:
  assumes "blocks_ok st" and "4096 dvd unat base" and "4096 dvd unat end" and "0x100000 \<le> unat base"
    and "unat base \<le> unat end" and "unat end \<le> unat (mem_end st)" and "(unat end - unat base) div 4096 \<le> n"
  shows "blocks_ok (add_region n base end st) \<and> same_geom st (add_region n base end st) \<and>
    free_pages (add_region n base end st) = free_pages st + of_nat ((unat end - unat base) div 4096) \<and>
    free_frames (add_region n base end st) =
      free_frames st + mset [unat base div 4096 ..< unat end div 4096]"
  using assms
proof (induction n arbitrary: base st)
  case 0
  then have "unat end = unat base" by (auto elim!: dvdE)
  then show ?case using 0 by simp
next
  case (Suc n)
  show ?case
  proof (cases "base < end")
    case False
    then have "unat end = unat base" using Suc.prems by (simp add: word_less_nat_alt)
    with False Suc.prems(1) show ?thesis by simp
  next
    case True
    then have lt: "unat base < unat end" by (simp add: word_less_nat_alt)
    define rem where "rem = drop_bit PAGE_SHIFT (end - base)"
    define k where "k = fit_order PMM_MAX_ORDER base rem"
    have d: "4096 dvd unat end - unat base" using Suc.prems by (simp add: dvd_diff_nat)
    have rem: "unat rem = (unat end - unat base) div 4096"
      using lt unfolding rem_def PAGE_SHIFT_def
      by (simp add: drop_bit_eq_div unat_div_distrib unat_sub_le word_le_nat_alt)
    have "1 \<le> unat rem" using d lt rem by (auto elim!: dvdE)
    from fit_order_spec [OF _ Suc.prems(2) this, of PMM_MAX_ORDER]
    have k: "k \<le> PMM_MAX_ORDER" "2 ^ (12 + k) dvd unat base" "2 ^ k \<le> unat rem"
      by (simp_all add: k_def PMM_MAX_ORDER_def)
    have "2 ^ k * 4096 \<le> unat end - unat base"
      using k(3) rem d by (metis dvd_div_mult_self mult_le_mono1)
    then have fit: "unat base + 2 ^ (12 + k) \<le> unat end" using lt by (simp add: power_add)
    have range: "range_ok st base k" using Suc.prems k fit by (simp add: range_ok_def)
    let ?st1 = "fl_push k (phys_to_block st base) st"
    let ?st2 = "?st1\<lparr>free_pages := free_pages ?st1 + push_bit k 1\<rparr>"
    let ?base = "base + push_bit k PAGE_SIZE"
    have "unat (push_bit k PAGE_SIZE) = 2 ^ (12 + k)"
      using k(1) unfolding push_bit_page by (intro unat_pow2) (simp add: PMM_MAX_ORDER_def)
    then have ub: "unat ?base = unat base + 2 ^ (12 + k)"
      using fit le_less_trans [OF fit unat_lt64] by (simp add: unat_add_lt)
    have step: "add_region (Suc n) base end st = add_region n ?base end ?st2"
      using True by (simp add: Let_def rem_def k_def)
    have ff: "free_frames ?st2 = free_frames st + range_frames base k"
      using Suc.prems(1) k(1) by (simp add: free_frames_push blocks_ok_def geom_ok_def)
    have ok2: "blocks_ok ?st2" using blocks_ok_push [OF Suc.prems(1) range] by simp
    have d2: "4096 dvd unat ?base" unfolding ub using Suc.prems(2) by (simp add: power_add)
    have n: "(unat end - unat ?base) div 4096 \<le> n"
    proof -
      have "unat end - unat ?base \<le> unat end - unat base - 4096"
        unfolding ub diff_diff_left by (intro diff_le_mono2) (simp add: power_add)
      then have "(unat end - unat ?base) div 4096 \<le> (unat end - unat base - 4096) div 4096"
        by (rule div_le_mono)
      with Suc.prems(7) show ?thesis by (simp add: div_if [of "unat end - unat base" 4096] split: if_splits)
    qed
    have ih: "blocks_ok (add_region n ?base end ?st2) \<and> same_geom ?st2 (add_region n ?base end ?st2) \<and>
      free_pages (add_region n ?base end ?st2) = free_pages ?st2 + of_nat ((unat end - unat ?base) div 4096) \<and>
      free_frames (add_region n ?base end ?st2) =
        free_frames ?st2 + mset [unat ?base div 4096 ..< unat end div 4096]"
      using Suc.prems fit n ub ok2 d2 by (intro Suc.IH) (simp_all)
    have fr: "range_frames base k + mset [unat ?base div 4096 ..< unat end div 4096] =
        mset [unat base div 4096 ..< unat end div 4096]"
    proof -
      have b: "unat ?base div 4096 = unat base div 4096 + 2 ^ k" unfolding ub by (simp add: power_add)
      have e: "unat base div 4096 + 2 ^ k \<le> unat end div 4096"
        using div_le_mono [OF fit, of 4096] by (simp add: power_add)
      show ?thesis unfolding b range_frames_def mset_append [symmetric]
        using upt_add_eq_append [of "unat base div 4096" "unat base div 4096 + 2 ^ k"
            "unat end div 4096 - (unat base div 4096 + 2 ^ k)"] e by simp
    qed
    have cnt: "(unat end - unat base) div 4096 = 2 ^ k + (unat end - unat ?base) div 4096"
    proof -
      have "unat end - unat base = 2 ^ k * 4096 + (unat end - unat ?base)"
        unfolding ub using fit by (simp add: power_add)
      then show ?thesis by simp
    qed
    show ?thesis unfolding step using ih ff fr cnt
      by (simp add: same_geom_def push_bit_eq_mult add.assoc)
  qed
qed

text \<open>The frames a memory map entry gives to the allocator: whole pages, from 1 MiB upwards.\<close>

definition entry_frames :: "boot_mmap_entry \<Rightarrow> nat list" where
  "entry_frames e = (if me_type e \<noteq> BOOT_MEM_USABLE then []
     else [max 256 ((unat (me_base e) + 4095) div 4096) ..< (unat (me_base e) + unat (me_length e)) div 4096])"

definition entry_fits :: "boot_mmap_entry \<Rightarrow> bool" where
  "entry_fits e \<longleftrightarrow> unat (me_base e) + unat (me_length e) + 4095 < 2 ^ 64"

lemma add_entry_spec:
  assumes ok: "blocks_ok st" and fits: "entry_fits e"
    and top: "me_type e = BOOT_MEM_USABLE \<Longrightarrow> unat (me_base e) + unat (me_length e) \<le> unat (mem_end st)"
  shows "blocks_ok (add_entry e st) \<and> same_geom st (add_entry e st) \<and>
    free_pages (add_entry e st) = free_pages st + of_nat (length (entry_frames e)) \<and>
    free_frames (add_entry e st) = free_frames st + mset (entry_frames e)"
proof (cases "me_type e = BOOT_MEM_USABLE")
  case False
  then show ?thesis using ok by (simp add: add_entry_def entry_frames_def)
next
  case True
  let ?b = "unat (me_base e)" and ?l = "unat (me_length e)"
  define base where "base = align_up (me_base e) PAGE_SIZE"
  define fin where "fin = (me_base e + me_length e) AND NOT (PAGE_SIZE - 1)"
  define base' where "base' = (if base < PMM_FREE_MIN_PHYS then PMM_FREE_MIN_PHYS else base)"
  have ub: "unat base = (?b + 4095) div 4096 * 4096"
    unfolding base_def using fits by (intro unat_align_up) (simp add: entry_fits_def)
  have uf: "unat fin = (?b + ?l) div 4096 * 4096"
    unfolding fin_def unat_page_floor using fits by (simp add: entry_fits_def unat_add_lt)
  have ub': "unat base' = max 256 ((?b + 4095) div 4096) * 4096"
    unfolding base'_def using ub by (auto simp: PMM_FREE_MIN_PHYS_def word_less_nat_alt max_def)
  have frames: "entry_frames e = [unat base' div 4096 ..< unat fin div 4096]"
    using True by (simp add: entry_frames_def ub' uf)
  have run: "add_entry e st = (if base < PMM_FREE_MIN_PHYS \<and> base' \<ge> fin then st
      else add_region (unat (drop_bit PAGE_SHIFT (fin - base'))) base' fin st)"
    using True by (simp add: add_entry_def Let_def base_def fin_def base'_def)
  show ?thesis
  proof (cases "base' < fin")
    case False
    then have "add_entry e st = st"
      unfolding run by (cases "unat (drop_bit PAGE_SHIFT (fin - base'))") auto
    moreover have "entry_frames e = []"
      unfolding frames using False by (simp add: word_less_nat_alt div_le_mono)
    ultimately show ?thesis using ok by simp
  next
    case True': True
    then have lt: "unat base' < unat fin" by (simp add: word_less_nat_alt)
    have fuel: "(unat fin - unat base') div 4096 \<le> unat (drop_bit PAGE_SHIFT (fin - base'))"
      using lt by (simp add: PAGE_SHIFT_def drop_bit_eq_div unat_div_distrib unat_sub_le word_le_nat_alt)
    have "unat fin \<le> ?b + ?l" unfolding uf by (rule div_times_less_eq_dividend)
    then have up: "unat fin \<le> unat (mem_end st)" using top [OF True] by linarith
    have "4096 dvd unat base'" "4096 dvd unat fin" "0x100000 \<le> unat base'" unfolding ub' uf by auto
    note spec = add_region_spec [OF ok this less_imp_le [OF lt] up fuel]
    have "(unat fin - unat base') div 4096 = length (entry_frames e)"
      unfolding frames ub' uf by (simp add: diff_mult_distrib [symmetric])
    moreover have "add_entry e st = add_region (unat (drop_bit PAGE_SHIFT (fin - base'))) base' fin st"
      using less_le_not_le [THEN iffD1, OF True'] unfolding run by simp
    ultimately show ?thesis using spec frames by simp
  qed
qed

lemma scan_max:
  assumes "e \<in> set mmap" and "me_type e = BOOT_MEM_USABLE" and "\<forall>e \<in> set mmap. entry_fits e"
  shows "unat (me_base e) + unat (me_length e) \<le> unat (fst (fold scan_entry mmap acc))"
proof -
  have mono: "unat (fst acc) \<le> unat (fst (fold scan_entry es acc))" for es acc
  proof (induction es arbitrary: acc)
    case (Cons e es)
    have "unat (fst acc) \<le> unat (fst (scan_entry e acc))"
      by (cases acc) (simp add: scan_entry_def Let_def word_less_nat_alt)
    also have "\<dots> \<le> unat (fst (fold scan_entry es (scan_entry e acc)))" by (rule Cons.IH)
    finally show ?case by simp
  qed simp
  from split_list [OF assms(1)] obtain xs ys where mmap: "mmap = xs @ e # ys" by blast
  let ?acc = "fold scan_entry xs acc"
  have "unat (me_base e) + unat (me_length e) = unat (me_base e + me_length e)"
    using bspec [OF assms(3,1)] by (simp add: entry_fits_def unat_add_lt)
  also have "\<dots> \<le> unat (fst (scan_entry e ?acc))"
    using assms(2) by (cases ?acc) (simp add: scan_entry_def Let_def word_less_nat_alt)
  also have "\<dots> \<le> unat (fst (fold scan_entry ys (scan_entry e ?acc)))" by (rule mono)
  finally show ?thesis unfolding mmap by simp
qed

lemma fold_add_entry:
  assumes "blocks_ok st" and "\<forall>e \<in> set mmap. entry_fits e \<and> (me_type e = BOOT_MEM_USABLE \<longrightarrow>
      unat (me_base e) + unat (me_length e) \<le> unat (mem_end st))"
  shows "blocks_ok (fold add_entry mmap st) \<and> same_geom st (fold add_entry mmap st) \<and>
    free_pages (fold add_entry mmap st) = free_pages st + of_nat (length (concat (map entry_frames mmap))) \<and>
    free_frames (fold add_entry mmap st) = free_frames st + mset (concat (map entry_frames mmap))"
  using assms
proof (induction mmap arbitrary: st)
  case (Cons e mmap)
  have e: "blocks_ok (add_entry e st) \<and> same_geom st (add_entry e st) \<and>
    free_pages (add_entry e st) = free_pages st + of_nat (length (entry_frames e)) \<and>
    free_frames (add_entry e st) = free_frames st + mset (entry_frames e)"
    using Cons.prems by (intro add_entry_spec) auto
  with Cons.IH [of "add_entry e st"] Cons.prems(2) show ?case
    by (auto simp: same_geom_def ac_simps)
qed simp

section \<open>Runs of allocations and releases\<close>

definition order_of :: "u64 \<Rightarrow> nat" where
  "order_of pages = (case pages_to_order pages of Some (Some order) \<Rightarrow> order | _ \<Rightarrow> 0)"

definition live_frames :: "pmm_state \<Rightarrow> (u64 \<times> u64) list \<Rightarrow> nat multiset" where
  "live_frames st live = sum_list (map (\<lambda>(a, n). range_frames (a - hhdm_offset st) (order_of n)) live)"

text \<open>
  A client that frees exactly what it was given: \<open>live\<close> lists the pointers it holds with the number
  of pages it asked for.
\<close>

inductive pmm_run :: "pmm_state \<Rightarrow> (u64 \<times> u64) list \<Rightarrow> pmm_state \<Rightarrow> (u64 \<times> u64) list \<Rightarrow> bool" where
  run_start: "pmm_run st live st live"
| run_alloc: "pmm_run st live st1 live1 \<Longrightarrow> pages \<noteq> 0 \<Longrightarrow> unat pages \<le> 2 ^ 13 \<Longrightarrow>
    pmm_alloc pages st1 = Some (r, st2) \<Longrightarrow>
    pmm_run st live st2 (if r = 0 then live1 else (r, pages) # live1)"
| run_free: "pmm_run st live st1 live1 \<Longrightarrow> (r, pages) \<in> set live1 \<Longrightarrow>
    pmm_free r pages st1 = Some st2 \<Longrightarrow> pmm_run st live st2 (remove1 (r, pages) live1)"

definition live_ok :: "pmm_state \<Rightarrow> u64 \<times> u64 \<Rightarrow> bool" where
  "live_ok st x \<longleftrightarrow> (case x of (a, n) \<Rightarrow> a \<noteq> 0 \<and> n \<noteq> 0 \<and> pages_to_order n = Some (Some (order_of n)) \<and>
     range_ok st (a - hhdm_offset st) (order_of n))"

lemma live_geom:
  "same_geom st st' \<Longrightarrow> live_frames st' live = live_frames st live"
  "same_geom st st' \<Longrightarrow> live_ok st' x = live_ok st x"
  by (simp_all add: same_geom_def live_frames_def live_ok_def range_ok_def)

lemma pmm_run_inv:
  assumes "pmm_run st0 live0 st live" and "pmm_inv st0" and "live0 = []"
  shows "pmm_inv st \<and> same_geom st0 st \<and> (\<forall>x \<in> set live. live_ok st x) \<and>
    free_frames st0 = free_frames st + live_frames st live"
  using assms
proof (induction rule: pmm_run.induct)
  case (run_start st live)
  then show ?case by (simp add: live_frames_def)
next
  case (run_alloc st0 live0 st1 live1 pages r st2)
  then have inv1: "pmm_inv st1" by blast
  from pmm_alloc_spec [OF inv1 run_alloc.hyps(2,3)] obtain order r' st' where
    o: "pages_to_order pages = Some (Some order)" and a: "pmm_alloc pages st1 = Some (r', st')"
    and c: "r' = 0 \<and> st' = st1 \<or> r' \<noteq> 0 \<and> range_ok st1 (r' - hhdm_offset st1) order \<and> pmm_inv st' \<and>
      same_geom st1 st' \<and> free_frames st1 = free_frames st' + range_frames (r' - hhdm_offset st1) order"
    by metis
  have eq: "r' = r" "st' = st2" using a run_alloc.hyps(4) by auto
  have ord: "order_of pages = order" using o by (simp add: order_of_def)
  from c show ?case
  proof (elim disjE conjE)
    assume "r' = 0" "st' = st1"
    then show ?thesis using run_alloc.IH run_alloc.prems eq by simp
  next
    assume r: "r' \<noteq> 0" "range_ok st1 (r' - hhdm_offset st1) order" "pmm_inv st'" "same_geom st1 st'"
      and fr: "free_frames st1 = free_frames st' + range_frames (r' - hhdm_offset st1) order"
    have "live_ok st1 (r, pages)" using r eq o ord run_alloc.hyps by (simp add: live_ok_def)
    then show ?thesis
      using r eq fr ord run_alloc.IH run_alloc.prems live_geom [OF r(4)] same_geom_trans
      by (auto simp: live_frames_def same_geom_def ac_simps)
  qed
next
  case (run_free st0 live0 st1 live1 r pages st2)
  then have ih: "pmm_inv st1" "same_geom st0 st1" "\<forall>x \<in> set live1. live_ok st1 x"
    "free_frames st0 = free_frames st1 + live_frames st1 live1" and inv0: "pmm_inv st0" by blast+
  have ok: "live_ok st1 (r, pages)" using ih run_free.hyps by blast
  let ?R = "range_frames (r - hhdm_offset st1) (order_of pages)"
  have lf: "live_frames st1 live1 = ?R + live_frames st1 (remove1 (r, pages) live1)"
    unfolding live_frames_def by (subst sum_list_remove1 [OF run_free.hyps(2)]) simp
  have "frames_distinct (free_frames st1 + (?R + live_frames st1 (remove1 (r, pages) live1)))"
    using ih(4) lf inv0 by (simp add: pmm_inv_def)
  then have "set_mset ?R \<inter> set_mset (free_frames st1) = {}"
    by (auto simp: frames_distinct_add)
  with pmm_free_spec [OF ih(1), of r pages "order_of pages"] ok obtain st' where
    st': "pmm_free r pages st1 = Some st'" "pmm_inv st'" "same_geom st1 st'"
      "free_frames st' = free_frames st1 + ?R"
    by (auto simp: live_ok_def)
  have eq: "st' = st2" using st'(1) run_free.hyps(3) by simp
  show ?case
    using st'(2-4) ih lf eq live_geom [OF st'(3)] same_geom_trans [OF ih(2) st'(3)]
      notin_set_remove1 [of _ live1 "(r, pages)"]
    by (auto simp: ac_simps)
qed

lemma pmm_init_spec:
  assumes fits: "\<forall>e \<in> set mmap. entry_fits e" and dist: "distinct (concat (map entry_frames mmap))"
    and top: "unat (fst (fold scan_entry mmap (0, 0))) + 4095 + unat hhdm < 2 ^ 64"
  shows "pmm_inv (pmm_init hhdm mmap st) \<and>
    free_frames (pmm_init hhdm mmap st) = mset (concat (map entry_frames mmap)) \<and>
    free_pages (pmm_init hhdm mmap st) = of_nat (size (free_frames (pmm_init hhdm mmap st)))"
proof -
  obtain mx us where scan: "fold scan_entry mmap (0, 0) = (mx, us)" by fastforce
  define st1 where "st1 = st\<lparr>hhdm_offset := hhdm, free_pages := 0, mem_start := 0,
    mem_end := align_up mx PAGE_SIZE, total_pages := drop_bit PAGE_SHIFT (align_up mx PAGE_SIZE),
    usable_pages := us, orders := replicate (Suc PMM_MAX_ORDER) fl_empty\<rparr>"
  have run: "pmm_init hhdm mmap st = fold add_entry mmap st1"
    by (simp add: pmm_init_def scan st1_def Let_def)
  have um: "unat (align_up mx PAGE_SIZE) = (unat mx + 4095) div 4096 * 4096"
    using top scan by (intro unat_align_up) simp
  have le: "unat mx \<le> unat (align_up mx PAGE_SIZE)" unfolding um
    using div_mult_mod_eq [of "unat mx + 4095" 4096] mod_less_divisor [of 4096 "unat mx + 4095"] by linarith
  have nth: "replicate (Suc PMM_MAX_ORDER) fl_empty ! k = fl_empty" if "k \<le> PMM_MAX_ORDER" for k
    using that by (simp add: nth_replicate del: replicate_Suc)
  have "unat (align_up mx PAGE_SIZE) \<le> unat mx + 4095"
    unfolding um by (rule div_times_less_eq_dividend)
  then have "geom_ok st1"
    using top scan um by (simp add: geom_ok_def st1_def del: replicate_Suc)
  then have ok1: "blocks_ok st1"
    by (simp add: blocks_ok_def st1_def nth fl_empty_def del: replicate_Suc)
  have ff1: "free_frames st1 = {#}"
    by (simp add: free_frames_def list_frames_def st1_def nth fl_empty_def del: replicate_Suc)
  have end1: "mem_end st1 = align_up mx PAGE_SIZE" by (simp add: st1_def)
  have "unat (me_base e) + unat (me_length e) \<le> unat (mem_end st1)"
    if "e \<in> set mmap" "me_type e = BOOT_MEM_USABLE" for e
    using scan_max [OF that fits, of "(0, 0)"] le unfolding scan end1 fst_conv by (rule order_trans)
  then have "\<forall>e \<in> set mmap. entry_fits e \<and> (me_type e = BOOT_MEM_USABLE \<longrightarrow>
      unat (me_base e) + unat (me_length e) \<le> unat (mem_end st1))"
    using fits by blast
  note spec = fold_add_entry [OF ok1 this, folded run, unfolded ff1]
  have "free_pages st1 = 0" by (simp add: st1_def)
  with spec dist show ?thesis
    by (simp add: pmm_inv_def frames_distinct_def distinct_count_atmost_1)
qed

section \<open>A small machine\<close>

text \<open>Four usable pages at 1 MiB, as the boot code leaves them: one free block of order 2.\<close>

definition demo_mmap :: "boot_mmap_entry list" where
  "demo_mmap = [\<lparr>me_base = 0x100000, me_length = 0x4000, me_type = BOOT_MEM_USABLE\<rparr>]"

definition demo_pmm :: pmm_state where
  "demo_pmm = \<lparr>hhdm_offset = 0xffff800000000000, mem_start = 0, mem_end = 0x104000,
     total_pages = 260, usable_pages = 4, free_pages = 4,
     orders = [fl_empty, fl_empty, \<lparr>fl_blocks = [\<lparr>blk_addr = 0xffff800000100000, blk_order = 2\<rparr>],
       fl_count = 1\<rparr>] @ replicate 11 fl_empty,
     alloc_count = 0, free_count = 0, kmem = (\<lambda>_. 0)\<rparr>"

lemma demo_order: "fl_blocks (orders demo_pmm ! k) =
    (if k = 2 then [\<lparr>blk_addr = 0xffff800000100000, blk_order = 2\<rparr>] else [])"
  "fl_count (orders demo_pmm ! k) = (if k = 2 then 1 else 0)" if "k \<le> PMM_MAX_ORDER"
  using that by (auto simp: demo_pmm_def fl_empty_def nth_append nth_Cons PMM_MAX_ORDER_def split: nat.splits)

lemma demo_frames: "free_frames demo_pmm = mset [256, 257, 258, 259]"
proof -
  have hh: "hhdm_offset demo_pmm = 0xffff800000000000" by (simp add: demo_pmm_def)
  have "list_frames demo_pmm k = (if k = 2 then mset [256, 257, 258, 259] else {#})"
    if "k \<le> PMM_MAX_ORDER" for k
    using that hh by (cases "k = 2") (simp_all add: list_frames_def demo_order range_frames_def blk_phys_def upt_rec)
  then have "free_frames demo_pmm =
      (\<Sum>k \<in> {..PMM_MAX_ORDER}. if k = 2 then mset [256, 257, 258, 259] else {#})"
    by (simp add: free_frames_def)
  also have "\<dots> = mset [256, 257, 258, 259]" by (simp add: PMM_MAX_ORDER_def)
  finally show ?thesis .
qed

lemma demo_inv: "pmm_inv demo_pmm"
proof -
  have "geom_ok demo_pmm" by (simp add: geom_ok_def demo_pmm_def PAGE_SHIFT_def PMM_MAX_ORDER_def)
  moreover have "blk_ok demo_pmm 2 \<lparr>blk_addr = 0xffff800000100000, blk_order = 2\<rparr>"
    by (simp add: blk_ok_def range_ok_def blk_phys_def demo_pmm_def PMM_MAX_ORDER_def)
  moreover have "frames_distinct (free_frames demo_pmm)"
    unfolding demo_frames frames_distinct_def using distinct_count_atmost_1 [of "[256, 257, 258, 259::nat]"]
    by auto
  ultimately show ?thesis by (auto simp: pmm_inv_def blocks_ok_def demo_order)
qed

text \<open>Allocate the four pages as 1 + 1 + 2 and free the first two.\<close>

definition demo_s1 :: pmm_state where "demo_s1 = snd (the (pmm_alloc 1 demo_pmm))"
definition demo_s2 :: pmm_state where "demo_s2 = snd (the (pmm_alloc 1 demo_s1))"
definition demo_s3 :: pmm_state where "demo_s3 = snd (the (pmm_alloc 2 demo_s2))"
definition demo_s4 :: pmm_state where "demo_s4 = the (pmm_free 0xffff800000100000 1 demo_s3)"
definition demo_s5 :: pmm_state where "demo_s5 = the (pmm_free 0xffff800000101000 1 demo_s4)"

lemma pmm_alloc_eq:
  "pages_to_order pages \<noteq> None \<Longrightarrow> fst (the (pmm_alloc pages st)) = r \<Longrightarrow>
    pmm_alloc pages st = Some (r, snd (the (pmm_alloc pages st)))"
  by (auto simp: pmm_alloc_def split: option.splits prod.splits)

lemma pmm_free_eq:
  "pages_to_order pages \<noteq> None \<Longrightarrow> pmm_free addr pages st = Some (the (pmm_free addr pages st))"
  by (auto simp: pmm_free_def Let_def split: option.splits)

lemma demo_orders: "pages_to_order 1 = Some (Some 0)" "pages_to_order 2 = Some (Some 1)"
  by (code_simp)+

lemma demo_run4: "pmm_run demo_pmm [] demo_s4 [(0xffff800000102000, 2), (0xffff800000101000, 1)]"
proof -
  have 1: "pmm_alloc 1 demo_pmm = Some (0xffff800000100000, demo_s1)"
    unfolding demo_s1_def by (rule pmm_alloc_eq) (simp add: demo_orders, code_simp)
  have 2: "pmm_alloc 1 demo_s1 = Some (0xffff800000101000, demo_s2)"
    unfolding demo_s2_def by (rule pmm_alloc_eq) (simp add: demo_orders, code_simp)
  have 3: "pmm_alloc 2 demo_s2 = Some (0xffff800000102000, demo_s3)"
    unfolding demo_s3_def by (rule pmm_alloc_eq) (simp add: demo_orders, code_simp)
  have 4: "pmm_free 0xffff800000100000 1 demo_s3 = Some demo_s4"
    unfolding demo_s4_def by (rule pmm_free_eq) (simp add: demo_orders)
  note run_start [of demo_pmm "[]"]
  from run_alloc [OF this _ _ 1] have "pmm_run demo_pmm [] demo_s1 [(0xffff800000100000, 1)]" by simp
  from run_alloc [OF this _ _ 2]
  have "pmm_run demo_pmm [] demo_s2 [(0xffff800000101000, 1), (0xffff800000100000, 1)]" by simp
  from run_alloc [OF this _ _ 3] have "pmm_run demo_pmm [] demo_s3
      [(0xffff800000102000, 2), (0xffff800000101000, 1), (0xffff800000100000, 1)]" by simp
  from run_free [OF this _ 4] show ?thesis by simp
qed

lemma demo_run: "pmm_run demo_pmm [] demo_s5 [(0xffff800000102000, 2)]"
proof -
  have "pmm_free 0xffff800000101000 1 demo_s4 = Some demo_s5"
    unfolding demo_s5_def by (rule pmm_free_eq) (simp add: demo_orders)
  from run_free [OF demo_run4 _ this] show ?thesis by simp
qed

section \<open>Properties\<close>

text \<open>C13: No frame is handed out twice. Start a client on an allocator that satisfies the invariant,
  let it allocate and free in any order, freeing only what it holds: the free frames and the frames
  of everything it holds are together exactly the frames that were free at the start, each once, so
  the live blocks are disjoint from one another and from the free lists, and nothing is lost.\<close>

theorem pmm_conservation:
  assumes "pmm_inv st0" and "pmm_run st0 [] st live"
  shows "pmm_inv st \<and> free_frames st + live_frames st live = free_frames st0 \<and>
    (\<forall>f. count (free_frames st + live_frames st live) f \<le> 1)"
proof -
  from pmm_run_inv [OF assms(2,1) refl] have
    r: "pmm_inv st" "free_frames st0 = free_frames st + live_frames st live" by auto
  from assms(1) have "frames_distinct (free_frames st0)" by (simp add: pmm_inv_def)
  with r show ?thesis by (simp add: frames_distinct_def)
qed

text \<open>C14: \<open>pmm_alloc\<close> for 1 to 8192 pages returns. It picks the smallest order that holds the request;
  it fails exactly when no list of that order or above has a block, and then changes nothing;
  otherwise the pointer is naturally aligned in physical memory and its frames are taken from the
  free frames.\<close>

theorem pmm_alloc_correct:
  assumes inv: "pmm_inv st" and pages: "pages \<noteq> 0" "unat pages \<le> 2 ^ 13"
  shows "\<exists>order r st'. pmm_alloc pages st = Some (r, st') \<and> order \<le> 13 \<and> unat pages \<le> 2 ^ order \<and>
    (order = 0 \<or> 2 ^ (order - 1) < unat pages) \<and>
    (r = 0 \<longleftrightarrow> (\<forall>k \<in> {order..13}. fl_blocks (orders st ! k) = [])) \<and>
    (if r = 0 then st' = st
     else pmm_inv st' \<and> 2 ^ (12 + order) dvd unat (r - hhdm_offset st) \<and>
       free_frames st = free_frames st' + mset [frame_of r st ..< frame_of r st + 2 ^ order])"
proof -
  obtain order r st' where
    o: "pages_to_order pages = Some (Some order)" "order \<le> 13" and run: "pmm_alloc pages st = Some (r, st')"
    and c: "r = 0 \<and> st' = st \<and> (\<forall>k \<in> {order..13}. fl_blocks (orders st ! k) = []) \<or>
     r \<noteq> 0 \<and> range_ok st (r - hhdm_offset st) order \<and> pmm_inv st' \<and> same_geom st st' \<and>
     kmem st' = kmem st \<and>
     free_frames st = free_frames st' + range_frames (r - hhdm_offset st) order"
    by (rule pmm_alloc_spec [OF inv pages])
  from pages_to_order_cases(1) [OF pages(2)] o have
    sz: "unat pages \<le> 2 ^ order" "order = 0 \<or> 2 ^ (order - 1) < unat pages" by auto
  have empty: "\<exists>k \<in> {order..13}. fl_blocks (orders st ! k) \<noteq> []" if "r \<noteq> 0"
  proof (rule ccontr)
    assume "\<not> ?thesis"
    then have "find (\<lambda>o'. fl_blocks (orders st ! o') \<noteq> []) [order ..< Suc PMM_MAX_ORDER] = None"
      by (auto simp: find_None_iff PMM_MAX_ORDER_def less_Suc_eq_le simp del: upt_Suc)
    with run o pages(1) that show False
      by (simp add: pmm_alloc_def buddy_alloc_order_def del: upt_Suc)
  qed
  show ?thesis
    using o run sz c empty
    by (intro exI [of _ order] exI [of _ r] exI [of _ st'])
      (auto simp: range_ok_def frame_of_def range_frames_def)
qed

text \<open>C15: \<open>pmm_free\<close> of a naturally aligned block whose frames are not free returns, keeps the invariant
  and adds exactly the frames of the block to the free frames, whatever coalescing happens.\<close>

theorem pmm_free_correct:
  assumes "pmm_inv st" and "addr \<noteq> 0" and "pages \<noteq> 0" and "pages_to_order pages = Some (Some order)"
    and "range_ok st (addr - hhdm_offset st) order"
    and "set_mset (range_frames (addr - hhdm_offset st) order) \<inter> set_mset (free_frames st) = {}"
  shows "\<exists>st'. pmm_free addr pages st = Some st' \<and> pmm_inv st' \<and>
    free_frames st' = free_frames st + mset [frame_of addr st ..< frame_of addr st + 2 ^ order]"
  by (rule pmm_free_spec [OF assms]) (auto simp: frame_of_def range_frames_def)

text \<open>C16: \<open>pmm_init\<close> on a memory map whose usable entries do not wrap around and whose whole pages do not
  overlap leaves exactly the whole usable pages from 1 MiB upwards free, satisfies the invariant and
  sets the free page counter to their number.\<close>

theorem pmm_init_correct:
  assumes fits: "\<forall>e \<in> set mmap. entry_fits e" and dist: "distinct (concat (map entry_frames mmap))"
    and top: "unat (fst (fold scan_entry mmap (0, 0))) + 4095 + unat hhdm < 2 ^ 64"
  shows "pmm_inv (pmm_init hhdm mmap st) \<and>
    free_frames (pmm_init hhdm mmap st) = mset (concat (map entry_frames mmap)) \<and>
    free_pages (pmm_init hhdm mmap st) = of_nat (size (free_frames (pmm_init hhdm mmap st)))"
  using assms by (rule pmm_init_spec)

text \<open>The free page counter drifts. When a release coalesces, the counter grows by the size of the
  merged block instead of the size of the freed one: a client that frees two single pages which are
  buddies ends with 3 pages counted free where 2 are.\<close>

theorem free_pages_overcounts:
  "\<exists>st live. pmm_inv demo_pmm \<and> free_pages demo_pmm = of_nat (size (free_frames demo_pmm)) \<and>
     pmm_run demo_pmm [] st live \<and> free_pages st = 3 \<and> size (free_frames st) = 2"
proof (intro exI conjI)
  show "pmm_inv demo_pmm" by (rule demo_inv)
  show "free_pages demo_pmm = of_nat (size (free_frames demo_pmm))"
    by (simp add: demo_frames) (simp add: demo_pmm_def)
  show "pmm_run demo_pmm [] demo_s5 [(0xffff800000102000, 2)]" by (rule demo_run)
  show "free_pages demo_s5 = 3" by code_simp
  have "free_frames demo_pmm = free_frames demo_s5 + live_frames demo_s5 [(0xffff800000102000, 2)]"
    using pmm_run_inv [OF demo_run demo_inv refl] by blast
  then have "size (free_frames demo_pmm) =
      size (free_frames demo_s5) + size (live_frames demo_s5 [(0xffff800000102000, 2)])" by simp
  then show "size (free_frames demo_s5) = 2"
    by (simp add: demo_frames live_frames_def order_of_def demo_orders range_frames_def)
qed

text \<open>C39: \<open>_pages_to_order\<close> never ends for more than \<open>2 ^ 63\<close> pages, however long it runs: the capacity
  wraps to zero and stays below the request, so \<open>pmm_alloc\<close> does not return.\<close>

theorem pmm_alloc_huge_never_returns:
  assumes "2 ^ 63 < unat pages"
  shows "(\<forall>n. dbl_loop n 1 0 pages = None) \<and> pmm_alloc pages st = None"
proof -
  have "pages \<noteq> 0" using assms by auto
  then show ?thesis
    using pages_to_order_cases(3) [OF assms] dbl_loop_stuck [OF assms, of _ 0]
    by (simp add: pmm_alloc_def)
qed

lemma find_SomeD: "find P xs = Some x \<Longrightarrow> x \<in> set xs \<and> P x"
  by (auto simp: find_Some_iff)

lemma below_search_Some:
  "below_search span mx st os = Some (k, b) \<Longrightarrow>
    k \<in> set os \<and> b \<in> set (fl_blocks (orders st ! k)) \<and> below_candidate span mx st b"
  by (induction os) (auto simp: find_Some_iff split: option.splits)

lemma below_search_None:
  "below_search span mx st os = None \<longleftrightarrow>
    (\<forall>k \<in> set os. \<forall>b \<in> set (fl_blocks (orders st ! k)). \<not> below_candidate span mx st b)"
  by (induction os) (auto simp: find_None_iff dest: find_SomeD split: option.splits)

lemma below_candidate_iff:
  assumes "range_ok st (blk_phys st b) k" and "order \<le> k"
  shows "below_candidate (push_bit order PAGE_SIZE) mx st b \<longleftrightarrow>
    unat (blk_phys st b) + 2 ^ (12 + order) \<le> unat mx"
proof -
  have o: "order \<le> 13" using assms range_ok_order by fastforce
  have span: "unat (push_bit order PAGE_SIZE) = 2 ^ (12 + order)"
    unfolding push_bit_page using o by (intro unat_pow2) simp
  have "(2::nat) ^ (12 + order) \<le> 2 ^ (12 + k)" using assms(2) by (intro power_increasing) auto
  then have "unat (blk_phys st b) + 2 ^ (12 + order) < 2 ^ 64" using range_ok_lt [OF assms(1)] by linarith
  then have "unat (blk_phys st b + push_bit order PAGE_SIZE) = unat (blk_phys st b) + 2 ^ (12 + order)"
    using span by (simp add: unat_add_lt)
  then show ?thesis
    using range_ok_phys_min [OF assms(1)] by (simp add: below_candidate_def word_less_nat_alt not_less)
qed

lemma virt_nonzero:
  assumes "geom_ok st" and "range_ok st phys order"
  shows "phys + hhdm_offset st \<noteq> 0"
proof -
  have "unat phys + unat (hhdm_offset st) < 2 ^ 64" using assms by (simp add: geom_ok_def range_ok_def)
  then have "unat (phys + hhdm_offset st) \<noteq> 0" using assms by (simp add: unat_add_lt range_ok_def)
  then show ?thesis by (metis unat_0)
qed

text \<open>\<open>pmm_alloc_below\<close> for 1 to 8192 pages returns. A pointer it returns names frames that all lie
  below the limit and are taken from the free frames; it fails, changing nothing, only when no
  sufficiently large free block starts low enough.\<close>

theorem pmm_alloc_below_correct:
  assumes inv: "pmm_inv st" and pages: "pages \<noteq> 0" "unat pages \<le> 2 ^ 13"
  shows "\<exists>order r st'. pages_to_order pages = Some (Some order) \<and>
    pmm_alloc_below pages mx st = Some (r, st') \<and>
    (if r = 0 then st' = st \<and> (\<forall>k \<in> {order..13}. \<forall>b \<in> set (fl_blocks (orders st ! k)).
         unat mx < unat (blk_phys st b) + 2 ^ (12 + order))
     else pmm_inv st' \<and> unat (r - hhdm_offset st) + 2 ^ (12 + order) \<le> unat mx \<and>
       free_frames st = free_frames st' + mset [frame_of r st ..< frame_of r st + 2 ^ order])"
proof -
  from pages_to_order_cases(1) [OF pages(2)] obtain order where
    o: "order \<le> 13" "pages_to_order pages = Some (Some order)" by blast
  have ok: "blocks_ok st" and geom: "geom_ok st" using inv by (auto simp: pmm_inv_def blocks_ok_def)
  have cand: "below_candidate (push_bit order PAGE_SIZE) mx st b \<longleftrightarrow>
      unat (blk_phys st b) + 2 ^ (12 + order) \<le> unat mx"
    if "k \<in> {order..13}" "b \<in> set (fl_blocks (orders st ! k))" for k b
    using that blocks_ok_blk [OF ok, of k b] by (intro below_candidate_iff [of _ _ k]) (auto simp: blk_ok_def PMM_MAX_ORDER_def)
  show ?thesis
  proof (cases "below_search (push_bit order PAGE_SIZE) mx st [order ..< Suc PMM_MAX_ORDER]")
    case None
    then have "\<forall>k \<in> {order..13}. \<forall>b \<in> set (fl_blocks (orders st ! k)).
        unat mx < unat (blk_phys st b) + 2 ^ (12 + order)"
      using cand by (fastforce simp: below_search_None PMM_MAX_ORDER_def less_Suc_eq_le not_le simp del: upt_Suc)
    with None o pages show ?thesis
      by (intro exI [of _ order] exI [of _ 0] exI [of _ st]) (simp add: pmm_alloc_below_def del: upt_Suc)
  next
    case (Some kb)
    obtain k b where kb: "kb = (k, b)" by fastforce
    from below_search_Some [OF Some [unfolded kb]] have
      k: "order \<le> k" "k \<le> PMM_MAX_ORDER" and b: "b \<in> set (fl_blocks (orders st ! k))"
      and c: "below_candidate (push_bit order PAGE_SIZE) mx st b" by (auto simp: less_Suc_eq_le simp del: upt_Suc)
    let ?st' = "split_down k order (blk_phys st b) (fl_del k b st)"
    note t = take_block_spec [OF inv k b]
    have hh: "hhdm_offset ?st' = hhdm_offset st" using t by (simp add: same_geom_def)
    have low: "unat (blk_phys st b) + 2 ^ (12 + order) \<le> unat mx"
      using cand [of k b] c k b by (simp add: PMM_MAX_ORDER_def)
    have nz: "blk_phys st b + hhdm_offset st \<noteq> 0" using t by (intro virt_nonzero [OF geom]) blast
    have run: "pmm_alloc_below pages mx st = Some (blk_phys st b + hhdm_offset st,
        ?st'\<lparr>free_pages := free_pages ?st' - push_bit order 1\<rparr>)"
      using pages o Some kb hh by (simp add: pmm_alloc_below_def Let_def del: upt_Suc)
    show ?thesis
      using o run nz t low
      by (intro exI [of _ order] exI [of _ "blk_phys st b + hhdm_offset st"]
            exI [of _ "?st'\<lparr>free_pages := free_pages ?st' - push_bit order 1\<rparr>"])
        (simp add: frame_of_def range_frames_def)
  qed
qed

theorem pmm_alloc_below_witness:
  "\<exists>order r st'. pages_to_order 1 = Some (Some order) \<and> pmm_alloc_below 1 0x101000 demo_pmm = Some (r, st') \<and>
     r \<noteq> 0 \<and> pmm_inv st' \<and> unat (r - hhdm_offset demo_pmm) + 2 ^ (12 + order) \<le> 0x101000"
proof -
  obtain order r st' where w: "pages_to_order 1 = Some (Some order)"
      "pmm_alloc_below 1 0x101000 demo_pmm = Some (r, st')"
    and c: "if r = 0 then st' = demo_pmm \<and> (\<forall>k \<in> {order..13}. \<forall>b \<in> set (fl_blocks (orders demo_pmm ! k)).
         unat (0x101000 :: u64) < unat (blk_phys demo_pmm b) + 2 ^ (12 + order))
     else pmm_inv st' \<and> unat (r - hhdm_offset demo_pmm) + 2 ^ (12 + order) \<le> unat (0x101000 :: u64) \<and>
       free_frames demo_pmm = free_frames st' + mset [frame_of r demo_pmm ..< frame_of r demo_pmm + 2 ^ order]"
    using pmm_alloc_below_correct [OF demo_inv, of 1 "0x101000"] by auto
  have "fst (the (pmm_alloc_below 1 0x101000 demo_pmm)) = 0xffff800000100000" by code_simp
  with w have "r \<noteq> 0" by auto
  with w c show ?thesis by auto
qed

section \<open>Witnesses\<close>

theorem pmm_conservation_witness:
  "pmm_run demo_pmm [] demo_s5 [(0xffff800000102000, 2)] \<and>
   free_frames demo_s5 + live_frames demo_s5 [(0xffff800000102000, 2)] = mset [256, 257, 258, 259]"
  using pmm_conservation [OF demo_inv demo_run] demo_run by (simp add: demo_frames)

theorem pmm_alloc_correct_witness:
  "\<exists>order r st'. pmm_alloc 3 demo_pmm = Some (r, st') \<and> (3::nat) \<le> 2 ^ order \<and> r \<noteq> 0 \<and> pmm_inv st'"
proof -
  obtain order r st' where w: "pmm_alloc 3 demo_pmm = Some (r, st')" "(3::nat) \<le> 2 ^ order"
    and c: "if r = 0 then st' = demo_pmm else pmm_inv st' \<and>
      2 ^ (12 + order) dvd unat (r - hhdm_offset demo_pmm) \<and> free_frames demo_pmm =
        free_frames st' + mset [frame_of r demo_pmm ..< frame_of r demo_pmm + 2 ^ order]"
    using pmm_alloc_correct [OF demo_inv, of 3] by auto
  have "fst (the (pmm_alloc 3 demo_pmm)) = 0xffff800000100000" by code_simp
  with w(1) have "r \<noteq> 0" by auto
  with w c show ?thesis by auto
qed

theorem pmm_free_correct_witness:
  "\<exists>st'. pmm_free 0xffff800000101000 1 demo_s4 = Some st' \<and> pmm_inv st'"
proof -
  have run4: "pmm_run demo_pmm [] demo_s4 [(0xffff800000102000, 2), (0xffff800000101000, 1)]"
    by (rule demo_run4)
  note r = pmm_run_inv [OF run4 demo_inv refl]
  have ok: "live_ok demo_s4 (0xffff800000101000, 1)" using r by simp
  have "frames_distinct (free_frames demo_s4 +
      live_frames demo_s4 [(0xffff800000102000, 2), (0xffff800000101000, 1)])"
    using r demo_inv by (metis pmm_inv_def)
  then have "set_mset (range_frames (0xffff800000101000 - hhdm_offset demo_s4) 0) \<inter>
      set_mset (free_frames demo_s4) = {}"
    by (auto simp: frames_distinct_add live_frames_def order_of_def demo_orders)
  with pmm_free_correct [of demo_s4 "0xffff800000101000" 1 0] ok r show ?thesis
    by (auto simp: live_ok_def demo_orders order_of_def)
qed

theorem pmm_init_correct_witness:
  "pmm_inv (pmm_init 0xffff800000000000 demo_mmap demo_pmm) \<and>
   free_frames (pmm_init 0xffff800000000000 demo_mmap demo_pmm) = mset [256, 257, 258, 259]"
proof -
  have fr: "concat (map entry_frames demo_mmap) = [256, 257, 258, 259]"
    by (simp add: demo_mmap_def entry_frames_def upt_rec)
  have "\<forall>e \<in> set demo_mmap. entry_fits e" by (simp add: demo_mmap_def entry_fits_def)
  moreover have "distinct (concat (map entry_frames demo_mmap))" by (simp add: fr)
  moreover have "unat (fst (fold scan_entry demo_mmap (0, 0))) + 4095 + unat (0xffff800000000000::u64) < 2 ^ 64"
    by (simp add: demo_mmap_def scan_entry_def)
  ultimately show ?thesis
    using pmm_init_correct [of demo_mmap "0xffff800000000000" demo_pmm] by (simp add: fr)
qed

theorem pmm_alloc_huge_witness: "pmm_alloc 0xC000000000000000 demo_pmm = None"
  using pmm_alloc_huge_never_returns [of "0xC000000000000000" demo_pmm] by simp

end
