(* ===== verification/Vmm.thy ===== *)
theory Vmm
  imports Pmm_Alloc
begin

text \<open>
  The four-level page tables of \<open>kernel/src/memory/vmm.c\<close>. Tables live in the memory cells of the
  allocator's state: the entry \<open>i\<close> of the table at address \<open>t\<close> is the cell at \<open>t + 8 * i\<close>. The globals
  \<open>g_pte_mask\<close> and \<open>kernel_pagemap.pml4\<close>, set once at boot, are arguments. TLB instructions have no
  effect on the modelled state. \<open>None\<close> is a call that never returns, in particular \<open>alloc_table\<close> when
  memory is exhausted.
\<close>

section \<open>Entries\<close>

definition VMM_PRESENT :: u64 where "VMM_PRESENT = 1"
definition VMM_WRITE :: u64 where "VMM_WRITE = 2"
definition VMM_USER :: u64 where "VMM_USER = 4"
definition VMM_PSE :: u64 where "VMM_PSE = 0x80"
definition VMM_SHARED :: u64 where "VMM_SHARED = 0x200"
definition VMM_NOEXEC :: u64 where "VMM_NOEXEC = 0x8000000000000000"
definition PTE_PHYS_MASK :: u64 where "PTE_PHYS_MASK = 0x000FFFFFFFFFF000"

text \<open>\<open>vmm_pagemap_t\<close> with the address of the structure itself (0 for a null pointer).\<close>

record vmm_pagemap =
  map_addr :: u64
  pml4 :: u64

definition has :: "u64 \<Rightarrow> u64 \<Rightarrow> bool" where
  "has e flag \<longleftrightarrow> e AND flag \<noteq> 0"

definition ent :: "pmm_state \<Rightarrow> u64 \<Rightarrow> u64 \<Rightarrow> u64" where
  "ent st t i = kmem st (t + 8 * i)"

definition set_ent :: "u64 \<Rightarrow> u64 \<Rightarrow> u64 \<Rightarrow> pmm_state \<Rightarrow> pmm_state" where
  "set_ent t i e st = st\<lparr>kmem := (kmem st)(t + 8 * i := e)\<rparr>"

definition table_of :: "pmm_state \<Rightarrow> u64 \<Rightarrow> u64" where
  "table_of st e = pmm_phys_to_virt (e AND PTE_PHYS_MASK) st"

definition pml4_i :: "u64 \<Rightarrow> u64" where "pml4_i virt = drop_bit 39 virt AND 0x1FF"
definition pdpt_i :: "u64 \<Rightarrow> u64" where "pdpt_i virt = drop_bit 30 virt AND 0x1FF"
definition pd_i :: "u64 \<Rightarrow> u64" where "pd_i virt = drop_bit 21 virt AND 0x1FF"
definition pt_i :: "u64 \<Rightarrow> u64" where "pt_i virt = drop_bit 12 virt AND 0x1FF"

section \<open>Tables\<close>

definition alloc_table :: "pmm_state \<Rightarrow> (u64 \<times> pmm_state) option" where
  "alloc_table st = (case pmm_alloc_zero 1 st of
     None \<Rightarrow> None
   | Some (page, st') \<Rightarrow> if page = 0 then None else Some (page, st'))"

definition get_table :: "u64 \<Rightarrow> u64 \<Rightarrow> u64 \<Rightarrow> pmm_state \<Rightarrow> (u64 \<times> pmm_state) option" where
  "get_table parent index flags st =
    (if \<not> has (ent st parent index) VMM_PRESENT then
       case alloc_table st of
         None \<Rightarrow> None
       | Some (table, st1) \<Rightarrow>
           let table_phys = pmm_virt_to_phys table st1;
               st2 = set_ent parent index
                 (table_phys OR VMM_PRESENT OR VMM_WRITE OR (flags AND VMM_USER)) st1
           in Some (table_of st2 (ent st2 parent index), st2)
     else if has (ent st parent index) VMM_PSE then Some (0, st)
     else if has flags VMM_USER then
       let st1 = set_ent parent index (ent st parent index OR VMM_USER) st
       in Some (table_of st1 (ent st1 parent index), st1)
     else Some (table_of st (ent st parent index), st))"

definition vmm_pte_lookup :: "vmm_pagemap \<Rightarrow> u64 \<Rightarrow> pmm_state \<Rightarrow> u64" where
  "vmm_pte_lookup pm virt st =
    (if map_addr pm = 0 \<or> pml4 pm = 0 then 0
     else let e4 = ent st (pml4 pm) (pml4_i virt) in
       if \<not> has e4 VMM_PRESENT then 0
       else let e3 = ent st (table_of st e4) (pdpt_i virt) in
         if \<not> has e3 VMM_PRESENT \<or> has e3 VMM_PSE then 0
         else let e2 = ent st (table_of st e3) (pd_i virt) in
           if \<not> has e2 VMM_PRESENT \<or> has e2 VMM_PSE then 0
           else table_of st e2 + 8 * pt_i virt)"

definition vmm_map_page ::
  "u64 \<Rightarrow> vmm_pagemap \<Rightarrow> u64 \<Rightarrow> u64 \<Rightarrow> u64 \<Rightarrow> pmm_state \<Rightarrow> (bool \<times> pmm_state) option" where
  "vmm_map_page g_pte_mask pm virt phys flags st =
    (if map_addr pm = 0 \<or> pml4 pm = 0 then Some (False, st)
     else case get_table (pml4 pm) (pml4_i virt) flags st of
       None \<Rightarrow> None
     | Some (pdpt, st1) \<Rightarrow>
         if pdpt = 0 then Some (False, st1)
         else case get_table pdpt (pdpt_i virt) flags st1 of
           None \<Rightarrow> None
         | Some (pd, st2) \<Rightarrow>
             if pd = 0 then Some (False, st2)
             else case get_table pd (pd_i virt) flags st2 of
               None \<Rightarrow> None
             | Some (pt, st3) \<Rightarrow>
                 if pt = 0 then Some (False, st3)
                 else Some (True, set_ent pt (pt_i virt)
                        (((phys AND PTE_PHYS_MASK) OR flags OR VMM_PRESENT) AND g_pte_mask) st3))"

text \<open>Unmapping follows present entries at every level without testing for large pages.\<close>

definition vmm_unmap_page_noflush :: "vmm_pagemap \<Rightarrow> u64 \<Rightarrow> pmm_state \<Rightarrow> pmm_state" where
  "vmm_unmap_page_noflush pm virt st =
    (let e4 = ent st (pml4 pm) (pml4_i virt) in
     if \<not> has e4 VMM_PRESENT then st
     else let e3 = ent st (table_of st e4) (pdpt_i virt) in
       if \<not> has e3 VMM_PRESENT then st
       else let e2 = ent st (table_of st e3) (pd_i virt) in
         if \<not> has e2 VMM_PRESENT then st
         else set_ent (table_of st e2) (pt_i virt) 0 st)"

definition vmm_unmap_page :: "vmm_pagemap \<Rightarrow> u64 \<Rightarrow> pmm_state \<Rightarrow> pmm_state option" where
  "vmm_unmap_page pm virt st =
    (let e4 = ent st (pml4 pm) (pml4_i virt) in
     if \<not> has e4 VMM_PRESENT then Some st
     else let e3 = ent st (table_of st e4) (pdpt_i virt) in
       if \<not> has e3 VMM_PRESENT then Some st
       else let e2 = ent st (table_of st e3) (pd_i virt) in
         if \<not> has e2 VMM_PRESENT then Some st
         else
           let pt = table_of st e2; e1 = ent st pt (pt_i virt) in
           if \<not> has e1 VMM_PRESENT then Some st
           else
             let phys = e1 AND PTE_PHYS_MASK;
                 shared = has e1 VMM_SHARED;
                 st1 = set_ent pt (pt_i virt) 0 st
             in if \<not> shared \<and> phys \<ge> PMM_FREE_MIN_PHYS
                then pmm_free (pmm_phys_to_virt phys st1) 1 st1
                else Some st1)"

section \<open>Translation\<close>

definition vmm_virt_to_phys :: "vmm_pagemap \<Rightarrow> u64 \<Rightarrow> pmm_state \<Rightarrow> u64 option" where
  "vmm_virt_to_phys pm virt st =
    (if map_addr pm = 0 then None
     else let e4 = ent st (pml4 pm) (pml4_i virt) in
       if \<not> has e4 VMM_PRESENT then None
       else let e3 = ent st (table_of st e4) (pdpt_i virt) in
         if \<not> has e3 VMM_PRESENT then None
         else if has e3 VMM_PSE
         then Some ((e3 AND PTE_PHYS_MASK AND NOT 0x3FFFFFFF) OR (virt AND 0x3FFFFFFF))
         else let e2 = ent st (table_of st e3) (pd_i virt) in
           if \<not> has e2 VMM_PRESENT then None
           else if has e2 VMM_PSE
           then Some ((e2 AND PTE_PHYS_MASK AND NOT 0x1FFFFF) OR (virt AND 0x1FFFFF))
           else let e1 = ent st (table_of st e2) (pt_i virt) in
             if \<not> has e1 VMM_PRESENT then None
             else Some ((e1 AND PTE_PHYS_MASK) OR (virt AND 0xFFF)))"

definition vmm_virt_flags :: "vmm_pagemap \<Rightarrow> u64 \<Rightarrow> pmm_state \<Rightarrow> u64 option" where
  "vmm_virt_flags pm virt st =
    (if map_addr pm = 0 \<or> pml4 pm = 0 then None
     else let acc = VMM_WRITE OR VMM_USER; e4 = ent st (pml4 pm) (pml4_i virt) in
       if \<not> has e4 VMM_PRESENT then None
       else let acc4 = acc AND e4; e3 = ent st (table_of st e4) (pdpt_i virt) in
         if \<not> has e3 VMM_PRESENT then None
         else let acc3 = acc4 AND e3 in
           if has e3 VMM_PSE then Some acc3
           else let e2 = ent st (table_of st e3) (pd_i virt) in
             if \<not> has e2 VMM_PRESENT then None
             else let acc2 = acc3 AND e2 in
               if has e2 VMM_PSE then Some acc2
               else let e1 = ent st (table_of st e2) (pt_i virt) in
                 if \<not> has e1 VMM_PRESENT then None else Some (acc2 AND e1))"

definition vmm_get_page_flags :: "vmm_pagemap \<Rightarrow> u64 \<Rightarrow> pmm_state \<Rightarrow> u64 option" where
  "vmm_get_page_flags pm virt st =
    (let m = 0xFFF OR VMM_NOEXEC in
     if map_addr pm = 0 then None
     else let e4 = ent st (pml4 pm) (pml4_i virt) in
       if \<not> has e4 VMM_PRESENT then None
       else let e3 = ent st (table_of st e4) (pdpt_i virt) in
         if \<not> has e3 VMM_PRESENT then None
         else if has e3 VMM_PSE then Some (e3 AND m)
         else let e2 = ent st (table_of st e3) (pd_i virt) in
           if \<not> has e2 VMM_PRESENT then None
           else if has e2 VMM_PSE then Some (e2 AND m)
           else let e1 = ent st (table_of st e2) (pt_i virt) in
             if \<not> has e1 VMM_PRESENT then None else Some (e1 AND m))"

section \<open>Whole address spaces\<close>

definition idx_list :: "nat \<Rightarrow> nat \<Rightarrow> u64 list" where
  "idx_list a b = map of_nat [a ..< b]"

text \<open>\<open>vmm_count_user_pages\<close>, one function per loop.\<close>

definition user_ent :: "u64 \<Rightarrow> bool" where
  "user_ent e \<longleftrightarrow> has e VMM_PRESENT \<and> has e VMM_USER"

definition count_pt :: "pmm_state \<Rightarrow> u64 \<Rightarrow> u64 \<Rightarrow> u64" where
  "count_pt st pt pages = fold (\<lambda>l n. if user_ent (ent st pt l) then n + 1 else n) (idx_list 0 512) pages"

definition count_pd :: "pmm_state \<Rightarrow> u64 \<Rightarrow> u64 \<Rightarrow> u64" where
  "count_pd st pd pages = fold (\<lambda>k n. let e2 = ent st pd k in
     if \<not> user_ent e2 then n else if has e2 VMM_PSE then n + 512
     else count_pt st (table_of st e2) n) (idx_list 0 512) pages"

definition count_pdpt :: "pmm_state \<Rightarrow> u64 \<Rightarrow> u64 \<Rightarrow> u64" where
  "count_pdpt st pdpt pages = fold (\<lambda>j n. let e3 = ent st pdpt j in
     if \<not> user_ent e3 then n else if has e3 VMM_PSE then n + 512 * 512
     else count_pd st (table_of st e3) n) (idx_list 0 512) pages"

definition vmm_count_user_pages :: "vmm_pagemap \<Rightarrow> pmm_state \<Rightarrow> u64" where
  "vmm_count_user_pages pm st =
    (if map_addr pm = 0 \<or> pml4 pm = 0 then 0
     else fold (\<lambda>i n. let e4 = ent st (pml4 pm) i in
       if \<not> user_ent e4 then n else count_pdpt st (table_of st e4) n) (idx_list 0 256) 0)"

definition vmm_sync_kernel_mappings :: "u64 \<Rightarrow> vmm_pagemap \<Rightarrow> pmm_state \<Rightarrow> pmm_state" where
  "vmm_sync_kernel_mappings kernel_pml4 pm st =
    (if map_addr pm = 0 then st
     else fold (\<lambda>i s. set_ent (pml4 pm) i (ent s kernel_pml4 i) s) (idx_list 256 512) st)"

text \<open>The structure is a page of its own whose first cell holds \<open>pml4\<close>.\<close>

definition vmm_create_pagemap :: "u64 \<Rightarrow> pmm_state \<Rightarrow> (vmm_pagemap option \<times> pmm_state) option" where
  "vmm_create_pagemap kernel_pml4 st =
    (case pmm_alloc_zero 1 st of
       None \<Rightarrow> None
     | Some (m, st1) \<Rightarrow>
         if m = 0 then Some (None, st1)
         else case alloc_table st1 of
           None \<Rightarrow> None
         | Some (root, st2) \<Rightarrow>
             let st3 = set_ent m 0 root st2;
                 pm = \<lparr>map_addr = m, pml4 = root\<rparr>
             in Some (Some pm, vmm_sync_kernel_mappings kernel_pml4 pm st3))"

definition mem_copy :: "u64 \<Rightarrow> u64 \<Rightarrow> u64 \<Rightarrow> (u64 \<Rightarrow> u64) \<Rightarrow> u64 \<Rightarrow> u64" where
  "mem_copy dst src n m = (\<lambda>a. if a - dst < n then m (src + (a - dst)) else m a)"

text \<open>\<open>vmm_clone_pagemap\<close>, one function per loop body.\<close>

definition clone_pt_ent :: "u64 \<Rightarrow> u64 \<Rightarrow> u64 \<Rightarrow> pmm_state \<Rightarrow> pmm_state option" where
  "clone_pt_ent src_pt dst_pt i st =
    (let e = ent st src_pt i in
     if \<not> has e VMM_PRESENT then Some st
     else if has e VMM_SHARED then Some (set_ent dst_pt i e st)
     else if e AND PTE_PHYS_MASK < PMM_FREE_MIN_PHYS then Some st
     else case pmm_alloc_zero 1 st of
       None \<Rightarrow> None
     | Some (new_page, st1) \<Rightarrow>
         if new_page = 0 then Some st1
         else
           let st2 = st1\<lparr>kmem := mem_copy new_page (table_of st1 e) 0x1000 (kmem st1)\<rparr>
           in Some (set_ent dst_pt i (pmm_virt_to_phys new_page st2 OR
                (ent st2 src_pt i AND (0xFFF OR VMM_NOEXEC))) st2))"

definition clone_pd_ent :: "u64 \<Rightarrow> u64 \<Rightarrow> u64 \<Rightarrow> pmm_state \<Rightarrow> pmm_state option" where
  "clone_pd_ent src_pd dst_pd i st =
    (let e = ent st src_pd i; hp_mask = PTE_PHYS_MASK AND NOT 0x1FFFFF in
     if \<not> has e VMM_PRESENT then Some st
     else if has e VMM_PSE then
       case pmm_alloc 512 st of
         None \<Rightarrow> None
       | Some (new_hp, st1) \<Rightarrow>
           if new_hp = 0 then Some st1
           else
             let old_hp = pmm_phys_to_virt (e AND hp_mask) st1;
                 st2 = st1\<lparr>kmem := mem_copy new_hp old_hp (512 * 0x1000) (kmem st1)\<rparr>;
                 hp_flags = ent st2 src_pd i AND NOT hp_mask
             in Some (set_ent dst_pd i ((pmm_virt_to_phys new_hp st2 AND hp_mask) OR hp_flags) st2)
     else case alloc_table st of
       None \<Rightarrow> None
     | Some (dst_pt, st1) \<Rightarrow>
         let src_pt = table_of st e;
             st2 = set_ent dst_pd i (pmm_virt_to_phys dst_pt st1 OR (ent st1 src_pd i AND 0xFFF)) st1
         in foldo (clone_pt_ent src_pt dst_pt) (idx_list 0 512) st2)"

definition clone_pdpt_ent :: "u64 \<Rightarrow> u64 \<Rightarrow> u64 \<Rightarrow> pmm_state \<Rightarrow> pmm_state option" where
  "clone_pdpt_ent src_pdpt dst_pdpt i st =
    (let e = ent st src_pdpt i in
     if \<not> has e VMM_PRESENT then Some st
     else case alloc_table st of
       None \<Rightarrow> None
     | Some (dst_pd, st1) \<Rightarrow>
         let src_pd = table_of st e;
             st2 = set_ent dst_pdpt i (pmm_virt_to_phys dst_pd st1 OR (ent st1 src_pdpt i AND 0xFFF)) st1
         in foldo (clone_pd_ent src_pd dst_pd) (idx_list 0 512) st2)"

definition clone_pml4_ent :: "u64 \<Rightarrow> u64 \<Rightarrow> u64 \<Rightarrow> pmm_state \<Rightarrow> pmm_state option" where
  "clone_pml4_ent src_pml4 dst_pml4 i st =
    (let e = ent st src_pml4 i in
     if \<not> has e VMM_PRESENT then Some st
     else case alloc_table st of
       None \<Rightarrow> None
     | Some (dst_pdpt, st1) \<Rightarrow>
         let src_pdpt = table_of st e;
             st2 = set_ent dst_pml4 i (pmm_virt_to_phys dst_pdpt st1 OR (ent st1 src_pml4 i AND 0xFFF)) st1
         in foldo (clone_pdpt_ent src_pdpt dst_pdpt) (idx_list 0 512) st2)"

definition vmm_clone_pagemap ::
  "u64 \<Rightarrow> vmm_pagemap \<Rightarrow> pmm_state \<Rightarrow> (vmm_pagemap option \<times> pmm_state) option" where
  "vmm_clone_pagemap kernel_pml4 src st =
    (if map_addr src = 0 then Some (None, st)
     else case pmm_alloc_zero 1 st of
       None \<Rightarrow> None
     | Some (m, st1) \<Rightarrow>
         if m = 0 then Some (None, st1)
         else case alloc_table st1 of
           None \<Rightarrow> None
         | Some (root, st2) \<Rightarrow>
             let st3 = set_ent m 0 root st2;
                 dst = \<lparr>map_addr = m, pml4 = root\<rparr>;
                 st4 = fold (\<lambda>i s. set_ent root i (ent s kernel_pml4 i) s) (idx_list 256 512) st3
             in map_option (\<lambda>st5. (Some dst, st5))
                  (foldo (clone_pml4_ent (pml4 src) root) (idx_list 0 256) st4))"

text \<open>\<open>vmm_free_pagemap\<close>, one function per loop body.\<close>

definition free_phys :: "u64 \<Rightarrow> u64 \<Rightarrow> pmm_state \<Rightarrow> pmm_state option" where
  "free_phys phys pages st =
    (if phys \<ge> PMM_FREE_MIN_PHYS then pmm_free (pmm_phys_to_virt phys st) pages st else Some st)"

definition free_pt_ent :: "u64 \<Rightarrow> u64 \<Rightarrow> pmm_state \<Rightarrow> pmm_state option" where
  "free_pt_ent pt i st =
    (let e = ent st pt i in
     if \<not> has e VMM_PRESENT then Some st
     else if has e VMM_SHARED then Some st
     else free_phys (e AND PTE_PHYS_MASK) 1 st)"

definition free_pd_ent :: "u64 \<Rightarrow> u64 \<Rightarrow> pmm_state \<Rightarrow> pmm_state option" where
  "free_pd_ent pd i st =
    (let e = ent st pd i in
     if \<not> has e VMM_PRESENT then Some st
     else if has e VMM_PSE then free_phys (e AND PTE_PHYS_MASK AND NOT 0x1FFFFF) 512 st
     else case foldo (free_pt_ent (table_of st e)) (idx_list 0 512) st of
       None \<Rightarrow> None
     | Some st1 \<Rightarrow> free_phys (ent st1 pd i AND PTE_PHYS_MASK) 1 st1)"

definition free_pdpt_ent :: "u64 \<Rightarrow> u64 \<Rightarrow> pmm_state \<Rightarrow> pmm_state option" where
  "free_pdpt_ent pdpt i st =
    (let e = ent st pdpt i in
     if \<not> has e VMM_PRESENT then Some st
     else case foldo (free_pd_ent (table_of st e)) (idx_list 0 512) st of
       None \<Rightarrow> None
     | Some st1 \<Rightarrow> free_phys (ent st1 pdpt i AND PTE_PHYS_MASK) 1 st1)"

definition free_pml4_ent :: "u64 \<Rightarrow> u64 \<Rightarrow> pmm_state \<Rightarrow> pmm_state option" where
  "free_pml4_ent root i st =
    (let e = ent st root i in
     if \<not> has e VMM_PRESENT then Some st
     else case foldo (free_pdpt_ent (table_of st e)) (idx_list 0 512) st of
       None \<Rightarrow> None
     | Some st1 \<Rightarrow> free_phys (ent st1 root i AND PTE_PHYS_MASK) 1 st1)"

definition vmm_free_pagemap :: "vmm_pagemap \<Rightarrow> pmm_state \<Rightarrow> pmm_state option" where
  "vmm_free_pagemap pm st =
    (if map_addr pm = 0 \<or> pml4 pm = 0 then Some st
     else case foldo (free_pml4_ent (pml4 pm)) (idx_list 0 256) st of
       None \<Rightarrow> None
     | Some st1 \<Rightarrow> (case pmm_free (pml4 pm) 1 st1 of
         None \<Rightarrow> None
       | Some st2 \<Rightarrow> pmm_free (map_addr pm) 1 st2))"

text \<open>The two loops below step a wrapping address and may never reach their end: \<open>None\<close>.\<close>

definition wc_large :: "u64 \<Rightarrow> u64" where
  "wc_large e = (e AND NOT (0x8 OR 0x10 OR 0x1000)) OR (0x8 OR 0x1000)"

definition wc_small :: "u64 \<Rightarrow> u64" where
  "wc_small e = (e AND NOT (0x8 OR 0x10 OR 0x80)) OR (0x8 OR 0x80)"

partial_function (option) remap_wc_loop ::
  "vmm_pagemap \<Rightarrow> u64 \<Rightarrow> u64 \<Rightarrow> pmm_state \<Rightarrow> (bool \<times> pmm_state) option" where
  "remap_wc_loop pm v end st =
    (if v < end then
       let e4 = ent st (pml4 pm) (pml4_i v) in
       if \<not> has e4 VMM_PRESENT then Some (False, st)
       else let pdpt = table_of st e4; e3 = ent st pdpt (pdpt_i v) in
         if \<not> has e3 VMM_PRESENT then Some (False, st)
         else if has e3 VMM_PSE then
           remap_wc_loop pm ((v + 0x40000000) AND NOT 0x3FFFFFFF) end
             (set_ent pdpt (pdpt_i v) (wc_large e3) st)
         else let pd = table_of st e3; e2 = ent st pd (pd_i v) in
           if \<not> has e2 VMM_PRESENT then Some (False, st)
           else if has e2 VMM_PSE then
             remap_wc_loop pm ((v + 0x200000) AND NOT 0x1FFFFF) end
               (set_ent pd (pd_i v) (wc_large e2) st)
           else let pt = table_of st e2; e1 = ent st pt (pt_i v) in
             if \<not> has e1 VMM_PRESENT then Some (False, st)
             else remap_wc_loop pm (v + 4096) end (set_ent pt (pt_i v) (wc_small e1) st)
     else Some (True, st))"

definition vmm_remap_range_wc ::
  "vmm_pagemap \<Rightarrow> u64 \<Rightarrow> u64 \<Rightarrow> pmm_state \<Rightarrow> (bool \<times> pmm_state) option" where
  "vmm_remap_range_wc pm virt_base pages st =
    (if map_addr pm = 0 then Some (False, st)
     else remap_wc_loop pm virt_base (virt_base + pages * 4096) st)"

partial_function (option) prepare_loop ::
  "u64 \<Rightarrow> u64 \<Rightarrow> u64 \<Rightarrow> pmm_state \<Rightarrow> (bool \<times> pmm_state) option" where
  "prepare_loop kernel_pml4 v end st =
    (if v < end then
       case get_table kernel_pml4 (pml4_i v) 0 st of
         None \<Rightarrow> None
       | Some (pdpt, st1) \<Rightarrow>
           if pdpt = 0 then Some (False, st1)
           else case get_table pdpt (pdpt_i v) 0 st1 of
             None \<Rightarrow> None
           | Some (pd, st2) \<Rightarrow>
               if pd = 0 then Some (False, st2)
               else prepare_loop kernel_pml4 (v + 0x40000000) end st2
     else Some (True, st))"

definition vmm_prepare_kernel_range ::
  "u64 \<Rightarrow> u64 \<Rightarrow> u64 \<Rightarrow> pmm_state \<Rightarrow> (bool \<times> pmm_state) option" where
  "vmm_prepare_kernel_range kernel_pml4 virt sz st =
    prepare_loop kernel_pml4 virt (virt + sz) st"

end
