(* ===== verification/Vmm_Map.thy ===== *)
theory Vmm_Map
  imports Vmm
begin

text \<open>
  Correctness of mapping, unmapping and translation in \<open>vmm.c\<close>: a well-formed page-table tree, what
  \<open>get_table\<close> does to it, and the frame property of \<open>vmm_map_page\<close> and \<open>vmm_unmap_page\<close>.
\<close>

section \<open>Contract of the page source\<close>

text \<open>
  What the page-table code relies on: a page it is given is aligned, was free, is no longer free,
  is cleared, and nothing else in memory has changed.
\<close>

locale page_source =
  fixes inv :: "'s \<Rightarrow> bool" and free :: "'s \<Rightarrow> nat set" and mem :: "'s \<Rightarrow> u64 \<Rightarrow> u64"
    and base :: "'s \<Rightarrow> u64" and limit :: "'s \<Rightarrow> nat" and alloc :: "'s \<Rightarrow> (u64 \<times> 's) option"
  assumes alloc_page: "inv s \<Longrightarrow> alloc s = Some (p, s') \<Longrightarrow> p \<noteq> 0 \<Longrightarrow>
      inv s' \<and> base s' = base s \<and> limit s' = limit s \<and>
      4096 dvd unat (p - base s) \<and> unat (p - base s) < limit s \<and>
      unat (p - base s) div 4096 \<in> free s \<and> free s' = free s - {unat (p - base s) div 4096} \<and>
      mem s' = mem_zero p 4096 (mem s)"
begin

lemma alloc_fresh:
  assumes "inv s" and "alloc s = Some (p, s')" and "p \<noteq> 0" and "f \<notin> free s"
  shows "f \<noteq> unat (p - base s) div 4096" and "f \<notin> free s'"
proof -
  note page = alloc_page [OF assms(1-3)]
  then have "unat (p - base s) div 4096 \<in> free s" by blast
  with assms(4) show "f \<noteq> unat (p - base s) div 4096" by metis
  from page have "free s' = free s - {unat (p - base s) div 4096}" by blast
  with assms(4) show "f \<notin> free s'" by (simp only: Diff_iff simp_thms)
qed

lemma alloc_twice:
  assumes "inv s" and "alloc s = Some (p, s1)" and "p \<noteq> 0" and "alloc s1 = Some (q, s2)" and "q \<noteq> 0"
  shows "unat (p - base s) div 4096 \<noteq> unat (q - base s) div 4096"
proof -
  note page = alloc_page [OF assms(1-3)]
  then have s1: "inv s1" "base s1 = base s" "free s1 = free s - {unat (p - base s) div 4096}" by blast+
  have "unat (q - base s) div 4096 \<in> free s1" using alloc_page [OF s1(1) assms(4,5)] s1(2) by metis
  with s1(3) show ?thesis by (metis Diff_iff singletonI)
qed

lemma alloc_keeps_other:
  assumes "inv s" and "alloc s = Some (p, s')" and "p \<noteq> 0" and "\<not> a - p < 4096"
  shows "mem s' a = mem s a"
  using alloc_page [OF assms(1-3)] assms(4) by (simp add: mem_zero_def)

end

lemma free_set_diff:
  assumes "frames_distinct (A + B)"
  shows "set_mset A = set_mset (A + B) - set_mset B"
  using assms by (auto simp: frames_distinct_add)

lemma pmm_alloc_zero_spec:
  assumes inv: "pmm_inv s" and run: "pmm_alloc_zero 1 s = Some (p, s')" and p: "p \<noteq> 0"
  shows "pmm_inv s' \<and> same_geom s s' \<and> 4096 dvd unat (p - hhdm_offset s) \<and>
      unat (p - hhdm_offset s) < unat (mem_end s) \<and>
      unat (p - hhdm_offset s) div 4096 \<in># free_frames s \<and>
      set_mset (free_frames s') = set_mset (free_frames s) - {unat (p - hhdm_offset s) div 4096} \<and>
      kmem s' = mem_zero p 4096 (kmem s)"
proof -
  have one: "(1 :: u64) \<noteq> 0" "unat (1 :: u64) \<le> 2 ^ 13" by simp_all
  obtain order r st' where o: "pages_to_order 1 = Some (Some order)" "order \<le> 13"
    and al: "pmm_alloc 1 s = Some (r, st')"
    and c: "r = 0 \<and> st' = s \<and> (\<forall>k \<in> {order..13}. fl_blocks (orders s ! k) = []) \<or>
     r \<noteq> 0 \<and> range_ok s (r - hhdm_offset s) order \<and> pmm_inv st' \<and> same_geom s st' \<and>
     kmem st' = kmem s \<and> free_frames s = free_frames st' + range_frames (r - hhdm_offset s) order"
    by (rule pmm_alloc_spec [OF inv one])
  have ord: "order = 0" using o demo_orders by simp
  have s': "r = p" "s' = st'\<lparr>kmem := mem_zero p 4096 (kmem st')\<rparr>"
    using run al o p by (auto simp: pmm_alloc_zero_def PAGE_SIZE_def split: if_splits)
  let ?f = "unat (p - hhdm_offset s) div 4096"
  have R: "range_frames (p - hhdm_offset s) 0 = {#?f#}" by (simp add: range_frames_def)
  have c': "range_ok s (p - hhdm_offset s) 0" "pmm_inv st'" "same_geom s st'" "kmem st' = kmem s"
    and fr: "free_frames s = free_frames st' + {#?f#}" using c p s' R ord by auto
  have "frames_distinct (free_frames st' + {#?f#})" using inv fr by (simp add: pmm_inv_def)
  from free_set_diff [OF this] fr have "set_mset (free_frames st') = set_mset (free_frames s) - {?f}" by simp
  moreover have "unat (p - hhdm_offset s) < unat (mem_end s)" using c'(1) by (simp add: range_ok_def)
  ultimately show ?thesis using c' fr s' range_ok_page [OF c'(1)] by simp
qed

interpretation pmm1: page_source pmm_inv "\<lambda>s. set_mset (free_frames s)" kmem hhdm_offset
  "\<lambda>s. unat (mem_end s)" "pmm_alloc_zero 1"
proof
  fix s p s' assume "pmm_inv s" "pmm_alloc_zero 1 s = Some (p, s')" "p \<noteq> 0"
  note spec = pmm_alloc_zero_spec [OF this]
  then have "hhdm_offset s' = hhdm_offset s" "mem_end s' = mem_end s" by (simp_all add: same_geom_def)
  with spec show "pmm_inv s' \<and> hhdm_offset s' = hhdm_offset s \<and> unat (mem_end s') = unat (mem_end s) \<and>
      4096 dvd unat (p - hhdm_offset s) \<and> unat (p - hhdm_offset s) < unat (mem_end s) \<and>
      unat (p - hhdm_offset s) div 4096 \<in># free_frames s \<and>
      set_mset (free_frames s') = set_mset (free_frames s) - {unat (p - hhdm_offset s) div 4096} \<and>
      kmem s' = mem_zero p 4096 (kmem s)" by simp
qed

section \<open>Cells of tables\<close>

definition tbl_ok :: "pmm_state \<Rightarrow> u64 \<Rightarrow> bool" where
  "tbl_ok st t \<longleftrightarrow> t \<noteq> 0 \<and> 4096 dvd unat (t - hhdm_offset st) \<and> unat (t - hhdm_offset st) < 2 ^ 52 \<and>
     unat (t - hhdm_offset st) div 4096 \<notin># free_frames st"

lemma cell_offset:
  assumes "4096 dvd unat p" and "unat p < 2 ^ 52" and "i < (512 :: u64)"
  shows "unat (p + 8 * i) = unat p + 8 * unat i" and "8 * unat i < 4096"
proof -
  have i: "unat i < 512" using assms(3) by (simp add: word_less_nat_alt)
  then have "unat (8 * i) = 8 * unat i" by (simp add: unat_word_ariths)
  moreover have "unat p + 8 * unat i < 2 ^ 64" using i assms(2) by simp
  ultimately show "unat (p + 8 * i) = unat p + 8 * unat i" by (simp add: unat_add_lt)
  show "8 * unat i < 4096" using i by simp
qed

lemma cell_inj:
  assumes "4096 dvd unat (t - h)" "unat (t - h) < 2 ^ 52" "4096 dvd unat (t' - h)" "unat (t' - h) < 2 ^ 52"
    and "i < (512 :: u64)" "j < 512" and eq: "t + 8 * i = t' + 8 * j"
  shows "t = t' \<and> i = j"
proof -
  have "(t - h) + 8 * i = (t' - h) + 8 * j" using eq by (simp add: algebra_simps)
  then have e: "unat (t - h) + 8 * unat i = unat (t' - h) + 8 * unat j"
    by (simp only: cell_offset(1) [OF assms(1,2,5), symmetric] cell_offset(1) [OF assms(3,4,6), symmetric])
  have "(unat (t - h) + 8 * unat i) div 4096 = unat (t - h) div 4096"
    "(unat (t' - h) + 8 * unat j) div 4096 = unat (t' - h) div 4096"
    using assms(1,3) cell_offset(2) [OF assms(1,2,5)] cell_offset(2) [OF assms(3,4,6)]
    by (simp_all add: div_plus_div_distrib_dvd_left)
  with e have d: "unat (t - h) div 4096 = unat (t' - h) div 4096" by simp
  have "unat (t - h) = unat (t - h) div 4096 * 4096" by (rule dvd_div_mult_self [OF assms(1), symmetric])
  also have "\<dots> = unat (t' - h)" unfolding d by (rule dvd_div_mult_self [OF assms(3)])
  finally have u: "unat (t - h) = unat (t' - h)" .
  from u have "t - h = t' - h" by (rule unsigned_word_eqI)
  moreover have "i = j" using e u by (intro unsigned_word_eqI) simp
  ultimately show ?thesis by simp
qed

section \<open>The table tree\<close>

fun walk :: "pmm_state \<Rightarrow> u64 \<Rightarrow> u64 list \<Rightarrow> u64 option" where
  "walk st t [] = Some t"
| "walk st t (i # is) =
    (let e = ent st t i in
     if has e VMM_PRESENT \<and> \<not> has e VMM_PSE then walk st (table_of st e) is else None)"

text \<open>What translation reads of an entry.\<close>

definition core :: "u64 \<Rightarrow> bool \<times> bool \<times> u64" where
  "core e = (has e VMM_PRESENT, has e VMM_PSE, e AND PTE_PHYS_MASK)"

text \<open>The terminal entry on a path: how many indices are left and the address bits.\<close>

fun xl :: "pmm_state \<Rightarrow> u64 \<Rightarrow> u64 list \<Rightarrow> (nat \<times> u64) option" where
  "xl st t [] = None"
| "xl st t (i # is) =
    (let e = ent st t i in
     if \<not> has e VMM_PRESENT then None
     else if is = [] \<or> has e VMM_PSE then Some (length is, e AND PTE_PHYS_MASK)
     else xl st (table_of st e) is)"

definition idx_ok :: "u64 list \<Rightarrow> bool" where
  "idx_ok p \<longleftrightarrow> (\<forall>i \<in> set p. i < 512)"

definition vmm_wf :: "pmm_state \<Rightarrow> u64 \<Rightarrow> bool" where
  "vmm_wf st r \<longleftrightarrow> pmm_inv st \<and> unat (mem_end st) \<le> 2 ^ 52 \<and>
     (\<forall>i < 512. \<not> has (ent st r i) VMM_PSE) \<and>
     (\<forall>p t. idx_ok p \<longrightarrow> length p \<le> 3 \<longrightarrow> walk st r p = Some t \<longrightarrow> tbl_ok st t) \<and>
     (\<forall>p q t. idx_ok p \<longrightarrow> length p \<le> 3 \<longrightarrow> idx_ok q \<longrightarrow> length q \<le> 3 \<longrightarrow>
        walk st r p = Some t \<longrightarrow> walk st r q = Some t \<longrightarrow> p = q)"

lemma idx_ok_simps [simp]:
  "idx_ok []" "idx_ok (i # p) \<longleftrightarrow> i < 512 \<and> idx_ok p" "idx_ok (p @ q) \<longleftrightarrow> idx_ok p \<and> idx_ok q"
  by (auto simp: idx_ok_def)

lemma table_of_core: "hhdm_offset st' = hhdm_offset st \<Longrightarrow> core e = core e' \<Longrightarrow> table_of st' e = table_of st e'"
  by (simp add: table_of_def pmm_phys_to_virt_def core_def)

lemma walk_append: "walk st t (p @ q) = (case walk st t p of None \<Rightarrow> None | Some t' \<Rightarrow> walk st t' q)"
  by (induction p arbitrary: t) (auto simp: Let_def)

lemma xl_append: "walk st t p = Some t' \<Longrightarrow> is \<noteq> [] \<Longrightarrow> xl st t (p @ is) = xl st t' is"
  by (induction p arbitrary: t) (auto simp: Let_def split: if_splits)

text \<open>Paths whose entries keep their core keep their end and their translation.\<close>

lemma walk_cong:
  assumes "hhdm_offset st' = hhdm_offset st"
    and "\<And>q i rest t'. p = q @ i # rest \<Longrightarrow> walk st t q = Some t' \<Longrightarrow> core (ent st' t' i) = core (ent st t' i)"
  shows "walk st' t p = walk st t p"
  using assms(2)
proof (induction p arbitrary: t)
  case (Cons i p)
  have e: "core (ent st' t i) = core (ent st t i)" using Cons.prems [of "[]" i p t] by simp
  have "walk st' (table_of st (ent st t i)) p = walk st (table_of st (ent st t i)) p"
    if "has (ent st t i) VMM_PRESENT" "\<not> has (ent st t i) VMM_PSE"
    using that Cons.prems [of "i # _"] by (intro Cons.IH) (simp add: Let_def)
  with e table_of_core [OF assms(1) e] show ?case by (auto simp: Let_def core_def)
qed simp

lemma xl_cong:
  assumes "hhdm_offset st' = hhdm_offset st"
    and "\<And>q i rest t'. p = q @ i # rest \<Longrightarrow> walk st t q = Some t' \<Longrightarrow> core (ent st' t' i) = core (ent st t' i)"
  shows "xl st' t p = xl st t p"
  using assms(2)
proof (induction p arbitrary: t)
  case (Cons i p)
  have e: "core (ent st' t i) = core (ent st t i)" using Cons.prems [of "[]" i p t] by simp
  have "xl st' (table_of st (ent st t i)) p = xl st (table_of st (ent st t i)) p"
    if "has (ent st t i) VMM_PRESENT" "\<not> has (ent st t i) VMM_PSE"
    using that Cons.prems [of "i # _"] by (intro Cons.IH) (simp add: Let_def)
  with e table_of_core [OF assms(1) e] show ?case by (auto simp: Let_def core_def)
qed simp

lemma vmm_wfD:
  assumes "vmm_wf st r"
  shows "pmm_inv st" "unat (mem_end st) \<le> 2 ^ 52" "i < 512 \<Longrightarrow> \<not> has (ent st r i) VMM_PSE"
    "idx_ok p \<Longrightarrow> length p \<le> 3 \<Longrightarrow> walk st r p = Some t \<Longrightarrow> tbl_ok st t"
    "idx_ok p \<Longrightarrow> length p \<le> 3 \<Longrightarrow> idx_ok q \<Longrightarrow> length q \<le> 3 \<Longrightarrow>
       walk st r p = Some t \<Longrightarrow> walk st r q = Some t \<Longrightarrow> p = q"
  using assms unfolding vmm_wf_def by blast+

lemma ent_set_ent:
  assumes "tbl_ok st t" "tbl_ok st t'" "i < 512" "j < 512"
  shows "ent (set_ent t i e st) t' j = (if t' = t \<and> j = i then e else ent st t' j)"
  using cell_inj [of t "hhdm_offset st" t' i j] assms
  by (auto simp: ent_def set_ent_def tbl_ok_def)

lemma set_ent_fields [simp]:
  "hhdm_offset (set_ent t i e st) = hhdm_offset st" "mem_end (set_ent t i e st) = mem_end st"
  "free_frames (set_ent t i e st) = free_frames st" "pmm_inv (set_ent t i e st) = pmm_inv st"
  "tbl_ok (set_ent t i e st) = tbl_ok st" "same_geom st0 (set_ent t i e st) = same_geom st0 st"
  by (simp_all add: set_ent_def tbl_ok_def fun_eq_iff)

text \<open>Writing entry \<open>i\<close> of the table at path \<open>p\<close>, seen from any other place of the tree.\<close>

lemma set_ent_other:
  assumes wf: "vmm_wf st r" and p: "idx_ok p" "length p \<le> 3" "walk st r p = Some t" and i: "i < 512"
    and q: "idx_ok q" "length q \<le> 3" "walk st r q = Some t'" and j: "j < 512" and ne: "(q, j) \<noteq> (p, i)"
  shows "ent (set_ent t i e st) t' j = ent st t' j"
proof -
  have "t' = t \<Longrightarrow> q = p" using vmm_wfD(5) [OF wf q(1,2) p(1,2) q(3)] p(3) by simp
  with ne show ?thesis
    using ent_set_ent [OF vmm_wfD(4) [OF wf p] vmm_wfD(4) [OF wf q] i j, of e] by auto
qed

lemma set_ent_core:
  assumes wf: "vmm_wf st r" and p: "idx_ok p" "length p \<le> 3" "walk st r p = Some t" and i: "i < 512"
    and same: "length p = 3 \<or> core e = core (ent st t i)"
    and pse: "p \<noteq> [] \<or> \<not> has e VMM_PSE"
  shows "idx_ok q \<Longrightarrow> length q \<le> 3 \<Longrightarrow> walk (set_ent t i e st) r q = walk st r q"
    and "vmm_wf (set_ent t i e st) r"
    and "idx_ok js \<Longrightarrow> length js = 4 \<Longrightarrow> js \<noteq> p @ [i] \<or> core e = core (ent st t i) \<Longrightarrow>
      xl (set_ent t i e st) r js = xl st r js"
proof -
  let ?st' = "set_ent t i e st"
  have at: "ent ?st' t i = e"
    using vmm_wfD(4) [OF wf p] i by (simp add: ent_set_ent)
  have cell: "core (ent ?st' t' j) = core (ent st t' j)"
    if "idx_ok q" "length q \<le> 3" "walk st r q = Some t'" "j < 512"
      and "(q, j) \<noteq> (p, i) \<or> core e = core (ent st t i)" for q t' j
  proof (cases "(q, j) = (p, i)")
    case True
    with that p(3) at show ?thesis by simp
  next
    case False
    with set_ent_other [OF wf p i that(1-4)] show ?thesis by simp
  qed
  show w: "walk ?st' r q = walk st r q" if q: "idx_ok q" "length q \<le> 3" for q
    by (rule walk_cong) (use q same in \<open>auto intro!: cell\<close>)
  show "xl ?st' r js = xl st r js"
    if js: "idx_ok js" "length js = 4" "js \<noteq> p @ [i] \<or> core e = core (ent st t i)"
  proof (rule xl_cong)
    fix q j rest t'
    assume split: "js = q @ j # rest" and "walk st r q = Some t'"
    moreover have "length q \<le> 3" "idx_ok q" "j < 512" using split js by auto
    moreover have "(q, j) \<noteq> (p, i) \<or> core e = core (ent st t i)" using split js same by auto
    ultimately show "core (ent ?st' t' j) = core (ent st t' j)" by (intro cell) auto
  qed simp
  have "\<not> has (ent ?st' r k) VMM_PSE" if "k < 512" for k
  proof (cases "p = [] \<and> k = i")
    case True
    then show ?thesis using at pse p(3) by simp
  next
    case False
    then have "ent ?st' r k = ent st r k"
      using set_ent_other [OF wf p i, of "[]" r k e] that by auto
    then show ?thesis using vmm_wfD(3) [OF wf that] by simp
  qed
  then show "vmm_wf ?st' r"
    using wf w unfolding vmm_wf_def by simp
qed

section \<open>Flag bits\<close>

lemma idx9: "(x :: u64) AND 0x1FF < 512"
proof -
  have eq: "(0x1FF :: u64) = mask 9" by (simp add: mask_eq_exp_minus_1)
  have "unat (take_bit 9 x) < 512"
    by (simp only: unsigned_take_bit_eq) (simp add: take_bit_eq_mod)
  then have "take_bit 9 x < 512" by (simp add: word_less_nat_alt)
  then show ?thesis unfolding eq by (simp only: take_bit_eq_mask)
qed

lemma idx_lt [simp]: "pml4_i v < 512" "pdpt_i v < 512" "pd_i v < 512" "pt_i v < 512"
  by (simp_all add: pml4_i_def pdpt_i_def pd_i_def pt_i_def idx9)

lemma has_bit:
  "has e VMM_PRESENT \<longleftrightarrow> bit e 0" "has e VMM_USER \<longleftrightarrow> bit e 2" "has e VMM_PSE \<longleftrightarrow> bit e 7"
  "has e VMM_SHARED \<longleftrightarrow> bit e 9"
  using and_exp_eq_0_iff_not_bit [of e 0] and_exp_eq_0_iff_not_bit [of e 2]
    and_exp_eq_0_iff_not_bit [of e 7] and_exp_eq_0_iff_not_bit [of e 9]
  by (simp_all add: has_def VMM_PRESENT_def VMM_USER_def VMM_PSE_def VMM_SHARED_def)

lemma phys_mask_eq: "PTE_PHYS_MASK = mask 52 AND NOT (mask 12)"
  by (simp add: PTE_PHYS_MASK_def mask_eq_exp_minus_1)

lemma phys_mask_id:
  assumes "4096 dvd unat (p :: u64)" and "unat p < 2 ^ 52"
  shows "p AND PTE_PHYS_MASK = p"
proof -
  have "unat (take_bit 52 p) = unat p"
    using assms(2) by (simp only: unsigned_take_bit_eq take_bit_nat_eq_self)
  then have a: "p AND mask 52 = p" by (simp add: take_bit_eq_mask [symmetric] unsigned_word_eqI)
  have "unat (p AND NOT (PAGE_SIZE - 1)) = unat p"
    using assms(1) by (simp add: unat_page_floor)
  then have "p AND NOT (PAGE_SIZE - 1) = p" by (rule unsigned_word_eqI)
  then have b: "p AND NOT (mask 12) = p" by (simp add: PAGE_SIZE_def mask_eq_exp_minus_1)
  have "p AND PTE_PHYS_MASK = (p AND mask 52) AND NOT (mask 12)" by (simp only: phys_mask_eq and.assoc)
  also have "\<dots> = p" by (simp only: a b)
  finally show ?thesis .
qed

lemma page_low_bits:
  assumes "4096 dvd unat (p :: u64)" and "n < 12"
  shows "\<not> bit p n"
proof -
  have "bit (p AND 0xFFF) n \<longleftrightarrow> bit p n \<and> bit (mask 12 :: u64) n"
    by (simp add: bit_and_iff mask_eq_exp_minus_1)
  with page_aligned_mask [OF assms(1)] assms(2) show ?thesis by (auto simp: bit_mask_iff)
qed

text \<open>A fresh directory entry: present, not a large page, and its address bits are the table's.\<close>

lemma new_entry_core:
  assumes "4096 dvd unat (p :: u64)" and "unat p < 2 ^ 52"
  shows "core (p OR VMM_PRESENT OR VMM_WRITE OR (flags AND VMM_USER)) = (True, False, p)"
proof -
  let ?f = "VMM_PRESENT OR VMM_WRITE OR (flags AND VMM_USER)"
  have "flags AND VMM_USER AND PTE_PHYS_MASK = 0"
    by (simp add: and.assoc VMM_USER_def PTE_PHYS_MASK_def)
  then have f: "?f AND PTE_PHYS_MASK = 0"
    by (simp add: bit.conj_disj_distrib2 and.assoc VMM_PRESENT_def VMM_WRITE_def PTE_PHYS_MASK_def)
  have "(p OR ?f) AND PTE_PHYS_MASK = p"
    by (subst bit.conj_disj_distrib2) (simp only: f phys_mask_id [OF assms] or.right_neutral)
  moreover have "bit (p OR ?f) 0" by (simp add: bit_or_iff VMM_PRESENT_def)
  moreover have "\<not> bit (p OR ?f) 7"
    using page_low_bits [OF assms(1), of 7]
    by (simp add: bit_or_iff bit_and_iff VMM_PRESENT_def VMM_WRITE_def VMM_USER_def)
  ultimately show ?thesis by (simp add: core_def has_bit or.assoc)
qed

lemma user_entry_core: "core (e OR VMM_USER) = core e"
proof -
  have "VMM_USER AND PTE_PHYS_MASK = 0" by (simp add: VMM_USER_def PTE_PHYS_MASK_def)
  then have "(e OR VMM_USER) AND PTE_PHYS_MASK = e AND PTE_PHYS_MASK"
    by (simp add: bit.conj_disj_distrib2)
  then show ?thesis by (simp add: core_def has_bit bit_or_iff VMM_USER_def)
qed

section \<open>Extending the tree\<close>

lemma page_cell_other:
  assumes p: "unat (p - h) < 2 ^ 52" "4096 dvd unat (p - h)" and t: "4096 dvd unat (t - h)" "unat (t - h) < 2 ^ 52"
    and j: "j < (512 :: u64)" and ne: "unat (t - h) div 4096 \<noteq> unat (p - h) div 4096"
  shows "\<not> (t + 8 * j) - p < 4096"
proof
  let ?d = "(t + 8 * j) - p"
  assume "?d < 4096"
  then have d: "unat ?d < 4096" by (simp add: word_less_nat_alt)
  have eq: "(p - h) + ?d = (t - h) + 8 * j" by (simp add: algebra_simps)
  have "unat ((p - h) + ?d) = unat (p - h) + unat ?d" using p d by (intro unat_add_lt) simp
  then have "unat (p - h) + unat ?d = unat (t - h) + 8 * unat j"
    unfolding eq cell_offset(1) [OF t j] by (rule sym)
  moreover have "(unat (p - h) + unat ?d) div 4096 = unat (p - h) div 4096"
    using p(2) d by (simp add: div_plus_div_distrib_dvd_left)
  moreover have "(unat (t - h) + 8 * unat j) div 4096 = unat (t - h) div 4096"
    using t(1) cell_offset(2) [OF t j] by (simp add: div_plus_div_distrib_dvd_left)
  ultimately show False using ne by simp
qed

lemma alloc_table_spec:
  assumes wf: "vmm_wf st r" and run: "alloc_table st = Some (n, st1)"
  shows "pmm_inv st1" "same_geom st st1" "tbl_ok st1 n" "\<And>t. tbl_ok st t \<Longrightarrow> tbl_ok st1 t \<and> t \<noteq> n"
    "\<And>t j. tbl_ok st t \<Longrightarrow> j < 512 \<Longrightarrow> ent st1 t j = ent st t j" "\<And>j. j < 512 \<Longrightarrow> ent st1 n j = 0"
    "set_mset (free_frames st1) \<subseteq> set_mset (free_frames st)"
proof -
  from run have al: "pmm_alloc_zero 1 st = Some (n, st1)" and n: "n \<noteq> 0"
    by (auto simp: alloc_table_def split: option.splits if_splits)
  note spec = pmm_alloc_zero_spec [OF vmm_wfD(1) [OF wf] al n]
  show inv: "pmm_inv st1" and geom: "same_geom st st1" using spec by blast+
  have hh: "hhdm_offset st1 = hhdm_offset st" using geom by (simp add: same_geom_def)
  have lt: "unat (n - hhdm_offset st) < 2 ^ 52" using spec vmm_wfD(2) [OF wf] by linarith
  show "tbl_ok st1 n" using spec lt hh n by (simp add: tbl_ok_def)
  show sub: "set_mset (free_frames st1) \<subseteq> set_mset (free_frames st)" using spec by blast
  show "tbl_ok st1 t \<and> t \<noteq> n" if "tbl_ok st t" for t using that spec hh sub by (auto simp: tbl_ok_def)
  show "ent st1 t j = ent st t j" if t: "tbl_ok st t" and j: "j < 512" for t j
  proof -
    have "unat (t - hhdm_offset st) div 4096 \<noteq> unat (n - hhdm_offset st) div 4096"
      using t pmm1.alloc_fresh(1) [OF vmm_wfD(1) [OF wf] al n] by (auto simp: tbl_ok_def)
    with page_cell_other [of n "hhdm_offset st" t j] t j spec lt show ?thesis
      by (simp add: ent_def mem_zero_def tbl_ok_def)
  qed
  show "ent st1 n j = 0" if j: "j < 512" for j
  proof -
    have "unat (8 * j) < 4096" using j by (simp add: unat_word_ariths word_less_nat_alt)
    then show ?thesis using spec by (simp add: ent_def mem_zero_def word_less_nat_alt)
  qed
qed

text \<open>Linking an empty table that is not yet in the tree.\<close>

lemma link_table:
  assumes wf: "vmm_wf st r" and p: "idx_ok p" "length p \<le> 2" "walk st r p = Some t" and i: "i < 512"
    and absent: "\<not> has (ent st t i) VMM_PRESENT"
    and n: "tbl_ok st n" "\<And>j. j < 512 \<Longrightarrow> ent st n j = 0"
    and new: "\<And>q. idx_ok q \<Longrightarrow> length q \<le> 3 \<Longrightarrow> walk st r q \<noteq> Some n"
    and e: "core e = (True, False, n - hhdm_offset st)"
  shows "vmm_wf (set_ent t i e st) r" and "walk (set_ent t i e st) r (p @ [i]) = Some n"
    and "\<And>js. idx_ok js \<Longrightarrow> length js = 4 \<Longrightarrow> xl (set_ent t i e st) r js = xl st r js"
proof -
  let ?st' = "set_ent t i e st"
  have p3: "length p \<le> 3" using p(2) by simp
  have t: "tbl_ok st t" by (rule vmm_wfD(4) [OF wf p(1) p3 p(3)])
  have tn: "t \<noteq> n" using new [OF p(1) p3] p(3) by auto
  have at: "ent ?st' t i = e" using t i by (simp add: ent_set_ent)
  have zero: "ent ?st' n j = 0" if "j < 512" for j using that t n tn i by (auto simp: ent_set_ent)
  have to_n: "table_of ?st' e = n"
    using e by (simp add: table_of_def core_def pmm_phys_to_virt_def)
  have cell: "core (ent ?st' t' j) = core (ent st t' j)"
    if "idx_ok q" "length q \<le> 3" "walk st r q = Some t'" "j < 512" "(q, j) \<noteq> (p, i)" for q t' j
    using set_ent_other [OF wf p(1) p3 p(3) i that] by simp
  have path: "walk ?st' r p = Some t"
    using walk_cong [of ?st' st p r] p i cell by fastforce
  have under: "walk ?st' r (p @ i # rest) = (if rest = [] then Some n else None)"
    if "idx_ok rest" for rest
  proof -
    have "walk ?st' r (p @ i # rest) = walk ?st' n rest"
      using path at e to_n by (simp add: walk_append Let_def core_def)
    also have "\<dots> = (if rest = [] then Some n else None)"
      using that zero by (cases rest) (auto simp: Let_def has_def)
    finally show ?thesis .
  qed
  have away: "walk ?st' r q = walk st r q"
    if "idx_ok q" "length q \<le> 3" "\<nexists>rest. q = p @ i # rest" for q
    by (rule walk_cong) (use that in \<open>auto intro!: cell\<close>)
  show "walk ?st' r (p @ [i]) = Some n" using under [of "[]"] by simp
  have cases: "q = p @ [i] \<and> a = n \<or> walk st r q = Some a"
    if q: "idx_ok q" "length q \<le> 3" "walk ?st' r q = Some a" for q a
  proof (cases "\<exists>rest. q = p @ i # rest")
    case True
    then obtain rest where "q = p @ i # rest" by blast
    with under [of rest] q show ?thesis by (auto split: if_splits)
  next
    case False
    with away [OF q(1,2)] q(3) show ?thesis by simp
  qed
  have "\<not> has (ent ?st' r k) VMM_PSE" if "k < 512" for k
  proof (cases "p = [] \<and> k = i")
    case True
    then show ?thesis using at e p(3) by (simp add: core_def)
  next
    case False
    then have "ent ?st' r k = ent st r k"
      using set_ent_other [OF wf p(1) p3 p(3) i, of "[]" r k e] that by auto
    then show ?thesis using vmm_wfD(3) [OF wf that] by simp
  qed
  moreover have "tbl_ok st a" if "idx_ok q" "length q \<le> 3" "walk ?st' r q = Some a" for q a
    using cases [OF that] n(1) vmm_wfD(4) [OF wf that(1,2)] by blast
  moreover have "q = q'" if "idx_ok q" "length q \<le> 3" "idx_ok q'" "length q' \<le> 3"
    "walk ?st' r q = Some a" "walk ?st' r q' = Some a" for q q' a
    using cases [OF that(1,2,5)] cases [OF that(3,4,6)] new that vmm_wfD(5) [OF wf that(1-4)] by blast
  ultimately show "vmm_wf ?st' r" using wf by (simp add: vmm_wf_def)
  show "xl ?st' r js = xl st r js" if js: "idx_ok js" "length js = 4" for js
  proof (cases "\<exists>rest. js = p @ i # rest")
    case True
    then obtain rest where r: "js = p @ i # rest" by blast
    then have ne: "rest \<noteq> []" and ok: "idx_ok rest" using js p(2) by auto
    have "xl st r js = None" unfolding r using absent by (simp add: xl_append [OF p(3)])
    moreover have "xl ?st' r js = xl ?st' n rest"
      unfolding r using at e to_n ne by (simp add: xl_append [OF path] Let_def core_def)
    moreover have "xl ?st' n rest = None"
      using ne ok zero by (cases rest) (auto simp: Let_def has_def)
    ultimately show ?thesis by simp
  next
    case False
    show ?thesis
    proof (rule xl_cong)
      fix q j rest t'
      assume "js = q @ j # rest" "walk st r q = Some t'"
      with js False show "core (ent ?st' t' j) = core (ent st t' j)" by (intro cell [of q]) auto
    qed simp
  qed
qed

lemma alloc_table_wf:
  assumes wf: "vmm_wf st r" and run: "alloc_table st = Some (n, st1)"
  shows "vmm_wf st1 r" and "idx_ok q \<Longrightarrow> length q \<le> 3 \<Longrightarrow> walk st1 r q = walk st r q"
    and "idx_ok js \<Longrightarrow> length js = 4 \<Longrightarrow> xl st1 r js = xl st r js"
    and "idx_ok q \<Longrightarrow> length q \<le> 3 \<Longrightarrow> walk st1 r q \<noteq> Some n"
proof -
  note spec = alloc_table_spec [OF wf run]
  have hh: "hhdm_offset st1 = hhdm_offset st" "mem_end st1 = mem_end st"
    using spec(2) by (simp_all add: same_geom_def)
  have cell: "ent st1 t j = ent st t j"
    if "idx_ok q" "length q \<le> 3" "walk st r q = Some t" "j < 512" for q t j
    using spec(5) vmm_wfD(4) [OF wf that(1-3)] that(4) by blast
  show w: "walk st1 r q = walk st r q" if "idx_ok q" "length q \<le> 3" for q
    by (rule walk_cong [OF hh(1)]) (use that cell in auto)
  show "xl st1 r js = xl st r js" if "idx_ok js" "length js = 4"
    by (rule xl_cong [OF hh(1)]) (use that cell in auto)
  have "tbl_ok st1 t" if "idx_ok q" "length q \<le> 3" "walk st r q = Some t" for q t
    using spec(4) vmm_wfD(4) [OF wf that] by blast
  moreover have "\<not> has (ent st1 r i) VMM_PSE" if "i < 512" for i
    using cell [of "[]" r i] vmm_wfD(3) [OF wf that] that by simp
  ultimately show "vmm_wf st1 r" using wf w spec(1) hh unfolding vmm_wf_def by simp
  show "walk st1 r q \<noteq> Some n" if "idx_ok q" "length q \<le> 3"
    using w [OF that] spec(4) vmm_wfD(4) [OF wf that] by auto
qed

lemma get_table_spec:
  assumes wf: "vmm_wf st r" and p: "idx_ok p" "length p \<le> 2" "walk st r p = Some t" and i: "i < 512"
    and run: "get_table t i flags st = Some (n, st')"
  shows "vmm_wf st' r \<and> (n \<noteq> 0 \<longrightarrow> walk st' r (p @ [i]) = Some n) \<and> same_geom st st' \<and>
    set_mset (free_frames st') \<subseteq> set_mset (free_frames st) \<and>
    (\<forall>js. idx_ok js \<longrightarrow> length js = 4 \<longrightarrow> xl st' r js = xl st r js)"
proof -
  consider (large) "has (ent st t i) VMM_PRESENT" "has (ent st t i) VMM_PSE"
    | (table) "has (ent st t i) VMM_PRESENT" "\<not> has (ent st t i) VMM_PSE"
    | (absent) "\<not> has (ent st t i) VMM_PRESENT" by blast
  then show ?thesis
  proof cases
    case large
    with run have "n = 0" "st' = st" by (auto simp: get_table_def)
    with wf show ?thesis by simp
  next
    case table
    note True = table(1) and npse = table(2)
    have p3: "length p \<le> 3" using p(2) by simp
    let ?e = "if has flags VMM_USER then ent st t i OR VMM_USER else ent st t i"
    have core: "core ?e = core (ent st t i)" by (simp add: user_entry_core)
    have npse': "\<not> has ?e VMM_PSE" using core npse by (metis core_def prod.inject)
    note same = set_ent_core [OF wf p(1) p3 p(3) i disjI2 [OF core] disjI2 [OF npse']]
    have t: "tbl_ok st t" by (rule vmm_wfD(4) [OF wf p(1) p3 p(3)])
    have id: "set_ent t i (ent st t i) st = st" by (simp add: set_ent_def ent_def)
    have st': "st' = set_ent t i ?e st" and ret: "n = table_of st ?e"
      using run True npse t i id
      by (auto simp: get_table_def Let_def ent_set_ent table_of_def pmm_phys_to_virt_def split: if_splits)
    have "walk st' r (p @ [i]) = Some n"
      using same(1) [OF p(1) p3] p(3) core True npse t i ret
      by (simp add: st' walk_append Let_def ent_set_ent core_def table_of_def pmm_phys_to_virt_def split: if_splits)
    with same core show ?thesis by (simp add: st')
  next
    case absent
    note False = absent
    with run obtain m st1 where al: "alloc_table st = Some (m, st1)"
      and st': "st' = set_ent t i (pmm_virt_to_phys m st1 OR VMM_PRESENT OR VMM_WRITE OR (flags AND VMM_USER)) st1"
      and ret: "n = table_of st' (ent st' t i)"
      by (auto simp: get_table_def Let_def split: option.splits)
    note spec = alloc_table_spec [OF wf al] and wf1 = alloc_table_wf [OF wf al]
    have p3: "length p \<le> 3" using p(2) by simp
    have t: "tbl_ok st t" by (rule vmm_wfD(4) [OF wf p(1) p3 p(3)])
    have pw: "walk st1 r p = Some t" using wf1(2) [OF p(1) p3] p(3) by simp
    have core: "core (pmm_virt_to_phys m st1 OR VMM_PRESENT OR VMM_WRITE OR (flags AND VMM_USER)) =
        (True, False, m - hhdm_offset st1)"
      unfolding pmm_virt_to_phys_def using spec(3) by (intro new_entry_core) (simp_all add: tbl_ok_def)
    have abs1: "\<not> has (ent st1 t i) VMM_PRESENT" using False spec(5) [OF t i] by simp
    note link = link_table [OF wf1(1) p(1,2) pw i abs1 spec(3,6) wf1(4) core, folded st']
    have "n = m"
      using ret spec(4) [OF t] i core by (simp add: st' ent_set_ent table_of_def core_def pmm_phys_to_virt_def)
    with link wf1(3) spec(2,7) show ?thesis by (simp add: st')
  qed
qed

text \<open>A step to a table that is already there allocates nothing.\<close>

lemma get_table_present:
  assumes wf: "vmm_wf st r" and p: "idx_ok p" "length p \<le> 2" "walk st r p = Some t" and i: "i < 512"
    and step: "walk st r (p @ [i]) = Some n"
  obtains st' where "get_table t i flags st = Some (n, st')" "n \<noteq> 0" "vmm_wf st' r" "same_geom st st'"
    "free_frames st' = free_frames st" "\<forall>q. idx_ok q \<longrightarrow> length q \<le> 3 \<longrightarrow> walk st' r q = walk st r q"
proof -
  let ?e = "if has flags VMM_USER then ent st t i OR VMM_USER else ent st t i"
  have p3: "length p \<le> 3" using p(2) by simp
  have e: "has (ent st t i) VMM_PRESENT" "\<not> has (ent st t i) VMM_PSE" "table_of st (ent st t i) = n"
    using step p(3) by (auto simp: walk_append Let_def split: if_splits)
  have core: "core ?e = core (ent st t i)" by (simp add: user_entry_core)
  have npse: "\<not> has ?e VMM_PSE" using core e(2) by (metis core_def prod.inject)
  note same = set_ent_core [OF wf p(1) p3 p(3) i disjI2 [OF core] disjI2 [OF npse]]
  have t: "tbl_ok st t" by (rule vmm_wfD(4) [OF wf p(1) p3 p(3)])
  have "tbl_ok st n" using p i by (intro vmm_wfD(4) [OF wf _ _ step]) auto
  then have n0: "n \<noteq> 0" by (simp add: tbl_ok_def)
  have id: "set_ent t i (ent st t i) st = st" by (simp add: set_ent_def ent_def)
  have "table_of st ?e = n" using e(3) table_of_core [OF refl core] by simp
  then have "get_table t i flags st = Some (n, set_ent t i ?e st)"
    using e t i id
    by (auto simp: get_table_def Let_def ent_set_ent table_of_def pmm_phys_to_virt_def split: if_splits)
  then show thesis using that n0 same by simp
qed

lemma map_page_existing:
  assumes wf: "vmm_wf st (pml4 pm)" and pm: "map_addr pm \<noteq> 0"
    and pt: "walk st (pml4 pm) [pml4_i v, pdpt_i v, pd_i v] = Some pt"
  obtains st' where "vmm_map_page g pm v phys flags st = Some (True, st')" "free_frames st' = free_frames st"
proof -
  let ?r = "pml4 pm"
  obtain t3 t2 where w: "walk st ?r [pml4_i v] = Some t3" "walk st ?r [pml4_i v, pdpt_i v] = Some t2"
    using pt by (auto simp: Let_def split: if_splits)
  have r0: "?r \<noteq> 0" using vmm_wfD(4) [OF wf, of "[]"] by (simp add: tbl_ok_def)
  obtain st1 where 1: "get_table ?r (pml4_i v) flags st = Some (t3, st1)" "t3 \<noteq> 0" "vmm_wf st1 ?r"
    "same_geom st st1" "free_frames st1 = free_frames st"
    "\<forall>q. idx_ok q \<longrightarrow> length q \<le> 3 \<longrightarrow> walk st1 ?r q = walk st ?r q"
    by (rule get_table_present [OF wf, of "[]" ?r "pml4_i v" t3]) (use w in simp_all)
  have w1: "walk st1 ?r [pml4_i v] = Some t3" "walk st1 ?r [pml4_i v, pdpt_i v] = Some t2"
    "walk st1 ?r [pml4_i v, pdpt_i v, pd_i v] = Some pt"
    using 1(6) w pt by (simp_all del: walk.simps(2))
  obtain st2 where 2: "get_table t3 (pdpt_i v) flags st1 = Some (t2, st2)" "t2 \<noteq> 0" "vmm_wf st2 ?r"
    "same_geom st1 st2" "free_frames st2 = free_frames st1"
    "\<forall>q. idx_ok q \<longrightarrow> length q \<le> 3 \<longrightarrow> walk st2 ?r q = walk st1 ?r q"
    by (rule get_table_present [OF 1(3) _ _ w1(1), of "pdpt_i v" t2]) (use w1 in \<open>simp_all del: walk.simps(2)\<close>)
  have w2: "walk st2 ?r [pml4_i v, pdpt_i v] = Some t2" "walk st2 ?r [pml4_i v, pdpt_i v, pd_i v] = Some pt"
    using 2(6) w1 by (simp_all del: walk.simps(2))
  obtain st3 where 3: "get_table t2 (pd_i v) flags st2 = Some (pt, st3)" "pt \<noteq> 0" "vmm_wf st3 ?r"
    "same_geom st2 st3" "free_frames st3 = free_frames st2"
    "\<forall>q. idx_ok q \<longrightarrow> length q \<le> 3 \<longrightarrow> walk st3 ?r q = walk st2 ?r q"
    by (rule get_table_present [OF 2(3) _ _ w2(1), of "pd_i v" pt]) (use w2 in \<open>simp_all del: walk.simps(2)\<close>)
  show thesis
    by (rule that [of "set_ent pt (pt_i v) (((phys AND PTE_PHYS_MASK) OR flags OR VMM_PRESENT) AND g) st3"])
      (use pm r0 1 2 3 in \<open>simp_all add: vmm_map_page_def\<close>)
qed

section \<open>Mapping and translating a page\<close>

definition vidx :: "u64 \<Rightarrow> u64 list" where
  "vidx v = [pml4_i v, pdpt_i v, pd_i v, pt_i v]"

lemma vidx_ok [simp]: "idx_ok (vidx v)" "length (vidx v) = 4"
  by (simp_all add: vidx_def)

definition page_addr :: "u64 \<Rightarrow> (nat \<times> u64) option \<Rightarrow> u64 option" where
  "page_addr v x = map_option (\<lambda>(n, b).
     if n = 0 then b OR (v AND 0xFFF)
     else if n = 1 then (b AND NOT 0x1FFFFF) OR (v AND 0x1FFFFF)
     else (b AND NOT 0x3FFFFFFF) OR (v AND 0x3FFFFFFF)) x"

lemma virt_to_phys_xl:
  assumes "vmm_wf st (pml4 pm)" and "map_addr pm \<noteq> 0"
  shows "vmm_virt_to_phys pm v st = page_addr v (xl st (pml4 pm) (vidx v))"
  using assms(2) vmm_wfD(3) [OF assms(1) idx_lt(1)]
  by (simp add: vmm_virt_to_phys_def vidx_def page_addr_def Let_def and.assoc)

lemma map_page_tables:
  assumes wf: "vmm_wf st (pml4 pm)" and run: "vmm_map_page g pm v phys flags st = Some (ok, st')"
  obtains (no) st3 where "\<not> ok" "st' = st3" "vmm_wf st3 (pml4 pm)" "same_geom st st3"
    "set_mset (free_frames st3) \<subseteq> set_mset (free_frames st)"
    "\<And>js. idx_ok js \<Longrightarrow> length js = 4 \<Longrightarrow> xl st3 (pml4 pm) js = xl st (pml4 pm) js"
  | (yes) st3 pt where ok "walk st3 (pml4 pm) [pml4_i v, pdpt_i v, pd_i v] = Some pt"
    "st' = set_ent pt (pt_i v) (((phys AND PTE_PHYS_MASK) OR flags OR VMM_PRESENT) AND g) st3"
    "vmm_wf st3 (pml4 pm)" "same_geom st st3"
    "set_mset (free_frames st3) \<subseteq> set_mset (free_frames st)"
    "\<And>js. idx_ok js \<Longrightarrow> length js = 4 \<Longrightarrow> xl st3 (pml4 pm) js = xl st (pml4 pm) js"
proof (cases "map_addr pm = 0 \<or> pml4 pm = 0")
  case True
  with run have "\<not> ok" "st' = st" by (auto simp: vmm_map_page_def)
  with wf show thesis by (intro no [of st]) auto
next
  case False
  let ?r = "pml4 pm"
  from False run obtain t3 st1 where g1: "get_table ?r (pml4_i v) flags st = Some (t3, st1)"
    by (auto simp: vmm_map_page_def split: option.splits)
  have s1: "vmm_wf st1 ?r" "t3 \<noteq> 0 \<Longrightarrow> walk st1 ?r [pml4_i v] = Some t3" "same_geom st st1"
    "set_mset (free_frames st1) \<subseteq> set_mset (free_frames st)"
    "\<And>js. idx_ok js \<Longrightarrow> length js = 4 \<Longrightarrow> xl st1 ?r js = xl st ?r js"
    using get_table_spec [OF wf _ _ _ _ g1, of "[]"] by auto
  show thesis
  proof (cases "t3 = 0")
    case True
    with False run g1 have "\<not> ok" "st' = st1" by (auto simp: vmm_map_page_def)
    with s1 show thesis by (intro no [of st1]) auto
  next
    case t3: False
    from t3 False run g1 obtain t2 st2 where g2: "get_table t3 (pdpt_i v) flags st1 = Some (t2, st2)"
      by (auto simp: vmm_map_page_def split: option.splits)
    have s2: "vmm_wf st2 ?r" "t2 \<noteq> 0 \<Longrightarrow> walk st2 ?r [pml4_i v, pdpt_i v] = Some t2" "same_geom st1 st2"
      "set_mset (free_frames st2) \<subseteq> set_mset (free_frames st1)"
      "\<And>js. idx_ok js \<Longrightarrow> length js = 4 \<Longrightarrow> xl st2 ?r js = xl st1 ?r js"
      using get_table_spec [OF s1(1) _ _ s1(2) _ g2] t3 by auto
    show thesis
    proof (cases "t2 = 0")
      case True
      with t3 False run g1 g2 have "\<not> ok" "st' = st2" by (auto simp: vmm_map_page_def)
      with s1 s2 same_geom_trans show thesis by (intro no [of st2]) (auto simp: subset_iff)
    next
      case t2: False
      from t2 t3 False run g1 g2 obtain t1 st3 where g3: "get_table t2 (pd_i v) flags st2 = Some (t1, st3)"
        by (auto simp: vmm_map_page_def split: option.splits)
      have s3: "vmm_wf st3 ?r" "t1 \<noteq> 0 \<Longrightarrow> walk st3 ?r [pml4_i v, pdpt_i v, pd_i v] = Some t1"
        "same_geom st2 st3" "set_mset (free_frames st3) \<subseteq> set_mset (free_frames st2)"
        "\<And>js. idx_ok js \<Longrightarrow> length js = 4 \<Longrightarrow> xl st3 ?r js = xl st2 ?r js"
        using get_table_spec [OF s2(1) _ _ s2(2) _ g3] t2 by auto
      have geom: "same_geom st st3" using s1(3) s2(3) s3(3) same_geom_trans by blast
      show thesis
      proof (cases "t1 = 0")
        case True
        with t2 t3 False run g1 g2 g3 have "\<not> ok" "st' = st3" by (auto simp: vmm_map_page_def)
        with s1 s2 s3 geom show thesis by (intro no [of st3]) (auto simp: subset_iff)
      next
        case t1: False
        with t2 t3 False run g1 g2 g3 have "ok" "st' = set_ent t1 (pt_i v)
            (((phys AND PTE_PHYS_MASK) OR flags OR VMM_PRESENT) AND g) st3"
          by (auto simp: vmm_map_page_def)
        with s1 s2 s3 geom t1 show thesis by (intro yes [of st3 t1]) (auto simp: subset_iff)
      qed
    qed
  qed
qed

lemma map_page_spec:
  assumes wf: "vmm_wf st (pml4 pm)" and pm: "map_addr pm \<noteq> 0" and flags: "flags AND PTE_PHYS_MASK = 0"
    and g: "g = - 1 \<or> g = NOT VMM_NOEXEC" and run: "vmm_map_page g pm v phys flags st = Some (ok, st')"
  shows "vmm_wf st' (pml4 pm) \<and> (ok \<longrightarrow> vmm_virt_to_phys pm v st' = Some ((phys AND PTE_PHYS_MASK) OR (v AND 0xFFF))) \<and>
    (\<not> ok \<or> vidx w \<noteq> vidx v \<longrightarrow> vmm_virt_to_phys pm w st' = vmm_virt_to_phys pm w st) \<and>
    set_mset (free_frames st') \<subseteq> set_mset (free_frames st) \<and> same_geom st st'"
proof (rule map_page_tables [OF wf run])
  fix st3 assume "\<not> ok" "st' = st3" "vmm_wf st3 (pml4 pm)" "same_geom st st3"
    "set_mset (free_frames st3) \<subseteq> set_mset (free_frames st)"
    "\<And>js. idx_ok js \<Longrightarrow> length js = 4 \<Longrightarrow> xl st3 (pml4 pm) js = xl st (pml4 pm) js"
  then show ?thesis using wf pm by (simp add: virt_to_phys_xl)
next
  fix st3 pt assume yes: ok "walk st3 (pml4 pm) [pml4_i v, pdpt_i v, pd_i v] = Some pt"
    "st' = set_ent pt (pt_i v) (((phys AND PTE_PHYS_MASK) OR flags OR VMM_PRESENT) AND g) st3"
    "vmm_wf st3 (pml4 pm)" "same_geom st st3"
    "set_mset (free_frames st3) \<subseteq> set_mset (free_frames st)"
    "\<And>js. idx_ok js \<Longrightarrow> length js = 4 \<Longrightarrow> xl st3 (pml4 pm) js = xl st (pml4 pm) js"
  let ?e = "((phys AND PTE_PHYS_MASK) OR flags OR VMM_PRESENT) AND g"
  let ?p = "[pml4_i v, pdpt_i v, pd_i v]"
  have gm: "g AND PTE_PHYS_MASK = PTE_PHYS_MASK" "bit g 0"
    using g by (auto simp: PTE_PHYS_MASK_def VMM_NOEXEC_def bit_not_iff)
  have "?e AND PTE_PHYS_MASK = ((phys AND PTE_PHYS_MASK) OR flags OR VMM_PRESENT) AND PTE_PHYS_MASK"
    by (simp only: and.assoc gm)
  also have "\<dots> = phys AND PTE_PHYS_MASK"
    using flags by (simp add: bit.conj_disj_distrib2 and.assoc VMM_PRESENT_def PTE_PHYS_MASK_def)
  finally have em: "?e AND PTE_PHYS_MASK = phys AND PTE_PHYS_MASK" .
  have ep: "has ?e VMM_PRESENT"
    unfolding has_bit(1) using gm(2) by (simp add: bit_and_iff bit_or_iff VMM_PRESENT_def)
  have p3: "idx_ok ?p" "length ?p \<le> 3" "length ?p = 3 \<or> core ?e = core (ent st3 pt (pt_i v))" by simp_all
  have "?p \<noteq> [] \<or> \<not> has ?e VMM_PSE" by simp
  note upd = set_ent_core [OF yes(4) p3(1,2) yes(2) idx_lt(4) p3(3) this, folded yes(3)]
  have t: "tbl_ok st3 pt" using vmm_wfD(4) [OF yes(4) p3(1,2) yes(2)] .
  have pw: "walk st' (pml4 pm) ?p = Some pt" using upd(1) [OF p3(1,2)] yes(2) by simp
  have "xl st' (pml4 pm) (vidx v) = xl st' pt [pt_i v]"
    using xl_append [OF pw, of "[pt_i v]"] by (simp add: vidx_def)
  also have "\<dots> = Some (0, phys AND PTE_PHYS_MASK)"
    using em ep t by (simp add: yes(3) ent_set_ent)
  finally have "vmm_virt_to_phys pm v st' = Some ((phys AND PTE_PHYS_MASK) OR (v AND 0xFFF))"
    using upd(2) pm by (simp add: virt_to_phys_xl page_addr_def)
  moreover have "vmm_virt_to_phys pm w st' = vmm_virt_to_phys pm w st" if "vidx w \<noteq> vidx v"
    using upd(2) upd(3) [of "vidx w"] yes(7) [of "vidx w"] wf pm that by (simp add: virt_to_phys_xl vidx_def)
  ultimately show ?thesis
    using upd(2) yes by simp
qed

text \<open>Releasing a frame that is neither free nor a table of the tree.\<close>

lemma free_frame_wf:
  assumes wf: "vmm_wf st r" and range: "range_ok st phys 0"
    and nfree: "unat phys div 4096 \<notin># free_frames st"
    and nt: "\<forall>q t. idx_ok q \<longrightarrow> length q \<le> 3 \<longrightarrow> walk st r q = Some t \<longrightarrow> t \<noteq> pmm_phys_to_virt phys st"
  obtains st' where "pmm_free (pmm_phys_to_virt phys st) 1 st = Some st'" "vmm_wf st' r" "same_geom st st'"
    "free_frames st' = add_mset (unat phys div 4096) (free_frames st)"
    "\<forall>js. idx_ok js \<longrightarrow> length js = 4 \<longrightarrow> xl st' r js = xl st r js"
    "\<forall>q. idx_ok q \<longrightarrow> length q \<le> 3 \<longrightarrow> walk st' r q = walk st r q"
proof -
  note ntab = nt [rule_format]
  let ?a = "pmm_phys_to_virt phys st" and ?h = "hhdm_offset st" and ?f = "unat phys div 4096"
  have inv: "pmm_inv st" by (rule vmm_wfD(1) [OF wf])
  have ah: "?a - ?h = phys" by (simp add: pmm_phys_to_virt_def)
  have R: "range_frames phys 0 = {#?f#}" by (simp add: range_frames_def)
  have a0: "?a \<noteq> 0"
    using virt_nonzero [OF _ range] inv by (simp add: pmm_phys_to_virt_def pmm_inv_def blocks_ok_def)
  obtain st' where st': "pmm_free ?a 1 st = Some st'" "pmm_inv st'" "same_geom st st'"
      "free_frames st' = free_frames st + range_frames (?a - ?h) 0" "kmem st' = mem_zero ?a 64 (kmem st)"
    by (rule pmm_free_spec [OF inv a0, of 1 0]) (use range nfree in \<open>simp_all add: ah R demo_orders\<close>)
  have hh: "hhdm_offset st' = ?h" "mem_end st' = mem_end st" using st'(3) by (simp_all add: same_geom_def)
  have ff: "free_frames st' = add_mset ?f (free_frames st)" using st'(4) by (simp add: ah R)
  have plt: "unat phys < 2 ^ 52" using range vmm_wfD(2) [OF wf] by (simp add: range_ok_def)
  have sep: "unat (t - ?h) div 4096 \<noteq> ?f" if t: "tbl_ok st t" "t \<noteq> ?a" for t
  proof
    assume "unat (t - ?h) div 4096 = ?f"
    moreover have "4096 dvd unat (t - ?h)" "4096 dvd unat phys"
      using t range_ok_page [OF range] by (simp_all add: tbl_ok_def)
    ultimately have "unat (t - ?h) = unat phys" by (metis dvd_div_mult_self)
    then have "t - ?h = phys" by (rule unsigned_word_eqI)
    then show False using t by (auto simp: pmm_phys_to_virt_def algebra_simps)
  qed
  have ent: "ent st' t j = ent st t j"
    if "idx_ok q" "length q \<le> 3" "walk st r q = Some t" "j < 512" for q t j
  proof -
    have t: "tbl_ok st t" by (rule vmm_wfD(4) [OF wf that(1-3)])
    have "\<not> (t + 8 * j) - ?a < 4096"
      using page_cell_other [of ?a ?h t j] t that(4) sep [OF t ntab [OF that(1-3)]] plt range_ok_page [OF range]
      by (simp add: ah tbl_ok_def)
    then have "\<not> (t + 8 * j) - ?a < 64" by (simp add: word_less_nat_alt)
    then show ?thesis using st'(5) by (simp add: ent_def mem_zero_def)
  qed
  have w: "walk st' r q = walk st r q" if "idx_ok q" "length q \<le> 3" for q
    by (rule walk_cong [OF hh(1)]) (use that ent in auto)
  have x: "xl st' r js = xl st r js" if "idx_ok js" "length js = 4" for js
    by (rule xl_cong [OF hh(1)]) (use that ent in auto)
  have "tbl_ok st' t" if "idx_ok q" "length q \<le> 3" "walk st r q = Some t" for q t
    using vmm_wfD(4) [OF wf that] sep ntab [OF that] ff hh by (auto simp: tbl_ok_def)
  moreover have "\<not> has (ent st' r i) VMM_PSE" if "i < 512" for i
    using ent [of "[]" r i] vmm_wfD(3) [OF wf that] that by simp
  ultimately have "vmm_wf st' r" using wf w st'(2) hh unfolding vmm_wf_def by simp
  with st'(1,3) ff x w show thesis by (intro that [of st']) blast+
qed

section \<open>Unmapping a page\<close>

lemma walk_steps:
  assumes "walk st r [a, b, c] = Some pt"
  shows "has (ent st r a) VMM_PRESENT" "has (ent st (table_of st (ent st r a)) b) VMM_PRESENT"
    "has (ent st (table_of st (ent st (table_of st (ent st r a)) b)) c) VMM_PRESENT"
    "table_of st (ent st (table_of st (ent st (table_of st (ent st r a)) b)) c) = pt"
  using assms by (auto simp: Let_def split: if_splits)

lemma unmap_page_eq:
  assumes "walk st (pml4 pm) [pml4_i v, pdpt_i v, pd_i v] = Some pt" and "has (ent st pt (pt_i v)) VMM_PRESENT"
  shows "vmm_unmap_page pm v st =
    (let phys = ent st pt (pt_i v) AND PTE_PHYS_MASK; st1 = set_ent pt (pt_i v) 0 st in
     if \<not> has (ent st pt (pt_i v)) VMM_SHARED \<and> phys \<ge> PMM_FREE_MIN_PHYS
     then pmm_free (pmm_phys_to_virt phys st1) 1 st1 else Some st1)"
  using assms(2) walk_steps [OF assms(1)] by (simp add: vmm_unmap_page_def Let_def)

text \<open>The frame behind a leaf entry is the client's: managed, not free, and not a table.\<close>

definition owned_leaf :: "pmm_state \<Rightarrow> u64 \<Rightarrow> u64 \<Rightarrow> u64 \<Rightarrow> bool" where
  "owned_leaf st r pt e \<longleftrightarrow> has e VMM_PRESENT \<and> \<not> has e VMM_SHARED \<and> range_ok st (e AND PTE_PHYS_MASK) 0 \<and>
     unat (e AND PTE_PHYS_MASK) div 4096 \<notin># free_frames st \<and>
     (\<forall>q t. idx_ok q \<longrightarrow> length q \<le> 3 \<longrightarrow> walk st r q = Some t \<longrightarrow>
        t \<noteq> pmm_phys_to_virt (e AND PTE_PHYS_MASK) st)"

lemma unmap_page_spec:
  assumes wf: "vmm_wf st (pml4 pm)" and pm: "map_addr pm \<noteq> 0"
    and pt: "walk st (pml4 pm) [pml4_i v, pdpt_i v, pd_i v] = Some pt"
    and own: "owned_leaf st (pml4 pm) pt (ent st pt (pt_i v))"
  obtains st' where "vmm_unmap_page pm v st = Some st'" "vmm_wf st' (pml4 pm)" "same_geom st st'"
    "vmm_virt_to_phys pm v st' = None" "\<And>w. vidx w \<noteq> vidx v \<Longrightarrow> vmm_virt_to_phys pm w st' = vmm_virt_to_phys pm w st"
    "free_frames st' = add_mset (unat (ent st pt (pt_i v) AND PTE_PHYS_MASK) div 4096) (free_frames st)"
    "walk st' (pml4 pm) [pml4_i v, pdpt_i v, pd_i v] = Some pt"
proof -
  let ?p = "[pml4_i v, pdpt_i v, pd_i v]" and ?r = "pml4 pm" and ?e = "ent st pt (pt_i v)"
  let ?phys = "?e AND PTE_PHYS_MASK" and ?st1 = "set_ent pt (pt_i v) 0 st"
  have p3: "idx_ok ?p" "length ?p \<le> 3" "length ?p = 3 \<or> core 0 = core ?e" "?p \<noteq> [] \<or> \<not> has 0 VMM_PSE"
    by simp_all
  note upd = set_ent_core [OF wf p3(1,2) pt idx_lt(4) p3(3,4)]
  have t: "tbl_ok st pt" using vmm_wfD(4) [OF wf p3(1,2) pt] .
  have hh: "pmm_phys_to_virt ?phys ?st1 = pmm_phys_to_virt ?phys st" by (simp add: pmm_phys_to_virt_def)
  have own': "range_ok ?st1 ?phys 0" "unat ?phys div 4096 \<notin># free_frames ?st1"
    "\<forall>q t. idx_ok q \<longrightarrow> length q \<le> 3 \<longrightarrow> walk ?st1 ?r q = Some t \<longrightarrow> t \<noteq> pmm_phys_to_virt ?phys ?st1"
    using own upd(1) hh by (auto simp: owned_leaf_def range_ok_def)
  obtain st' where st': "pmm_free (pmm_phys_to_virt ?phys ?st1) 1 ?st1 = Some st'" "vmm_wf st' ?r"
    "same_geom ?st1 st'" "free_frames st' = add_mset (unat ?phys div 4096) (free_frames ?st1)"
    and xl': "\<forall>js. idx_ok js \<longrightarrow> length js = 4 \<longrightarrow> xl st' ?r js = xl ?st1 ?r js"
    and walk': "\<forall>q. idx_ok q \<longrightarrow> length q \<le> 3 \<longrightarrow> walk st' ?r q = walk ?st1 ?r q"
    by (rule free_frame_wf [OF upd(2) own'])
  have "\<not> ?phys < PMM_FREE_MIN_PHYS" using own range_ok_phys_min by (auto simp: owned_leaf_def)
  then have run: "vmm_unmap_page pm v st = Some st'"
    using unmap_page_eq [OF pt] own st'(1) by (simp add: owned_leaf_def Let_def not_less)
  have geom: "same_geom st st'" using st'(3) by (simp add: same_geom_def set_ent_def)
  have "walk ?st1 ?r ?p = Some pt" using upd(1) [OF p3(1,2)] pt by simp
  then have "xl ?st1 ?r (vidx v) = xl ?st1 pt [pt_i v]"
    using xl_append [of ?st1 ?r ?p pt "[pt_i v]"] by (simp add: vidx_def)
  also have "\<dots> = None" using t by (simp add: ent_set_ent has_def)
  finally have none: "vmm_virt_to_phys pm v st' = None"
    using st'(2) xl' pm by (simp add: virt_to_phys_xl page_addr_def)
  have "vmm_virt_to_phys pm w st' = vmm_virt_to_phys pm w st" if "vidx w \<noteq> vidx v" for w
  proof -
    have "vidx w \<noteq> ?p @ [pt_i v]" using that by (simp add: vidx_def [of v])
    with st'(2) xl' upd(3) [of "vidx w"] wf pm show ?thesis by (simp add: virt_to_phys_xl)
  qed
  moreover have "walk st' ?r ?p = Some pt" using walk' [rule_format, OF p3(1,2)] upd(1) [OF p3(1,2)] pt by (simp only:)
  ultimately show thesis using st'(4) by (intro that [OF run st'(2) geom none]) simp_all
qed

section \<open>A small address space\<close>

text \<open>
  On the four-page machine with its first page allocated: tables at 2 MiB, outside the managed memory,
  that map address 0; \<open>x\<close> is the page-directory entry, \<open>y\<close> the leaf.
\<close>

definition demo_pm :: vmm_pagemap where
  "demo_pm = \<lparr>map_addr = 0xffff800000210000, pml4 = 0xffff800000200000\<rparr>"

definition demo_vm :: "u64 \<Rightarrow> u64 \<Rightarrow> pmm_state" where
  "demo_vm x y = demo_s1\<lparr>kmem := (\<lambda>_. 0)(0xffff800000200000 := 0x201007, 0xffff800000201000 := 0x202007,
     0xffff800000202000 := x, 0xffff800000203000 := y)\<rparr>"

definition demo_tables :: "u64 list" where
  "demo_tables = [0xffff800000200000, 0xffff800000201000, 0xffff800000202000, 0xffff800000203000]"

lemma demo_run1: "pmm_run demo_pmm [] demo_s1 [(0xffff800000100000, 1)]"
proof -
  have 1: "pmm_alloc 1 demo_pmm = Some (0xffff800000100000, demo_s1)"
    unfolding demo_s1_def by (rule pmm_alloc_eq) (simp add: demo_orders, code_simp)
  from run_alloc [OF run_start [of demo_pmm "[]"] _ _ 1] show ?thesis by simp
qed

lemma demo_s1_facts:
  "pmm_inv demo_s1" "hhdm_offset demo_s1 = 0xffff800000000000" "mem_end demo_s1 = 0x104000"
  "set_mset (free_frames demo_s1) = {257, 258, 259}"
proof -
  note r = pmm_run_inv [OF demo_run1 demo_inv refl]
  show "pmm_inv demo_s1" using r by blast
  show hh: "hhdm_offset demo_s1 = 0xffff800000000000" "mem_end demo_s1 = 0x104000"
    using r by (simp_all add: same_geom_def demo_pmm_def)
  have "live_frames demo_s1 [(0xffff800000100000, 1)] = {#256#}"
    by (simp add: live_frames_def hh order_of_def demo_orders range_frames_def upt_rec del: mset_upt)
  with r have "{#256, 257, 258, 259#} = add_mset 256 (free_frames demo_s1)"
    by (simp add: demo_frames)
  then have "free_frames demo_s1 = {#257, 258, 259#}" by (metis add_mset_add_mset_same_iff)
  then show "set_mset (free_frames demo_s1) = {257, 258, 259}" by simp
qed

lemma demo_vm_fields [simp]:
  "pmm_inv (demo_vm x y)" "hhdm_offset (demo_vm x y) = 0xffff800000000000" "mem_end (demo_vm x y) = 0x104000"
  "set_mset (free_frames (demo_vm x y)) = {257, 258, 259}"
  by (simp_all add: demo_vm_def demo_s1_facts)

lemma demo_ent:
  assumes "t \<in> set demo_tables" and "i < 512"
  shows "ent (demo_vm x y) t i = (if i = 0 then kmem (demo_vm x y) t else 0)"
proof -
  have "t + 8 * i \<noteq> t'" if "t' \<in> set demo_tables" "i \<noteq> 0" for t'
  proof
    assume "t + 8 * i = t'"
    with cell_inj [of t "0xffff800000000000" t' i 0] assms that show False
      by (auto simp: demo_tables_def)
  qed
  then show ?thesis by (auto simp: ent_def demo_vm_def demo_tables_def)
qed

lemma demo_tables_ok: "t \<in> set demo_tables \<Longrightarrow> tbl_ok (demo_vm x y) t"
  by (auto simp: demo_tables_def tbl_ok_def)

lemma demo_walk:
  assumes "idx_ok p" and "length p \<le> 3" and "walk (demo_vm x y) 0xffff800000200000 p = Some t"
    and "x = 0x203007 \<or> x = 0x400087"
  shows "p = replicate (length p) 0 \<and> t = demo_tables ! length p"
proof -
  let ?st = "demo_vm x y"
  have k: "ent ?st 0xffff800000200000 0 = 0x201007" "ent ?st 0xffff800000201000 0 = 0x202007"
    "ent (demo_vm a y) 0xffff800000202000 0 = a" for a by (simp_all add: ent_def demo_vm_def)
  have step: "walk ?st s (i # q) = (if i = 0 then walk ?st s (0 # q) else None)"
    if "s \<in> set demo_tables" "i < 512" for s i q
    using demo_ent [OF that] by (auto simp: Let_def has_def)
  have at0: "walk ?st 0xffff800000200000 (0 # q) = walk ?st 0xffff800000201000 q"
    "walk ?st 0xffff800000201000 (0 # q) = walk ?st 0xffff800000202000 q" for q
    by (simp_all add: k has_def table_of_def pmm_phys_to_virt_def PTE_PHYS_MASK_def VMM_PRESENT_def VMM_PSE_def)
  have at2: "walk ?st 0xffff800000202000 (0 # q) = (if x = 0x203007 then walk ?st 0xffff800000203000 q else None)" for q
    by (rule disjE [OF assms(4)]) (simp_all add: k has_def table_of_def pmm_phys_to_virt_def PTE_PHYS_MASK_def
        VMM_PRESENT_def VMM_PSE_def)
  from assms(2) consider "p = []" | a where "p = [a]" | a b where "p = [a, b]" | a b c where "p = [a, b, c]"
    by (cases p; cases "tl p"; cases "tl (tl p)"; cases "tl (tl (tl p))") auto
  then show ?thesis
    using assms(1,3)
    by cases (auto simp: step at0 at2 demo_tables_def simp del: walk.simps(2) split: if_splits)
qed

lemma demo_wf:
  assumes "x = 0x203007 \<or> x = 0x400087"
  shows "vmm_wf (demo_vm x y) 0xffff800000200000"
  unfolding vmm_wf_def
proof (intro conjI allI impI)
  fix p t assume p: "idx_ok p" "length p \<le> 3" "walk (demo_vm x y) 0xffff800000200000 p = Some t"
  have "length p < length demo_tables" using p(2) by (simp add: demo_tables_def)
  with demo_walk [OF p assms] show "tbl_ok (demo_vm x y) t" by (intro demo_tables_ok) simp
next
  fix i :: u64 assume "i < 512"
  then show "\<not> has (ent (demo_vm x y) 0xffff800000200000 i) VMM_PSE"
    using demo_ent [of "0xffff800000200000" i x y]
    by (simp add: demo_tables_def has_def demo_vm_def VMM_PSE_def)
next
  fix p q t
  assume p: "idx_ok p" "length p \<le> 3" and q: "idx_ok q" "length q \<le> 3"
    and w: "walk (demo_vm x y) 0xffff800000200000 p = Some t" "walk (demo_vm x y) 0xffff800000200000 q = Some t"
  have "distinct demo_tables" "length demo_tables = 4" by (simp_all add: demo_tables_def)
  moreover have "length p < 4" "length q < 4" using p q by simp_all
  moreover note demo_walk [OF p w(1) assms] demo_walk [OF q w(2) assms]
  ultimately show "p = q" using nth_eq_iff_index_eq [of demo_tables "length p" "length q"] by metis
qed simp_all

section \<open>Properties\<close>

text \<open>C22: Mapping a page is exact. On a well-formed page-table tree, when \<open>vmm_map_page\<close> returns true the
  address translates to the given frame, the tree is still well formed, and no other page translates
  differently, although tables may have been allocated and linked on the way; when it returns false
  (a large page is in the way) no translation has changed at all.\<close>

theorem vmm_map_page_correct:
  assumes "vmm_wf st (pml4 pm)" and "map_addr pm \<noteq> 0" and "flags AND PTE_PHYS_MASK = 0"
    and "g = - 1 \<or> g = NOT VMM_NOEXEC" and "vmm_map_page g pm v phys flags st = Some (ok, st')"
  shows "vmm_wf st' (pml4 pm) \<and>
    (ok \<longrightarrow> vmm_virt_to_phys pm v st' = Some ((phys AND PTE_PHYS_MASK) OR (v AND 0xFFF))) \<and>
    (\<forall>w. \<not> ok \<or> vidx w \<noteq> vidx v \<longrightarrow> vmm_virt_to_phys pm w st' = vmm_virt_to_phys pm w st)"
  using map_page_spec [OF assms] by blast

text \<open>C23: Unmapping a page whose frame the address space owns removes exactly that translation and gives
  exactly that frame back to the allocator, leaving the tree well formed.\<close>

theorem vmm_unmap_page_correct:
  assumes "vmm_wf st (pml4 pm)" and "map_addr pm \<noteq> 0"
    and "walk st (pml4 pm) [pml4_i v, pdpt_i v, pd_i v] = Some pt"
    and "owned_leaf st (pml4 pm) pt (ent st pt (pt_i v))"
  shows "\<exists>st'. vmm_unmap_page pm v st = Some st' \<and> vmm_wf st' (pml4 pm) \<and>
    vmm_virt_to_phys pm v st' = None \<and>
    (\<forall>w. vidx w \<noteq> vidx v \<longrightarrow> vmm_virt_to_phys pm w st' = vmm_virt_to_phys pm w st) \<and>
    free_frames st' = add_mset (unat (ent st pt (pt_i v) AND PTE_PHYS_MASK) div 4096) (free_frames st)"
  by (rule unmap_page_spec [OF assms]) blast

text \<open>Unmapping inside a 2 MiB page does not unmap it: \<open>vmm_unmap_page_noflush\<close> takes the large page
  for a page table, overwrites one of its words with zero and leaves the translation in place.\<close>

theorem unmap_large_page_overwrites_data:
  assumes wf: "vmm_wf st (pml4 pm)" and pm: "map_addr pm \<noteq> 0"
    and pd: "walk st (pml4 pm) [pml4_i v, pdpt_i v] = Some pd"
    and e: "has (ent st pd (pd_i v)) VMM_PRESENT" "has (ent st pd (pd_i v)) VMM_PSE"
  shows "kmem (vmm_unmap_page_noflush pm v st) (table_of st (ent st pd (pd_i v)) + 8 * pt_i v) = 0 \<and>
    vmm_unmap_page_noflush pm v st = set_ent (table_of st (ent st pd (pd_i v))) (pt_i v) 0 st \<and>
    vmm_virt_to_phys pm v st \<noteq> None"
proof -
  have "has (ent st (pml4 pm) (pml4_i v)) VMM_PRESENT"
    "has (ent st (table_of st (ent st (pml4 pm) (pml4_i v))) (pdpt_i v)) VMM_PRESENT"
    "\<not> has (ent st (table_of st (ent st (pml4 pm) (pml4_i v))) (pdpt_i v)) VMM_PSE"
    "table_of st (ent st (table_of st (ent st (pml4 pm) (pml4_i v))) (pdpt_i v)) = pd"
    using pd by (auto simp: Let_def split: if_splits)
  with e pm show ?thesis
    by (simp add: vmm_unmap_page_noflush_def vmm_virt_to_phys_def Let_def set_ent_def)
qed

section \<open>Witnesses\<close>

theorem vmm_map_page_correct_witness:
  "map_option fst (vmm_map_page (- 1) demo_pm 0x8000000000 0x100000 7 (demo_vm 0x203007 0)) = Some True \<and>
   (\<exists>st'. vmm_map_page (- 1) demo_pm 0x8000000000 0x100000 7 (demo_vm 0x203007 0) = Some (True, st') \<and>
      vmm_virt_to_phys demo_pm 0x8000000000 st' = Some 0x100000)"
proof -
  have run: "map_option fst (vmm_map_page (- 1) demo_pm 0x8000000000 0x100000 7 (demo_vm 0x203007 0)) = Some True"
    by code_simp
  then obtain st' where
    st': "vmm_map_page (- 1) demo_pm 0x8000000000 0x100000 7 (demo_vm 0x203007 0) = Some (True, st')" by auto
  have "vmm_wf (demo_vm 0x203007 0) (pml4 demo_pm)" "map_addr demo_pm \<noteq> 0" "(7 :: u64) AND PTE_PHYS_MASK = 0"
    using demo_wf by (simp_all add: demo_pm_def PTE_PHYS_MASK_def)
  from vmm_map_page_correct [OF this _ st'] run st' show ?thesis by (simp add: PTE_PHYS_MASK_def)
qed

lemma demo_owned:
  "walk (demo_vm 0x203007 0x100007) (pml4 demo_pm) [pml4_i 0, pdpt_i 0, pd_i 0] = Some 0xffff800000203000"
  "ent (demo_vm 0x203007 0x100007) 0xffff800000203000 (pt_i 0) = 0x100007"
  "owned_leaf (demo_vm 0x203007 0x100007) (pml4 demo_pm) 0xffff800000203000 0x100007"
proof -
  show "walk (demo_vm 0x203007 0x100007) (pml4 demo_pm) [pml4_i 0, pdpt_i 0, pd_i 0] = Some 0xffff800000203000"
    by code_simp
  show "ent (demo_vm 0x203007 0x100007) 0xffff800000203000 (pt_i 0) = 0x100007" by code_simp
  have "t \<noteq> 0xffff800000100000"
    if "idx_ok q" "length q \<le> 3" "walk (demo_vm 0x203007 0x100007) 0xffff800000200000 q = Some t" for q t
  proof -
    have "length q < length demo_tables" using that(2) by (simp add: demo_tables_def)
    with demo_walk [OF that] have "t \<in> set demo_tables" by simp
    then show ?thesis by (auto simp: demo_tables_def)
  qed
  then show "owned_leaf (demo_vm 0x203007 0x100007) (pml4 demo_pm) 0xffff800000203000 0x100007"
    by (auto simp: owned_leaf_def has_def VMM_PRESENT_def VMM_SHARED_def PTE_PHYS_MASK_def range_ok_def
        demo_pm_def pmm_phys_to_virt_def)
qed

theorem vmm_unmap_page_correct_witness:
  "\<exists>st'. vmm_unmap_page demo_pm 0 (demo_vm 0x203007 0x100007) = Some st' \<and> vmm_virt_to_phys demo_pm 0 st' = None \<and>
     256 \<in># free_frames st'"
proof -
  have "vmm_wf (demo_vm 0x203007 0x100007) (pml4 demo_pm)" "map_addr demo_pm \<noteq> 0"
    using demo_wf by (simp_all add: demo_pm_def)
  from vmm_unmap_page_correct [OF this demo_owned(1)] demo_owned(2,3) show ?thesis
    by (auto simp: PTE_PHYS_MASK_def)
qed

theorem unmap_large_page_witness:
  "kmem (vmm_unmap_page_noflush demo_pm 0x5000 (demo_vm 0x400087 0)) (0xffff800000400000 + 8 * 5) = 0 \<and>
   vmm_virt_to_phys demo_pm 0x5000 (demo_vm 0x400087 0) \<noteq> None"
proof -
  have "vmm_wf (demo_vm 0x400087 0) (pml4 demo_pm)" "map_addr demo_pm \<noteq> 0"
    using demo_wf by (simp_all add: demo_pm_def)
  moreover have "walk (demo_vm 0x400087 0) (pml4 demo_pm) [pml4_i 0x5000, pdpt_i 0x5000] = Some 0xffff800000202000"
    by code_simp
  moreover have e: "ent (demo_vm 0x400087 0) 0xffff800000202000 (pd_i 0x5000) = 0x400087" by code_simp
  moreover have "has 0x400087 VMM_PRESENT" "has 0x400087 VMM_PSE" "pt_i 0x5000 = 5"
    "table_of (demo_vm 0x400087 0) 0x400087 = 0xffff800000400000"
    by (simp_all add: has_def VMM_PRESENT_def VMM_PSE_def pt_i_def table_of_def pmm_phys_to_virt_def PTE_PHYS_MASK_def)
  ultimately show ?thesis
    using unmap_large_page_overwrites_data [of "demo_vm 0x400087 0" demo_pm "0x5000" "0xffff800000202000"]
    by (simp add: set_ent_def)
qed

end
