(* ===== verification/Paging.thy ===== *)
theory Paging
  imports Vmm_Map
begin

text \<open>
  Ranges of pages, \<open>kernel/src/memory/paging.c\<close>, and the system calls \<open>brk\<close> and \<open>munmap\<close> that work on
  the caller's address space. Counted loops recurse on the number of rounds left; loops over a
  wrapping address are partial functions whose value \<open>None\<close> means that they do not end.
\<close>

section \<open>State\<close>

definition MAX_REGIONS :: nat where "MAX_REGIONS = 256"
definition MAX_RESERVED :: nat where "MAX_RESERVED = 64"
definition DEFAULT_ALLOC_BASE :: u64 where "DEFAULT_ALLOC_BASE = 0xFFFFFE0000000000"

record paging_region =
  virtual_start :: u64
  virtual_end :: u64
  physical_start :: u64
  reg_flags :: u64
  page_count :: u64
  allocated :: bool

text \<open>The used prefixes of the two arrays; their lengths are \<open>region_count\<close> and \<open>reserved_count\<close>.\<close>

record paging_state =
  regions :: "paging_region list"
  reserved_ranges :: "(u64 \<times> u64) list"
  next_alloc_virt :: u64

definition is_aligned :: "u64 \<Rightarrow> u64 \<Rightarrow> bool" where
  "is_aligned addr alignment \<longleftrightarrow> addr AND (alignment - 1) = 0"

definition ranges_overlap :: "u64 \<Rightarrow> u64 \<Rightarrow> u64 \<Rightarrow> u64 \<Rightarrow> bool" where
  "ranges_overlap s1 e1 s2 e2 \<longleftrightarrow> s1 < e2 \<and> s2 < e1"

definition is_range_reserved :: "u64 \<Rightarrow> u64 \<Rightarrow> paging_state \<Rightarrow> bool" where
  "is_range_reserved start end pg \<longleftrightarrow>
    (\<exists>r \<in> set (reserved_ranges pg). ranges_overlap start end (fst r) (snd r))"

definition paging_reserve_range :: "u64 \<Rightarrow> u64 \<Rightarrow> paging_state \<Rightarrow> bool \<times> paging_state" where
  "paging_reserve_range virt_start virt_end pg =
    (if length (reserved_ranges pg) \<ge> MAX_RESERVED then (False, pg)
     else if virt_start \<ge> virt_end then (False, pg)
     else if is_range_reserved virt_start virt_end pg then (False, pg)
     else (True, pg\<lparr>reserved_ranges := reserved_ranges pg @ [(virt_start, virt_end)]\<rparr>))"

definition paging_init :: paging_state where
  "paging_init = snd (paging_reserve_range 0xFFFFFFFF80000000 0xFFFFFFFFC0000000
     \<lparr>regions = [], reserved_ranges = [], next_alloc_virt = DEFAULT_ALLOC_BASE\<rparr>)"

section \<open>Ranges\<close>

partial_function (option) range_unmapped :: "vmm_pagemap \<Rightarrow> u64 \<Rightarrow> u64 \<Rightarrow> pmm_state \<Rightarrow> bool option" where
  "range_unmapped pm virt virt_end st =
    (if virt < virt_end then
       if vmm_virt_to_phys pm virt st \<noteq> None then Some False
       else range_unmapped pm (virt + PAGE_SIZE) virt_end st
     else Some True)"

definition paging_is_range_free ::
  "vmm_pagemap \<Rightarrow> u64 \<Rightarrow> u64 \<Rightarrow> paging_state \<Rightarrow> pmm_state \<Rightarrow> bool option" where
  "paging_is_range_free pm virt_start virt_end pg st =
    (if is_range_reserved virt_start virt_end pg then Some False
     else range_unmapped pm virt_start virt_end st)"

definition page_at :: "u64 \<Rightarrow> nat \<Rightarrow> u64" where
  "page_at base i = base + of_nat i * PAGE_SIZE"

text \<open>\<open>paging_unmap_range\<close>'s loop over the pages \<open>i, i + 1, ...\<close>, \<open>n\<close> of them.\<close>

fun unmap_pages :: "vmm_pagemap \<Rightarrow> u64 \<Rightarrow> nat \<Rightarrow> nat \<Rightarrow> pmm_state \<Rightarrow> pmm_state option" where
  "unmap_pages pm base i 0 st = Some st"
| "unmap_pages pm base i (Suc n) st =
    (case vmm_unmap_page pm (page_at base i) st of
       None \<Rightarrow> None
     | Some st' \<Rightarrow> unmap_pages pm base (Suc i) n st')"

definition paging_unmap_range :: "vmm_pagemap \<Rightarrow> u64 \<Rightarrow> u64 \<Rightarrow> pmm_state \<Rightarrow> (bool \<times> pmm_state) option" where
  "paging_unmap_range pm virt_start npages st =
    (if map_addr pm = 0 \<or> npages = 0 then Some (False, st)
     else map_option (Pair True) (unmap_pages pm virt_start 0 (unat npages) st))"

fun map_pages ::
  "u64 \<Rightarrow> vmm_pagemap \<Rightarrow> u64 \<Rightarrow> u64 \<Rightarrow> u64 \<Rightarrow> nat \<Rightarrow> nat \<Rightarrow> pmm_state \<Rightarrow> (bool \<times> pmm_state) option" where
  "map_pages g pm virt_start phys_start flags i 0 st = Some (True, st)"
| "map_pages g pm virt_start phys_start flags i (Suc n) st =
    (let virt = page_at virt_start i; phys = page_at phys_start i in
     case vmm_virt_to_phys pm virt st of
       Some existing_phys \<Rightarrow>
         if existing_phys \<noteq> phys then Some (False, st)
         else
           (case vmm_get_page_flags pm virt st of
              None \<Rightarrow> map_pages g pm virt_start phys_start flags (Suc i) n st
            | Some existing_flags \<Rightarrow>
                if \<not> has existing_flags VMM_PSE \<and> existing_flags \<noteq> flags AND 0xFFF then
                  (case vmm_unmap_page pm virt st of
                     None \<Rightarrow> None
                   | Some st1 \<Rightarrow>
                       (case vmm_map_page g pm virt phys flags st1 of
                          None \<Rightarrow> None
                        | Some (_, st2) \<Rightarrow> map_pages g pm virt_start phys_start flags (Suc i) n st2))
                else map_pages g pm virt_start phys_start flags (Suc i) n st)
     | None \<Rightarrow>
         (case vmm_map_page g pm virt phys flags st of
            None \<Rightarrow> None
          | Some (ok, st1) \<Rightarrow>
              if \<not> ok then map_option (Pair False) (unmap_pages pm virt_start 0 i st1)
              else map_pages g pm virt_start phys_start flags (Suc i) n st1))"

definition paging_map_range ::
  "u64 \<Rightarrow> vmm_pagemap \<Rightarrow> u64 \<Rightarrow> u64 \<Rightarrow> u64 \<Rightarrow> u64 \<Rightarrow> paging_state \<Rightarrow> pmm_state \<Rightarrow> (bool \<times> pmm_state) option" where
  "paging_map_range g pm virt_start phys_start npages flags pg st =
    (if map_addr pm = 0 \<or> npages = 0 then Some (False, st)
     else if \<not> is_aligned virt_start PAGE_SIZE \<or> \<not> is_aligned phys_start PAGE_SIZE then Some (False, st)
     else if is_range_reserved virt_start (virt_start + npages * PAGE_SIZE) pg then Some (False, st)
     else map_pages g pm virt_start phys_start flags 0 (unat npages) st)"

fun change_pages ::
  "u64 \<Rightarrow> vmm_pagemap \<Rightarrow> u64 \<Rightarrow> u64 \<Rightarrow> nat \<Rightarrow> nat \<Rightarrow> pmm_state \<Rightarrow> (bool \<times> pmm_state) option" where
  "change_pages g pm virt_start new_flags i 0 st = Some (True, st)"
| "change_pages g pm virt_start new_flags i (Suc n) st =
    (let virt = page_at virt_start i in
     case vmm_virt_to_phys pm virt st of
       None \<Rightarrow> Some (False, st)
     | Some phys \<Rightarrow>
         (case vmm_unmap_page pm virt st of
            None \<Rightarrow> None
          | Some st1 \<Rightarrow>
              (case vmm_map_page g pm virt phys new_flags st1 of
                 None \<Rightarrow> None
               | Some (ok, st2) \<Rightarrow>
                   if \<not> ok then Some (False, st2)
                   else change_pages g pm virt_start new_flags (Suc i) n st2)))"

definition paging_change_flags ::
  "u64 \<Rightarrow> vmm_pagemap \<Rightarrow> u64 \<Rightarrow> u64 \<Rightarrow> u64 \<Rightarrow> pmm_state \<Rightarrow> (bool \<times> pmm_state) option" where
  "paging_change_flags g pm virt_start npages new_flags st =
    (if map_addr pm = 0 \<or> npages = 0 then Some (False, st)
     else if \<not> is_aligned virt_start PAGE_SIZE then Some (False, st)
     else change_pages g pm virt_start new_flags 0 (unat npages) st)"

section \<open>Regions\<close>

text \<open>The outcome carries the index of the region; \<open>None\<close> inside is a null pointer.\<close>

definition paging_create_region ::
  "u64 \<Rightarrow> vmm_pagemap \<Rightarrow> u64 \<Rightarrow> u64 \<Rightarrow> u64 \<Rightarrow> paging_state \<Rightarrow> pmm_state \<Rightarrow>
   (nat option \<times> paging_state \<times> pmm_state) option" where
  "paging_create_region g pm virt_start sz flags pg st =
    (if length (regions pg) \<ge> MAX_REGIONS then Some (None, pg, st)
     else
       let npages = align_up sz PAGE_SIZE div PAGE_SIZE;
           virt_end = virt_start + npages * PAGE_SIZE
       in case paging_is_range_free pm virt_start virt_end pg st of
            None \<Rightarrow> None
          | Some False \<Rightarrow> Some (None, pg, st)
          | Some True \<Rightarrow>
              (case pmm_alloc_zero npages st of
                 None \<Rightarrow> None
               | Some (phys_mem, st1) \<Rightarrow>
                   if phys_mem = 0 then Some (None, pg, st1)
                   else
                     let phys_start = pmm_virt_to_phys phys_mem st1 in
                     (case paging_map_range g pm virt_start phys_start npages flags pg st1 of
                        None \<Rightarrow> None
                      | Some (False, st2) \<Rightarrow> map_option (\<lambda>st3. (None, pg, st3)) (pmm_free phys_mem npages st2)
                      | Some (True, st2) \<Rightarrow>
                          Some (Some (length (regions pg)),
                            pg\<lparr>regions := regions pg @
                              [\<lparr>virtual_start = virt_start, virtual_end = virt_end,
                                physical_start = phys_start, reg_flags = flags, page_count = npages,
                                allocated = True\<rparr>]\<rparr>, st2))))"

definition paging_destroy_region ::
  "vmm_pagemap \<Rightarrow> nat \<Rightarrow> paging_state \<Rightarrow> pmm_state \<Rightarrow> (bool \<times> paging_state \<times> pmm_state) option" where
  "paging_destroy_region pm k pg st =
    (let r = regions pg ! k in
     if map_addr pm = 0 \<or> \<not> allocated r then Some (False, pg, st)
     else case paging_unmap_range pm (virtual_start r) (page_count r) st of
       None \<Rightarrow> None
     | Some (_, st1) \<Rightarrow>
         (case pmm_free (pmm_phys_to_virt (physical_start r) st1) (page_count r) st1 of
            None \<Rightarrow> None
          | Some st2 \<Rightarrow>
              Some (True, pg\<lparr>regions := (regions pg)[k := \<lparr>virtual_start = 0, virtual_end = 0,
                physical_start = 0, reg_flags = 0, page_count = 0, allocated = False\<rparr>]\<rparr>, st2)))"

partial_function (option) find_free_range ::
  "vmm_pagemap \<Rightarrow> u64 \<Rightarrow> u64 \<Rightarrow> paging_state \<Rightarrow> pmm_state \<Rightarrow> u64 option" where
  "find_free_range pm virt_start npages pg st =
    (case paging_is_range_free pm virt_start (virt_start + npages * PAGE_SIZE) pg st of
       None \<Rightarrow> None
     | Some free \<Rightarrow> if free then Some virt_start
         else find_free_range pm (virt_start + PAGE_SIZE) npages pg st)"

definition alloc_at ::
  "u64 \<Rightarrow> vmm_pagemap \<Rightarrow> u64 \<Rightarrow> u64 \<Rightarrow> u64 \<Rightarrow> paging_state \<Rightarrow> pmm_state \<Rightarrow> (u64 \<times> paging_state \<times> pmm_state) option" where
  "alloc_at g pm virt_start npages flags pg st =
    (case pmm_alloc_zero npages st of
       None \<Rightarrow> None
     | Some (phys_mem, st1) \<Rightarrow>
         if phys_mem = 0 then Some (0, pg, st1)
         else case paging_map_range g pm virt_start (pmm_virt_to_phys phys_mem st1) npages flags pg st1 of
           None \<Rightarrow> None
         | Some (ok, st2) \<Rightarrow>
             if \<not> ok then map_option (\<lambda>st3. (0, pg, st3)) (pmm_free phys_mem npages st2)
             else Some (virt_start, pg, st2))"

definition paging_alloc_pages ::
  "u64 \<Rightarrow> vmm_pagemap \<Rightarrow> u64 \<Rightarrow> u64 \<Rightarrow> u64 \<Rightarrow> paging_state \<Rightarrow> pmm_state \<Rightarrow> (u64 \<times> paging_state \<times> pmm_state) option" where
  "paging_alloc_pages g pm npages flags preferred_virt pg st =
    (if map_addr pm = 0 \<or> npages = 0 then Some (0, pg, st)
     else if preferred_virt \<noteq> 0 then
       let virt_start = align_up preferred_virt PAGE_SIZE in
       case paging_is_range_free pm virt_start (virt_start + npages * PAGE_SIZE) pg st of
         None \<Rightarrow> None
       | Some free \<Rightarrow> if \<not> free then Some (0, pg, st) else alloc_at g pm virt_start npages flags pg st
     else case find_free_range pm (next_alloc_virt pg) npages pg st of
       None \<Rightarrow> None
     | Some virt_start \<Rightarrow>
         alloc_at g pm virt_start npages flags (pg\<lparr>next_alloc_virt := virt_start + npages * PAGE_SIZE\<rparr>) st)"

definition paging_free_pages :: "vmm_pagemap \<Rightarrow> u64 \<Rightarrow> u64 \<Rightarrow> pmm_state \<Rightarrow> pmm_state option" where
  "paging_free_pages pm virt_addr npages st =
    (if map_addr pm = 0 \<or> virt_addr = 0 \<or> npages = 0 then Some st
     else map_option snd (paging_unmap_range pm virt_addr npages st))"

section \<open>\<open>munmap\<close> and \<open>brk\<close>\<close>

text \<open>The part of the caller's task that the two calls use.\<close>

record user_mm =
  is_userspace :: bool
  pagemap :: vmm_pagemap
  brk_start :: u64
  brk_current :: u64
  brk_max :: u64

text \<open>\<open>sys_munmap\<close> checks the alignment of the address but not that it is a user address.\<close>

definition sys_munmap :: "u64 \<Rightarrow> u64 \<Rightarrow> user_mm option \<Rightarrow> pmm_state \<Rightarrow> (int result \<times> pmm_state) option" where
  "sys_munmap addr len cur st =
    (case cur of
       None \<Rightarrow> Some (Inl EINVAL, st)
     | Some t \<Rightarrow>
         if \<not> is_userspace t \<or> addr AND 0xFFF \<noteq> 0 \<or> len = 0 then Some (Inl EINVAL, st)
         else
           let pages = drop_bit 12 (len + 0xFFF)
           in map_option (Pair (Inr 0)) (unmap_pages (pagemap t) addr 0 (unat pages) st))"

partial_function (option) brk_grow ::
  "u64 \<Rightarrow> vmm_pagemap \<Rightarrow> u64 \<Rightarrow> u64 \<Rightarrow> pmm_state \<Rightarrow> (bool \<times> pmm_state) option" where
  "brk_grow g pm p new_page st =
    (if p < new_page then
       case pmm_alloc_zero 1 st of
         None \<Rightarrow> None
       | Some (ph, st1) \<Rightarrow>
           if ph = 0 then Some (False, st1)
           else case vmm_map_page g pm p (pmm_virt_to_phys ph st1)
                       (VMM_PRESENT OR VMM_WRITE OR VMM_USER OR VMM_NOEXEC) st1 of
             None \<Rightarrow> None
           | Some (ok, st2) \<Rightarrow>
               if \<not> ok then map_option (Pair False) (pmm_free ph 1 st2)
               else brk_grow g pm (p + 0x1000) new_page st2
     else Some (True, st))"

partial_function (option) brk_shrink :: "vmm_pagemap \<Rightarrow> u64 \<Rightarrow> u64 \<Rightarrow> pmm_state \<Rightarrow> pmm_state option" where
  "brk_shrink pm p old_page st =
    (if p < old_page then
       case vmm_unmap_page pm p st of
         None \<Rightarrow> None
       | Some st1 \<Rightarrow> brk_shrink pm (p + 0x1000) old_page st1
     else Some st)"

definition sys_brk ::
  "u64 \<Rightarrow> u64 \<Rightarrow> user_mm option \<Rightarrow> pmm_state \<Rightarrow> (u64 result \<times> user_mm option \<times> pmm_state) option" where
  "sys_brk g new_brk cur st =
    (case cur of
       None \<Rightarrow> Some (Inl EINVAL, cur, st)
     | Some t \<Rightarrow>
         if \<not> is_userspace t then Some (Inl EINVAL, cur, st)
         else if new_brk = 0 then Some (Inr (brk_current t), cur, st)
         else if new_brk < brk_start t \<or> new_brk > brk_max t then Some (Inr (brk_current t), cur, st)
         else
           let old_brk = brk_current t;
               old_page = (old_brk + 0xFFF) AND NOT 0xFFF;
               new_page = (new_brk + 0xFFF) AND NOT 0xFFF
           in if new_brk > old_brk then
                (case brk_grow g (pagemap t) old_page new_page st of
                   None \<Rightarrow> None
                 | Some (ok, st1) \<Rightarrow>
                     if \<not> ok then Some (Inr (brk_current t), cur, st1)
                     else Some (Inr new_brk, Some (t\<lparr>brk_current := new_brk\<rparr>), st1))
              else
                map_option (\<lambda>st1. (Inr new_brk, Some (t\<lparr>brk_current := new_brk\<rparr>), st1))
                  (brk_shrink (pagemap t) new_page old_page st))"

section \<open>Properties\<close>

lemma page_at_0 [simp]: "page_at base 0 = base"
  by (simp add: page_at_def)

text \<open>The translation that the leaf entry of an owned page gives.\<close>

lemma owned_translation:
  assumes wf: "vmm_wf st (pml4 pm)" and pm: "map_addr pm \<noteq> 0"
    and pt: "walk st (pml4 pm) [pml4_i v, pdpt_i v, pd_i v] = Some pt"
    and own: "owned_leaf st (pml4 pm) pt (ent st pt (pt_i v))"
  shows "vmm_virt_to_phys pm v st = Some ((ent st pt (pt_i v) AND PTE_PHYS_MASK) OR (v AND 0xFFF))"
proof -
  have "xl st (pml4 pm) (vidx v) = xl st pt [pt_i v]"
    using xl_append [OF pt, of "[pt_i v]"] by (simp add: vidx_def)
  also have "\<dots> = Some (0, ent st pt (pt_i v) AND PTE_PHYS_MASK)" using own by (simp add: owned_leaf_def Let_def)
  finally show ?thesis using wf pm by (simp add: virt_to_phys_xl page_addr_def)
qed

text \<open>Changing the flags of a page gives its frame away. \<open>paging_change_flags\<close> unmaps the page, which
  releases the frame, and maps it again: afterwards the address still translates to the frame and the
  frame is on the free lists, ready to be handed to someone else.\<close>

theorem change_flags_leaves_frame_free:
  assumes wf: "vmm_wf st (pml4 pm)" and pm: "map_addr pm \<noteq> 0" and al: "is_aligned v PAGE_SIZE"
    and pt: "walk st (pml4 pm) [pml4_i v, pdpt_i v, pd_i v] = Some pt"
    and own: "owned_leaf st (pml4 pm) pt (ent st pt (pt_i v))"
    and fl: "new_flags AND PTE_PHYS_MASK = 0" and g: "g = - 1 \<or> g = NOT VMM_NOEXEC"
  shows "\<exists>st'. paging_change_flags g pm v 1 new_flags st = Some (True, st') \<and>
    vmm_virt_to_phys pm v st' = Some (ent st pt (pt_i v) AND PTE_PHYS_MASK) \<and>
    unat (ent st pt (pt_i v) AND PTE_PHYS_MASK) div 4096 \<in># free_frames st'"
proof -
  let ?phys = "ent st pt (pt_i v) AND PTE_PHYS_MASK"
  have off: "v AND 0xFFF = 0" using al by (simp add: is_aligned_def PAGE_SIZE_def)
  have tr: "vmm_virt_to_phys pm v st = Some ?phys" using owned_translation [OF wf pm pt own] off by simp
  obtain st1 where un: "vmm_unmap_page pm v st = Some st1" and wf1: "vmm_wf st1 (pml4 pm)"
    and ff: "free_frames st1 = add_mset (unat ?phys div 4096) (free_frames st)"
    and pt1: "walk st1 (pml4 pm) [pml4_i v, pdpt_i v, pd_i v] = Some pt"
    by (rule unmap_page_spec [OF wf pm pt own])
  obtain st2 where mp: "vmm_map_page g pm v ?phys new_flags st1 = Some (True, st2)"
    and ff2: "free_frames st2 = free_frames st1" by (rule map_page_existing [OF wf1 pm pt1])
  from map_page_spec [OF wf1 pm fl g mp] have "vmm_virt_to_phys pm v st2 = Some ?phys"
    using off by (simp add: and.assoc)
  then show ?thesis
    using pm al tr un mp ff ff2 by (simp add: paging_change_flags_def Let_def)
qed

text \<open>\<open>munmap\<close> by a user task reaches kernel pages: for any page-aligned address, the upper half
  included, whose frame is managed memory that is neither free nor a page table, the call succeeds,
  the translation is gone and the frame is free.\<close>

theorem munmap_takes_any_page:
  assumes wf: "vmm_wf st (pml4 (pagemap t))" and pm: "map_addr (pagemap t) \<noteq> 0"
    and user: "is_userspace t" and al: "addr AND 0xFFF = 0"
    and pt: "walk st (pml4 (pagemap t)) [pml4_i addr, pdpt_i addr, pd_i addr] = Some pt"
    and own: "owned_leaf st (pml4 (pagemap t)) pt (ent st pt (pt_i addr))"
  shows "\<exists>st'. sys_munmap addr 0x1000 (Some t) st = Some (Inr 0, st') \<and>
    vmm_virt_to_phys (pagemap t) addr st' = None \<and>
    unat (ent st pt (pt_i addr) AND PTE_PHYS_MASK) div 4096 \<in># free_frames st'"
proof -
  obtain st1 where un: "vmm_unmap_page (pagemap t) addr st = Some st1"
    and none: "vmm_virt_to_phys (pagemap t) addr st1 = None"
    and ff: "free_frames st1 = add_mset (unat (ent st pt (pt_i addr) AND PTE_PHYS_MASK) div 4096) (free_frames st)"
    by (rule unmap_page_spec [OF wf pm pt own])
  have "unat (drop_bit 12 ((0x1000 :: u64) + 0xFFF)) = Suc 0" by simp
  then show ?thesis using un none ff user al by (simp add: sys_munmap_def Let_def)
qed

text \<open>\<open>brk\<close> keeps the program break inside its limits, and its result is the break afterwards.\<close>

theorem brk_in_limits:
  assumes "sys_brk g new_brk (Some t) st = Some (Inr r, Some t', st')"
    and "brk_start t \<le> brk_current t" and "brk_current t \<le> brk_max t"
  shows "r = brk_current t' \<and> brk_start t' = brk_start t \<and> brk_max t' = brk_max t \<and>
    brk_start t' \<le> brk_current t' \<and> brk_current t' \<le> brk_max t'"
  using assms by (auto simp: sys_brk_def Let_def not_less split: if_splits option.splits)

section \<open>Witnesses\<close>

lemma demo_wf_pm: "vmm_wf (demo_vm 0x203007 0x100007) (pml4 demo_pm)" "map_addr demo_pm \<noteq> 0"
  using demo_wf by (simp_all add: demo_pm_def)

theorem change_flags_witness:
  "\<exists>st'. paging_change_flags (- 1) demo_pm 0 1 5 (demo_vm 0x203007 0x100007) = Some (True, st') \<and>
     vmm_virt_to_phys demo_pm 0 st' = Some 0x100000 \<and> 256 \<in># free_frames st'"
proof -
  have "is_aligned 0 PAGE_SIZE" "(5 :: u64) AND PTE_PHYS_MASK = 0"
    by (simp_all add: is_aligned_def PTE_PHYS_MASK_def)
  with change_flags_leaves_frame_free [OF demo_wf_pm _ demo_owned(1), of 5 "- 1"] demo_owned(2,3)
  show ?thesis by (auto simp: PTE_PHYS_MASK_def)
qed

theorem munmap_witness:
  "\<exists>st'. sys_munmap 0 0x1000 (Some \<lparr>is_userspace = True, pagemap = demo_pm, brk_start = 0, brk_current = 0,
       brk_max = 0\<rparr>) (demo_vm 0x203007 0x100007) = Some (Inr 0, st') \<and>
     vmm_virt_to_phys demo_pm 0 st' = None \<and> 256 \<in># free_frames st'"
proof -
  let ?t = "\<lparr>is_userspace = True, pagemap = demo_pm, brk_start = 0, brk_current = 0, brk_max = 0\<rparr>"
  from munmap_takes_any_page [of "demo_vm 0x203007 0x100007" ?t 0 "0xffff800000203000"] demo_wf_pm demo_owned
  show ?thesis by (simp add: PTE_PHYS_MASK_def del: walk.simps)
qed

theorem brk_in_limits_witness:
  "sys_brk (- 1) 0x2000 (Some \<lparr>is_userspace = True, pagemap = demo_pm, brk_start = 0x1000, brk_current = 0x2000,
       brk_max = 0x9000\<rparr>) demo_pmm = Some (Inr 0x2000, Some \<lparr>is_userspace = True, pagemap = demo_pm,
       brk_start = 0x1000, brk_current = 0x2000, brk_max = 0x9000\<rparr>, demo_pmm) \<and> (0x2000 :: u64) \<le> 0x9000"
proof -
  let ?t = "\<lparr>is_userspace = True, pagemap = demo_pm, brk_start = 0x1000, brk_current = 0x2000, brk_max = 0x9000\<rparr>"
  have run: "sys_brk (- 1) 0x2000 (Some ?t) demo_pmm = Some (Inr 0x2000, Some ?t, demo_pmm)"
    by (simp add: sys_brk_def brk_shrink.simps)
  from brk_in_limits [OF run] run show ?thesis by simp
qed

end
