(* ===== verification/Vmalloc.thy ===== *)
theory Vmalloc
  imports Paging
begin

text \<open>
  The kernel's virtual address allocator, \<open>kernel/src/memory/vmalloc.c\<close>: a bitmap of 2048 slots of
  2 MiB, a next-fit search from a cursor, and page-wise mapping of the reserved range. Slot numbers are
  below 4096 throughout, so the \<open>size_t\<close> arithmetic on them is arithmetic on natural numbers; byte
  counts are 64-bit words. A caller that releases more slots than it reserved, past the end of the
  bitmap, writes outside the array in C; the list update of the model drops such a write, and no
  property below speaks about it.
\<close>

definition VMALLOC_BASE :: u64 where "VMALLOC_BASE = 0xFFFFFC0000000000"
definition VMALLOC_GRANULE :: u64 where "VMALLOC_GRANULE = 0x200000"
definition VMALLOC_SLOTS :: nat where "VMALLOC_SLOTS = 2048"
definition VMALLOC_END :: u64 where "VMALLOC_END = VMALLOC_BASE + VMALLOC_GRANULE * of_nat VMALLOC_SLOTS"

record vmalloc_state =
  g_used :: "u64 list"
  g_cursor :: nat
  g_ready :: bool

section \<open>Slots\<close>

definition slot_used :: "nat \<Rightarrow> vmalloc_state \<Rightarrow> bool" where
  "slot_used i vs \<longleftrightarrow> drop_bit (i mod 64) (g_used vs ! (i div 64)) AND 1 \<noteq> 0"

definition slot_put :: "nat \<Rightarrow> bool \<Rightarrow> vmalloc_state \<Rightarrow> vmalloc_state" where
  "slot_put i used vs =
    (let w = g_used vs ! (i div 64); m = push_bit (i mod 64) 1
     in vs\<lparr>g_used := (g_used vs)[i div 64 := if used then w OR m else w AND NOT m]\<rparr>)"

fun slot_mark :: "nat \<Rightarrow> nat \<Rightarrow> bool \<Rightarrow> vmalloc_state \<Rightarrow> vmalloc_state" where
  "slot_mark first 0 used vs = vs"
| "slot_mark first (Suc n) used vs = slot_mark (Suc first) n used (slot_put first used vs)"

text \<open>The scan of \<open>reserve_slots\<close>, with the number of rounds left first.\<close>

fun scan_slots :: "nat \<Rightarrow> nat \<Rightarrow> nat \<Rightarrow> nat \<Rightarrow> vmalloc_state \<Rightarrow> nat option \<times> vmalloc_state" where
  "scan_slots 0 n i0 run0 vs = (None, vs)"
| "scan_slots (Suc k) n i0 run0 vs =
    (let (i, run) = (if i0 = VMALLOC_SLOTS then (0, 0) else (i0, run0)) in
     if slot_used i vs then scan_slots k n (Suc i) 0 vs
     else if Suc run < n then scan_slots k n (Suc i) (Suc run) vs
     else
       let first = Suc i - n
       in (Some first, (slot_mark first n True vs)\<lparr>g_cursor := Suc i mod VMALLOC_SLOTS\<rparr>))"

definition reserve_slots :: "nat \<Rightarrow> vmalloc_state \<Rightarrow> nat option \<times> vmalloc_state" where
  "reserve_slots n vs = scan_slots (VMALLOC_SLOTS + n) n (g_cursor vs) 0 vs"

section \<open>Pages\<close>

fun vm_unmap_range :: "vmm_pagemap \<Rightarrow> u64 \<Rightarrow> nat \<Rightarrow> nat \<Rightarrow> pmm_state \<Rightarrow> pmm_state option" where
  "vm_unmap_range kpm base i 0 st = Some st"
| "vm_unmap_range kpm base i (Suc n) st =
    (let va = page_at base i in
     case vmm_virt_to_phys kpm va st of
       None \<Rightarrow> vm_unmap_range kpm base (Suc i) n st
     | Some phys \<Rightarrow>
         let st1 = vmm_unmap_page_noflush kpm va st in
         (case pmm_free (pmm_phys_to_virt (phys AND NOT (PAGE_SIZE - 1)) st1) 1 st1 of
            None \<Rightarrow> None
          | Some st2 \<Rightarrow> vm_unmap_range kpm base (Suc i) n st2))"

definition vmalloc_init :: "u64 \<Rightarrow> vmalloc_state \<Rightarrow> pmm_state \<Rightarrow> (vmalloc_state \<times> pmm_state) option" where
  "vmalloc_init kernel_pml4 vs st =
    (case vmm_prepare_kernel_range kernel_pml4 VMALLOC_BASE (VMALLOC_END - VMALLOC_BASE) st of
       None \<Rightarrow> None
     | Some (ok, st') \<Rightarrow> Some (if ok then vs\<lparr>g_ready := True\<rparr> else vs, st'))"

definition slots_for :: "u64 \<Rightarrow> u64" where
  "slots_for pages = (pages * PAGE_SIZE + VMALLOC_GRANULE - 1) div VMALLOC_GRANULE"

fun vmalloc_map ::
  "u64 \<Rightarrow> vmm_pagemap \<Rightarrow> u64 \<Rightarrow> nat \<Rightarrow> nat \<Rightarrow> nat \<Rightarrow> nat \<Rightarrow> vmalloc_state \<Rightarrow> pmm_state \<Rightarrow>
   (u64 \<times> vmalloc_state \<times> pmm_state) option" where
  "vmalloc_map g kpm base first slots i 0 vs st = Some (base, vs, st)"
| "vmalloc_map g kpm base first slots i (Suc n) vs st =
    (case pmm_alloc_zero 1 st of
       None \<Rightarrow> None
     | Some (page, st1) \<Rightarrow>
         (case (if page \<noteq> 0
                then vmm_map_page g kpm (page_at base i) (pmm_virt_to_phys page st1)
                       (VMM_PRESENT OR VMM_WRITE OR VMM_NOEXEC) st1
                else Some (False, st1)) of
            None \<Rightarrow> None
          | Some (ok, st2) \<Rightarrow>
              if ok then vmalloc_map g kpm base first slots (Suc i) n vs st2
              else
                (case (if page \<noteq> 0 then pmm_free page 1 st2 else Some st2) of
                   None \<Rightarrow> None
                 | Some st3 \<Rightarrow>
                     (case vm_unmap_range kpm base 0 i st3 of
                        None \<Rightarrow> None
                      | Some st4 \<Rightarrow> Some (0, slot_mark first slots False vs, st4)))))"

definition vmalloc_pages ::
  "u64 \<Rightarrow> vmm_pagemap \<Rightarrow> u64 \<Rightarrow> vmalloc_state \<Rightarrow> pmm_state \<Rightarrow> (u64 \<times> vmalloc_state \<times> pmm_state) option" where
  "vmalloc_pages g kpm pages vs st =
    (if \<not> g_ready vs \<or> pages = 0 then Some (0, vs, st)
     else if slots_for pages > of_nat VMALLOC_SLOTS then Some (0, vs, st)
     else case reserve_slots (unat (slots_for pages)) vs of
       (None, vs1) \<Rightarrow> Some (0, vs1, st)
     | (Some first, vs1) \<Rightarrow>
         vmalloc_map g kpm (VMALLOC_BASE + of_nat first * VMALLOC_GRANULE) first
           (unat (slots_for pages)) 0 (unat pages) vs1 st)"

definition vmalloc_owns :: "u64 \<Rightarrow> bool" where
  "vmalloc_owns a \<longleftrightarrow> a \<ge> VMALLOC_BASE \<and> a < VMALLOC_END"

definition vfree_pages ::
  "vmm_pagemap \<Rightarrow> u64 \<Rightarrow> u64 \<Rightarrow> vmalloc_state \<Rightarrow> pmm_state \<Rightarrow> (vmalloc_state \<times> pmm_state) option" where
  "vfree_pages kpm addr pages vs st =
    (let base = addr AND NOT (PAGE_SIZE - 1) in
     if \<not> vmalloc_owns addr \<or> pages = 0 then Some (vs, st)
     else
       let first = (base - VMALLOC_BASE) div VMALLOC_GRANULE
       in case vm_unmap_range kpm base 0 (unat pages) st of
            None \<Rightarrow> None
          | Some st1 \<Rightarrow> Some (slot_mark (unat first) (unat (slots_for pages)) False vs, st1))"

section \<open>The bitmap as a set\<close>

definition vm_inv :: "vmalloc_state \<Rightarrow> bool" where
  "vm_inv vs \<longleftrightarrow> length (g_used vs) = VMALLOC_SLOTS div 64 \<and> g_cursor vs < VMALLOC_SLOTS"

lemma slot_used_bit: "slot_used i vs \<longleftrightarrow> bit (g_used vs ! (i div 64)) (i mod 64)"
  using and_exp_eq_0_iff_not_bit [of "drop_bit (i mod 64) (g_used vs ! (i div 64))" 0]
  by (simp add: slot_used_def bit_drop_bit_eq)

lemma slot_put_fields [simp]:
  "length (g_used (slot_put i b vs)) = length (g_used vs)" "g_cursor (slot_put i b vs) = g_cursor vs"
  "g_ready (slot_put i b vs) = g_ready vs"
  by (simp_all add: slot_put_def Let_def)

lemma slot_used_put:
  assumes "i < VMALLOC_SLOTS" and "length (g_used vs) = VMALLOC_SLOTS div 64"
  shows "slot_used j (slot_put i b vs) \<longleftrightarrow> (if j = i then b else slot_used j vs)"
proof -
  have i: "i div 64 < length (g_used vs)" using assms by (simp add: VMALLOC_SLOTS_def less_mult_imp_div_less)
  have split: "j = i \<longleftrightarrow> j div 64 = i div 64 \<and> j mod 64 = i mod 64"
    by (metis div_mult_mod_eq)
  show ?thesis
    unfolding split
    by (cases "j div 64 = i div 64")
      (use i in \<open>auto simp: slot_used_bit slot_put_def Let_def bit_simps\<close>)
qed

lemma slot_mark_fields [simp]:
  "length (g_used (slot_mark f n b vs)) = length (g_used vs)" "g_cursor (slot_mark f n b vs) = g_cursor vs"
  "g_ready (slot_mark f n b vs) = g_ready vs"
  by (induction f n b vs rule: slot_mark.induct) simp_all

lemma slot_used_mark:
  assumes "f + n \<le> VMALLOC_SLOTS" and "length (g_used vs) = VMALLOC_SLOTS div 64"
  shows "slot_used j (slot_mark f n b vs) \<longleftrightarrow> (if f \<le> j \<and> j < f + n then b else slot_used j vs)"
  using assms
  by (induction f n b vs rule: slot_mark.induct) (auto simp: slot_used_put)

text \<open>A window of \<open>n\<close> free slots.\<close>

definition free_window :: "nat \<Rightarrow> nat \<Rightarrow> vmalloc_state \<Rightarrow> bool" where
  "free_window s n vs \<longleftrightarrow> s + n \<le> VMALLOC_SLOTS \<and> (\<forall>j. s \<le> j \<longrightarrow> j < s + n \<longrightarrow> \<not> slot_used j vs)"

lemma scan_sound:
  assumes "scan_slots k n i run vs = (Some f, vs')" and "0 < n" and "i \<le> VMALLOC_SLOTS" and "run \<le> i" and "run < n"
    and "\<forall>j. i - run \<le> j \<longrightarrow> j < i \<longrightarrow> \<not> slot_used j vs"
  shows "free_window f n vs \<and> vs' = (slot_mark f n True vs)\<lparr>g_cursor := (f + n) mod VMALLOC_SLOTS\<rparr>"
  using assms
proof (induction k arbitrary: i run)
  case (Suc k)
  define i' run' where "i' = (if i = VMALLOC_SLOTS then 0 else i)" and "run' = (if i = VMALLOC_SLOTS then 0 else run)"
  have i': "i' < VMALLOC_SLOTS" "run' \<le> i'" "run' < n" "\<forall>j. i' - run' \<le> j \<longrightarrow> j < i' \<longrightarrow> \<not> slot_used j vs"
    using Suc.prems by (auto simp: i'_def run'_def VMALLOC_SLOTS_def)
  have step: "scan_slots (Suc k) n i run vs =
      (if slot_used i' vs then scan_slots k n (Suc i') 0 vs
       else if Suc run' < n then scan_slots k n (Suc i') (Suc run') vs
       else (Some (Suc i' - n), (slot_mark (Suc i' - n) n True vs)\<lparr>g_cursor := Suc i' mod VMALLOC_SLOTS\<rparr>))"
    by (simp add: i'_def run'_def Let_def)
  show ?case
  proof (cases "slot_used i' vs")
    case True
    with Suc.prems step i' show ?thesis by (intro Suc.IH [of "Suc i'" 0]) auto
  next
    case free: False
    then have ext: "\<forall>j. Suc i' - Suc run' \<le> j \<longrightarrow> j < Suc i' \<longrightarrow> \<not> slot_used j vs"
      using i' by (auto simp: less_Suc_eq)
    show ?thesis
    proof (cases "Suc run' < n")
      case True
      with free Suc.prems(1,2) step i' ext show ?thesis by (intro Suc.IH [of "Suc i'" "Suc run'"]) auto
    next
      case False
      then have n: "n = Suc run'" using i' by simp
      with free Suc.prems(1) step have "f = Suc i' - n"
        "vs' = (slot_mark f n True vs)\<lparr>g_cursor := Suc i' mod VMALLOC_SLOTS\<rparr>" by auto
      with n i' ext show ?thesis by (auto simp: free_window_def)
    qed
  qed
qed simp

lemma scan_skip:
  assumes "i + k \<le> VMALLOC_SLOTS"
  shows "(\<exists>f vs'. scan_slots (k + m) n i run vs = (Some f, vs')) \<or>
    (\<exists>run'. scan_slots (k + m) n i run vs = scan_slots m n (i + k) run' vs)"
  using assms
proof (induction k arbitrary: i run)
  case (Suc k)
  from Suc.IH [of "Suc i" 0] Suc.IH [of "Suc i" "Suc run"] Suc.prems show ?case
    by (auto simp: Let_def)
qed auto

lemma scan_finds:
  assumes "i + k \<le> VMALLOC_SLOTS" and "free_window s n vs" and "i - run \<le> s" and "s + n \<le> i + k"
    and "run \<le> i" and "run < n"
  shows "\<exists>f vs'. scan_slots (k + m) n i run vs = (Some f, vs')"
  using assms
proof (induction k arbitrary: i run)
  case (Suc k)
  show ?case
  proof (cases "slot_used i vs")
    case True
    have "i < s"
    proof (rule ccontr)
      assume "\<not> i < s"
      with Suc.prems have "s \<le> i" "i < s + n" by auto
      with Suc.prems(2) True show False by (simp add: free_window_def)
    qed
    with True Suc.prems show ?thesis
      using Suc.IH [of "Suc i" 0] by (simp add: Let_def)
  next
    case False
    with Suc.prems show ?thesis using Suc.IH [of "Suc i" "Suc run"] by (auto simp: Let_def)
  qed
qed simp

lemma scan_wrap: "scan_slots (Suc k) n VMALLOC_SLOTS run vs = scan_slots (Suc k) n 0 0 vs"
  by (simp add: VMALLOC_SLOTS_def)

lemma reserve_finds:
  assumes inv: "vm_inv vs" and n: "0 < n" "n \<le> VMALLOC_SLOTS" and w: "free_window s n vs"
  shows "\<exists>f vs'. reserve_slots n vs = (Some f, vs')"
proof -
  let ?c = "g_cursor vs" and ?S = VMALLOC_SLOTS
  have c: "?c < ?S" using inv by (simp add: vm_inv_def)
  have "?S + n = (?S - ?c) + (?c + n)" using c by simp
  then have eq: "reserve_slots n vs = scan_slots ((?S - ?c) + (?c + n)) n ?c 0 vs"
    by (simp only: reserve_slots_def)
  show ?thesis
  proof (cases "?c \<le> s")
    case True
    have "\<exists>f vs'. scan_slots ((?S - ?c) + (?c + n)) n ?c 0 vs = (Some f, vs')"
      by (rule scan_finds [of _ _ s]) (use w n c True in \<open>auto simp: free_window_def\<close>)
    then show ?thesis by (simp only: eq)
  next
    case False
    have len: "?c + (?S - ?c) = ?S" using c by simp
    from scan_skip [of ?c "?S - ?c" "?c + n" n 0 vs]
    consider "\<exists>f vs'. reserve_slots n vs = (Some f, vs')"
      | run' where "reserve_slots n vs = scan_slots (?c + n) n ?S run' vs"
      unfolding eq len by blast
    then show ?thesis
    proof cases
      case (2 run')
      have "reserve_slots n vs = scan_slots (?c + n) n 0 0 vs"
        using 2 scan_wrap [of "?c + n - 1" n run' vs] n by simp
      moreover have "?c + n = (s + n) + (?c - s)" using False by simp
      moreover have "\<exists>f vs'. scan_slots ((s + n) + (?c - s)) n 0 0 vs = (Some f, vs')"
        using w n by (intro scan_finds [of _ _ s]) (auto simp: free_window_def)
      ultimately show ?thesis by simp
    qed
  qed
qed

lemma reserve_sound:
  assumes run: "reserve_slots n vs = (Some f, vs')" and inv: "vm_inv vs" and n: "0 < n"
  shows "free_window f n vs \<and> vs' = (slot_mark f n True vs)\<lparr>g_cursor := (f + n) mod VMALLOC_SLOTS\<rparr>"
  by (rule scan_sound [OF run [unfolded reserve_slots_def] n]) (use inv n in \<open>auto simp: vm_inv_def\<close>)

section \<open>Properties\<close>

text \<open>\<open>reserve_slots\<close> is a correct and complete allocator of address space. Asked for 1 to 2048
  slots it returns the start of a window of that many slots, all free before and exactly these marked
  afterwards, with the cursor behind them; and it fails, changing nothing, only if no such window exists,
  wherever the cursor stands.\<close>

theorem reserve_slots_correct:
  assumes inv: "vm_inv vs" and n: "0 < n" "n \<le> VMALLOC_SLOTS"
  shows "case reserve_slots n vs of
      (Some f, vs') \<Rightarrow> free_window f n vs \<and> vm_inv vs' \<and>
        (\<forall>j. slot_used j vs' \<longleftrightarrow> slot_used j vs \<or> f \<le> j \<and> j < f + n)
    | (None, vs') \<Rightarrow> vs' = vs \<and> (\<nexists>s. free_window s n vs)"
proof (cases "reserve_slots n vs")
  case (Pair r vs')
  show ?thesis
  proof (cases r)
    case None
    have "scan_slots k n i run vs = (None, vs') \<Longrightarrow> vs' = vs" for k i run
      by (induction k arbitrary: i run) (auto simp: Let_def split: if_splits)
    with Pair None have "vs' = vs" unfolding reserve_slots_def by blast
    moreover have "\<nexists>s. free_window s n vs" using reserve_finds [OF inv n] Pair None by auto
    ultimately show ?thesis using Pair None by simp
  next
    case (Some f)
    have "free_window f n vs \<and> vs' = (slot_mark f n True vs)\<lparr>g_cursor := (f + n) mod VMALLOC_SLOTS\<rparr>"
      using reserve_sound [OF _ inv n(1)] Pair Some by blast
    moreover from this have "slot_used j vs' \<longleftrightarrow> slot_used j (slot_mark f n True vs)" for j
      by (simp add: slot_used_def)
    ultimately show ?thesis using Pair Some inv
      by (auto simp: vm_inv_def slot_used_mark free_window_def VMALLOC_SLOTS_def)
  qed
qed

text \<open>Reserving a window and clearing it again leaves the bitmap as it was.\<close>

theorem reserve_release_roundtrip:
  assumes inv: "vm_inv vs" and n: "0 < n" "n \<le> VMALLOC_SLOTS" and run: "reserve_slots n vs = (Some f, vs')"
  shows "slot_used j (slot_mark f n False vs') \<longleftrightarrow> slot_used j vs"
proof -
  have s: "free_window f n vs \<and> vs' = (slot_mark f n True vs)\<lparr>g_cursor := (f + n) mod VMALLOC_SLOTS\<rparr>"
    by (rule reserve_sound [OF run inv n(1)])
  then have "slot_used j vs' \<longleftrightarrow> slot_used j (slot_mark f n True vs)" for j by (simp add: slot_used_def)
  with s inv show ?thesis by (auto simp: slot_used_mark vm_inv_def free_window_def)
qed

section \<open>Witnesses\<close>

definition demo_vs :: vmalloc_state where
  "demo_vs = \<lparr>g_used = replicate 32 0, g_cursor = 3, g_ready = True\<rparr>"

lemma demo_vs_inv: "vm_inv demo_vs"
  by (simp add: vm_inv_def demo_vs_def VMALLOC_SLOTS_def)

lemma demo_reserve: "fst (reserve_slots 2 demo_vs) = Some 3"
proof -
  have free: "\<not> slot_used 3 demo_vs" "\<not> slot_used 4 demo_vs" by (simp_all add: slot_used_def demo_vs_def)
  have two: "fst (scan_slots (Suc (Suc k)) 2 3 0 demo_vs) = Some 3" for k
    using free by (simp add: VMALLOC_SLOTS_def)
  have "VMALLOC_SLOTS + 2 = Suc (Suc 2048)" by (simp add: VMALLOC_SLOTS_def)
  moreover have "g_cursor demo_vs = 3" by (simp add: demo_vs_def)
  ultimately show ?thesis by (simp only: reserve_slots_def two)
qed

theorem reserve_slots_witness: "free_window 3 2 demo_vs \<and> vm_inv (snd (reserve_slots 2 demo_vs))"
  using reserve_slots_correct [OF demo_vs_inv, of 2] demo_reserve
  by (cases "reserve_slots 2 demo_vs") (auto simp: VMALLOC_SLOTS_def)

theorem reserve_release_witness:
  "slot_used 4 (slot_mark 3 2 False (snd (reserve_slots 2 demo_vs))) \<longleftrightarrow> slot_used 4 demo_vs"
proof -
  have "reserve_slots 2 demo_vs = (Some 3, snd (reserve_slots 2 demo_vs))"
    using demo_reserve by (metis prod.collapse)
  from reserve_release_roundtrip [OF demo_vs_inv _ _ this] show ?thesis by (simp add: VMALLOC_SLOTS_def)
qed

end
