(* ===== verification/Sched.thy ===== *)
theory Sched
  imports Cervus_Prelude
begin

text \<open>
  The scheduler, \<open>kernel/src/sched/sched.c\<close>. A task structure is named by a \<open>tptr\<close>: a heap task or the
  idle task of a CPU; \<open>tasks\<close> maps names to contents. A ready queue is the list of its tasks in link
  order (\<open>ready_queues[p]\<close> first, then along \<open>next\<close>). Children and siblings stay pointers. The record
  keeps the fields that scheduling, process groups, timers and signals use; registers that only the
  context switch touches, the FPU image and names are left out.
\<close>

section \<open>State\<close>

definition MAX_PRIORITY :: nat where "MAX_PRIORITY = 31"
definition MAX_PIDS :: nat where "MAX_PIDS = 4096"
definition TASK_DEFAULT_TIMESLICE :: u32 where "TASK_DEFAULT_TIMESLICE = 10"
definition TASK_FLAG_STARTED :: u32 where "TASK_FLAG_STARTED = 8"
definition TASK_FLAG_DESTROYED :: u32 where "TASK_FLAG_DESTROYED = 0x80000000"
definition UINT64_MAX :: u64 where "UINT64_MAX = - 1"
definition VT_COUNT :: nat where "VT_COUNT = 12"

datatype task_state = TASK_RUNNING | TASK_READY | TASK_BLOCKED | TASK_ZOMBIE | TASK_DEAD

datatype tptr = Task nat | Idle nat

record user_regs =
  saved_rip :: u64
  saved_rbp :: u64
  saved_rbx :: u64
  saved_r12 :: u64
  saved_r13 :: u64
  saved_r14 :: u64
  saved_r15 :: u64
  saved_r11 :: u64

record task =
  priority :: nat
  runnable :: bool
  is_userspace :: bool
  cpu_id :: u32
  time_slice :: u32
  time_slice_init :: u32
  total_runtime :: u64
  last_cpu :: u32
  cpu_affinity :: u64
  user_rsp :: u64
  state :: task_state
  pid :: u32
  ppid :: u32
  uid :: u32
  capabilities :: u64
  parent :: "tptr option"
  children :: "tptr option"
  sibling :: "tptr option"
  exit_code :: int
  pending_kill :: bool
  flags :: u32
  wait_for_pid :: u32
  wakeup_time_ns :: u64
  user_saved :: user_regs
  on_cpu :: bool
  on_rq :: bool
  ctty :: int
  run_start_ns :: u64
  pgid :: u32
  sid :: u32
  sig_pending :: u64
  sig_blocked :: u64
  sig_handler :: "u64 list"
  sig_flags :: "u64 list"
  sig_restorer :: "u64 list"
  sig_mask :: "u64 list"
  alarm_at_ns :: u64
  alarm_interval_ns :: u64

text \<open>A signal descriptor (\<open>kernel/src/syscall/io/signalfd.c\<close>) with its ring of queued signals.\<close>

record signalfd =
  sfd_mask :: u64
  sfd_queue :: "u32 list"
  sfd_head :: nat
  sfd_tail :: nat
  sfd_count :: nat
  sfd_nonblock :: bool
  owner_pid :: u32
  waiter :: "tptr option"

record sched =
  tasks :: "tptr \<Rightarrow> task"
  ready_queues :: "tptr list list"
  current_task :: "nat \<Rightarrow> tptr option"
  pid_table :: "tptr option list"
  next_pid :: nat
  g_earliest_wakeup_ns :: u64
  g_earliest_alarm_ns :: u64
  g_foreground_pid :: "u32 list"
  deferred_free_task :: "nat \<Rightarrow> tptr option"
  sfds :: "nat \<Rightarrow> signalfd"
  g_sfds :: "nat option list"

definition upd :: "tptr \<Rightarrow> (task \<Rightarrow> task) \<Rightarrow> sched \<Rightarrow> sched" where
  "upd t f s = s\<lparr>tasks := (tasks s)(t := f (tasks s t))\<rparr>"


section \<open>Deadlines\<close>

text \<open>The compare-and-swap loop sets the earlier of the two times.\<close>

definition sched_note_wakeup :: "u64 \<Rightarrow> sched \<Rightarrow> sched" where
  "sched_note_wakeup deadline_ns s =
    (if deadline_ns = 0 then s
     else if deadline_ns < g_earliest_wakeup_ns s then s\<lparr>g_earliest_wakeup_ns := deadline_ns\<rparr>
     else s)"

definition note_alarm :: "u64 \<Rightarrow> sched \<Rightarrow> sched" where
  "note_alarm deadline_ns s =
    (if deadline_ns = 0 then s
     else if deadline_ns < g_earliest_alarm_ns s then s\<lparr>g_earliest_alarm_ns := deadline_ns\<rparr>
     else s)"

section \<open>Process identifiers\<close>

text \<open>\<open>next_pid\<close> stays below 4097, so its \<open>uint32_t\<close> arithmetic does not wrap; 0 is failure.\<close>

fun alloc_pid_loop :: "nat \<Rightarrow> sched \<Rightarrow> nat \<times> sched" where
  "alloc_pid_loop 0 s = (0, s)"
| "alloc_pid_loop (Suc n) s =
    (let i = (if next_pid s = 0 \<or> next_pid s \<ge> MAX_PIDS then 1 else next_pid s);
         s1 = s\<lparr>next_pid := if i + 1 \<ge> MAX_PIDS then 1 else i + 1\<rparr>
     in if pid_table s1 ! i = None then (i, s1) else alloc_pid_loop n s1)"

definition task_alloc_pid :: "sched \<Rightarrow> nat \<times> sched" where
  "task_alloc_pid s = alloc_pid_loop (MAX_PIDS - 1) s"

definition task_find_by_pid :: "u32 \<Rightarrow> sched \<Rightarrow> tptr option" where
  "task_find_by_pid p s =
    (if p = 0 \<or> unat p \<ge> MAX_PIDS then None else pid_table s ! unat p)"

definition task_collect_pids :: "int \<Rightarrow> sched \<Rightarrow> u32 list" where
  "task_collect_pids mx s =
    (if mx \<le> 0 then []
     else take (nat mx) (map of_nat (filter
       (\<lambda>i. case pid_table s ! i of None \<Rightarrow> False | Some t \<Rightarrow> state (tasks s t) \<noteq> TASK_DEAD)
       [1 ..< MAX_PIDS])))"

definition pid_register :: "tptr \<Rightarrow> sched \<Rightarrow> sched" where
  "pid_register t s =
    (let p = unat (pid (tasks s t))
     in if p \<noteq> 0 \<and> p < MAX_PIDS then s\<lparr>pid_table := (pid_table s)[p := Some t]\<rparr> else s)"

definition pid_unregister :: "tptr \<Rightarrow> sched \<Rightarrow> sched" where
  "pid_unregister t s =
    (let p = unat (pid (tasks s t))
     in if p \<noteq> 0 \<and> p < MAX_PIDS then s\<lparr>pid_table := (pid_table s)[p := None]\<rparr> else s)"

section \<open>Ready queues\<close>

definition enqueue_global :: "tptr \<Rightarrow> sched \<Rightarrow> sched" where
  "enqueue_global t s =
    (if on_rq (tasks s t) then s
     else
       let s1 = upd t (\<lambda>k. k\<lparr>on_rq := True\<rparr>) s; p = priority (tasks s t)
       in s1\<lparr>ready_queues := (ready_queues s1)[p := t # ready_queues s1 ! p]\<rparr>)"

text \<open>A task that a CPU with this number may take off a queue.\<close>

definition may_run :: "task \<Rightarrow> bool" where
  "may_run k \<longleftrightarrow> runnable k \<and> state k \<noteq> TASK_ZOMBIE \<and> state k \<noteq> TASK_DEAD"

definition affine :: "nat \<Rightarrow> task \<Rightarrow> bool" where
  "affine cpu k \<longleftrightarrow> cpu_affinity k = 0 \<or> cpu_affinity k AND push_bit cpu 1 \<noteq> 0"

text \<open>
  The walk of \<open>sched_pick_next\<close> along one queue: the task found, the queue that remains, and the tasks
  with their flags. Tasks that may not run are dropped on the way.
\<close>

fun scan_queue :: "nat \<Rightarrow> tptr list \<Rightarrow> (tptr \<Rightarrow> task) \<Rightarrow> tptr option \<times> tptr list \<times> (tptr \<Rightarrow> task)" where
  "scan_queue cpu [] ts = (None, [], ts)"
| "scan_queue cpu (t # q) ts =
    (if may_run (ts t) then
       if \<not> affine cpu (ts t) then
         let (r, q', ts') = scan_queue cpu q ts in (r, t # q', ts')
       else if \<not> on_cpu (ts t) then
         (Some t, q, ts(t := (ts t)\<lparr>on_cpu := True, on_rq := False\<rparr>))
       else
         let (r, q', ts') = scan_queue cpu q ts in (r, t # q', ts')
     else scan_queue cpu q (ts(t := (ts t)\<lparr>on_rq := False\<rparr>)))"

text \<open>From priority \<open>p - 1\<close> downwards.\<close>

fun pick_below :: "nat \<Rightarrow> nat \<Rightarrow> sched \<Rightarrow> tptr option \<times> sched" where
  "pick_below cpu 0 s = (None, s)"
| "pick_below cpu (Suc p) s =
    (let (r, q', ts') = scan_queue cpu (ready_queues s ! p) (tasks s);
         s1 = s\<lparr>ready_queues := (ready_queues s)[p := q'], tasks := ts'\<rparr>
     in case r of Some t \<Rightarrow> (Some t, s1) | None \<Rightarrow> pick_below cpu p s1)"

definition sched_pick_next :: "nat \<Rightarrow> sched \<Rightarrow> tptr \<times> sched" where
  "sched_pick_next cpu s =
    (case pick_below cpu (Suc MAX_PRIORITY) s of
       (Some t, s1) \<Rightarrow> (t, s1)
     | (None, s1) \<Rightarrow> (Idle cpu, s1))"

definition sched_find_free_cpu_mask :: "nat \<Rightarrow> nat \<Rightarrow> u64 \<Rightarrow> sched \<Rightarrow> nat option" where
  "sched_find_free_cpu_mask self cpu_count exclude s =
    find (\<lambda>c. c \<noteq> self \<and> exclude AND push_bit c 1 = 0 \<and> current_task s c = Some (Idle c))
      [0 ..< min cpu_count 64]"

section \<open>Blocking and waking\<close>

definition task_unblock :: "tptr option \<Rightarrow> sched \<Rightarrow> sched" where
  "task_unblock tp s = (case tp of None \<Rightarrow> s | Some t \<Rightarrow>
     if state (tasks s t) \<noteq> TASK_BLOCKED then s
     else enqueue_global t (upd t (\<lambda>k. k\<lparr>runnable := True, state := TASK_READY\<rparr>) s))"

text \<open>The scan of \<open>task_wakeup_waiters\<close> over the pid table: the tasks to enqueue, 64 at most.\<close>

fun waiters_scan :: "nat list \<Rightarrow> u32 \<Rightarrow> tptr list \<Rightarrow> sched \<Rightarrow> tptr list \<times> sched" where
  "waiters_scan [] p wake s = (wake, s)"
| "waiters_scan (i # is) p wake s =
    (if length wake < 64 then
       case pid_table s ! i of
         None \<Rightarrow> waiters_scan is p wake s
       | Some t \<Rightarrow>
           if state (tasks s t) \<noteq> TASK_BLOCKED then waiters_scan is p wake s
           else if wait_for_pid (tasks s t) \<noteq> p \<and> wait_for_pid (tasks s t) \<noteq> - 1
           then waiters_scan is p wake s
           else waiters_scan is p (wake @ [t])
             (upd t (\<lambda>k. k\<lparr>wait_for_pid := 0, runnable := True, state := TASK_READY\<rparr>) s)
     else (wake, s))"

definition task_wakeup_waiters :: "u32 \<Rightarrow> sched \<Rightarrow> sched" where
  "task_wakeup_waiters p s =
    (let (wake, s1) = waiters_scan [1 ..< MAX_PIDS] p [] s in fold enqueue_global wake s1)"

definition task_kill :: "tptr option \<Rightarrow> sched \<Rightarrow> sched" where
  "task_kill tp s = (case tp of None \<Rightarrow> s | Some t \<Rightarrow>
     let k = tasks s t in
     if pid k \<le> 1 then s
     else if \<not> is_userspace k then s
     else if state k = TASK_ZOMBIE \<or> state k = TASK_DEAD then s
     else if pending_kill k then s
     else
       let s1 = upd t (\<lambda>k. k\<lparr>exit_code := 130, pending_kill := True\<rparr>) s
       in if state k = TASK_BLOCKED
          then task_unblock (Some t) (upd t (\<lambda>k. k\<lparr>wakeup_time_ns := 0\<rparr>) s1)
          else s1)"

text \<open>
  \<open>task_kill_subtree\<close> walks the children before the task itself; \<open>kill_siblings\<close> is its loop, entered
  with the first child. On a cyclic family it would not return: \<open>None\<close>.
\<close>

partial_function (option) kill_siblings :: "tptr option \<Rightarrow> sched \<Rightarrow> sched option" where
  "kill_siblings c s = (case c of None \<Rightarrow> Some s | Some t \<Rightarrow>
     (let nxt = sibling (tasks s t) in
      Option.bind (kill_siblings (children (tasks s t)) s)
        (\<lambda>s1. kill_siblings nxt (task_kill (Some t) s1))))"

definition task_kill_subtree :: "tptr option \<Rightarrow> sched \<Rightarrow> sched option" where
  "task_kill_subtree root s = (case root of None \<Rightarrow> Some s | Some t \<Rightarrow>
     map_option (task_kill root) (kill_siblings (children (tasks s t)) s))"

partial_function (option) group_root :: "tptr \<Rightarrow> sched \<Rightarrow> tptr option" where
  "group_root root s = (case parent (tasks s root) of None \<Rightarrow> Some root | Some p \<Rightarrow>
     if ppid (tasks s p) \<noteq> 1 \<and> pid (tasks s p) \<noteq> 1 then group_root p s else Some root)"

definition task_kill_foreground_group :: "tptr option \<Rightarrow> sched \<Rightarrow> sched option" where
  "task_kill_foreground_group fg s = (case fg of None \<Rightarrow> Some s | Some t \<Rightarrow>
     (case group_root t s of
        None \<Rightarrow> None
      | Some root \<Rightarrow> if pid (tasks s root) \<le> 1 then Some s else task_kill_subtree (Some root) s))"

section \<open>Foreground tasks of the virtual terminals\<close>

definition caller_ctty :: "tptr option \<Rightarrow> sched \<Rightarrow> nat" where
  "caller_ctty me s =
    (let vt = (case me of None \<Rightarrow> 0 | Some t \<Rightarrow> ctty (tasks s t))
     in if vt < 0 \<or> vt \<ge> int VT_COUNT then 0 else nat vt)"

definition task_set_foreground :: "tptr option \<Rightarrow> u32 \<Rightarrow> sched \<Rightarrow> sched" where
  "task_set_foreground me p s =
    s\<lparr>g_foreground_pid := (g_foreground_pid s)[caller_ctty me s := p]\<rparr>"

definition task_clear_foreground_if :: "tptr option \<Rightarrow> u32 \<Rightarrow> sched \<Rightarrow> sched" where
  "task_clear_foreground_if me p s =
    (let vt = caller_ctty me s
     in if g_foreground_pid s ! vt = p then s\<lparr>g_foreground_pid := (g_foreground_pid s)[vt := 0]\<rparr> else s)"

definition task_reassign_foreground :: "tptr option \<Rightarrow> u32 \<Rightarrow> tptr option \<Rightarrow> sched \<Rightarrow> sched" where
  "task_reassign_foreground me dead_pid par s =
    (let vt = caller_ctty me s in
     if g_foreground_pid s ! vt \<noteq> dead_pid then s
     else
       let p = (case par of None \<Rightarrow> 0 | Some t \<Rightarrow>
                  if ppid (tasks s t) \<noteq> 1 \<and> pid (tasks s t) \<noteq> 1 then pid (tasks s t) else 0)
       in s\<lparr>g_foreground_pid := (g_foreground_pid s)[vt := p]\<rparr>)"

definition task_find_foreground :: "int \<Rightarrow> sched \<Rightarrow> tptr option \<times> sched" where
  "task_find_foreground vt s =
    (if vt < 0 \<or> vt \<ge> int VT_COUNT then (None, s)
     else
       let fpid = g_foreground_pid s ! nat vt;
           s0 = s\<lparr>g_foreground_pid := (g_foreground_pid s)[nat vt := 0]\<rparr>
       in if fpid = 0 then (None, s)
          else case task_find_by_pid fpid s of
            None \<Rightarrow> (None, s0)
          | Some t \<Rightarrow>
              if state (tasks s t) = TASK_ZOMBIE \<or> state (tasks s t) = TASK_DEAD then (None, s0)
              else (Some t, s))"

section \<open>Rescheduling\<close>

text \<open>
  \<open>task_destroy\<close> up to the release of the task's resources: only the first call on a task acts, and
  it removes the task from the pid table. The pages, locks, mappings and descriptors it then gives
  back belong to other components.
\<close>

definition task_destroy :: "tptr option \<Rightarrow> sched \<Rightarrow> sched" where
  "task_destroy tp s = (case tp of None \<Rightarrow> s | Some t \<Rightarrow>
     if flags (tasks s t) AND TASK_FLAG_DESTROYED \<noteq> 0 then s
     else pid_unregister t (upd t (\<lambda>k. k\<lparr>flags := flags k OR TASK_FLAG_DESTROYED\<rparr>) s))"

definition process_deferred_free :: "nat \<Rightarrow> sched \<Rightarrow> sched" where
  "process_deferred_free cpu s =
    (case deferred_free_task s cpu of
       None \<Rightarrow> s
     | Some dead \<Rightarrow> task_destroy (Some dead) (s\<lparr>deferred_free_task := (deferred_free_task s)(cpu := None)\<rparr>))"

text \<open>The choice of the next task; \<open>None\<close>: the call returns without a switch.\<close>

definition resched_pick :: "nat \<Rightarrow> sched \<Rightarrow> tptr option \<times> sched" where
  "resched_pick cpu s =
    (let old = current_task s cpu; (next, s1) = sched_pick_next cpu s in
     if old = Some next then
       if old = Some (Idle cpu) then
         let (next2, s2) = sched_pick_next cpu s1
         in if next2 = Idle cpu then (None, s2) else (Some next2, s2)
       else (None, upd next (\<lambda>k. k\<lparr>time_slice := time_slice_init k\<rparr>) s1)
     else (Some next, s1))"

text \<open>What becomes of the task that leaves the CPU.\<close>

definition requeue_old :: "nat \<Rightarrow> sched \<Rightarrow> sched" where
  "requeue_old cpu s = (case current_task s cpu of
     None \<Rightarrow> s
   | Some old \<Rightarrow>
       if old = Idle cpu then s
       else
         let k = tasks s old in
         if state k = TASK_ZOMBIE then
           if parent k = None
           then s\<lparr>deferred_free_task := (deferred_free_task s)(cpu := Some old)\<rparr> else s
         else if runnable k \<and> state k \<noteq> TASK_DEAD then
           enqueue_global old (upd old (\<lambda>k. k\<lparr>time_slice := time_slice_init k,
             last_cpu := of_nat cpu, state := TASK_READY\<rparr>) s)
         else s)"

text \<open>Accounting and the state of the task that gets the CPU.\<close>

definition switch_in :: "nat \<Rightarrow> u64 \<Rightarrow> tptr \<Rightarrow> sched \<Rightarrow> sched" where
  "switch_in cpu now next s =
    (let s1 = (case current_task s cpu of
                 None \<Rightarrow> s
               | Some old \<Rightarrow>
                   if old \<noteq> Idle cpu \<and> run_start_ns (tasks s old) > 0 \<and> now > run_start_ns (tasks s old)
                   then upd old (\<lambda>k. k\<lparr>total_runtime := total_runtime k + (now - run_start_ns k)\<rparr>) s
                   else s)
     in upd next (\<lambda>k. k\<lparr>run_start_ns := now, cpu_id := of_nat cpu, state := TASK_RUNNING,
          flags := flags k OR TASK_FLAG_STARTED\<rparr>) s1)"

text \<open>\<open>context_switch\<close>: the new task is current, then the old one is off the CPU.\<close>

definition context_switch :: "nat \<Rightarrow> tptr \<Rightarrow> sched \<Rightarrow> sched" where
  "context_switch cpu next s =
    (let old = current_task s cpu; s1 = s\<lparr>current_task := (current_task s)(cpu := Some next)\<rparr>
     in case old of None \<Rightarrow> s1 | Some t \<Rightarrow> upd t (\<lambda>k. k\<lparr>on_cpu := False\<rparr>) s1)"

text \<open>A whole call without another CPU in between, up to the point where the next task runs.\<close>

definition sched_reschedule :: "nat \<Rightarrow> u64 \<Rightarrow> sched \<Rightarrow> sched" where
  "sched_reschedule cpu now s =
    (case resched_pick cpu (process_deferred_free cpu s) of
       (None, s1) \<Rightarrow> s1
     | (Some next, s1) \<Rightarrow>
         process_deferred_free cpu
           (context_switch cpu next (switch_in cpu now next (requeue_old cpu s1))))"

definition block_current :: "nat \<Rightarrow> u64 \<Rightarrow> u64 \<Rightarrow> sched \<Rightarrow> sched" where
  "block_current cpu now ns s = (case current_task s cpu of
     None \<Rightarrow> s
   | Some me \<Rightarrow>
       sched_note_wakeup (now + ns)
         (upd me (\<lambda>k. k\<lparr>wakeup_time_ns := now + ns, runnable := False, state := TASK_BLOCKED\<rparr>) s))"

definition task_sleep_ns :: "nat \<Rightarrow> u64 \<Rightarrow> u64 \<Rightarrow> sched \<Rightarrow> sched" where
  "task_sleep_ns cpu now ns s =
    (if ns = 0 then s
     else if current_task s cpu = None then s
     else sched_reschedule cpu now (block_current cpu now ns s))"

section \<open>Timers\<close>

definition task_set_itimer :: "tptr option \<Rightarrow> u64 \<Rightarrow> u64 \<Rightarrow> u64 \<Rightarrow> sched \<Rightarrow> u64 \<times> u64 \<times> sched" where
  "task_set_itimer tp now value_ns interval_ns s = (case tp of None \<Rightarrow> (0, 0, s) | Some t \<Rightarrow>
     let k = tasks s t;
         old_value = (if alarm_at_ns k \<noteq> 0 \<and> alarm_at_ns k > now then alarm_at_ns k - now else 0);
         at = (if value_ns \<noteq> 0 then now + value_ns else 0);
         s1 = upd t (\<lambda>k. k\<lparr>alarm_interval_ns := if value_ns \<noteq> 0 then interval_ns else 0,
                alarm_at_ns := at\<rparr>) s
     in (old_value, alarm_interval_ns k, note_alarm at s1))"

definition task_set_alarm :: "tptr option \<Rightarrow> u64 \<Rightarrow> u64 \<Rightarrow> sched \<Rightarrow> u64 \<times> sched" where
  "task_set_alarm tp now seconds s = (case tp of None \<Rightarrow> (0, s) | Some t \<Rightarrow>
     let (old_value, _, s1) = task_set_itimer tp now (seconds * 1000000000) 0 s
     in ((old_value + 999999999) div 1000000000, s1))"

section \<open>Families\<close>

definition task_reparent :: "tptr option \<Rightarrow> tptr option \<Rightarrow> sched \<Rightarrow> sched" where
  "task_reparent c np s = (case (c, np) of
     (Some child, Some new_parent) \<Rightarrow>
       let s1 = upd child (\<lambda>k. k\<lparr>parent := Some new_parent\<rparr>) s;
           s2 = upd child (\<lambda>k. k\<lparr>ppid := pid (tasks s1 new_parent)\<rparr>) s1;
           s3 = upd child (\<lambda>k. k\<lparr>sibling := children (tasks s2 new_parent)\<rparr>) s2
       in upd new_parent (\<lambda>k. k\<lparr>children := Some child\<rparr>) s3
   | _ \<Rightarrow> s)"

partial_function (option) reparent_all :: "tptr option \<Rightarrow> tptr \<Rightarrow> sched \<Rightarrow> sched option" where
  "reparent_all c init s = (case c of None \<Rightarrow> Some s | Some child \<Rightarrow>
     (let sib = sibling (tasks s child)
      in reparent_all sib init (task_reparent (Some child) (Some init) s)))"

text \<open>\<open>task_exit\<close>: the children go to process 1.\<close>

definition exit_reparent :: "tptr \<Rightarrow> sched \<Rightarrow> sched option" where
  "exit_reparent me s = (case task_find_by_pid 1 s of
     None \<Rightarrow> Some s
   | Some init \<Rightarrow>
       if init = me then Some s
       else reparent_all (children (tasks s me)) init (upd me (\<lambda>k. k\<lparr>children := None\<rparr>) s))"

end
