(* ===== verification/Signal.thy ===== *)
theory Signal
  imports Sched
begin

text \<open>
  Signals, \<open>kernel/src/signal/signal.c\<close>, the signal descriptors that divert them,
  \<open>kernel/src/syscall/io/signalfd.c\<close>, and the timer interrupt's part of the scheduler that raises
  \<open>SIGALRM\<close>. User memory is a function on the addresses of 8-byte cells, with aligned user pointers; whether a user range may be
  accessed, decided by \<open>syscall_uptr_validate\<close>, is the argument \<open>valid\<close>.
\<close>

section \<open>Constants\<close>

definition NSIG :: int where "NSIG = 32"
definition SIGKILL :: int where "SIGKILL = 9"
definition SIGSEGV :: int where "SIGSEGV = 11"
definition SIGALRM :: int where "SIGALRM = 14"
definition SIGCHLD :: int where "SIGCHLD = 17"
definition SIGCONT :: int where "SIGCONT = 18"
definition SIGSTOP :: int where "SIGSTOP = 19"
definition SA_NODEFER :: u64 where "SA_NODEFER = 0x40000000"
definition SA_RESETHAND :: u64 where "SA_RESETHAND = 0x80000000"
definition SIG_DFL_ADDR :: u64 where "SIG_DFL_ADDR = 0"
definition SIG_IGN_ADDR :: u64 where "SIG_IGN_ADDR = 1"
definition CAP_KILL_ANY :: u64 where "CAP_KILL_ANY = 16"
definition SFD_QUEUE :: nat where "SFD_QUEUE = 32"

definition sigbit :: "int \<Rightarrow> u64" where
  "sigbit sig = push_bit (nat sig) 1"

definition unmaskable :: u64 where
  "unmaskable = sigbit SIGKILL OR sigbit SIGSTOP"

text \<open>SIGCHLD, SIGWINCH, SIGURG, SIGCONT, SIGIO, SIGSTOP, SIGTSTP, SIGTTIN, SIGTTOU\<close>

definition sig_default_ignore :: "int \<Rightarrow> bool" where
  "sig_default_ignore sig \<longleftrightarrow> sig \<in> {17, 28, 23, 18, 29, 19, 20, 21, 22}"

section \<open>Signal descriptors\<close>

definition sfd_push :: "u32 \<Rightarrow> signalfd \<Rightarrow> signalfd" where
  "sfd_push sig d =
    (if sfd_count d < SFD_QUEUE
     then d\<lparr>sfd_queue := (sfd_queue d)[sfd_tail d := sig],
            sfd_tail := (sfd_tail d + 1) mod SFD_QUEUE, sfd_count := sfd_count d + 1\<rparr>
     else d)"

fun deliver_loop :: "nat option list \<Rightarrow> u32 \<Rightarrow> int \<Rightarrow> bool \<Rightarrow> sched \<Rightarrow> bool \<times> sched" where
  "deliver_loop [] p sig taken s = (taken, s)"
| "deliver_loop (None # ds) p sig taken s = deliver_loop ds p sig taken s"
| "deliver_loop (Some i # ds) p sig taken s =
    (let d = sfds s i in
     if owner_pid d \<noteq> p then deliver_loop ds p sig taken s
     else if sfd_mask d AND sigbit sig = 0 then deliver_loop ds p sig taken s
     else
       let s1 = s\<lparr>sfds := (sfds s)(i := (sfd_push (of_int sig) d)\<lparr>waiter := None\<rparr>)\<rparr>
       in deliver_loop ds p sig True (task_unblock (waiter d) s1))"

definition signalfd_deliver :: "u32 \<Rightarrow> int \<Rightarrow> sched \<Rightarrow> bool \<times> sched" where
  "signalfd_deliver p sig s =
    (if sig < 1 \<or> sig > 63 then (False, s) else deliver_loop (g_sfds s) p sig False s)"

text \<open>\<open>sfd_read\<close>: the queued signals, oldest first, as many as fit into the buffer.\<close>

fun sfd_pop :: "nat \<Rightarrow> signalfd \<Rightarrow> u32 list \<times> signalfd" where
  "sfd_pop 0 d = ([], d)"
| "sfd_pop (Suc want) d =
    (if sfd_count d = 0 then ([], d)
     else
       let sig = sfd_queue d ! sfd_head d;
           (sigs, d') = sfd_pop want
             (d\<lparr>sfd_head := (sfd_head d + 1) mod SFD_QUEUE, sfd_count := sfd_count d - 1\<rparr>)
       in (sig # sigs, d'))"

text \<open>One locked pass of \<open>sfd_read\<close> for a buffer of \<open>len\<close> bytes; a record has 128 bytes.\<close>

definition sfd_read_pass :: "nat \<Rightarrow> tptr option \<Rightarrow> signalfd \<Rightarrow> u32 list result pass \<times> signalfd" where
  "sfd_read_pass len me d =
    (if len < 128 then (Done (Inl EINVAL), d)
     else if sfd_count d \<noteq> 0 then (let (sigs, d') = sfd_pop (len div 128) d in (Done (Inr sigs), d'))
     else if sfd_nonblock d then (Done (Inl EAGAIN), d)
     else (Block, d\<lparr>waiter := me\<rparr>))"

definition sfd_register :: "nat \<Rightarrow> sched \<Rightarrow> sched" where
  "sfd_register i s = (case find_slot (\<lambda>x. x = None) (g_sfds s) of
     None \<Rightarrow> s
   | Some k \<Rightarrow> s\<lparr>g_sfds := (g_sfds s)[k := Some i]\<rparr>)"

definition sfd_unregister :: "nat \<Rightarrow> sched \<Rightarrow> sched" where
  "sfd_unregister i s = (case find_slot (\<lambda>x. x = Some i) (g_sfds s) of
     None \<Rightarrow> s
   | Some k \<Rightarrow> s\<lparr>g_sfds := (g_sfds s)[k := None]\<rparr>)"

section \<open>Sending\<close>

definition signal_ignored :: "task \<Rightarrow> int \<Rightarrow> bool" where
  "signal_ignored k sig \<longleftrightarrow>
    (let h = sig_handler k ! nat sig in h = SIG_IGN_ADDR \<or> h = SIG_DFL_ADDR \<and> sig_default_ignore sig)"

definition signal_raise :: "tptr \<Rightarrow> int \<Rightarrow> sched \<Rightarrow> sched" where
  "signal_raise t sig s =
    (let s1 = upd t (\<lambda>k. k\<lparr>sig_pending := sig_pending k OR sigbit sig\<rparr>) s;
         s2 = (if sig = SIGKILL then upd t (\<lambda>k. k\<lparr>pending_kill := True\<rparr>) s1 else s1);
         k = tasks s2 t
     in if state k = TASK_BLOCKED \<and> (sig = SIGKILL \<or> sig_blocked k AND sigbit sig = 0)
        then task_unblock (Some t) s2 else s2)"

definition signal_send :: "tptr option \<Rightarrow> int \<Rightarrow> sched \<Rightarrow> sched" where
  "signal_send tp sig s = (case tp of None \<Rightarrow> s | Some t \<Rightarrow>
     if sig \<le> 0 \<or> sig \<ge> NSIG then s
     else
       let (taken, s1) = (if sig \<noteq> SIGKILL then signalfd_deliver (pid (tasks s t)) sig s else (False, s));
           k = tasks s1 t
       in if taken then s1
          else if sig \<noteq> SIGKILL \<and> sig \<noteq> SIGCONT \<and> sig_blocked k AND sigbit sig = 0 \<and> signal_ignored k sig
          then s1
          else signal_raise t sig s1)"

definition signal_pending_deliverable :: "tptr option \<Rightarrow> sched \<Rightarrow> bool" where
  "signal_pending_deliverable tp s = (case tp of None \<Rightarrow> False | Some t \<Rightarrow>
     sig_pending (tasks s t) AND NOT (sig_blocked (tasks s t)) \<noteq> 0)"

definition send_if_group :: "u32 \<Rightarrow> int \<Rightarrow> u32 \<Rightarrow> sched \<Rightarrow> sched" where
  "send_if_group g sig p s = (case task_find_by_pid p s of
     None \<Rightarrow> s
   | Some t \<Rightarrow> if pgid (tasks s t) = g then signal_send (Some t) sig s else s)"

definition signal_send_group :: "u32 \<Rightarrow> int \<Rightarrow> sched \<Rightarrow> sched" where
  "signal_send_group g sig s =
    (if g = 0 then s else fold (send_if_group g sig) (task_collect_pids 256 s) s)"

text \<open>\<open>signal_send_subtree\<close>, like \<open>task_kill_subtree\<close>, visits the children first.\<close>

partial_function (option) signal_siblings :: "int \<Rightarrow> tptr option \<Rightarrow> sched \<Rightarrow> sched option" where
  "signal_siblings sig c s = (case c of None \<Rightarrow> Some s | Some t \<Rightarrow>
     (let nxt = sibling (tasks s t) in
      Option.bind (signal_siblings sig (children (tasks s t)) s)
        (\<lambda>s1. signal_siblings sig nxt (signal_send (Some t) sig s1))))"

definition signal_send_children :: "tptr option \<Rightarrow> int \<Rightarrow> sched \<Rightarrow> sched option" where
  "signal_send_children root sig s = (case root of None \<Rightarrow> Some s | Some t \<Rightarrow>
     signal_siblings sig (children (tasks s t)) s)"

definition signal_send_subtree :: "tptr option \<Rightarrow> int \<Rightarrow> sched \<Rightarrow> sched option" where
  "signal_send_subtree root sig s = (case root of None \<Rightarrow> Some s | Some t \<Rightarrow>
     map_option (signal_send root sig) (signal_siblings sig (children (tasks s t)) s))"

section \<open>Delivery\<close>

text \<open>A call that returns a value to user space, or ends the task with an exit code.\<close>

datatype sig_outcome = Resume u64 | Terminate int

definition signal_terminate :: "tptr \<Rightarrow> int \<Rightarrow> sched \<Rightarrow> sig_outcome \<times> sched" where
  "signal_terminate t sig s = (Terminate (128 + sig), upd t (\<lambda>k. k\<lparr>exit_code := 128 + sig\<rparr>) s)"

text \<open>\<open>sig_ucontext_t\<close> as 11 consecutive cells; with the handler and the number before it, 104 bytes.\<close>

definition put_frame :: "u64 \<Rightarrow> u64 list \<Rightarrow> (u64 \<Rightarrow> u64) \<Rightarrow> u64 \<Rightarrow> u64" where
  "put_frame a xs m = fold (\<lambda>(i, x) m. m(a + 8 * of_nat i := x)) (zip [0 ..< length xs] xs) m"

definition frame_of :: "u64 \<Rightarrow> int \<Rightarrow> u64 \<Rightarrow> task \<Rightarrow> u64 list" where
  "frame_of h sig retval k =
    (let r = user_saved k in
     [h, of_int sig, saved_rip r, user_rsp k, saved_r11 r, retval, saved_rbx r, saved_rbp r,
      saved_r12 r, saved_r13 r, saved_r14 r, saved_r15 r, sig_blocked k])"

definition enter_handler :: "int \<Rightarrow> u64 \<Rightarrow> u64 \<Rightarrow> task \<Rightarrow> task" where
  "enter_handler sig sp restorer k =
    (let i = nat sig;
         b1 = sig_blocked k OR sig_mask k ! i;
         b2 = (if sig_flags k ! i AND SA_NODEFER = 0 then b1 OR sigbit sig else b1);
         hs = (if sig_flags k ! i AND SA_RESETHAND \<noteq> 0 then (sig_handler k)[i := SIG_DFL_ADDR] else sig_handler k)
     in k\<lparr>sig_blocked := b2, sig_handler := hs, sig_pending := sig_pending k AND NOT (sigbit sig),
          user_rsp := sp, user_saved := (user_saved k)\<lparr>saved_rip := restorer\<rparr>\<rparr>)"

text \<open>\<open>__builtin_ctzll\<close> of a non-zero word.\<close>

definition ctz :: "u64 \<Rightarrow> int" where
  "ctz w = (case find (\<lambda>i. bit w i) [0 ..< 64] of Some i \<Rightarrow> int i | None \<Rightarrow> 64)"

definition signal_deliver_pending ::
  "(u64 \<Rightarrow> u64 \<Rightarrow> bool) \<Rightarrow> tptr option \<Rightarrow> u64 \<Rightarrow> sched \<Rightarrow> (u64 \<Rightarrow> u64) \<Rightarrow> sig_outcome \<times> sched \<times> (u64 \<Rightarrow> u64)" where
  "signal_deliver_pending valid tp retval s um = (case tp of
     None \<Rightarrow> (Resume retval, s, um)
   | Some t \<Rightarrow>
     let k = tasks s t; deliverable = sig_pending k AND NOT (sig_blocked k) in
     if \<not> is_userspace k then (Resume retval, s, um)
     else if deliverable = 0 then (Resume retval, s, um)
     else
       let sig = ctz deliverable in
       if sig \<le> 0 \<or> sig \<ge> NSIG
       then (Resume retval, upd t (\<lambda>k. k\<lparr>sig_pending := sig_pending k AND NOT deliverable\<rparr>) s, um)
       else
         let h = sig_handler k ! nat sig;
             s1 = upd t (\<lambda>k. k\<lparr>sig_pending := sig_pending k AND NOT (sigbit sig)\<rparr>) s
         in if sig = SIGKILL \<or> h = SIG_DFL_ADDR then
              if sig \<noteq> SIGKILL \<and> sig_default_ignore sig then (Resume retval, s1, um)
              else (let (r, s2) = signal_terminate t sig s1 in (r, s2, um))
            else if h = SIG_IGN_ADDR then (Resume retval, s1, um)
            else
              let restorer = sig_restorer k ! nat sig in
              if restorer = 0 then (let (r, s2) = signal_terminate t sig s1 in (r, s2, um))
              else
                let sp = (user_rsp k - 104) AND NOT 0xF in
                if \<not> valid sp 104 then (let (r, s2) = signal_terminate t SIGSEGV s1 in (r, s2, um))
                else (Resume retval, upd t (enter_handler sig sp restorer) s, put_frame sp (frame_of h sig retval k) um))"

definition sys_rt_sigreturn ::
  "(u64 \<Rightarrow> u64 \<Rightarrow> bool) \<Rightarrow> tptr option \<Rightarrow> sched \<Rightarrow> (u64 \<Rightarrow> u64) \<Rightarrow> errno + sig_outcome \<times> sched" where
  "sys_rt_sigreturn valid tp s um = (case tp of
     None \<Rightarrow> Inl ESRCH
   | Some t \<Rightarrow>
       let sp = user_rsp (tasks s t) in
       if \<not> valid sp 88 then Inr (signal_terminate t SIGSEGV s)
       else
         let c = (\<lambda>i. um (sp + 8 * i)) in
         Inr (Resume (c 3),
           upd t (\<lambda>k. k\<lparr>user_saved := \<lparr>saved_rip = c 0, saved_rbp = c 5, saved_rbx = c 4, saved_r12 = c 6,
               saved_r13 = c 7, saved_r14 = c 8, saved_r15 = c 9, saved_r11 = c 2\<rparr>,
             user_rsp := c 1, sig_blocked := c 10\<rparr>) s))"

section \<open>System calls\<close>

text \<open>Pointers may be null; the old action is stored before the new one is read.\<close>

definition sys_rt_sigaction ::
  "(u64 \<Rightarrow> u64 \<Rightarrow> bool) \<Rightarrow> u64 \<Rightarrow> u64 \<Rightarrow> u64 \<Rightarrow> tptr option \<Rightarrow> sched \<Rightarrow> (u64 \<Rightarrow> u64) \<Rightarrow> int result \<times> sched \<times> (u64 \<Rightarrow> u64)" where
  "sys_rt_sigaction valid sig act oldact tp s um = (case tp of
     None \<Rightarrow> (Inl ESRCH, s, um)
   | Some t \<Rightarrow>
     if sig = 0 \<or> sig \<ge> 32 then (Inl EINVAL, s, um)
     else if sig = 9 \<or> sig = 19 then (Inl EINVAL, s, um)
     else if oldact \<noteq> 0 \<and> \<not> valid oldact 32 then (Inl EFAULT, s, um)
     else
       let i = unat sig; k = tasks s t;
           um1 = (if oldact \<noteq> 0 then put_frame oldact
                    [sig_handler k ! i, sig_flags k ! i, sig_restorer k ! i, sig_mask k ! i] um else um)
       in if act = 0 then (Inr 0, s, um1)
          else if \<not> valid act 32 then (Inl EFAULT, s, um1)
          else (Inr 0, upd t (\<lambda>k. k\<lparr>sig_handler := (sig_handler k)[i := um1 act],
                 sig_flags := (sig_flags k)[i := um1 (act + 8)],
                 sig_restorer := (sig_restorer k)[i := um1 (act + 16)],
                 sig_mask := (sig_mask k)[i := um1 (act + 24) AND NOT unmaskable]\<rparr>) s, um1))"

definition sys_rt_sigprocmask ::
  "(u64 \<Rightarrow> u64 \<Rightarrow> bool) \<Rightarrow> u64 \<Rightarrow> u64 \<Rightarrow> u64 \<Rightarrow> tptr option \<Rightarrow> sched \<Rightarrow> (u64 \<Rightarrow> u64) \<Rightarrow> int result \<times> sched \<times> (u64 \<Rightarrow> u64)" where
  "sys_rt_sigprocmask valid how nset oldset tp s um = (case tp of
     None \<Rightarrow> (Inl ESRCH, s, um)
   | Some t \<Rightarrow>
     if oldset \<noteq> 0 \<and> \<not> valid oldset 8 then (Inl EFAULT, s, um)
     else
       let um1 = (if oldset \<noteq> 0 then um(oldset := sig_blocked (tasks s t)) else um) in
       if nset = 0 then (Inr 0, s, um1)
       else if \<not> valid nset 8 then (Inl EFAULT, s, um1)
       else
         let m = um1 nset AND NOT unmaskable in
         if how = 0 then (Inr 0, upd t (\<lambda>k. k\<lparr>sig_blocked := sig_blocked k OR m\<rparr>) s, um1)
         else if how = 1 then (Inr 0, upd t (\<lambda>k. k\<lparr>sig_blocked := sig_blocked k AND NOT m\<rparr>) s, um1)
         else if how = 2 then (Inr 0, upd t (\<lambda>k. k\<lparr>sig_blocked := m\<rparr>) s, um1)
         else (Inl EINVAL, s, um1))"

definition signal_may_send :: "tptr option \<Rightarrow> tptr option \<Rightarrow> sched \<Rightarrow> bool" where
  "signal_may_send mp tp s = (case (mp, tp) of
     (Some me, Some t) \<Rightarrow>
       let m = tasks s me in
       uid m = 0 \<or> capabilities m AND CAP_KILL_ANY = CAP_KILL_ANY \<or>
       is_userspace (tasks s t) \<and> uid m = uid (tasks s t)
   | _ \<Rightarrow> True)"

text \<open>The loop over the members of a process group: found, sent.\<close>

fun kill_group :: "u32 list \<Rightarrow> tptr option \<Rightarrow> u32 \<Rightarrow> int \<Rightarrow> bool \<Rightarrow> bool \<Rightarrow> sched \<Rightarrow> bool \<times> bool \<times> sched" where
  "kill_group [] me g sig found sent s = (found, sent, s)"
| "kill_group (p # ps) me g sig found sent s = (case task_find_by_pid p s of
     None \<Rightarrow> kill_group ps me g sig found sent s
   | Some t \<Rightarrow>
       if pgid (tasks s t) \<noteq> g then kill_group ps me g sig found sent s
       else if \<not> signal_may_send me (Some t) s then kill_group ps me g sig True sent s
       else kill_group ps me g sig True True (if sig \<noteq> 0 then signal_send (Some t) sig s else s))"

definition sys_kill :: "u64 \<Rightarrow> u64 \<Rightarrow> tptr option \<Rightarrow> sched \<Rightarrow> int result \<times> sched" where
  "sys_kill pid_a sig_a me s =
    (let p = to_int32 pid_a; sig = to_int32 sig_a in
     if sig < 0 \<or> sig \<ge> NSIG then (Inl EINVAL, s)
     else if p > 0 then
       (case task_find_by_pid (of_int p) s of
          None \<Rightarrow> (Inl ESRCH, s)
        | Some t \<Rightarrow>
            if \<not> signal_may_send me (Some t) s then (Inl EPERM, s)
            else (Inr 0, if sig \<noteq> 0 then signal_send (Some t) sig s else s))
     else if p = - 1 then (Inl EPERM, s)
     else
       let g = (if p = 0 then (case me of None \<Rightarrow> 0 | Some m \<Rightarrow> pgid (tasks s m)) else of_int (- p));
           (found, sent, s1) = kill_group (task_collect_pids 256 s) me g sig False False s
       in if \<not> found then (Inl ESRCH, s1)
          else if sent then (Inr 0, s1) else (Inl EPERM, s1))"

section \<open>The timer interrupt\<close>

record sleep_scan =
  to_wake :: "tptr list"
  to_alarm :: "tptr list"
  next_earliest :: u64
  next_alarm :: u64

text \<open>One round of the loop in \<open>sched_wakeup_sleepers\<close>: first the alarm, then the deadline.\<close>

definition alarm_round :: "u64 \<Rightarrow> tptr \<Rightarrow> sleep_scan \<times> sched \<Rightarrow> sleep_scan \<times> sched" where
  "alarm_round now_ns t st =
    (let (w, s) = st; k = tasks s t in
     if alarm_at_ns k = 0 then (w, s)
     else if now_ns \<ge> alarm_at_ns k \<and> length (to_alarm w) < 16 then
       let at = (if alarm_interval_ns k \<noteq> 0 then now_ns + alarm_interval_ns k else 0)
       in (w\<lparr>to_alarm := to_alarm w @ [t],
             next_alarm := if at \<noteq> 0 \<and> at < next_alarm w then at else next_alarm w\<rparr>,
           upd t (\<lambda>k. k\<lparr>alarm_at_ns := at\<rparr>) s)
     else if alarm_at_ns k < next_alarm w then (w\<lparr>next_alarm := alarm_at_ns k\<rparr>, s)
     else (w, s))"

definition sleeper_round :: "u64 \<Rightarrow> tptr \<Rightarrow> sleep_scan \<times> sched \<Rightarrow> sleep_scan \<times> sched" where
  "sleeper_round now_ns t st =
    (let (w, s) = st; k = tasks s t in
     if state k \<noteq> TASK_BLOCKED then (w, s)
     else if wakeup_time_ns k = 0 then (w, s)
     else if now_ns \<ge> wakeup_time_ns k \<and> length (to_wake w) < 64 then
       (w\<lparr>to_wake := to_wake w @ [t]\<rparr>,
        upd t (\<lambda>k. k\<lparr>wakeup_time_ns := 0, runnable := True, state := TASK_READY\<rparr>) s)
     else if wakeup_time_ns k < next_earliest w then (w\<lparr>next_earliest := wakeup_time_ns k\<rparr>, s)
     else (w, s))"

definition scan_round :: "u64 \<Rightarrow> nat \<Rightarrow> sleep_scan \<times> sched \<Rightarrow> sleep_scan \<times> sched" where
  "scan_round now_ns i st = (case pid_table (snd st) ! i of
     None \<Rightarrow> st
   | Some t \<Rightarrow> sleeper_round now_ns t (alarm_round now_ns t st))"

definition sched_wakeup_sleepers :: "u64 \<Rightarrow> sched \<Rightarrow> sched" where
  "sched_wakeup_sleepers now_ns s =
    (let deadline = min (g_earliest_wakeup_ns s) (g_earliest_alarm_ns s) in
     if now_ns < deadline then s
     else
       let w0 = \<lparr>to_wake = [], to_alarm = [], next_earliest = UINT64_MAX, next_alarm = UINT64_MAX\<rparr>;
           (w, s1) = fold (scan_round now_ns) [1 ..< MAX_PIDS] (w0, s);
           s2 = s1\<lparr>g_earliest_wakeup_ns := next_earliest w, g_earliest_alarm_ns := next_alarm w\<rparr>;
           s3 = fold enqueue_global (to_wake w) s2
       in fold (\<lambda>t. signal_send (Some t) SIGALRM) (to_alarm w) s3)"

end
