(* ===== verification/Sched_Run.thy ===== *)
theory Sched_Run
  imports Signal
begin

text \<open>
  What the scheduler guarantees: the choice of the next task, the integrity of the ready queues, and
  mutual exclusion of CPUs over tasks under every interleaving of the atomic parts of
  \<open>sched_reschedule\<close> with wake-ups, kills, exits and new tasks on other CPUs.
\<close>

section \<open>The walk along the queues\<close>

definition elig :: "nat \<Rightarrow> task \<Rightarrow> bool" where
  "elig cpu k \<longleftrightarrow> may_run k \<and> affine cpu k \<and> \<not> on_cpu k"

definition dropped :: "tptr set \<Rightarrow> (tptr \<Rightarrow> task) \<Rightarrow> tptr \<Rightarrow> task" where
  "dropped X ts = (\<lambda>x. if x \<in> X \<and> \<not> may_run (ts x) then (ts x)\<lparr>on_rq := False\<rparr> else ts x)"

lemma may_run_upd [simp]:
  "may_run (k\<lparr>on_rq := b\<rparr>) = may_run k" "may_run (k\<lparr>on_cpu := b\<rparr>) = may_run k"
  "affine cpu (k\<lparr>on_rq := b\<rparr>) = affine cpu k" "affine cpu (k\<lparr>on_cpu := b\<rparr>) = affine cpu k"
  by (simp_all add: may_run_def affine_def)

lemma elig_dropped [simp]: "elig cpu (dropped X ts x) = elig cpu (ts x)"
  "may_run (dropped X ts x) = may_run (ts x)"
  by (simp_all add: elig_def dropped_def)

lemma dropped_simps [simp]:
  "dropped {} ts = ts" 
  "\<not> may_run (ts t) \<Longrightarrow> dropped X (ts(t := (ts t)\<lparr>on_rq := False\<rparr>)) = dropped (insert t X) ts"
  "may_run (ts t) \<Longrightarrow> dropped (insert t X) ts = dropped X ts"
  by (auto simp: dropped_def fun_eq_iff)

lemma scan_queue_spec:
  assumes "scan_queue cpu q ts = (r, q', ts')"
  shows "case r of
      None \<Rightarrow> q' = filter (\<lambda>t. may_run (ts t)) q \<and> (\<forall>t \<in> set q. \<not> elig cpu (ts t)) \<and> ts' = dropped (set q) ts
    | Some t \<Rightarrow> \<exists>xs ys. q = xs @ t # ys \<and> elig cpu (ts t) \<and> (\<forall>x \<in> set xs. \<not> elig cpu (ts x)) \<and>
        q' = filter (\<lambda>t. may_run (ts t)) xs @ ys \<and>
        ts' = (dropped (set xs) ts)(t := (ts t)\<lparr>on_cpu := True, on_rq := False\<rparr>)"
  using assms
proof (induction q arbitrary: ts r q' ts')
  case Nil
  then show ?case by simp
next
  case (Cons t q)
  show ?case
  proof (cases "may_run (ts t)")
    case False
    let ?ts = "ts(t := (ts t)\<lparr>on_rq := False\<rparr>)"
    from Cons.prems False have "scan_queue cpu q ?ts = (r, q', ts')" by simp
    note ih = Cons.IH [OF this]
    have e: "elig cpu (?ts x) = elig cpu (ts x)" "may_run (?ts x) = may_run (ts x)" for x
      by (simp_all add: elig_def)
    show ?thesis
    proof (cases r)
      case None
      with ih False show ?thesis by (simp add: e elig_def [of cpu "ts t"] del: fun_upd_apply)
    next
      case (Some u)
      with ih obtain xs ys where q: "q = xs @ u # ys" and u: "elig cpu (ts u)"
        and xs: "\<forall>x \<in> set xs. \<not> elig cpu (ts x)" and q': "q' = filter (\<lambda>t. may_run (ts t)) xs @ ys"
        and ts': "ts' = (dropped (set xs) ?ts)(u := (?ts u)\<lparr>on_cpu := True, on_rq := False\<rparr>)"
        by (auto simp: e simp del: fun_upd_apply)
      from u False have "u \<noteq> t" by (auto simp: elig_def)
      with q u xs q' ts' False show ?thesis
        unfolding Some option.case by - (rule exI [of _ "t # xs"], rule exI [of _ ys], auto simp: elig_def)
    qed
  next
    case run: True
    show ?thesis
    proof (cases "elig cpu (ts t)")
      case True
      with Cons.prems run have "r = Some t" "q' = q" "ts' = ts(t := (ts t)\<lparr>on_cpu := True, on_rq := False\<rparr>)"
        by (auto simp: elig_def)
      with True show ?thesis unfolding \<open>r = Some t\<close> option.case
        by - (rule exI [of _ "[]"], rule exI [of _ q], simp)
    next
      case False
      with run have skip: "\<not> affine cpu (ts t) \<or> on_cpu (ts t)" by (simp add: elig_def)
      obtain q1 where rec: "scan_queue cpu q ts = (r, q1, ts')" and q': "q' = t # q1"
        using Cons.prems run skip by (auto split: prod.splits if_splits)
      show ?thesis
      proof (cases r)
        case None
        with Cons.IH [OF rec] run q' False show ?thesis by simp
      next
        case (Some u)
        with Cons.IH [OF rec] obtain xs ys where "q = xs @ u # ys" "elig cpu (ts u)"
          "\<forall>x \<in> set xs. \<not> elig cpu (ts x)" "q1 = filter (\<lambda>t. may_run (ts t)) xs @ ys"
          "ts' = (dropped (set xs) ts)(u := (ts u)\<lparr>on_cpu := True, on_rq := False\<rparr>)" by auto
        with run q' False show ?thesis
          unfolding Some option.case by - (rule exI [of _ "t # xs"], rule exI [of _ ys], auto)
      qed
    qed
  qed
qed

text \<open>The queues from priority \<open>n - 1\<close> downwards, when nothing is found and when a task is found in queue \<open>p\<close>.\<close>

abbreviation queue :: "sched \<Rightarrow> nat \<Rightarrow> tptr list" where
  "queue s p \<equiv> ready_queues s ! p"

abbreviation runnables :: "sched \<Rightarrow> tptr list \<Rightarrow> tptr list" where
  "runnables s q \<equiv> filter (\<lambda>t. may_run (tasks s t)) q"

definition no_elig :: "nat \<Rightarrow> sched \<Rightarrow> tptr list \<Rightarrow> bool" where
  "no_elig cpu s q \<longleftrightarrow> (\<forall>t \<in> set q. \<not> elig cpu (tasks s t))"

definition same_but :: "sched \<Rightarrow> sched \<Rightarrow> bool" where
  "same_but s s' \<longleftrightarrow> length (ready_queues s') = length (ready_queues s) \<and>
     s' = s\<lparr>ready_queues := ready_queues s', tasks := tasks s'\<rparr>"

lemma same_but_trans: "same_but s s1 \<Longrightarrow> same_but s1 s2 \<Longrightarrow> same_but s s2"
  unfolding same_but_def by (cases s, cases s1, cases s2) simp

lemma same_butD:
  assumes "same_but s s'"
  shows "current_task s' = current_task s" "pid_table s' = pid_table s" "next_pid s' = next_pid s"
    "g_earliest_wakeup_ns s' = g_earliest_wakeup_ns s" "g_earliest_alarm_ns s' = g_earliest_alarm_ns s"
    "g_foreground_pid s' = g_foreground_pid s" "deferred_free_task s' = deferred_free_task s"
    "length (ready_queues s') = length (ready_queues s)" "sfds s' = sfds s" "g_sfds s' = g_sfds s"
proof -
  from assms have eq: "s' = s\<lparr>ready_queues := ready_queues s', tasks := tasks s'\<rparr>"
    and len: "length (ready_queues s') = length (ready_queues s)" by (simp_all add: same_but_def)
  show "current_task s' = current_task s" using arg_cong [OF eq, of current_task] by simp
  show "pid_table s' = pid_table s" using arg_cong [OF eq, of pid_table] by simp
  show "next_pid s' = next_pid s" using arg_cong [OF eq, of next_pid] by simp
  show "g_earliest_wakeup_ns s' = g_earliest_wakeup_ns s" using arg_cong [OF eq, of g_earliest_wakeup_ns] by simp
  show "g_earliest_alarm_ns s' = g_earliest_alarm_ns s" using arg_cong [OF eq, of g_earliest_alarm_ns] by simp
  show "g_foreground_pid s' = g_foreground_pid s" using arg_cong [OF eq, of g_foreground_pid] by simp
  show "deferred_free_task s' = deferred_free_task s" using arg_cong [OF eq, of deferred_free_task] by simp
  show "sfds s' = sfds s" using arg_cong [OF eq, of sfds] by simp
  show "g_sfds s' = g_sfds s" using arg_cong [OF eq, of g_sfds] by simp
  show "length (ready_queues s') = length (ready_queues s)" by (rule len)
qed

lemma dropped_dropped [simp]: "dropped X (dropped Y ts) = dropped (X \<union> Y) ts"
  by (auto simp: dropped_def fun_eq_iff)

lemma pick_below_None:
  assumes "pick_below cpu n s = (None, s')" and "n \<le> length (ready_queues s)"
  shows "same_but s s' \<and> (\<forall>p < n. no_elig cpu s (queue s p) \<and> queue s' p = runnables s (queue s p)) \<and>
    (\<forall>p \<ge> n. queue s' p = queue s p) \<and> tasks s' = dropped (\<Union>p<n. set (queue s p)) (tasks s)"
  using assms
proof (induction n arbitrary: s)
  case 0
  then show ?case by (simp add: same_but_def)
next
  case (Suc n)
  obtain r q' ts' where sc: "scan_queue cpu (queue s n) (tasks s) = (r, q', ts')" by (metis prod_cases3)
  let ?s1 = "s\<lparr>ready_queues := (ready_queues s)[n := q'], tasks := ts'\<rparr>"
  from Suc.prems sc have r: "r = None" and rec: "pick_below cpu n ?s1 = (None, s')"
    by (auto simp: Let_def split: option.splits)
  from scan_queue_spec [OF sc] r have q': "q' = runnables s (queue s n)" and ne: "no_elig cpu s (queue s n)"
    and ts': "ts' = dropped (set (queue s n)) (tasks s)" by (auto simp: no_elig_def)
  have "same_but s ?s1" by (simp add: same_but_def)
  moreover note ih = Suc.IH [OF rec]
  moreover have "(\<Union>p<Suc n. set (queue s p)) = (\<Union>p<n. set (queue s p)) \<union> set (queue s n)"
    by (auto simp: lessThan_Suc)
  ultimately show ?case using Suc.prems(2) q' ne ts'
    by (auto simp: no_elig_def less_Suc_eq nth_list_update intro: same_but_trans)
qed


lemma pick_below_Some:
  assumes "pick_below cpu n s = (Some t, s')" and "n \<le> length (ready_queues s)"
  shows "\<exists>p xs ys. p < n \<and> queue s p = xs @ t # ys \<and> elig cpu (tasks s t) \<and> no_elig cpu s xs \<and>
    same_but s s' \<and> queue s' p = runnables s xs @ ys \<and>
    (\<forall>p'. p < p' \<and> p' < n \<longrightarrow> no_elig cpu s (queue s p') \<and> queue s' p' = runnables s (queue s p')) \<and>
    (\<forall>p'. p' < p \<or> n \<le> p' \<longrightarrow> queue s' p' = queue s p') \<and>
    tasks s' = (dropped (set xs \<union> (\<Union>p' \<in> {p<..<n}. set (queue s p'))) (tasks s))
      (t := (tasks s t)\<lparr>on_cpu := True, on_rq := False\<rparr>)"
  using assms
proof (induction n arbitrary: s)
  case 0
  then show ?case by simp
next
  case (Suc n)
  obtain r q' ts' where sc: "scan_queue cpu (queue s n) (tasks s) = (r, q', ts')" by (metis prod_cases3)
  let ?s1 = "s\<lparr>ready_queues := (ready_queues s)[n := q'], tasks := ts'\<rparr>"
  show ?case
  proof (cases r)
    case (Some u)
    with Suc.prems sc have u: "u = t" and s': "s' = ?s1" by (auto simp: Let_def)
    from scan_queue_spec [OF sc] Some u obtain xs ys where "queue s n = xs @ t # ys" "elig cpu (tasks s t)"
      "no_elig cpu s xs" "q' = runnables s xs @ ys"
      "ts' = (dropped (set xs) (tasks s))(t := (tasks s t)\<lparr>on_cpu := True, on_rq := False\<rparr>)"
      by (auto simp: no_elig_def)
    moreover have empty: "{n<..<Suc n} = {}" by auto
    ultimately show ?thesis using s' Suc.prems(2)
      by - (rule exI [of _ n], rule exI [of _ xs], rule exI [of _ ys], auto simp: same_but_def empty)
  next
    case None
    with Suc.prems sc have rec: "pick_below cpu n ?s1 = (Some t, s')" by (auto simp: Let_def)
    from scan_queue_spec [OF sc] None have q': "q' = runnables s (queue s n)" and ne: "no_elig cpu s (queue s n)"
      and ts': "ts' = dropped (set (queue s n)) (tasks s)" by (auto simp: no_elig_def)
    have sb: "same_but s ?s1" by (simp add: same_but_def)
    have len: "n \<le> length (ready_queues ?s1)" using Suc.prems(2) by simp
    obtain p xs ys where
      p: "p < n" and q: "queue ?s1 p = xs @ t # ys" and el: "elig cpu (tasks ?s1 t)" and nx: "no_elig cpu ?s1 xs"
      and sb1: "same_but ?s1 s'" and qp: "queue s' p = runnables ?s1 xs @ ys"
      and up: "\<forall>p'. p < p' \<and> p' < n \<longrightarrow> no_elig cpu ?s1 (queue ?s1 p') \<and> queue s' p' = runnables ?s1 (queue ?s1 p')"
      and down: "\<forall>p'. p' < p \<or> n \<le> p' \<longrightarrow> queue s' p' = queue ?s1 p'"
      and tk: "tasks s' = (dropped (set xs \<union> (\<Union>p' \<in> {p<..<n}. set (queue ?s1 p'))) (tasks ?s1))
        (t := (tasks ?s1 t)\<lparr>on_cpu := True, on_rq := False\<rparr>)"
      using Suc.IH [OF rec len] by blast
    have mr: "may_run (tasks s t)" using el ts' by (simp add: elig_def)
    have same: "tasks ?s1 t = tasks s t" using mr ts' by (simp add: dropped_def)
    have un: "(\<Union>p' \<in> {p<..<Suc n}. set (queue s p')) = (\<Union>p' \<in> {p<..<n}. set (queue s p')) \<union> set (queue s n)"
      using p by (auto simp: less_Suc_eq)
    have un1: "(\<Union>p' \<in> {p<..<n}. set (queue ?s1 p')) = (\<Union>p' \<in> {p<..<n}. set (queue s p'))" by simp
    have "tasks s' = (dropped (set xs \<union> (\<Union>p' \<in> {p<..<Suc n}. set (queue s p'))) (tasks s))
      (t := (tasks s t)\<lparr>on_cpu := True, on_rq := False\<rparr>)"
      using tk unfolding un1 un same by (simp add: ts' Un_assoc)
    moreover have "\<forall>p'. p < p' \<and> p' < Suc n \<longrightarrow> no_elig cpu s (queue s p') \<and> queue s' p' = runnables s (queue s p')"
      using up down ne q' ts' Suc.prems(2) p by (auto simp: less_Suc_eq no_elig_def nth_list_update)
    moreover have "\<forall>p'. p' < p \<or> Suc n \<le> p' \<longrightarrow> queue s' p' = queue s p'" using down p by auto
    moreover have "same_but s s'" using sb sb1 by (rule same_but_trans)
    ultimately show ?thesis using p q el nx qp same ts'
      by - (rule exI [of _ p], rule exI [of _ xs], rule exI [of _ ys], simp add: no_elig_def)
  qed
qed


section \<open>Integrity of the ready queues\<close>

text \<open>
  A task is on the queue of its priority, once, exactly when its \<open>on_rq\<close> flag is set; only heap tasks
  are queued, have a process identifier or wait on a signal descriptor.
\<close>

definition rq_inv :: "sched \<Rightarrow> bool" where
  "rq_inv s \<longleftrightarrow> length (ready_queues s) = Suc MAX_PRIORITY \<and>
     (\<forall>p \<le> MAX_PRIORITY. distinct (queue s p) \<and>
        (\<forall>t \<in> set (queue s p). priority (tasks s t) = p \<and> on_rq (tasks s t) \<and> (\<exists>n. t = Task n))) \<and>
     (\<forall>t. priority (tasks s t) \<le> MAX_PRIORITY) \<and>
     (\<forall>t. on_rq (tasks s t) \<longrightarrow> t \<in> set (queue s (priority (tasks s t)))) \<and>
     (\<forall>t. Some t \<in> set (pid_table s) \<longrightarrow> (\<exists>n. t = Task n)) \<and>
     (\<forall>i t. waiter (sfds s i) = Some t \<longrightarrow> (\<exists>n. t = Task n))"

lemma rq_invD:
  assumes "rq_inv s"
  shows "length (ready_queues s) = Suc MAX_PRIORITY"
    and "p \<le> MAX_PRIORITY \<Longrightarrow> distinct (queue s p)"
    and "p \<le> MAX_PRIORITY \<Longrightarrow> t \<in> set (queue s p) \<Longrightarrow>
      priority (tasks s t) = p \<and> on_rq (tasks s t) \<and> (\<exists>n. t = Task n)"
    and "priority (tasks s t) \<le> MAX_PRIORITY"
    and "on_rq (tasks s t) \<Longrightarrow> t \<in> set (queue s (priority (tasks s t)))"
    and "Some t \<in> set (pid_table s) \<Longrightarrow> \<exists>n. t = Task n"
    and "waiter (sfds s i) = Some t \<Longrightarrow> \<exists>n. t = Task n"
  using assms unfolding rq_inv_def by blast+

lemma upd_fields [simp]:
  "ready_queues (upd t f s) = ready_queues s" "current_task (upd t f s) = current_task s"
  "pid_table (upd t f s) = pid_table s" "next_pid (upd t f s) = next_pid s"
  "g_earliest_wakeup_ns (upd t f s) = g_earliest_wakeup_ns s" "g_earliest_alarm_ns (upd t f s) = g_earliest_alarm_ns s"
  "g_foreground_pid (upd t f s) = g_foreground_pid s" "deferred_free_task (upd t f s) = deferred_free_task s"
  "sfds (upd t f s) = sfds s" "g_sfds (upd t f s) = g_sfds s"
  "tasks (upd t f s) u = (if u = t then f (tasks s t) else tasks s u)"
  by (simp_all add: upd_def)

lemma rq_inv_cong:
  assumes "rq_inv s" and "ready_queues s' = ready_queues s"
    and "\<And>t. priority (tasks s' t) = priority (tasks s t) \<and> on_rq (tasks s' t) = on_rq (tasks s t)"
    and "\<And>t. Some t \<in> set (pid_table s') \<Longrightarrow> \<exists>n. t = Task n"
    and "\<And>i t. waiter (sfds s' i) = Some t \<Longrightarrow> \<exists>n. t = Task n"
  shows "rq_inv s'"
  using assms unfolding rq_inv_def by (metis (no_types, lifting))

lemma rq_inv_upd:
  assumes "rq_inv s" and "priority (f (tasks s t)) = priority (tasks s t)" and "on_rq (f (tasks s t)) = on_rq (tasks s t)"
  shows "rq_inv (upd t f s)"
  by (rule rq_inv_cong [OF assms(1)]) (use assms rq_invD(6,7) [OF assms(1)] in auto)

lemma rq_inv_enqueue:
  assumes inv: "rq_inv s" and t: "t = Task n"
  shows "rq_inv (enqueue_global t s)"
proof (cases "on_rq (tasks s t)")
  case True
  with inv show ?thesis by (simp add: enqueue_global_def)
next
  case False
  let ?s = "enqueue_global t s" and ?p = "priority (tasks s t)"
  have q: "queue ?s p = (if p = ?p then t # queue s p else queue s p)" for p
    using False rq_invD(1,4) [OF inv] by (simp add: enqueue_global_def Let_def nth_list_update less_Suc_eq_le)
  have k: "priority (tasks ?s u) = priority (tasks s u)" "on_rq (tasks ?s u) \<longleftrightarrow> on_rq (tasks s u) \<or> u = t" for u
    using False by (auto simp: enqueue_global_def Let_def)
  have fresh: "t \<notin> set (queue s p)" if "p \<le> MAX_PRIORITY" for p using rq_invD(3) [OF inv that] False by blast
  have len: "length (ready_queues ?s) = Suc MAX_PRIORITY" and pt: "pid_table ?s = pid_table s"
    using rq_invD(1) [OF inv] by (simp_all add: enqueue_global_def Let_def)
  have mem: "priority (tasks s u) = p \<and> (on_rq (tasks s u) \<or> u = t) \<and> (\<exists>n. u = Task n)"
    if "p \<le> MAX_PRIORITY" "u \<in> set (if p = ?p then t # queue s p else queue s p)" for p u
    using that rq_invD(3) [OF inv, of p u] t by (auto split: if_splits)
  have conv: "u \<in> set (if priority (tasks s u) = ?p then t # queue s (priority (tasks s u)) else queue s (priority (tasks s u)))"
    if "on_rq (tasks s u) \<or> u = t" for u using that rq_invD(5) [OF inv, of u] by auto
  show ?thesis unfolding rq_inv_def len pt
  proof (intro conjI allI impI)
    show "distinct (queue ?s p)" if "p \<le> MAX_PRIORITY" for p
      unfolding q using rq_invD(2) [OF inv that] fresh [OF that] by (cases "p = ?p") simp_all
    show "\<forall>u \<in> set (queue ?s p). priority (tasks ?s u) = p \<and> on_rq (tasks ?s u) \<and> (\<exists>n. u = Task n)"
      if "p \<le> MAX_PRIORITY" for p unfolding q k using mem [OF that] by blast
    show "priority (tasks ?s u) \<le> MAX_PRIORITY" for u unfolding k by (rule rq_invD(4) [OF inv])
    show "u \<in> set (queue ?s (priority (tasks ?s u)))" if "on_rq (tasks ?s u)" for u
      using that unfolding q k by (rule conv)
    show "\<exists>n. u = Task n" if "Some u \<in> set (pid_table s)" for u using rq_invD(6) [OF inv that] .
    show "\<exists>n. u = Task n" if "waiter (sfds ?s i) = Some u" for i u
      using that rq_invD(7) [OF inv, of i u] by (simp add: enqueue_global_def Let_def split: if_splits)
  qed simp
qed

text \<open>The queue a task is in tells its priority.\<close>

lemma queue_unique:
  assumes "rq_inv s" "p \<le> MAX_PRIORITY" "p' \<le> MAX_PRIORITY" "u \<in> set (queue s p)" "u \<in> set (queue s p')"
  shows "p = p'"
  using rq_invD(3) [OF assms(1)] assms(2-5) by metis

lemma pick_keeps_rq:
  assumes inv: "rq_inv s" and p: "p < Suc MAX_PRIORITY" and q: "queue s p = xs @ t # ys"
    and el: "elig cpu (tasks s t)" and sb: "same_but s s'"
    and qp: "queue s' p = runnables s xs @ ys"
    and up: "\<forall>p'. p < p' \<and> p' < Suc MAX_PRIORITY \<longrightarrow> no_elig cpu s (queue s p') \<and> queue s' p' = runnables s (queue s p')"
    and down: "\<forall>p'. p' < p \<or> Suc MAX_PRIORITY \<le> p' \<longrightarrow> queue s' p' = queue s p'"
    and ts: "tasks s' = (dropped (set xs \<union> (\<Union>p' \<in> {p<..<Suc MAX_PRIORITY}. set (queue s p'))) (tasks s))
      (t := (tasks s t)\<lparr>on_cpu := True, on_rq := False\<rparr>)"
  shows "rq_inv s'"
proof -
  let ?X = "set xs \<union> (\<Union>p' \<in> {p<..<Suc MAX_PRIORITY}. set (queue s p'))"
  have d: "distinct (xs @ t # ys)" using rq_invD(2) [OF inv, of p] p q by simp
  have prio: "priority (tasks s' u) = priority (tasks s u)" for u by (simp add: ts dropped_def)
  have keep: "tasks s' u = tasks s u" if "u \<noteq> t" "u \<notin> ?X \<or> may_run (tasks s u)" for u
    using that by (auto simp: ts dropped_def)
  have gone: "\<not> on_rq (tasks s' u)" if "u \<in> ?X" "\<not> may_run (tasks s u)" for u
    using that by (auto simp: ts dropped_def)
  have tq: "priority (tasks s t) = p" using rq_invD(3) [OF inv, of p t] p q by simp
  show ?thesis unfolding rq_inv_def
  proof (intro conjI allI impI)
    show "length (ready_queues s') = Suc MAX_PRIORITY" using sb rq_invD(1) [OF inv] by (simp add: same_but_def)
    show "priority (tasks s' u) \<le> MAX_PRIORITY" for u using prio rq_invD(4) [OF inv] by simp
    show "\<exists>n. u = Task n" if "Some u \<in> set (pid_table s')" for u
      using that rq_invD(6) [OF inv] by (simp add: same_butD(2) [OF sb])
    show "\<exists>n. u = Task n" if "waiter (sfds s' i) = Some u" for i u
      using that rq_invD(7) [OF inv, of i u] by (simp add: same_butD(9) [OF sb])
  next
    fix p' assume p': "p' \<le> MAX_PRIORITY"
    consider "p' < p" | "p' = p" | "p < p'" by linarith
    then show "distinct (queue s' p')"
      using down up qp d rq_invD(2) [OF inv p'] p' by cases (auto simp: less_Suc_eq_le)
  next
    fix p' assume p': "p' \<le> MAX_PRIORITY"
    show "\<forall>u \<in> set (queue s' p'). priority (tasks s' u) = p' \<and> on_rq (tasks s' u) \<and> (\<exists>n. u = Task n)"
    proof
      fix u assume u: "u \<in> set (queue s' p')"
      have old: "u \<in> set (queue s p')" "u \<noteq> t" "u \<notin> ?X \<or> may_run (tasks s u)"
      proof -
        consider "p' < p" | "p' = p" | "p < p'" by linarith
        then show "u \<in> set (queue s p')" using u down up qp q p' by cases (auto simp: less_Suc_eq_le)
        note mem = this
        show "u \<noteq> t" 
        proof
          assume "u = t"
          with mem tq rq_invD(3) [OF inv p', of u] have "p' = p" by simp
          with u qp d \<open>u = t\<close> show False by auto
        qed
        show "u \<notin> ?X \<or> may_run (tasks s u)"
        proof (rule ccontr)
          assume "\<not> (u \<notin> ?X \<or> may_run (tasks s u))"
          then have X: "u \<in> ?X" and nr: "\<not> may_run (tasks s u)" by auto
          obtain p'' where "p \<le> p''" "p'' \<le> MAX_PRIORITY" "u \<in> set (queue s p'')"
          proof (cases "u \<in> set xs")
            case True
            with q p that [of p] show ?thesis by simp
          next
            case False
            with X obtain p2 where "p < p2" "p2 \<le> MAX_PRIORITY" "u \<in> set (queue s p2)" by (auto simp: less_Suc_eq_le)
            with that [of p2] show ?thesis by simp
          qed
          with queue_unique [OF inv _ p' _ mem] have "p \<le> p'" by auto
          then consider "p' = p" | "p < p'" by linarith
          then show False
          proof cases
            case 1
            with u qp nr have "u \<in> set ys" by auto
            with d X have "u \<in> (\<Union>p' \<in> {p<..<Suc MAX_PRIORITY}. set (queue s p'))" by auto
            with queue_unique [OF inv _ p' _ mem] 1 show False by (auto simp: less_Suc_eq_le)
          next
            case 2
            with u up nr p' show False by (auto simp: less_Suc_eq_le)
          qed
        qed
      qed
      with keep rq_invD(3) [OF inv p'] show "priority (tasks s' u) = p' \<and> on_rq (tasks s' u) \<and> (\<exists>n. u = Task n)" by simp
    qed
  next
    fix u assume on: "on_rq (tasks s' u)"
    then have ut: "u \<noteq> t" by (auto simp: ts)
    with on have old: "on_rq (tasks s u)" and run: "u \<notin> ?X \<or> may_run (tasks s u)"
      using gone by (auto simp: ts dropped_def split: if_splits)
    let ?p = "priority (tasks s u)"
    have mem: "u \<in> set (queue s ?p)" using rq_invD(5) [OF inv old] .
    have le: "?p < Suc MAX_PRIORITY" using rq_invD(4) [OF inv, of u] by simp
    consider "?p < p" | "?p = p" | "p < ?p" by linarith
    then show "u \<in> set (queue s' (priority (tasks s' u)))" unfolding prio
    proof cases
      case 1 with mem down show "u \<in> set (queue s' ?p)" by simp
    next
      case 2 with mem q qp run ut show "u \<in> set (queue s' ?p)" by auto
    next
      case 3 with mem up run le show "u \<in> set (queue s' ?p)" by auto
    qed
  qed
qed


lemma drop_all_keeps_rq:
  assumes inv: "rq_inv s" and sb: "same_but s s'"
    and q: "\<forall>p < Suc MAX_PRIORITY. queue s' p = runnables s (queue s p)"
    and ts: "tasks s' = dropped (\<Union>p<Suc MAX_PRIORITY. set (queue s p)) (tasks s)"
  shows "rq_inv s'"
proof -
  have prio: "priority (tasks s' u) = priority (tasks s u)" for u by (simp add: ts dropped_def)
  have on: "on_rq (tasks s' u) \<longleftrightarrow> on_rq (tasks s u) \<and> may_run (tasks s u)" for u
    using rq_invD(5) [OF inv, of u] rq_invD(4) [OF inv, of u] by (auto simp: ts dropped_def less_Suc_eq_le)
  show ?thesis unfolding rq_inv_def
  proof (intro conjI allI impI)
    show "length (ready_queues s') = Suc MAX_PRIORITY" using same_butD(8) [OF sb] rq_invD(1) [OF inv] by simp
    show "distinct (queue s' p)" if "p \<le> MAX_PRIORITY" for p using q that rq_invD(2) [OF inv that] by (simp add: less_Suc_eq_le)
    show "\<forall>u \<in> set (queue s' p). priority (tasks s' u) = p \<and> on_rq (tasks s' u) \<and> (\<exists>n. u = Task n)"
      if "p \<le> MAX_PRIORITY" for p using q that rq_invD(3) [OF inv that] by (auto simp: less_Suc_eq_le prio on)
    show "priority (tasks s' u) \<le> MAX_PRIORITY" for u unfolding prio by (rule rq_invD(4) [OF inv])
    show "u \<in> set (queue s' (priority (tasks s' u)))" if "on_rq (tasks s' u)" for u
      using that q rq_invD(5) [OF inv, of u] rq_invD(4) [OF inv, of u] by (simp add: prio on less_Suc_eq_le)
    show "\<exists>n. u = Task n" if "Some u \<in> set (pid_table s')" for u
      using that rq_invD(6) [OF inv] by (simp add: same_butD(2) [OF sb])
    show "\<exists>n. u = Task n" if "waiter (sfds s' i) = Some u" for i u
      using that rq_invD(7) [OF inv, of i u] by (simp add: same_butD(9) [OF sb])
  qed
qed

text \<open>What one call of \<open>sched_pick_next\<close> does to flags and queues.\<close>

definition picked :: "nat \<Rightarrow> tptr \<Rightarrow> sched \<Rightarrow> sched \<Rightarrow> bool" where
  "picked cpu t s s' \<longleftrightarrow> rq_inv s' \<and> same_but s s' \<and>
     (\<forall>u. \<exists>a b. tasks s' u = (tasks s u)\<lparr>on_cpu := a, on_rq := b\<rparr>) \<and>
     (\<forall>u. on_cpu (tasks s' u) \<longleftrightarrow> on_cpu (tasks s u) \<or> u = t \<and> t \<noteq> Idle cpu) \<and>
     (\<forall>n. may_run (tasks s (Task n)) \<longrightarrow> Task n \<noteq> t \<longrightarrow> on_rq (tasks s' (Task n)) = on_rq (tasks s (Task n))) \<and>
     (t = Idle cpu \<or> (\<exists>n. t = Task n) \<and> \<not> on_cpu (tasks s t))"

lemma sched_pick_next_picked:
  assumes inv: "rq_inv s" and pick: "sched_pick_next cpu s = (t, s')"
  shows "picked cpu t s s'"
proof (cases "pick_below cpu (Suc MAX_PRIORITY) s")
  case (Pair r s1)
  have len: "Suc MAX_PRIORITY \<le> length (ready_queues s)" using rq_invD(1) [OF inv] by simp
  show ?thesis
  proof (cases r)
    case None
    with Pair pick have t: "t = Idle cpu" "s1 = s'" by (simp_all add: sched_pick_next_def)
    from pick_below_None [OF _ len, of cpu s1] Pair None
    have sb: "same_but s s1" and q: "\<forall>p < Suc MAX_PRIORITY. queue s1 p = runnables s (queue s p)"
      and ts: "tasks s1 = dropped (\<Union>p<Suc MAX_PRIORITY. set (queue s p)) (tasks s)" by auto
    have "rq_inv s1" by (rule drop_all_keeps_rq [OF inv sb q ts])
    moreover have "tasks s1 u = (tasks s u)\<lparr>on_cpu := on_cpu (tasks s1 u), on_rq := on_rq (tasks s1 u)\<rparr> \<and>
        on_cpu (tasks s1 u) = on_cpu (tasks s u) \<and> (may_run (tasks s u) \<longrightarrow> on_rq (tasks s1 u) = on_rq (tasks s u))" for u
      by (simp add: ts dropped_def)
    ultimately show ?thesis using sb unfolding picked_def t(1) t(2) [symmetric] by blast
  next
    case (Some u)
    with Pair pick have [simp]: "u = t" "s1 = s'" by (simp_all add: sched_pick_next_def)
    from Pair Some have "pick_below cpu (Suc MAX_PRIORITY) s = (Some t, s')" by simp
    from pick_below_Some [OF this len] obtain p xs ys where
      p: "p < Suc MAX_PRIORITY" and q: "queue s p = xs @ t # ys" and el: "elig cpu (tasks s t)" and sb: "same_but s s'"
      and qp: "queue s' p = runnables s xs @ ys"
      and up: "\<forall>p'. p < p' \<and> p' < Suc MAX_PRIORITY \<longrightarrow> no_elig cpu s (queue s p') \<and> queue s' p' = runnables s (queue s p')"
      and down: "\<forall>p'. p' < p \<or> Suc MAX_PRIORITY \<le> p' \<longrightarrow> queue s' p' = queue s p'"
      and ts: "tasks s' = (dropped (set xs \<union> (\<Union>p' \<in> {p<..<Suc MAX_PRIORITY}. set (queue s p'))) (tasks s))
        (t := (tasks s t)\<lparr>on_cpu := True, on_rq := False\<rparr>)" by blast
    have "rq_inv s'" by (rule pick_keeps_rq [OF inv p q el sb qp up down ts])
    moreover obtain n where n: "t = Task n" using rq_invD(3) [OF inv, of p t] p q by auto
    moreover have "tasks s' u = (tasks s u)\<lparr>on_cpu := on_cpu (tasks s' u), on_rq := on_rq (tasks s' u)\<rparr> \<and>
        (on_cpu (tasks s' u) \<longleftrightarrow> on_cpu (tasks s u) \<or> u = t) \<and>
        (may_run (tasks s u) \<longrightarrow> u \<noteq> t \<longrightarrow> on_rq (tasks s' u) = on_rq (tasks s u))" for u
      by (simp add: ts dropped_def)
    moreover have "\<not> on_cpu (tasks s t)" using el by (simp add: elig_def)
    ultimately show ?thesis using sb unfolding picked_def by blast
  qed
qed


section \<open>Operations that leave the CPUs alone\<close>

text \<open>
  A wake-up, a kill, a signal or a timer tick changes no CPU; it may put tasks on the ready queues, and a
  task that it makes runnable is on a queue afterwards.
\<close>

definition quiet :: "sched \<Rightarrow> sched \<Rightarrow> bool" where
  "quiet s s' \<longleftrightarrow> (rq_inv s \<longrightarrow> rq_inv s' \<and> current_task s' = current_task s \<and>
     length (pid_table s') = length (pid_table s) \<and>
     (\<forall>t. on_cpu (tasks s' t) = on_cpu (tasks s t)) \<and> (\<forall>t. on_rq (tasks s t) \<longrightarrow> on_rq (tasks s' t)) \<and>
     (\<forall>t. may_run (tasks s' t) \<longrightarrow> may_run (tasks s t) \<or> on_rq (tasks s' t)))"

lemma quiet_refl [simp]: "quiet s s"
  by (simp add: quiet_def)

lemma quiet_trans: "quiet s s1 \<Longrightarrow> quiet s1 s2 \<Longrightarrow> quiet s s2"
  by (auto simp: quiet_def)

lemma quiet_fold: "(\<And>x s. x \<in> set xs \<Longrightarrow> quiet s (f x s)) \<Longrightarrow> quiet s (fold f xs s)"
proof (induction xs arbitrary: s)
  case (Cons x xs)
  have "quiet s (f x s)" using Cons.prems by simp
  moreover have "quiet (f x s) (fold f xs (f x s))" using Cons.prems by (intro Cons.IH) simp
  ultimately show ?case by (auto intro: quiet_trans)
qed simp

lemma quiet_upd:
  assumes "priority (f (tasks s t)) = priority (tasks s t)" "on_rq (f (tasks s t)) = on_rq (tasks s t)"
    "on_cpu (f (tasks s t)) = on_cpu (tasks s t)" "may_run (f (tasks s t)) \<Longrightarrow> may_run (tasks s t)"
  shows "quiet s (upd t f s)"
  using assms rq_inv_upd [of s f t] by (auto simp: quiet_def)

lemma enqueue_task [simp]:
  "priority (tasks (enqueue_global t s) u) = priority (tasks s u)"
  "on_cpu (tasks (enqueue_global t s) u) = on_cpu (tasks s u)"
  "on_rq (tasks (enqueue_global t s) u) = (on_rq (tasks s u) \<or> u = t)"
  "may_run (tasks (enqueue_global t s) u) = may_run (tasks s u)"
  "current_task (enqueue_global t s) = current_task s" "pid_table (enqueue_global t s) = pid_table s"
  by (auto simp: enqueue_global_def Let_def)

lemma quiet_unblock:
  assumes "rq_inv s \<Longrightarrow> tp = None \<or> (\<exists>n. tp = Some (Task n))"
  shows "quiet s (task_unblock tp s)"
proof -
  have "quiet s (task_unblock (Some (Task n)) s)" for n
  proof -
    let ?f = "\<lambda>k::task. k\<lparr>runnable := True, state := TASK_READY\<rparr>"
    have "rq_inv (enqueue_global (Task n) (upd (Task n) ?f s))" if "rq_inv s"
      using that by (intro rq_inv_enqueue rq_inv_upd) simp_all
    then show ?thesis by (auto simp: quiet_def task_unblock_def)
  qed
  with assms show ?thesis by (cases "rq_inv s") (auto simp: task_unblock_def, simp_all add: quiet_def)
qed

text \<open>A scan that makes the tasks \<open>w\<close> runnable and leaves it to its caller to queue them.\<close>

definition woken :: "tptr list \<Rightarrow> sched \<Rightarrow> sched \<Rightarrow> bool" where
  "woken w s s' \<longleftrightarrow> (rq_inv s \<longrightarrow> rq_inv s' \<and> current_task s' = current_task s \<and>
     length (pid_table s') = length (pid_table s) \<and> (\<forall>t \<in> set w. \<exists>n. t = Task n) \<and>
     (\<forall>t. on_cpu (tasks s' t) = on_cpu (tasks s t)) \<and> (\<forall>t. on_rq (tasks s' t) = on_rq (tasks s t)) \<and>
     (\<forall>t. may_run (tasks s' t) \<longrightarrow> may_run (tasks s t) \<or> t \<in> set w))"

lemma enqueue_all:
  assumes "rq_inv s" and "\<forall>t \<in> set w. \<exists>n. t = Task n"
  shows "rq_inv (fold enqueue_global w s) \<and> current_task (fold enqueue_global w s) = current_task s \<and>
    pid_table (fold enqueue_global w s) = pid_table s \<and>
    (\<forall>t. on_cpu (tasks (fold enqueue_global w s) t) = on_cpu (tasks s t)) \<and>
    (\<forall>t. on_rq (tasks (fold enqueue_global w s) t) = (on_rq (tasks s t) \<or> t \<in> set w)) \<and>
    (\<forall>t. may_run (tasks (fold enqueue_global w s) t) = may_run (tasks s t))"
  using assms
proof (induction w arbitrary: s)
  case (Cons t w)
  then have "rq_inv (enqueue_global t s)" using rq_inv_enqueue by auto
  with Cons show ?case by (auto simp: Cons.IH)
qed simp

lemma woken_enqueued: "woken w s s' \<Longrightarrow> quiet s (fold enqueue_global w s')"
proof (cases "rq_inv s")
  case True
  assume "woken w s s'"
  with True have f: "rq_inv s'" "\<forall>t \<in> set w. \<exists>n. t = Task n" "current_task s' = current_task s"
    "length (pid_table s') = length (pid_table s)"
    "\<forall>t. on_cpu (tasks s' t) = on_cpu (tasks s t)" "\<forall>t. on_rq (tasks s' t) = on_rq (tasks s t)"
    "\<forall>t. may_run (tasks s' t) \<longrightarrow> may_run (tasks s t) \<or> t \<in> set w" by (simp_all add: woken_def)
  from enqueue_all [OF f(1,2)] f(3-7) show ?thesis by (simp add: quiet_def) blast
qed (simp add: quiet_def)

lemma woken_upd:
  assumes w: "woken w s s1" and t: "rq_inv s \<Longrightarrow> \<exists>n. t = Task n"
    and f: "priority (f (tasks s1 t)) = priority (tasks s1 t)" "on_rq (f (tasks s1 t)) = on_rq (tasks s1 t)"
      "on_cpu (f (tasks s1 t)) = on_cpu (tasks s1 t)"
  shows "woken (w @ [t]) s (upd t f s1)"
  using w t f rq_inv_upd [of s1 f t] unfolding woken_def by auto

lemma table_heap: "rq_inv s \<Longrightarrow> i < length (pid_table s) \<Longrightarrow> pid_table s ! i = Some t \<Longrightarrow> \<exists>n. t = Task n"
  by (metis nth_mem rq_invD(6))

lemma waiters_scan_woken:
  assumes "waiters_scan is p w s1 = (w', s')" and "woken w s s1"
    and "pid_table s1 = pid_table s" and "\<forall>i \<in> set is. i < length (pid_table s)"
  shows "woken w' s s'"
  using assms
proof (induction "is" arbitrary: w s1)
  case (Cons i "is")
  let ?f = "\<lambda>k::task. k\<lparr>wait_for_pid := 0, runnable := True, state := TASK_READY\<rparr>"
  show ?case
  proof (cases "length w < 64 \<and> (\<exists>t. pid_table s1 ! i = Some t \<and> state (tasks s1 t) = TASK_BLOCKED \<and>
      (wait_for_pid (tasks s1 t) = p \<or> wait_for_pid (tasks s1 t) = - 1))")
    case True
    then obtain t where t: "pid_table s1 ! i = Some t" by blast
    have "woken (w @ [t]) s (upd t ?f s1)"
      using Cons.prems t table_heap [of s i t] by (intro woken_upd) auto
    moreover have "waiters_scan is p (w @ [t]) (upd t ?f s1) = (w', s')" using Cons.prems(1) True t by auto
    ultimately show ?thesis using Cons.prems by (auto intro: Cons.IH)
  next
    case False
    with Cons.prems(1) have "waiters_scan is p w s1 = (w', s') \<or> (w', s') = (w, s1)"
      by (auto split: if_splits option.splits)
    with Cons.prems show ?thesis by (auto intro: Cons.IH)
  qed
qed simp

lemma quiet_waiters: "length (pid_table s) = MAX_PIDS \<Longrightarrow> quiet s (task_wakeup_waiters p s)"
proof -
  assume len: "length (pid_table s) = MAX_PIDS"
  obtain w s1 where sc: "waiters_scan [1 ..< MAX_PIDS] p [] s = (w, s1)" by fastforce
  have "woken w s s1"
    by (rule waiters_scan_woken [OF sc]) (simp_all add: woken_def len)
  then show ?thesis unfolding task_wakeup_waiters_def sc by (simp add: woken_enqueued)
qed


lemma quiet_then: "quiet s s1 \<Longrightarrow> (rq_inv s \<Longrightarrow> quiet s1 s2) \<Longrightarrow> quiet s s2"
  by (cases "rq_inv s") (auto intro: quiet_trans, simp add: quiet_def)

lemma quiet_kill: "quiet s (task_kill (Some (Task n)) s)"
proof -
  let ?s1 = "upd (Task n) (\<lambda>k. k\<lparr>exit_code := 130, pending_kill := True\<rparr>) s"
  let ?s2 = "upd (Task n) (\<lambda>k. k\<lparr>wakeup_time_ns := 0\<rparr>) ?s1"
  have 1: "quiet s ?s1" by (rule quiet_upd) (simp_all add: may_run_def)
  have 2: "quiet ?s1 ?s2" by (rule quiet_upd) (simp_all add: may_run_def)
  have 3: "quiet ?s2 (task_unblock (Some (Task n)) ?s2)" by (rule quiet_unblock) simp
  have "quiet s (task_unblock (Some (Task n)) ?s2)" using quiet_trans [OF quiet_trans [OF 1 2] 3] .
  with 1 show ?thesis by (simp add: task_kill_def Let_def)
qed

lemma quiet_deliver_loop: "quiet s (snd (deliver_loop ds p sig taken s))"
proof (induction ds p sig taken s rule: deliver_loop.induct)
  case (3 i ds p sig taken s)
  let ?d = "sfds s i"
  let ?s1 = "s\<lparr>sfds := (sfds s)(i := (sfd_push (of_int sig) ?d)\<lparr>waiter := None\<rparr>)\<rparr>"
  have "rq_inv ?s1" if "rq_inv s"
    by (rule rq_inv_cong [OF that]) (use rq_invD(6,7) [OF that] in \<open>auto split: if_splits\<close>)
  then have "quiet s ?s1" by (simp add: quiet_def)
  then have "quiet s (task_unblock (waiter ?d) ?s1)"
    by (rule quiet_then) (rule quiet_unblock, use rq_invD(7) [of s i] in \<open>cases "waiter ?d"; auto\<close>)
  with 3 show ?case by (auto simp: Let_def intro: quiet_trans)
qed simp_all

lemma quiet_signal_send: "tp = None \<or> (\<exists>n. tp = Some (Task n)) \<Longrightarrow> quiet s (signal_send tp sig s)"
proof -
  have raise: "quiet s (signal_raise (Task n) sig s)" for n s
  proof -
    let ?s1 = "upd (Task n) (\<lambda>k. k\<lparr>sig_pending := sig_pending k OR sigbit sig\<rparr>) s"
    let ?s2 = "if sig = SIGKILL then upd (Task n) (\<lambda>k. k\<lparr>pending_kill := True\<rparr>) ?s1 else ?s1"
    have 1: "quiet s ?s1" by (rule quiet_upd) (simp_all add: may_run_def)
    have 2: "quiet ?s1 (upd (Task n) (\<lambda>k. k\<lparr>pending_kill := True\<rparr>) ?s1)" by (rule quiet_upd) (simp_all add: may_run_def)
    have 3: "quiet s ?s2" using 1 quiet_trans [OF 1 2] by (cases "sig = SIGKILL") simp_all
    have "quiet ?s2 (task_unblock (Some (Task n)) ?s2)" by (rule quiet_unblock) simp
    with 3 have "quiet s (task_unblock (Some (Task n)) ?s2)" by (rule quiet_trans)
    with 3 show ?thesis unfolding signal_raise_def Let_def by (simp only: split: if_split) blast
  qed
  have "quiet s (signal_send (Some (Task n)) sig s)" for n
  proof -
    let ?r = "if sig \<noteq> SIGKILL then signalfd_deliver (pid (tasks s (Task n))) sig s else (False, s)"
    have "quiet s (snd ?r)" by (simp add: signalfd_deliver_def quiet_deliver_loop)
    then have "quiet s (signal_raise (Task n) sig (snd ?r))" "quiet s (snd ?r)"
      using raise by (auto intro: quiet_trans)
    then show ?thesis by (cases ?r) (simp add: signal_send_def Let_def del: if_split split: if_split_asm)
  qed
  moreover assume "tp = None \<or> (\<exists>n. tp = Some (Task n))"
  ultimately show ?thesis by (auto simp: signal_send_def)
qed


lemma woken_upd_keep:
  assumes w: "woken w s s1"
    and f: "priority (f (tasks s1 t)) = priority (tasks s1 t)" "on_rq (f (tasks s1 t)) = on_rq (tasks s1 t)"
      "on_cpu (f (tasks s1 t)) = on_cpu (tasks s1 t)" "may_run (f (tasks s1 t)) = may_run (tasks s1 t)"
  shows "woken w s (upd t f s1)"
  using w f rq_inv_upd [of s1 f t] unfolding woken_def by auto

lemma scan_round_woken:
  assumes "woken (to_wake w) s s1" and "pid_table s1 = pid_table s" and "i < length (pid_table s)"
    and "rq_inv s \<Longrightarrow> \<forall>t \<in> set (to_alarm w). \<exists>n. t = Task n"
    and "scan_round now i (w, s1) = (w', s')"
  shows "woken (to_wake w') s s' \<and> pid_table s' = pid_table s \<and> (rq_inv s \<longrightarrow> (\<forall>t \<in> set (to_alarm w'). \<exists>n. t = Task n))"
proof (cases "pid_table s1 ! i")
  case None
  with assms show ?thesis by (simp add: scan_round_def)
next
  case (Some t)
  have heap: "rq_inv s \<Longrightarrow> \<exists>n. t = Task n" using table_heap [of s i t] assms(2,3) Some by simp
  obtain wa sa where al: "alarm_round now t (w, s1) = (wa, sa)" by fastforce
  have a: "woken (to_wake wa) s sa" "pid_table sa = pid_table s" "rq_inv s \<longrightarrow> (\<forall>t \<in> set (to_alarm wa). \<exists>n. t = Task n)"
    using al assms heap by (auto simp: alarm_round_def Let_def may_run_def intro!: woken_upd_keep split: if_splits)
  have sl: "sleeper_round now t (wa, sa) = (w', s')" using assms(5) Some al by (simp add: scan_round_def)
  show ?thesis
    using sl a heap by (auto simp: sleeper_round_def Let_def intro!: woken_upd split: if_splits)
qed

lemma scan_fold_woken:
  assumes "fold (scan_round now) is (w, s1) = (w', s')" and "\<forall>i \<in> set is. i < length (pid_table s)"
    and "woken (to_wake w) s s1" and "pid_table s1 = pid_table s"
    and "rq_inv s \<Longrightarrow> \<forall>t \<in> set (to_alarm w). \<exists>n. t = Task n"
  shows "woken (to_wake w') s s' \<and> (rq_inv s \<longrightarrow> (\<forall>t \<in> set (to_alarm w'). \<exists>n. t = Task n))"
  using assms
proof (induction "is" arbitrary: w s1)
  case (Cons i "is")
  obtain wi si where r: "scan_round now i (w, s1) = (wi, si)" by fastforce
  have "woken (to_wake wi) s si \<and> pid_table si = pid_table s \<and> (rq_inv s \<longrightarrow> (\<forall>t \<in> set (to_alarm wi). \<exists>n. t = Task n))"
    using Cons.prems r by (intro scan_round_woken [OF _ _ _ _ r]) auto
  moreover have "fold (scan_round now) is (wi, si) = (w', s')" using Cons.prems(1) r by simp
  ultimately show ?case using Cons.prems(2) by (intro Cons.IH [of wi si]) auto
qed simp

lemma quiet_sleepers: 
  assumes len: "length (pid_table s) = MAX_PIDS"
  shows "quiet s (sched_wakeup_sleepers now s)"
proof (cases "now < min (g_earliest_wakeup_ns s) (g_earliest_alarm_ns s)")
  case False
  let ?w0 = "\<lparr>to_wake = [], to_alarm = [], next_earliest = UINT64_MAX, next_alarm = UINT64_MAX\<rparr>"
  obtain w s1 where f: "fold (scan_round now) [1 ..< MAX_PIDS] (?w0, s) = (w, s1)" by fastforce
  let ?s2 = "s1\<lparr>g_earliest_wakeup_ns := next_earliest w, g_earliest_alarm_ns := next_alarm w\<rparr>"
  have wk: "woken (to_wake w) s s1 \<and> (rq_inv s \<longrightarrow> (\<forall>t \<in> set (to_alarm w). \<exists>n. t = Task n))"
    by (rule scan_fold_woken [OF f]) (simp_all add: len woken_def)
  have "rq_inv ?s2" if "rq_inv s1"
    by (rule rq_inv_cong [OF that]) (use rq_invD(6,7) [OF that] in auto)
  with wk have "woken (to_wake w) s ?s2" by (simp add: woken_def)
  then have "quiet s (fold enqueue_global (to_wake w) ?s2)" by (rule woken_enqueued)
  then have "quiet s (fold (\<lambda>t. signal_send (Some t) SIGALRM) (to_alarm w) (fold enqueue_global (to_wake w) ?s2))"
    by (rule quiet_then) (use wk in \<open>auto intro!: quiet_fold quiet_signal_send\<close>)
  with False f show ?thesis unfolding sched_wakeup_sleepers_def Let_def f by simp
qed (simp add: sched_wakeup_sleepers_def Let_def)


section \<open>Several CPUs\<close>

text \<open>
  A CPU that runs \<open>sched_reschedule\<close> is between its atomic parts: it has chosen the next task (under the
  queue lock), or it has also put the old task back, or it is not in that function.
\<close>

datatype cpu_pc = Running | Chosen tptr | Requeued tptr

record smp =
  sch :: sched
  pc :: "nat \<Rightarrow> cpu_pc"

inductive smp_step :: "smp \<Rightarrow> smp \<Rightarrow> bool" where
  pick: "pc m c = Running \<Longrightarrow> resched_pick c (sch m) = (Some next, s') \<Longrightarrow>
    smp_step m (m\<lparr>sch := s', pc := (pc m)(c := Chosen next)\<rparr>)"
| stay: "pc m c = Running \<Longrightarrow> resched_pick c (sch m) = (None, s') \<Longrightarrow> smp_step m (m\<lparr>sch := s'\<rparr>)"
| requeue: "pc m c = Chosen next \<Longrightarrow>
    smp_step m (m\<lparr>sch := requeue_old c (sch m), pc := (pc m)(c := Requeued next)\<rparr>)"
| switch: "pc m c = Requeued next \<Longrightarrow>
    smp_step m (m\<lparr>sch := context_switch c next (switch_in c now next (sch m)), pc := (pc m)(c := Running)\<rparr>)"
| free: "pc m c = Running \<Longrightarrow> smp_step m (m\<lparr>sch := process_deferred_free c (sch m)\<rparr>)"
| sleep: "pc m c = Running \<Longrightarrow> smp_step m (m\<lparr>sch := block_current c now ns (sch m)\<rparr>)"
| unblock: "smp_step m (m\<lparr>sch := task_unblock (Some (Task n)) (sch m)\<rparr>)"
| kill: "smp_step m (m\<lparr>sch := task_kill (Some (Task n)) (sch m)\<rparr>)"
| send: "smp_step m (m\<lparr>sch := signal_send (Some (Task n)) sig (sch m)\<rparr>)"
| waiters: "smp_step m (m\<lparr>sch := task_wakeup_waiters p (sch m)\<rparr>)"
| tick: "smp_step m (m\<lparr>sch := sched_wakeup_sleepers now (sch m)\<rparr>)"
| exit: "pc m c = Running \<Longrightarrow> current_task (sch m) c = Some t \<Longrightarrow>
    smp_step m (m\<lparr>sch := upd t (\<lambda>k. k\<lparr>runnable := False, state := TASK_ZOMBIE\<rparr>) (sch m)\<rparr>)"
| create: "\<not> on_rq (tasks (sch m) (Task n)) \<Longrightarrow> \<not> on_cpu (tasks (sch m) (Task n)) \<Longrightarrow>
    priority k \<le> MAX_PRIORITY \<Longrightarrow> \<not> on_cpu k \<Longrightarrow> \<not> on_rq k \<Longrightarrow>
    smp_step m (m\<lparr>sch := enqueue_global (Task n) (pid_register (Task n) (upd (Task n) (\<lambda>_. k) (sch m)))\<rparr>)"

definition owns :: "smp \<Rightarrow> nat \<Rightarrow> tptr \<Rightarrow> bool" where
  "owns m c t \<longleftrightarrow> current_task (sch m) c = Some t \<or> pc m c = Chosen t \<or> pc m c = Requeued t"

definition smp_inv :: "smp \<Rightarrow> bool" where
  "smp_inv m \<longleftrightarrow> rq_inv (sch m) \<and> length (pid_table (sch m)) = MAX_PIDS \<and>
     (\<forall>n. on_cpu (tasks (sch m) (Task n)) \<longleftrightarrow> (\<exists>c. owns m c (Task n))) \<and>
     (\<forall>n c c'. owns m c (Task n) \<longrightarrow> owns m c' (Task n) \<longrightarrow> c = c') \<and>
     (\<forall>c c'. owns m c (Idle c') \<longrightarrow> c' = c) \<and>
     (\<forall>c t. pc m c = Chosen t \<or> pc m c = Requeued t \<longrightarrow> current_task (sch m) c \<noteq> Some t) \<and>
     (\<forall>c t n. pc m c = Requeued t \<longrightarrow> current_task (sch m) c = Some (Task n) \<longrightarrow>
        may_run (tasks (sch m) (Task n)) \<longrightarrow> on_rq (tasks (sch m) (Task n))) \<and>
     (\<forall>n. may_run (tasks (sch m) (Task n)) \<longrightarrow> on_rq (tasks (sch m) (Task n)) \<or> (\<exists>c. owns m c (Task n)))"

lemma smp_invD:
  assumes "smp_inv m"
  shows "rq_inv (sch m)" "length (pid_table (sch m)) = MAX_PIDS"
    "on_cpu (tasks (sch m) (Task n)) \<longleftrightarrow> (\<exists>c. owns m c (Task n))"
    "owns m c (Task n) \<Longrightarrow> owns m c' (Task n) \<Longrightarrow> c = c'"
    "owns m c (Idle c') \<Longrightarrow> c' = c"
    "pc m c = Chosen t \<or> pc m c = Requeued t \<Longrightarrow> current_task (sch m) c \<noteq> Some t"
    "pc m c = Requeued t \<Longrightarrow> current_task (sch m) c = Some (Task n) \<Longrightarrow>
        may_run (tasks (sch m) (Task n)) \<Longrightarrow> on_rq (tasks (sch m) (Task n))"
    "may_run (tasks (sch m) (Task n)) \<Longrightarrow> on_rq (tasks (sch m) (Task n)) \<or> (\<exists>c. owns m c (Task n))"
  using assms unfolding smp_inv_def by blast+

lemma smp_invI:
  assumes "rq_inv (sch m)" "length (pid_table (sch m)) = MAX_PIDS"
    "\<And>n. on_cpu (tasks (sch m) (Task n)) \<longleftrightarrow> (\<exists>c. owns m c (Task n))"
    "\<And>c c' n. owns m c (Task n) \<Longrightarrow> owns m c' (Task n) \<Longrightarrow> c = c'"
    "\<And>c c'. owns m c (Idle c') \<Longrightarrow> c' = c"
    "\<And>c t. pc m c = Chosen t \<or> pc m c = Requeued t \<Longrightarrow> current_task (sch m) c \<noteq> Some t"
    "\<And>c t n. pc m c = Requeued t \<Longrightarrow> current_task (sch m) c = Some (Task n) \<Longrightarrow>
        may_run (tasks (sch m) (Task n)) \<Longrightarrow> on_rq (tasks (sch m) (Task n))"
    "\<And>n. may_run (tasks (sch m) (Task n)) \<Longrightarrow> on_rq (tasks (sch m) (Task n)) \<or> (\<exists>c. owns m c (Task n))"
  shows "smp_inv m"
  unfolding smp_inv_def using assms by blast

text \<open>A quiet operation keeps the invariant.\<close>

lemma smp_inv_quiet:
  assumes inv: "smp_inv m" and q: "quiet (sch m) s'"
  shows "smp_inv (m\<lparr>sch := s'\<rparr>)"
proof -
  from q smp_invD(1) [OF inv] have f: "rq_inv s'" "current_task s' = current_task (sch m)"
    "\<And>t. on_cpu (tasks s' t) = on_cpu (tasks (sch m) t)" "\<And>t. on_rq (tasks (sch m) t) \<Longrightarrow> on_rq (tasks s' t)"
    "\<And>t. may_run (tasks s' t) \<Longrightarrow> may_run (tasks (sch m) t) \<or> on_rq (tasks s' t)"
    and len: "length (pid_table s') = MAX_PIDS" using smp_invD(2) [OF inv] by (auto simp: quiet_def)
  have o: "owns (m\<lparr>sch := s'\<rparr>) c t = owns m c t" for c t by (simp add: owns_def f(2))
  have sel: "pc (m\<lparr>sch := s'\<rparr>) = pc m" "sch (m\<lparr>sch := s'\<rparr>) = s'" by simp_all
  show ?thesis
  proof (rule smp_invI, unfold o sel f(2,3))
    show "rq_inv s'" "length (pid_table s') = MAX_PIDS" by (fact f(1), fact len)
    show "on_cpu (tasks (sch m) (Task n)) \<longleftrightarrow> (\<exists>c. owns m c (Task n))" for n by (rule smp_invD(3) [OF inv])
    show "c = c'" if "owns m c (Task n)" "owns m c' (Task n)" for c c' n using that by (rule smp_invD(4) [OF inv])
    show "c' = c" if "owns m c (Idle c')" for c c' using that by (rule smp_invD(5) [OF inv])
    show "current_task (sch m) c \<noteq> Some t" if "pc m c = Chosen t \<or> pc m c = Requeued t" for c t
      using that by (rule smp_invD(6) [OF inv])
    show "on_rq (tasks s' (Task n))" if "pc m c = Requeued t" "current_task (sch m) c = Some (Task n)"
      "may_run (tasks s' (Task n))" for c t n
      using f(4,5) [of "Task n"] that smp_invD(7) [OF inv that(1,2)] by blast
    show "on_rq (tasks s' (Task n)) \<or> (\<exists>c. owns m c (Task n))" if "may_run (tasks s' (Task n))" for n
      using f(4,5) [of "Task n"] that smp_invD(8) [OF inv, of n] by blast
  qed
qed


lemma picked_may_run: "picked c t s s' \<Longrightarrow> may_run (tasks s' u) = may_run (tasks s u)"
proof -
  assume "picked c t s s'"
  then obtain a b where "tasks s' u = (tasks s u)\<lparr>on_cpu := a, on_rq := b\<rparr>" unfolding picked_def by blast
  then show ?thesis by simp
qed

lemma picked_idle_then:
  assumes p1: "picked c (Idle c) s s1" and p2: "picked c t s1 s'"
  shows "picked c t s s'"
proof -
  have "\<exists>a b. tasks s' u = (tasks s u)\<lparr>on_cpu := a, on_rq := b\<rparr>" for u
  proof -
    obtain a b a' b' where "tasks s1 u = (tasks s u)\<lparr>on_cpu := a, on_rq := b\<rparr>"
      and "tasks s' u = (tasks s1 u)\<lparr>on_cpu := a', on_rq := b'\<rparr>" using p1 p2 unfolding picked_def by blast
    then have "tasks s' u = (tasks s u)\<lparr>on_cpu := a', on_rq := b'\<rparr>" by simp
    then show ?thesis by blast
  qed
  moreover have "rq_inv s'" "same_but s s'" using p1 p2 same_but_trans unfolding picked_def by blast+
  moreover have "on_cpu (tasks s' u) \<longleftrightarrow> on_cpu (tasks s u) \<or> u = t \<and> t \<noteq> Idle c" for u
    using p1 p2 unfolding picked_def by simp
  moreover have "on_rq (tasks s' (Task n)) = on_rq (tasks s (Task n))"
    if "may_run (tasks s (Task n))" "Task n \<noteq> t" for n
    using that p1 p2 picked_may_run [OF p1, of "Task n"] unfolding picked_def by simp
  moreover have "t = Idle c \<or> (\<exists>n. t = Task n) \<and> \<not> on_cpu (tasks s t)" using p1 p2 unfolding picked_def by simp
  ultimately show ?thesis unfolding picked_def by blast
qed


lemma resched_pick_Some:
  assumes inv: "rq_inv s" and r: "resched_pick c s = (Some t, s')"
  shows "picked c t s s' \<and> current_task s c \<noteq> Some t"
proof -
  obtain t1 s1 where p1: "sched_pick_next c s = (t1, s1)" by fastforce
  note q1 = sched_pick_next_picked [OF inv p1]
  have inv1: "rq_inv s1" using q1 by (simp add: picked_def)
  obtain t2 s2 where p2: "sched_pick_next c s1 = (t2, s2)" by fastforce
  note q2 = sched_pick_next_picked [OF inv1 p2]
  show ?thesis
  proof (cases "current_task s c = Some t1")
    case True
    with r p1 p2 have "t1 = Idle c" "t2 \<noteq> Idle c" "t = t2" "s' = s2"
      by (auto simp: resched_pick_def Let_def split: if_splits)
    with True q1 q2 show ?thesis by (auto intro: picked_idle_then)
  next
    case False
    with r p1 have "t = t1" "s' = s1" by (auto simp: resched_pick_def Let_def split: if_splits)
    with False q1 show ?thesis by simp
  qed
qed

lemma resched_pick_None:
  assumes inv: "rq_inv s" and r: "resched_pick c s = (None, s')"
  shows "picked c (Idle c) s s' \<or> (\<exists>n. current_task s c = Some (Task n) \<and> \<not> on_cpu (tasks s (Task n)))"
proof -
  obtain t1 s1 where p1: "sched_pick_next c s = (t1, s1)" by fastforce
  note q1 = sched_pick_next_picked [OF inv p1]
  have inv1: "rq_inv s1" using q1 by (simp add: picked_def)
  obtain t2 s2 where p2: "sched_pick_next c s1 = (t2, s2)" by fastforce
  note q2 = sched_pick_next_picked [OF inv1 p2]
  from r p1 have cur: "current_task s c = Some t1" by (auto simp: resched_pick_def Let_def split: if_splits prod.splits)
  show ?thesis
  proof (cases "t1 = Idle c")
    case True
    with r p1 p2 cur have "t2 = Idle c" "s' = s2" by (auto simp: resched_pick_def Let_def split: if_splits)
    with True q1 q2 show ?thesis by (auto intro: picked_idle_then)
  next
    case False
    with q1 cur show ?thesis by (auto simp: picked_def)
  qed
qed

lemma smp_inv_pick:
  assumes inv: "smp_inv m" and run: "pc m c = Running" and r: "resched_pick c (sch m) = (Some t, s')"
  shows "smp_inv (m\<lparr>sch := s', pc := (pc m)(c := Chosen t)\<rparr>)"
proof -
  let ?m = "m\<lparr>sch := s', pc := (pc m)(c := Chosen t)\<rparr>"
  from resched_pick_Some [OF smp_invD(1) [OF inv] r]
  have p: "picked c t (sch m) s'" and cur: "current_task (sch m) c \<noteq> Some t" by auto
  have sb: "same_but (sch m) s'" and rq: "rq_inv s'" using p by (simp_all add: picked_def)
  have ct: "current_task s' = current_task (sch m)" "pid_table s' = pid_table (sch m)" using same_butD [OF sb] by simp_all
  have o: "owns ?m c' u \<longleftrightarrow> owns m c' u \<or> c' = c \<and> u = t" for c' u using run by (auto simp: owns_def ct)
  have oc: "on_cpu (tasks s' (Task n)) \<longleftrightarrow> on_cpu (tasks (sch m) (Task n)) \<or> Task n = t" for n
    using p unfolding picked_def by auto
  have new: "\<not> owns m c' (Task n)" if "t = Task n" for c' n
    using p that smp_invD(3) [OF inv, of n] unfolding picked_def by auto
  have rqe: "on_rq (tasks s' (Task n)) = on_rq (tasks (sch m) (Task n))" if "may_run (tasks s' (Task n))" "Task n \<noteq> t" for n
    using p that picked_may_run [OF p, of "Task n"] unfolding picked_def by auto
  have sel: "sch ?m = s'" "pc ?m = (pc m)(c := Chosen t)" by simp_all
  show ?thesis
  proof (rule smp_invI, unfold o sel ct)
    show "rq_inv s'" "length (pid_table (sch m)) = MAX_PIDS" by (fact rq, rule smp_invD(2) [OF inv])
    show "on_cpu (tasks s' (Task n)) \<longleftrightarrow> (\<exists>c'. owns m c' (Task n) \<or> c' = c \<and> Task n = t)" for n
      using oc smp_invD(3) [OF inv, of n] by blast
    show "c1 = c2" if "owns m c1 (Task n) \<or> c1 = c \<and> Task n = t" "owns m c2 (Task n) \<or> c2 = c \<and> Task n = t" for c1 c2 n
      using that new smp_invD(4) [OF inv, of c1 n c2] by blast
    show "c2 = c1" if "owns m c1 (Idle c2) \<or> c1 = c \<and> Idle c2 = t" for c1 c2
      using that smp_invD(5) [OF inv, of c1 c2] p unfolding picked_def by auto
    show "current_task (sch m) c' \<noteq> Some u" if "((pc m)(c := Chosen t)) c' = Chosen u \<or> ((pc m)(c := Chosen t)) c' = Requeued u" for c' u
      using that cur smp_invD(6) [OF inv, of c' u] by (cases "c' = c") auto
    show "on_rq (tasks s' (Task n))" if "((pc m)(c := Chosen t)) c' = Requeued u"
      "current_task (sch m) c' = Some (Task n)" "may_run (tasks s' (Task n))" for c' u n
    proof -
      have "c' \<noteq> c" "pc m c' = Requeued u" using that(1) by (auto split: if_splits)
      moreover have "Task n \<noteq> t" using new [of n c'] that(2) by (auto simp: owns_def)
      ultimately show ?thesis using smp_invD(7) [OF inv, of c' u n] that(2,3) rqe picked_may_run [OF p, of "Task n"] by blast
    qed
    show "on_rq (tasks s' (Task n)) \<or> (\<exists>c'. owns m c' (Task n) \<or> c' = c \<and> Task n = t)" if "may_run (tasks s' (Task n))" for n
      using smp_invD(8) [OF inv, of n] that rqe picked_may_run [OF p, of "Task n"] by blast
  qed
qed


lemma smp_inv_stay:
  assumes inv: "smp_inv m" and run: "pc m c = Running" and r: "resched_pick c (sch m) = (None, s')"
  shows "smp_inv (m\<lparr>sch := s'\<rparr>)"
proof -
  from resched_pick_None [OF smp_invD(1) [OF inv] r] smp_invD(3) [OF inv]
  have p: "picked c (Idle c) (sch m) s'" by (auto simp: owns_def)
  have sb: "same_but (sch m) s'" and rq: "rq_inv s'" using p by (simp_all add: picked_def)
  have ct: "current_task s' = current_task (sch m)" "pid_table s' = pid_table (sch m)" using same_butD [OF sb] by simp_all
  have o: "owns (m\<lparr>sch := s'\<rparr>) c' u \<longleftrightarrow> owns m c' u" for c' u by (simp add: owns_def ct)
  have oc: "on_cpu (tasks s' (Task n)) \<longleftrightarrow> on_cpu (tasks (sch m) (Task n))" for n
    using p unfolding picked_def by auto
  have rqe: "may_run (tasks s' (Task n)) \<Longrightarrow> may_run (tasks (sch m) (Task n)) \<and>
      on_rq (tasks s' (Task n)) = on_rq (tasks (sch m) (Task n))" for n
    using p picked_may_run [OF p, of "Task n"] unfolding picked_def by auto
  have sel: "sch (m\<lparr>sch := s'\<rparr>) = s'" "pc (m\<lparr>sch := s'\<rparr>) = pc m" by simp_all
  show ?thesis
    by (rule smp_invI, unfold o sel ct oc) (use rq rqe smp_invD [OF inv] in blast)+
qed

lemma requeue_old_quiet:
  assumes inv: "smp_inv m"
  shows "quiet (sch m) (requeue_old c (sch m))"
    and "current_task (sch m) c = Some (Task n) \<Longrightarrow> may_run (tasks (requeue_old c (sch m)) (Task n)) \<Longrightarrow>
      on_rq (tasks (requeue_old c (sch m)) (Task n))"
proof -
  let ?s = "sch m"
  let ?f = "\<lambda>k::task. k\<lparr>time_slice := time_slice_init k, last_cpu := of_nat c, state := TASK_READY\<rparr>"
  have q: "quiet ?s (enqueue_global (Task k) (upd (Task k) ?f ?s))" for k
  proof -
    have "rq_inv (enqueue_global (Task k) (upd (Task k) ?f ?s))"
      by (rule rq_inv_enqueue [OF rq_inv_upd [OF smp_invD(1) [OF inv]]]) simp_all
    then show ?thesis by (auto simp: quiet_def)
  qed
  have d: "quiet ?s (?s\<lparr>deferred_free_task := g\<rparr>)" for g
    using rq_inv_cong [of ?s "?s\<lparr>deferred_free_task := g\<rparr>"] rq_invD(6,7) [of ?s] by (simp add: quiet_def)
  have idle: "current_task ?s c = Some (Idle c') \<Longrightarrow> c' = c" for c' using smp_invD(5) [OF inv, of c c'] by (simp add: owns_def)
  show "quiet ?s (requeue_old c ?s)"
    unfolding requeue_old_def using q d idle
    by (cases "current_task ?s c"; cases "the (current_task ?s c)") (auto simp: Let_def)
  show "on_rq (tasks (requeue_old c ?s) (Task n))"
    if "current_task ?s c = Some (Task n)" "may_run (tasks (requeue_old c ?s) (Task n))"
    using that unfolding requeue_old_def by (auto simp: Let_def may_run_def split: if_splits)
qed

lemma smp_inv_requeue:
  assumes inv: "smp_inv m" and pc: "pc m c = Chosen t"
  shows "smp_inv (m\<lparr>sch := requeue_old c (sch m), pc := (pc m)(c := Requeued t)\<rparr>)"
proof -
  let ?m1 = "m\<lparr>sch := requeue_old c (sch m)\<rparr>"
  let ?m = "m\<lparr>sch := requeue_old c (sch m), pc := (pc m)(c := Requeued t)\<rparr>"
  have i1: "smp_inv ?m1" by (rule smp_inv_quiet [OF inv requeue_old_quiet(1) [OF inv]])
  have o: "owns ?m c' u \<longleftrightarrow> owns ?m1 c' u" for c' u using pc by (auto simp: owns_def)
  have sel: "sch ?m = sch ?m1" "pc ?m = (pc ?m1)(c := Requeued t)" by simp_all
  have ct: "current_task (sch ?m1) = current_task (sch m)"
    using requeue_old_quiet(1) [OF inv, of c] smp_invD(1) [OF inv] by (simp add: quiet_def)
  show ?thesis
  proof (rule smp_invI, unfold o sel)
    show "current_task (sch ?m1) c' \<noteq> Some u"
      if "((pc ?m1)(c := Requeued t)) c' = Chosen u \<or> ((pc ?m1)(c := Requeued t)) c' = Requeued u" for c' u
      using that smp_invD(6) [OF i1, of c' u] smp_invD(6) [OF i1, of c t] pc by (cases "c' = c") auto
    show "on_rq (tasks (sch ?m1) (Task n))" if "((pc ?m1)(c := Requeued t)) c' = Requeued u"
      "current_task (sch ?m1) c' = Some (Task n)" "may_run (tasks (sch ?m1) (Task n))" for c' u n
      using that smp_invD(7) [OF i1, of c' u n] requeue_old_quiet(2) [OF inv, of c n] ct by (cases "c' = c") auto
  qed (use smp_invD(1-5,8) [OF i1] in blast)+
qed

lemma switch_in_tasks:
  "priority (tasks (switch_in c now t s) u) = priority (tasks s u)"
  "on_rq (tasks (switch_in c now t s) u) = on_rq (tasks s u)"
  "on_cpu (tasks (switch_in c now t s) u) = on_cpu (tasks s u)"
  "u \<noteq> t \<Longrightarrow> may_run (tasks (switch_in c now t s) u) = may_run (tasks s u)"
  "current_task (switch_in c now t s) = current_task s" "pid_table (switch_in c now t s) = pid_table s"
  "ready_queues (switch_in c now t s) = ready_queues s" "sfds (switch_in c now t s) = sfds s"
  by (auto simp: switch_in_def Let_def may_run_def split: option.splits)

lemma smp_inv_switch:
  assumes inv: "smp_inv m" and pc: "pc m c = Requeued t"
  shows "smp_inv (m\<lparr>sch := context_switch c t (switch_in c now t (sch m)), pc := (pc m)(c := Running)\<rparr>)"
proof -
  let ?s = "sch m" and ?s' = "context_switch c t (switch_in c now t (sch m))"
  let ?m = "m\<lparr>sch := ?s', pc := (pc m)(c := Running)\<rparr>"
  have ct: "current_task ?s' = (current_task ?s)(c := Some t)" "pid_table ?s' = pid_table ?s"
    by (simp_all add: context_switch_def Let_def switch_in_tasks split: option.splits)
  have tk: "priority (tasks ?s' u) = priority (tasks ?s u)" "on_rq (tasks ?s' u) = on_rq (tasks ?s u)"
    "on_cpu (tasks ?s' u) \<longleftrightarrow> on_cpu (tasks ?s u) \<and> current_task ?s c \<noteq> Some u"
    "u \<noteq> t \<Longrightarrow> may_run (tasks ?s' u) = may_run (tasks ?s u)" for u
    by (auto simp: context_switch_def Let_def switch_in_tasks split: option.splits)
  have cur: "current_task ?s c \<noteq> Some t" using smp_invD(6) [OF inv] pc by blast
  have ot: "owns m c t" using pc by (simp add: owns_def)
  have o: "owns ?m c' u \<longleftrightarrow> owns m c' u \<and> (c' = c \<longrightarrow> u = t)" for c' u
    using pc by (auto simp: owns_def ct)
  have rq: "rq_inv ?s'"
    by (rule rq_inv_cong [OF smp_invD(1) [OF inv]])
      (use rq_invD(6,7) [OF smp_invD(1) [OF inv]] in
        \<open>auto simp: ct tk, auto simp: context_switch_def Let_def switch_in_tasks split: option.splits\<close>)
  have sel: "sch ?m = ?s'" "pc ?m = (pc m)(c := Running)" by simp_all
  have old: "on_rq (tasks ?s (Task n))" if "current_task ?s c = Some (Task n)" "may_run (tasks ?s (Task n))" for n
    using smp_invD(7) [OF inv pc that] .
  show ?thesis
  proof (rule smp_invI, unfold o sel ct tk(1,2,3))
    show "rq_inv ?s'" "length (pid_table ?s) = MAX_PIDS" by (fact rq, rule smp_invD(2) [OF inv])
    show "on_cpu (tasks ?s (Task n)) \<and> current_task ?s c \<noteq> Some (Task n) \<longleftrightarrow>
        (\<exists>c'. owns m c' (Task n) \<and> (c' = c \<longrightarrow> Task n = t))" for n
      using smp_invD(3) [OF inv, of n] smp_invD(4) [OF inv, of c n] cur pc unfolding owns_def by (metis cpu_pc.distinct(5) cpu_pc.inject(2))
    show "c1 = c2" if "owns m c1 (Task n) \<and> (c1 = c \<longrightarrow> Task n = t)" "owns m c2 (Task n) \<and> (c2 = c \<longrightarrow> Task n = t)" for c1 c2 n
      using that smp_invD(4) [OF inv, of c1 n c2] by blast
    show "c2 = c1" if "owns m c1 (Idle c2) \<and> (c1 = c \<longrightarrow> Idle c2 = t)" for c1 c2
      using that smp_invD(5) [OF inv, of c1 c2] by blast
    show "((current_task ?s)(c := Some t)) c' \<noteq> Some u"
      if "((pc m)(c := Running)) c' = Chosen u \<or> ((pc m)(c := Running)) c' = Requeued u" for c' u
      using that smp_invD(6) [OF inv, of c' u] by (cases "c' = c") auto
    show "on_rq (tasks ?s (Task n))" if "((pc m)(c := Running)) c' = Requeued u"
      "((current_task ?s)(c := Some t)) c' = Some (Task n)" "may_run (tasks ?s' (Task n))" for c' u n
    proof -
      have c': "c' \<noteq> c" "pc m c' = Requeued u" "current_task ?s c' = Some (Task n)" using that(1,2) by (auto split: if_splits)
      then have "Task n \<noteq> t" using smp_invD(4) [OF inv, of c n c'] ot by (auto simp: owns_def)
      then show ?thesis using smp_invD(7) [OF inv c'(2,3)] that(3) tk(4) by blast
    qed
    show "on_rq (tasks ?s (Task n)) \<or> (\<exists>c'. owns m c' (Task n) \<and> (c' = c \<longrightarrow> Task n = t))"
      if "may_run (tasks ?s' (Task n))" for n
    proof (cases "Task n = t")
      case True
      then show ?thesis using ot by blast
    next
      case False
      with that tk(4) have mr: "may_run (tasks ?s (Task n))" by blast
      from smp_invD(8) [OF inv mr] show ?thesis
      proof
        assume "\<exists>c'. owns m c' (Task n)"
        then obtain c' where c': "owns m c' (Task n)" by blast
        show ?thesis
        proof (cases "c' = c")
          case True
          with c' pc False have "current_task ?s c = Some (Task n)" by (auto simp: owns_def)
          with old mr show ?thesis by blast
        next
          case False
          with c' show ?thesis by blast
        qed
      qed blast
    qed
  qed
qed


lemma quiet_create:
  assumes fresh: "\<not> on_rq (tasks s (Task n))" "\<not> on_cpu (tasks s (Task n))"
    and k: "priority k \<le> MAX_PRIORITY" "\<not> on_cpu k" "\<not> on_rq k"
  shows "quiet s (enqueue_global (Task n) (pid_register (Task n) (upd (Task n) (\<lambda>_. k) s)))"
proof -
  let ?s1 = "upd (Task n) (\<lambda>_. k) s"
  let ?s2 = "pid_register (Task n) ?s1"
  have f2: "ready_queues ?s2 = ready_queues s" "tasks ?s2 = tasks ?s1" "sfds ?s2 = sfds s"
    "current_task ?s2 = current_task s" "length (pid_table ?s2) = length (pid_table s)"
    by (simp_all add: pid_register_def Let_def)
  have "rq_inv ?s2" if inv: "rq_inv s"
  proof -
    have out: "Task n \<notin> set (queue s p)" if "p \<le> MAX_PRIORITY" for p using rq_invD(3) [OF inv that] fresh(1) by blast
    show ?thesis unfolding rq_inv_def f2
    proof (intro conjI allI impI)
      show "\<forall>t \<in> set (queue s p). priority (tasks ?s1 t) = p \<and> on_rq (tasks ?s1 t) \<and> (\<exists>n. t = Task n)" if "p \<le> MAX_PRIORITY" for p
        using rq_invD(3) [OF inv that] out [OF that] by auto
      show "t \<in> set (queue s (priority (tasks ?s1 t)))" if "on_rq (tasks ?s1 t)" for t
        using that k(3) rq_invD(5) [OF inv, of t] by (auto split: if_splits)
      show "\<exists>n. t = Task n" if "Some t \<in> set (pid_table ?s2)" for t
        using that rq_invD(6) [OF inv, of t] set_update_subset_insert [of "pid_table s" _ "Some (Task n)"]
        by (fastforce simp: pid_register_def Let_def split: if_splits)
    qed (use rq_invD(1,2,4,7) [OF inv] k(1) in auto)
  qed
  then have "rq_inv (enqueue_global (Task n) ?s2)" if "rq_inv s" using that by (intro rq_inv_enqueue) simp_all
  then show ?thesis using fresh k by (auto simp: quiet_def f2)
qed

lemma quiet_free: "quiet s (process_deferred_free c s)"
proof (cases "deferred_free_task s c")
  case (Some t)
  let ?s1 = "s\<lparr>deferred_free_task := (deferred_free_task s)(c := None)\<rparr>"
  let ?s2 = "upd t (\<lambda>k. k\<lparr>flags := flags k OR TASK_FLAG_DESTROYED\<rparr>) ?s1"
  have 1: "quiet s ?s1" using rq_inv_cong [of s ?s1] rq_invD(6,7) [of s] by (simp add: quiet_def)
  have 2: "quiet ?s1 ?s2" by (rule quiet_upd) (simp_all add: may_run_def)
  have sub: "Some u \<in> set (pid_table (pid_unregister t ?s2)) \<Longrightarrow> Some u \<in> set (pid_table ?s2)" for u
    using set_update_subset_insert [of "pid_table ?s2" _ None] by (fastforce simp: pid_unregister_def Let_def split: if_splits)
  have "rq_inv (pid_unregister t ?s2)" if "rq_inv ?s2"
    by (rule rq_inv_cong [OF that])
      (use rq_invD(6,7) [OF that] sub in \<open>auto simp: pid_unregister_def Let_def split: if_splits\<close>)
  then have 3: "quiet ?s2 (pid_unregister t ?s2)" by (simp add: quiet_def pid_unregister_def Let_def)
  from 1 quiet_trans [OF quiet_trans [OF 1 2] 3] Some show ?thesis
    by (simp add: process_deferred_free_def task_destroy_def)
qed (simp add: process_deferred_free_def)

lemma quiet_note: "quiet s (sched_note_wakeup d s)"
proof -
  have f: "ready_queues (sched_note_wakeup d s) = ready_queues s" "tasks (sched_note_wakeup d s) = tasks s"
    "sfds (sched_note_wakeup d s) = sfds s" "pid_table (sched_note_wakeup d s) = pid_table s"
    "current_task (sched_note_wakeup d s) = current_task s" by (simp_all add: sched_note_wakeup_def)
  have "rq_inv (sched_note_wakeup d s)" if "rq_inv s"
    by (rule rq_inv_cong [OF that]) (use rq_invD(6,7) [OF that] in \<open>auto simp: f\<close>)
  then show ?thesis by (simp add: quiet_def f)
qed

lemma quiet_sleep: "quiet s (block_current c now ns s)"
proof (cases "current_task s c")
  case (Some me)
  let ?s1 = "upd me (\<lambda>k. k\<lparr>wakeup_time_ns := now + ns, runnable := False, state := TASK_BLOCKED\<rparr>) s"
  have 1: "quiet s ?s1" by (rule quiet_upd) (simp_all add: may_run_def)
  with quiet_note [of ?s1] Some show ?thesis by (auto simp: block_current_def intro: quiet_trans)
qed (simp add: block_current_def)

lemma smp_step_inv: "smp_step m m' \<Longrightarrow> smp_inv m \<Longrightarrow> smp_inv m'"
proof (induction rule: smp_step.induct)
  case (waiters m p)
  then show ?case by (intro smp_inv_quiet quiet_waiters smp_invD(2))
next
  case (tick m now)
  then show ?case by (intro smp_inv_quiet quiet_sleepers smp_invD(2))
next
  case (exit m c t)
  then show ?case by (intro smp_inv_quiet quiet_upd) (simp_all add: may_run_def)
qed (auto intro: smp_inv_pick smp_inv_stay smp_inv_requeue smp_inv_switch smp_inv_quiet quiet_free quiet_sleep
    quiet_unblock quiet_kill quiet_signal_send quiet_create)

text \<open>The state that \<open>sched_init\<close> leaves: no task exists, every CPU is about to schedule for the first time.\<close>

definition smp_start :: "smp \<Rightarrow> bool" where
  "smp_start m \<longleftrightarrow> ready_queues (sch m) = replicate (Suc MAX_PRIORITY) [] \<and>
     pid_table (sch m) = replicate MAX_PIDS None \<and> (\<forall>c. current_task (sch m) c = None \<and> pc m c = Running) \<and>
     (\<forall>i. waiter (sfds (sch m) i) = None) \<and>
     (\<forall>t. priority (tasks (sch m) t) \<le> MAX_PRIORITY \<and> \<not> on_rq (tasks (sch m) t) \<and> \<not> on_cpu (tasks (sch m) t)) \<and>
     (\<forall>n. \<not> may_run (tasks (sch m) (Task n)))"

lemma smp_start_inv: "smp_start m \<Longrightarrow> smp_inv m"
proof -
  assume st: "smp_start m"
  have q: "queue (sch m) p = []" if "p \<le> MAX_PRIORITY" for p using st that by (simp add: smp_start_def del: replicate_Suc)
  have "rq_inv (sch m)" unfolding rq_inv_def using st q by (auto simp: smp_start_def simp del: replicate_Suc)
  moreover have "\<not> owns m c t" for c t using st by (simp add: smp_start_def owns_def)
  ultimately show ?thesis using st by (intro smp_invI) (auto simp: smp_start_def)
qed

lemma smp_reach_inv: "smp_step\<^sup>*\<^sup>* m0 m \<Longrightarrow> smp_start m0 \<Longrightarrow> smp_inv m"
  by (induction rule: rtranclp_induct) (auto intro: smp_start_inv smp_step_inv)

end
