(* ===== verification/Sched_Props.thy ===== *)
theory Sched_Props
  imports Sched_Run
begin

text \<open>
  Properties of the scheduler: the next task, exclusive use of tasks by CPUs, no task lost, starvation
  by the last-in first-out queues, process identifiers and timers.
\<close>

section \<open>The next task\<close>

text \<open>C6: \<open>sched_pick_next\<close> returns the first task, in queue order, of the highest priority that has a task
  which may run, is allowed on this CPU and is not on a CPU already, takes it off its queue and marks it
  as on a CPU; only if no queue has such a task does it return the idle task. Every other queued task that
  may run stays in its queue, unchanged.\<close>

theorem sched_pick_next_correct:
  assumes inv: "rq_inv s"
  shows "case sched_pick_next cpu s of (t, s') \<Rightarrow> rq_inv s' \<and>
    ((t = Idle cpu \<and> (\<forall>p \<le> MAX_PRIORITY. no_elig cpu s (queue s p))) \<or>
     (\<exists>p \<le> MAX_PRIORITY. \<exists>xs ys. queue s p = xs @ t # ys \<and> elig cpu (tasks s t) \<and> no_elig cpu s xs \<and>
        (\<forall>p'. p < p' \<and> p' \<le> MAX_PRIORITY \<longrightarrow> no_elig cpu s (queue s p')) \<and>
        on_cpu (tasks s' t) \<and> \<not> on_rq (tasks s' t))) \<and>
    (\<forall>p \<le> MAX_PRIORITY. \<forall>u \<in> set (queue s p). may_run (tasks s u) \<longrightarrow> u \<noteq> t \<longrightarrow>
        u \<in> set (queue s' p) \<and> tasks s' u = tasks s u)"
proof (cases "pick_below cpu (Suc MAX_PRIORITY) s")
  case (Pair r s1)
  have len: "Suc MAX_PRIORITY \<le> length (ready_queues s)" using rq_invD(1) [OF inv] by simp
  show ?thesis
  proof (cases r)
    case None
    with Pair have eq: "sched_pick_next cpu s = (Idle cpu, s1)" by (simp add: sched_pick_next_def)
    have inv': "rq_inv s1" using sched_pick_next_picked [OF inv eq] by (simp add: picked_def)
    from pick_below_None [OF _ len, of cpu s1] Pair None
    have "\<forall>p < Suc MAX_PRIORITY. no_elig cpu s (queue s p) \<and> queue s1 p = runnables s (queue s p)"
      "tasks s1 = dropped (\<Union>p<Suc MAX_PRIORITY. set (queue s p)) (tasks s)" by auto
    with inv' show ?thesis unfolding eq by (auto simp: less_Suc_eq_le dropped_def)
  next
    case (Some t)
    with Pair have eq: "sched_pick_next cpu s = (t, s1)" by (simp add: sched_pick_next_def)
    have inv': "rq_inv s1" using sched_pick_next_picked [OF inv eq] by (simp add: picked_def)
    from pick_below_Some [OF _ len, of cpu t s1] Pair Some obtain p xs ys where
      p: "p < Suc MAX_PRIORITY" and q: "queue s p = xs @ t # ys" and el: "elig cpu (tasks s t)" and ne: "no_elig cpu s xs"
      and qp: "queue s1 p = runnables s xs @ ys"
      and up: "\<forall>p'. p < p' \<and> p' < Suc MAX_PRIORITY \<longrightarrow> no_elig cpu s (queue s p') \<and> queue s1 p' = runnables s (queue s p')"
      and down: "\<forall>p'. p' < p \<or> Suc MAX_PRIORITY \<le> p' \<longrightarrow> queue s1 p' = queue s p'"
      and ts: "tasks s1 = (dropped (set xs \<union> (\<Union>p' \<in> {p<..<Suc MAX_PRIORITY}. set (queue s p'))) (tasks s))
        (t := (tasks s t)\<lparr>on_cpu := True, on_rq := False\<rparr>)" by blast
    have keep: "u \<in> set (queue s1 p') \<and> tasks s1 u = tasks s u"
      if "p' \<le> MAX_PRIORITY" "u \<in> set (queue s p')" "may_run (tasks s u)" "u \<noteq> t" for p' u
    proof -
      consider "p' < p" | "p' = p" | "p < p'" by linarith
      then have "u \<in> set (queue s1 p')" using that q qp up down by cases (auto simp: less_Suc_eq_le)
      moreover have "tasks s1 u = tasks s u" using that by (simp add: ts dropped_def)
      ultimately show ?thesis by simp
    qed
    have "\<exists>p \<le> MAX_PRIORITY. \<exists>xs ys. queue s p = xs @ t # ys \<and> elig cpu (tasks s t) \<and> no_elig cpu s xs \<and>
        (\<forall>p'. p < p' \<and> p' \<le> MAX_PRIORITY \<longrightarrow> no_elig cpu s (queue s p')) \<and>
        on_cpu (tasks s1 t) \<and> \<not> on_rq (tasks s1 t)"
      using p q el ne up by (intro exI [of _ p] conjI exI [of _ xs] exI [of _ ys]) (auto simp: less_Suc_eq_le ts)
    with keep inv' show ?thesis unfolding eq by blast
  qed
qed

section \<open>Several CPUs\<close>

text \<open>C1: No task runs on two CPUs. Whatever the interleaving of the parts of \<open>sched_reschedule\<close> on any number
  of CPUs with wake-ups, signals, kills, timer ticks, exits and new tasks, a task is the current task of one
  CPU at most, and its \<open>on_cpu\<close> flag is set while it is.\<close>

theorem one_cpu_per_task:
  assumes "smp_start m0" and "smp_step\<^sup>*\<^sup>* m0 m"
    and "current_task (sch m) c = Some (Task n)" and "current_task (sch m) c' = Some (Task n)"
  shows "c = c' \<and> on_cpu (tasks (sch m) (Task n))"
  using smp_reach_inv [OF assms(2,1)] smp_invD(3,4) assms(3,4) unfolding owns_def by blast

lemma distinct_count: "distinct xs \<Longrightarrow> count_list xs x = (if x \<in> set xs then 1 else 0)"
  by (induction xs) auto

lemma count_concat: "count_list (concat qs) x = sum_list (map (\<lambda>q. count_list q x) qs)"
  by (induction qs) simp_all

lemma rq_inv_count:
  assumes inv: "rq_inv s"
  shows "count_list (concat (ready_queues s)) t = (if on_rq (tasks s t) then 1 else 0)"
proof -
  let ?p = "priority (tasks s t)"
  have p: "?p < length (ready_queues s)" using rq_invD(1,4) [OF inv] by (simp add: less_Suc_eq_le)
  have each: "count_list (queue s i) t = (if i = ?p \<and> on_rq (tasks s t) then 1 else 0)" if "i < length (ready_queues s)" for i
  proof (cases "t \<in> set (queue s i)")
    case True
    with that rq_invD(1) [OF inv] have "i = ?p" "on_rq (tasks s t)" "distinct (queue s i)"
      using rq_invD(2,3) [OF inv, of i] by (auto simp: less_Suc_eq_le)
    with True show ?thesis by (simp add: distinct_count)
  next
    case False
    with rq_invD(5) [OF inv, of t] show ?thesis by (auto simp: count_notin)
  qed
  have "count_list (concat (ready_queues s)) t = (\<Sum>i < length (ready_queues s). count_list (queue s i) t)"
    by (simp add: count_concat sum_list_sum_nth atLeast0LessThan)
  also have "\<dots> = (\<Sum>i < length (ready_queues s). if i = ?p then (if on_rq (tasks s t) then 1 else 0) else 0)"
    by (intro sum.cong) (simp_all add: each)
  finally show ?thesis using p by simp
qed

text \<open>C2: No task is lost and none is queued twice. In every reachable state a task that may run is held by
  a CPU or stands in the ready queues, and a task stands in the queues once at most, in the queue of its
  priority.\<close>

theorem no_task_lost:
  assumes "smp_start m0" and "smp_step\<^sup>*\<^sup>* m0 m"
  shows "count_list (concat (ready_queues (sch m))) (Task n) \<le> 1 \<and>
    (may_run (tasks (sch m) (Task n)) \<longrightarrow>
       count_list (ready_queues (sch m) ! priority (tasks (sch m) (Task n))) (Task n) = 1 \<or> (\<exists>c. owns m c (Task n)))"
proof -
  note inv = smp_reach_inv [OF assms(2,1)]
  note rq = smp_invD(1) [OF inv]
  have "count_list (queue (sch m) (priority (tasks (sch m) (Task n)))) (Task n) = 1" if "on_rq (tasks (sch m) (Task n))"
    using rq_invD(2,4,5) [OF rq] that by (simp add: distinct_count)
  with rq_inv_count [OF rq, of "Task n"] smp_invD(8) [OF inv, of n] show ?thesis by auto
qed


section \<open>Starvation\<close>

text \<open>The first task of the highest non-empty queue is taken when it may run.\<close>

lemma pick_below_first:
  assumes "p < n" and "n \<le> length (ready_queues s)" and "\<forall>p'. p < p' \<and> p' < n \<longrightarrow> queue s p' = []"
    and "queue s p = b # q" and "elig cpu (tasks s b)"
  shows "pick_below cpu n s = (Some b, s\<lparr>ready_queues := (ready_queues s)[p := q],
    tasks := (tasks s)(b := (tasks s b)\<lparr>on_cpu := True, on_rq := False\<rparr>)\<rparr>)"
  using assms
proof (induction n)
  case (Suc n)
  show ?case
  proof (cases "p = n")
    case True
    with Suc.prems show ?thesis by (simp add: elig_def Let_def fun_upd_def)
  next
    case False
    with Suc.prems have "queue s n = []" by simp
    with Suc.prems have "(ready_queues s)[n := []] = ready_queues s" by (metis list_update_id)
    with \<open>queue s n = []\<close> Suc.prems False Suc.IH show ?thesis by (simp add: Let_def)
  qed
qed simp

text \<open>\<open>a\<close> runs on CPU 0, \<open>b\<close> is first in the highest non-empty queue and \<open>q\<close> stands behind it.\<close>

definition pair_running :: "nat \<Rightarrow> tptr \<Rightarrow> tptr \<Rightarrow> tptr list \<Rightarrow> sched \<Rightarrow> bool" where
  "pair_running p a b q s \<longleftrightarrow> p \<le> MAX_PRIORITY \<and> length (ready_queues s) = Suc MAX_PRIORITY \<and>
     (\<forall>p'. p < p' \<and> p' \<le> MAX_PRIORITY \<longrightarrow> queue s p' = []) \<and> queue s p = b # q \<and>
     current_task s 0 = Some a \<and> deferred_free_task s 0 = None \<and> a \<noteq> b \<and> a \<noteq> Idle 0 \<and> b \<noteq> Idle 0 \<and>
     may_run (tasks s a) \<and> affine 0 (tasks s a) \<and> \<not> on_rq (tasks s a) \<and> priority (tasks s a) = p \<and>
     may_run (tasks s b) \<and> affine 0 (tasks s b) \<and> \<not> on_cpu (tasks s b) \<and> priority (tasks s b) = p"

lemma pair_step: 
  assumes "pair_running p a b q s"
  shows "pair_running p b a q (sched_reschedule 0 now s)"
proof -
  from assms have *: "p < Suc MAX_PRIORITY" "Suc MAX_PRIORITY \<le> length (ready_queues s)"
    "\<forall>p'. p < p' \<and> p' < Suc MAX_PRIORITY \<longrightarrow> queue s p' = []" "queue s p = b # q" "elig 0 (tasks s b)"
    by (auto simp: pair_running_def elig_def)
  note pick = pick_below_first [OF *]
  let ?s1 = "s\<lparr>ready_queues := (ready_queues s)[p := q],
    tasks := (tasks s)(b := (tasks s b)\<lparr>on_cpu := True, on_rq := False\<rparr>)\<rparr>"
  have rp: "resched_pick 0 s = (Some b, ?s1)"
    using assms pick by (simp add: resched_pick_def sched_pick_next_def pair_running_def Let_def)
  have pf: "process_deferred_free 0 s = s" using assms by (simp add: process_deferred_free_def pair_running_def)
  have st: "state (tasks s a) \<noteq> TASK_ZOMBIE" "state (tasks s a) \<noteq> TASK_DEAD" "runnable (tasks s a)"
    using assms by (simp_all add: pair_running_def may_run_def)
  have ab: "a \<noteq> b" "a \<noteq> Idle 0" "current_task s 0 = Some a" using assms by (simp_all add: pair_running_def)
  let ?f = "\<lambda>k::task. k\<lparr>time_slice := time_slice_init k, last_cpu := 0, state := TASK_READY\<rparr>"
  have rq: "requeue_old 0 ?s1 = enqueue_global a (upd a ?f ?s1)"
    using st ab by (simp add: requeue_old_def)
  let ?s2 = "enqueue_global a (upd a ?f ?s1)"
  let ?s3 = "context_switch 0 b (switch_in 0 now b ?s2)"
  have s2: "ready_queues ?s2 = (ready_queues s)[p := a # q]" "current_task ?s2 = current_task s"
    "deferred_free_task ?s2 = deferred_free_task s"
    using assms by (simp_all add: enqueue_global_def pair_running_def Let_def)
  have s3: "ready_queues ?s3 = (ready_queues s)[p := a # q]" "current_task ?s3 0 = Some b" "deferred_free_task ?s3 0 = None"
    using s2 assms by (simp_all add: context_switch_def switch_in_def Let_def pair_running_def split: option.splits)
  have eq: "sched_reschedule 0 now s = ?s3"
    unfolding sched_reschedule_def pf rp using rq s3 by (simp add: process_deferred_free_def)
  have k: "may_run (tasks ?s3 a) = True" "affine 0 (tasks ?s3 a) = affine 0 (tasks s a)" "on_cpu (tasks ?s3 a) = False"
    "priority (tasks ?s3 a) = priority (tasks s a)" "may_run (tasks ?s3 b) = True"
    "affine 0 (tasks ?s3 b) = affine 0 (tasks s b)" "on_rq (tasks ?s3 b) = False" "priority (tasks ?s3 b) = priority (tasks s b)"
    using assms st ab 
    by (simp_all add: context_switch_def switch_in_def enqueue_global_def Let_def pair_running_def may_run_def affine_def split: option.splits)
  show ?thesis using assms s3 [folded eq] k [folded eq] by (auto simp: pair_running_def)
qed

text \<open>C26: The ready queues are last-in first-out and starve tasks. While two tasks of the highest busy
  priority take turns on the only CPU, a third task behind them, of the same priority and just as ready,
  never runs: after any number of calls of \<open>sched_reschedule\<close> the current task is one of the two.\<close>

theorem third_task_starves:
  assumes "pair_running p a b (c # q) s" and "c \<noteq> a" and "c \<noteq> b"
  shows "current_task (fold (sched_reschedule 0) clock s) 0 \<noteq> Some c \<and>
    c \<in> set (queue (fold (sched_reschedule 0) clock s) p)"
proof -
  have "pair_running p a b (c # q) (fold (sched_reschedule 0) clock s) \<or>
      pair_running p b a (c # q) (fold (sched_reschedule 0) clock s)"
    using assms(1)
  proof (induction clock arbitrary: s a b)
    case (Cons now clock)
    from pair_step [OF Cons.prems, of now] show ?case using Cons.IH [of b a] by auto
  qed simp
  with assms(2,3) show ?thesis by (auto simp: pair_running_def)
qed


section \<open>Process identifiers\<close>

text \<open>\<open>n\<close> identifiers tried from \<open>i\<close> on, wrapping from 4095 to 1.\<close>

definition pid_at :: "nat \<Rightarrow> nat \<Rightarrow> nat" where
  "pid_at i n = (i - 1 + n) mod (MAX_PIDS - 1) + 1"

definition first_pid :: "sched \<Rightarrow> nat" where
  "first_pid s = (if next_pid s = 0 \<or> next_pid s \<ge> MAX_PIDS then 1 else next_pid s)"

lemma first_pid_next: "first_pid (s\<lparr>next_pid := i\<rparr>) = (if i = 0 \<or> i \<ge> MAX_PIDS then 1 else i)"
  by (simp add: first_pid_def)

lemma first_pid_range: "0 < first_pid s \<and> first_pid s < MAX_PIDS"
  by (simp add: first_pid_def MAX_PIDS_def)

lemma pid_at_0: "0 < i \<Longrightarrow> i < MAX_PIDS \<Longrightarrow> pid_at i 0 = i"
  by (simp add: pid_at_def MAX_PIDS_def)

lemma pid_at_Suc: "0 < i \<Longrightarrow> i < MAX_PIDS \<Longrightarrow>
    pid_at (if i + 1 \<ge> MAX_PIDS then 1 else i + 1) n = pid_at i (Suc n)"
proof (cases "i + 1 \<ge> MAX_PIDS")
  case True
  moreover assume "i < MAX_PIDS"
  ultimately have "i = 4095" by (simp add: MAX_PIDS_def)
  then have "(i - 1 + Suc n) mod 4095 = n mod 4095" by (simp add: mod_add_self1 [of 4095 n, simplified] add.commute)
  with True show ?thesis by (simp add: pid_at_def MAX_PIDS_def)
qed (simp add: pid_at_def)

lemma alloc_pid_loop_spec:
  "alloc_pid_loop n s = (r, s') \<Longrightarrow>
    s' = s\<lparr>next_pid := next_pid s'\<rparr> \<and>
    (r = 0 \<and> (\<forall>k < n. pid_table s ! pid_at (first_pid s) k \<noteq> None) \<or>
     (\<exists>k < n. r = pid_at (first_pid s) k \<and> pid_table s ! r = None \<and> (\<forall>j < k. pid_table s ! pid_at (first_pid s) j \<noteq> None)))"
proof (induction n arbitrary: s)
  case 0
  then show ?case by simp
next
  case (Suc n)
  let ?i = "first_pid s"
  let ?s1 = "s\<lparr>next_pid := if ?i + 1 \<ge> MAX_PIDS then 1 else ?i + 1\<rparr>"
  have f1: "first_pid ?s1 = (if ?i + 1 \<ge> MAX_PIDS then 1 else ?i + 1)"
    by (simp add: first_pid_next)
  have step: "pid_at (first_pid ?s1) k = pid_at ?i (Suc k)" for k
    unfolding f1 using first_pid_range [of s] by (intro pid_at_Suc) simp_all
  have pt: "pid_table ?s1 = pid_table s" by simp
  have zero: "pid_at ?i 0 = ?i" using first_pid_range [of s] by (intro pid_at_0) simp_all
  have eq: "alloc_pid_loop (Suc n) s = (if pid_table s ! ?i = None then (?i, ?s1) else alloc_pid_loop n ?s1)"
    by (simp add: first_pid_def Let_def)
  show ?case
  proof (cases "pid_table s ! ?i = None")
    case True
    with Suc.prems eq have "r = ?i" "s' = ?s1" by auto
    with True zero show ?thesis by (auto intro!: exI [of _ 0])
  next
    case False
    with Suc.prems eq have "alloc_pid_loop n ?s1 = (r, s')" by simp
    note ih = Suc.IH [OF this, unfolded step pt]
    have s': "s' = s\<lparr>next_pid := next_pid s'\<rparr>" using ih by (metis (no_types, lifting) sched.surjective sched.update_convs(5))
    show ?thesis
    proof (cases "r = 0 \<and> (\<forall>k < n. pid_table s ! pid_at ?i (Suc k) \<noteq> None)")
      case True
      with False zero s' show ?thesis by (auto simp: less_Suc_eq_0_disj)
    next
      case no: False
      with ih obtain k where "k < n" "r = pid_at ?i (Suc k)" "pid_table s ! r = None"
        "\<forall>j < k. pid_table s ! pid_at ?i (Suc j) \<noteq> None" by blast
      moreover from this False zero have "\<forall>j < Suc k. pid_table s ! pid_at ?i j \<noteq> None" by (auto simp: less_Suc_eq_0_disj)
      ultimately show ?thesis using s' by (intro conjI disjI2 exI [of _ "Suc k"]) simp_all
    qed
  qed
qed


text \<open>\<open>task_alloc_pid\<close> returns an identifier between 1 and 4095 that is not in use, whenever one exists,
  wherever the search starts; it returns 0 only if all are in use. It changes nothing but the start of the
  next search.\<close>

theorem task_alloc_pid_correct:
  "case task_alloc_pid s of (r, s') \<Rightarrow> s' = s\<lparr>next_pid := next_pid s'\<rparr> \<and>
    (if \<exists>i. 0 < i \<and> i < MAX_PIDS \<and> pid_table s ! i = None
     then 0 < r \<and> r < MAX_PIDS \<and> pid_table s ! r = None else r = 0)"
proof (cases "task_alloc_pid s")
  case (Pair r s')
  let ?i = "first_pid s"
  have cover: "\<exists>k < MAX_PIDS - 1. i = pid_at ?i k" if i: "0 < i" "i < MAX_PIDS" for i
  proof -
    let ?k = "if ?i \<le> i then i - ?i else 4095 + i - ?i"
    have "?k < 4095" using i first_pid_range [of s] by (auto simp: MAX_PIDS_def)
    moreover have "(?i - 1 + ?k) mod 4095 + 1 = i"
    proof (cases "?i \<le> i")
      case True
      with i first_pid_range [of s] show ?thesis by (simp add: MAX_PIDS_def)
    next
      case False
      with i first_pid_range [of s] have "?i - 1 + ?k = (i - 1) + 4095" by (simp add: MAX_PIDS_def)
      then have "(?i - 1 + ?k) mod 4095 = (i - 1) mod 4095" by (simp only: mod_add_self2)
      with i show ?thesis by (simp add: MAX_PIDS_def)
    qed
    ultimately show ?thesis unfolding pid_at_def MAX_PIDS_def by (intro exI [of _ ?k]) simp
  qed
  have range: "0 < pid_at ?i k \<and> pid_at ?i k < MAX_PIDS" for k
    using mod_less_divisor [of 4095 "?i - 1 + k"] by (simp add: pid_at_def MAX_PIDS_def)
  from alloc_pid_loop_spec [of "MAX_PIDS - 1" s r s'] Pair
  have s': "s' = s\<lparr>next_pid := next_pid s'\<rparr>" and r: "r = 0 \<and> (\<forall>k < MAX_PIDS - 1. pid_table s ! pid_at ?i k \<noteq> None) \<or>
     (\<exists>k < MAX_PIDS - 1. r = pid_at ?i k \<and> pid_table s ! r = None)" by (auto simp: task_alloc_pid_def)
  show ?thesis
  proof (cases "\<exists>i. 0 < i \<and> i < MAX_PIDS \<and> pid_table s ! i = None")
    case True
    with r cover have "\<exists>k < MAX_PIDS - 1. r = pid_at ?i k \<and> pid_table s ! r = None" by metis
    with True s' range show ?thesis unfolding Pair by auto
  next
    case False
    with r range have "r = 0" by metis
    with False s' show ?thesis unfolding Pair by auto
  qed
qed


section \<open>Timers\<close>

definition asleep :: "task \<Rightarrow> bool" where
  "asleep k \<longleftrightarrow> state k = TASK_BLOCKED \<and> wakeup_time_ns k \<noteq> 0"

definition due :: "u64 \<Rightarrow> sched \<Rightarrow> nat \<Rightarrow> bool" where
  "due now s i \<longleftrightarrow> (\<exists>t. pid_table s ! i = Some t \<and> asleep (tasks s t) \<and> wakeup_time_ns (tasks s t) \<le> now)"

text \<open>The two global deadlines are no later than any deadline of a registered task.\<close>

definition noted :: "sched \<Rightarrow> bool" where
  "noted s \<longleftrightarrow> (\<forall>i t. 0 < i \<longrightarrow> i < MAX_PIDS \<longrightarrow> pid_table s ! i = Some t \<longrightarrow>
     (asleep (tasks s t) \<longrightarrow> g_earliest_wakeup_ns s \<le> wakeup_time_ns (tasks s t)) \<and>
     (alarm_at_ns (tasks s t) \<noteq> 0 \<longrightarrow> g_earliest_alarm_ns s \<le> alarm_at_ns (tasks s t)))"

definition calm :: "sched \<Rightarrow> sched \<Rightarrow> bool" where
  "calm s s' \<longleftrightarrow> pid_table s' = pid_table s \<and> g_earliest_wakeup_ns s' = g_earliest_wakeup_ns s \<and>
     g_earliest_alarm_ns s' = g_earliest_alarm_ns s \<and>
     (\<forall>t. (state (tasks s' t) = TASK_BLOCKED \<longrightarrow> state (tasks s t) = TASK_BLOCKED) \<and>
       wakeup_time_ns (tasks s' t) = wakeup_time_ns (tasks s t) \<and> alarm_at_ns (tasks s' t) = alarm_at_ns (tasks s t) \<and>
       (on_rq (tasks s t) \<longrightarrow> on_rq (tasks s' t)))"

lemma calm_refl [simp]: "calm s s" by (simp add: calm_def)

lemma calm_trans: "calm s s1 \<Longrightarrow> calm s1 s2 \<Longrightarrow> calm s s2" by (simp add: calm_def)

lemma calm_fold: "(\<And>x s. calm s (f x s)) \<Longrightarrow> calm s (fold f xs s)"
  by (induction xs arbitrary: s) (auto intro: calm_trans)

lemma calm_enqueue: "calm s (enqueue_global t s)"
  by (simp add: calm_def enqueue_global_def Let_def)

lemma calm_unblock: "calm s (task_unblock tp s)"
proof (cases tp)
  case (Some t)
  let ?s1 = "upd t (\<lambda>k. k\<lparr>runnable := True, state := TASK_READY\<rparr>) s"
  have "calm s ?s1" by (simp add: calm_def)
  with calm_enqueue [of ?s1 t] Some show ?thesis by (auto simp: task_unblock_def intro: calm_trans)
qed (simp add: task_unblock_def)

lemma calm_deliver_loop: "calm s (snd (deliver_loop ds p sig taken s))"
proof (induction ds p sig taken s rule: deliver_loop.induct)
  case (3 i ds p sig taken s)
  let ?s1 = "s\<lparr>sfds := (sfds s)(i := (sfd_push (of_int sig) (sfds s i))\<lparr>waiter := None\<rparr>)\<rparr>"
  have "calm s ?s1" by (simp add: calm_def)
  with calm_unblock [of ?s1] have "calm s (task_unblock (waiter (sfds s i)) ?s1)" by (auto intro: calm_trans)
  with 3 show ?case by (auto simp: Let_def intro: calm_trans)
qed simp_all

lemma calm_signal_send: "calm s (signal_send tp sig s)"
proof (cases tp)
  case (Some t)
  have raise: "calm s (signal_raise t sig s)" for s
  proof -
    let ?s1 = "upd t (\<lambda>k. k\<lparr>sig_pending := sig_pending k OR sigbit sig\<rparr>) s"
    let ?s2 = "if sig = SIGKILL then upd t (\<lambda>k. k\<lparr>pending_kill := True\<rparr>) ?s1 else ?s1"
    have "calm s ?s2" by (simp add: calm_def)
    moreover from this calm_unblock [of ?s2 "Some t"] have "calm s (task_unblock (Some t) ?s2)" by (auto intro: calm_trans)
    ultimately show ?thesis unfolding signal_raise_def Let_def by (simp only: split: if_split) blast
  qed
  let ?r = "if sig \<noteq> SIGKILL then signalfd_deliver (pid (tasks s t)) sig s else (False, s)"
  have "calm s (snd ?r)" by (simp add: signalfd_deliver_def calm_deliver_loop)
  then have "calm s (signal_raise t sig (snd ?r))" "calm s (snd ?r)" using raise by (auto intro: calm_trans)
  then show ?thesis by (cases ?r) (simp add: Some signal_send_def Let_def del: if_split split: if_split_asm)
qed (simp add: signal_send_def)

text \<open>A task that the scan of \<open>sched_wakeup_sleepers\<close> has passed.\<close>

definition passed :: "u64 \<Rightarrow> sleep_scan \<Rightarrow> task \<Rightarrow> bool" where
  "passed now w k \<longleftrightarrow> (asleep k \<longrightarrow> next_earliest w \<le> wakeup_time_ns k) \<and>
     (alarm_at_ns k \<noteq> 0 \<longrightarrow> next_alarm w \<le> alarm_at_ns k) \<and>
     (asleep k \<longrightarrow> wakeup_time_ns k \<le> now \<longrightarrow> 64 \<le> length (to_wake w))"

lemma passed_mono:
  "passed now w k \<Longrightarrow> next_earliest w' \<le> next_earliest w \<Longrightarrow> next_alarm w' \<le> next_alarm w \<Longrightarrow>
    length (to_wake w) \<le> length (to_wake w') \<Longrightarrow> passed now w' k"
  unfolding passed_def by (meson order_trans)

lemma alarm_round_facts:
  assumes "alarm_round now t (w, s1) = (wa, sa)"
  obtains X where "sa = upd t (\<lambda>k. k\<lparr>alarm_at_ns := X\<rparr>) s1" "X \<noteq> 0 \<longrightarrow> next_alarm wa \<le> X"
    "next_alarm wa \<le> next_alarm w" "to_wake wa = to_wake w" "next_earliest wa = next_earliest w"
proof -
  have same: "s1 = upd t (\<lambda>k. k\<lparr>alarm_at_ns := alarm_at_ns (tasks s1 t)\<rparr>) s1" by (simp add: upd_def)
  let ?at = "if alarm_interval_ns (tasks s1 t) \<noteq> 0 then now + alarm_interval_ns (tasks s1 t) else 0"
  consider (fire) "alarm_at_ns (tasks s1 t) \<noteq> 0" "now \<ge> alarm_at_ns (tasks s1 t)" "length (to_alarm w) < 16"
    | (keep) "alarm_at_ns (tasks s1 t) = 0 \<or> \<not> (now \<ge> alarm_at_ns (tasks s1 t) \<and> length (to_alarm w) < 16)" by blast
  then show ?thesis
  proof cases
    case fire
    with assms that [of ?at] show ?thesis by (auto simp: alarm_round_def Let_def not_less split: if_splits)
  next
    case keep
    with assms have "sa = s1" by (auto simp: alarm_round_def Let_def split: if_splits)
    moreover from keep assms have "alarm_at_ns (tasks s1 t) \<noteq> 0 \<longrightarrow> next_alarm wa \<le> alarm_at_ns (tasks s1 t)"
      "next_alarm wa \<le> next_alarm w" "to_wake wa = to_wake w" "next_earliest wa = next_earliest w"
      by (auto simp: alarm_round_def Let_def split: if_splits)
    ultimately show ?thesis using that [of "alarm_at_ns (tasks s1 t)"] same by metis
  qed
qed

lemma sleeper_round_facts:
  assumes "sleeper_round now t (wa, sa) = (w', s')"
  obtains (wake) "asleep (tasks sa t)" "wakeup_time_ns (tasks sa t) \<le> now" "w' = wa\<lparr>to_wake := to_wake wa @ [t]\<rparr>"
      "s' = upd t (\<lambda>k. k\<lparr>wakeup_time_ns := 0, runnable := True, state := TASK_READY\<rparr>) sa"
    | (keep) "s' = sa" "to_wake w' = to_wake wa" "next_alarm w' = next_alarm wa" "next_earliest w' \<le> next_earliest wa"
      "asleep (tasks sa t) \<longrightarrow> next_earliest w' \<le> wakeup_time_ns (tasks sa t) \<and>
         (wakeup_time_ns (tasks sa t) \<le> now \<longrightarrow> 64 \<le> length (to_wake wa))"
proof (cases "asleep (tasks sa t) \<and> wakeup_time_ns (tasks sa t) \<le> now \<and> length (to_wake wa) < 64")
  case True
  with assms show ?thesis by (intro wake) (auto simp: sleeper_round_def Let_def asleep_def)
next
  case False
  with assms show ?thesis
    by (intro keep) (auto simp: sleeper_round_def Let_def asleep_def split: if_splits)
qed

lemma length_filter_mono: "(\<And>x. P x \<Longrightarrow> Q x) \<Longrightarrow> length (filter P xs) \<le> length (filter Q xs)"
  by (induction xs) (auto simp: le_SucI)

lemma length_filter_strict:
  "(\<And>x. P x \<Longrightarrow> Q x) \<Longrightarrow> y \<in> set xs \<Longrightarrow> Q y \<Longrightarrow> \<not> P y \<Longrightarrow> length (filter P xs) < length (filter Q xs)"
proof (induction xs)
  case (Cons x xs)
  have le: "length (filter P xs) \<le> length (filter Q xs)" using Cons.prems(1) by (rule length_filter_mono)
  show ?case
  proof (cases "x = y")
    case True
    with Cons.prems le show ?thesis by (simp add: less_Suc_eq_le)
  next
    case False
    with Cons show ?thesis by auto
  qed
qed simp

text \<open>A due index whose task has been woken.\<close>

definition due_woken :: "u64 \<Rightarrow> sched \<Rightarrow> tptr list \<Rightarrow> nat \<Rightarrow> bool" where
  "due_woken now s wake i \<longleftrightarrow> due now s i \<and> (\<forall>t. pid_table s ! i = Some t \<longrightarrow> t \<in> set wake)"

text \<open>The scan after the indices \<open>is\<close>.\<close>

definition scanned :: "u64 \<Rightarrow> sched \<Rightarrow> nat list \<Rightarrow> sleep_scan \<Rightarrow> sched \<Rightarrow> bool" where
  "scanned now s is w s1 \<longleftrightarrow> pid_table s1 = pid_table s \<and> length (to_wake w) \<le> length (filter (due_woken now s (to_wake w)) is) \<and>
     (\<forall>t. state (tasks s1 t) = TASK_BLOCKED \<longrightarrow> state (tasks s t) = TASK_BLOCKED \<and> wakeup_time_ns (tasks s1 t) = wakeup_time_ns (tasks s t)) \<and>
     (\<forall>t. state (tasks s t) = TASK_BLOCKED \<longrightarrow> state (tasks s1 t) = TASK_BLOCKED \<or> t \<in> set (to_wake w)) \<and>
     (\<forall>t \<in> set (to_wake w). state (tasks s1 t) \<noteq> TASK_BLOCKED) \<and>
     (\<forall>i \<in> set is. \<forall>t. pid_table s ! i = Some t \<longrightarrow> passed now w (tasks s1 t))"

lemma scanned_step:
  assumes sc: "scanned now s is w s1" and r: "scan_round now i (w, s1) = (w', s')"
  shows "scanned now s (is @ [i]) w' s'"
proof (cases "pid_table s1 ! i")
  case None
  with sc r show ?thesis by (auto simp: scanned_def scan_round_def)
next
  case (Some t)
  obtain wa sa where al: "alarm_round now t (w, s1) = (wa, sa)" by fastforce
  have sl: "sleeper_round now t (wa, sa) = (w', s')" using r Some al by (simp add: scan_round_def)
  obtain X where X: "sa = upd t (\<lambda>k. k\<lparr>alarm_at_ns := X\<rparr>) s1" "X \<noteq> 0 \<longrightarrow> next_alarm wa \<le> X"
    "next_alarm wa \<le> next_alarm w" "to_wake wa = to_wake w" "next_earliest wa = next_earliest w"
    using al by (rule alarm_round_facts)
  have pa: "passed now wa (tasks sa u)" if "passed now w (tasks s1 u)" for u
    using passed_mono [OF that, of wa] X by (auto simp: passed_def asleep_def)
  have a: "scanned now s is wa sa" using sc X(1,4) pa by (auto simp: scanned_def)
  from sl show ?thesis
  proof (cases rule: sleeper_round_facts)
    case wake
    have d: "due now s i" using a wake(1,2) Some sc by (auto simp: due_def scanned_def asleep_def)
    have "passed now w' (tasks s' u)" if "passed now wa (tasks sa u)" for u
      using passed_mono [OF that, of w'] wake(3,4) by (auto simp: passed_def asleep_def)
    moreover have "passed now w' (tasks s' t)" using X(1,2) wake(3,4) by (simp add: passed_def asleep_def)
    moreover have "length (to_wake w') \<le> length (filter (due_woken now s (to_wake w')) (is @ [i]))"
    proof -
      have "length (to_wake wa) \<le> length (filter (due_woken now s (to_wake wa)) is)" using a by (simp add: scanned_def)
      also have "\<dots> \<le> length (filter (due_woken now s (to_wake w')) is)"
        by (rule length_filter_mono) (auto simp: due_woken_def wake(3))
      finally show ?thesis using d Some sc wake(3) by (simp add: due_woken_def scanned_def)
    qed
    ultimately show ?thesis using a wake(3,4) Some sc by (auto simp: scanned_def)
  next
    case keep
    have "passed now w' (tasks s' u)" if "passed now wa (tasks sa u)" for u
      using passed_mono [OF that, of w'] keep(1-4) by simp
    moreover have "passed now w' (tasks s' t)" using X(1,2) keep by (simp add: passed_def)
    ultimately show ?thesis using a keep(1,2) Some sc by (auto simp: scanned_def)
  qed
qed

lemma scanned_all:
  "fold (scan_round now) is (w, s1) = (w', s') \<Longrightarrow> scanned now s js w s1 \<Longrightarrow> scanned now s (js @ is) w' s'"
proof (induction "is" arbitrary: w s1 js)
  case (Cons i "is")
  obtain wi si where r: "scan_round now i (w, s1) = (wi, si)" by fastforce
  from Cons.IH [of wi si "js @ [i]"] Cons.prems scanned_step [OF Cons.prems(2) r] r show ?case by simp
qed simp


lemma sleepers_scan:
  assumes "\<not> now < min (g_earliest_wakeup_ns s) (g_earliest_alarm_ns s)"
  obtains w s1 where "scanned now s [1 ..< MAX_PIDS] w s1"
    and "calm (fold enqueue_global (to_wake w)
        (s1\<lparr>g_earliest_wakeup_ns := next_earliest w, g_earliest_alarm_ns := next_alarm w\<rparr>)) (sched_wakeup_sleepers now s)"
proof -
  let ?w0 = "\<lparr>to_wake = [], to_alarm = [], next_earliest = UINT64_MAX, next_alarm = UINT64_MAX\<rparr>"
  obtain w s1 where f: "fold (scan_round now) [1 ..< MAX_PIDS] (?w0, s) = (w, s1)" by fastforce
  have "scanned now s [] ?w0 s" by (simp add: scanned_def)
  from scanned_all [OF f this] have "scanned now s [1 ..< MAX_PIDS] w s1" by simp
  moreover have "calm s3 (fold (\<lambda>t. signal_send (Some t) SIGALRM) ts s3)" for s3 ts
    by (rule calm_fold) (rule calm_signal_send)
  moreover have "sched_wakeup_sleepers now s = fold (\<lambda>t. signal_send (Some t) SIGALRM) (to_alarm w)
      (fold enqueue_global (to_wake w) (s1\<lparr>g_earliest_wakeup_ns := next_earliest w, g_earliest_alarm_ns := next_alarm w\<rparr>))"
    using assms unfolding sched_wakeup_sleepers_def Let_def f by auto
  ultimately show ?thesis using that [of w s1] by simp
qed

lemma on_rq_enqueued: "on_rq (tasks (fold enqueue_global w s) t) \<longleftrightarrow> on_rq (tasks s t) \<or> t \<in> set w"
  by (induction w arbitrary: s) auto

text \<open>C25: Sleepers wake and no deadline is forgotten. If the two global deadlines cover every task before a
  timer tick, they do so afterwards; and if at most 64 sleepers are due, each of them is on a ready queue
  after the tick and no longer blocked.\<close>

theorem sleepers_wake:
  assumes noted: "noted s" and few: "length (filter (due now s) [1 ..< MAX_PIDS]) \<le> 64"
  shows "noted (sched_wakeup_sleepers now s) \<and>
    (\<forall>i t. 0 < i \<longrightarrow> i < MAX_PIDS \<longrightarrow> pid_table s ! i = Some t \<longrightarrow> asleep (tasks s t) \<longrightarrow> wakeup_time_ns (tasks s t) \<le> now \<longrightarrow>
       state (tasks (sched_wakeup_sleepers now s) t) \<noteq> TASK_BLOCKED \<and> on_rq (tasks (sched_wakeup_sleepers now s) t))"
proof (cases "now < min (g_earliest_wakeup_ns s) (g_earliest_alarm_ns s)")
  case True
  then have eq: "sched_wakeup_sleepers now s = s" by (simp add: sched_wakeup_sleepers_def Let_def)
  have "\<not> wakeup_time_ns (tasks s t) \<le> now" if "0 < i" "i < MAX_PIDS" "pid_table s ! i = Some t" "asleep (tasks s t)" for i t
    using True noted that unfolding noted_def by (meson leD min.strict_boundedE order_trans)
  with noted show ?thesis unfolding eq by blast
next
  case False
  let ?s' = "sched_wakeup_sleepers now s"
  from sleepers_scan [OF False] obtain w s1 where sc: "scanned now s [1 ..< MAX_PIDS] w s1"
    and cm: "calm (fold enqueue_global (to_wake w)
        (s1\<lparr>g_earliest_wakeup_ns := next_earliest w, g_earliest_alarm_ns := next_alarm w\<rparr>)) ?s'" .
  let ?s2 = "s1\<lparr>g_earliest_wakeup_ns := next_earliest w, g_earliest_alarm_ns := next_alarm w\<rparr>"
  have "calm ?s2 (fold enqueue_global (to_wake w) ?s2)" by (rule calm_fold) (rule calm_enqueue)
  then have cm2: "calm ?s2 ?s'" using cm by (rule calm_trans)
  have pt: "pid_table s1 = pid_table s" using sc by (simp add: scanned_def)
  have pass: "passed now w (tasks s1 t)" if "0 < i" "i < MAX_PIDS" "pid_table s ! i = Some t" for i t
    using sc that by (auto simp: scanned_def)
  have "noted ?s'" unfolding noted_def
    using cm2 pass pt by (auto simp: calm_def passed_def asleep_def)
  moreover have "state (tasks ?s' t) \<noteq> TASK_BLOCKED \<and> on_rq (tasks ?s' t)"
    if i: "0 < i" "i < MAX_PIDS" "pid_table s ! i = Some t" and t: "asleep (tasks s t)" "wakeup_time_ns (tasks s t) \<le> now" for i t
  proof -
    have woke: "state (tasks s1 t) \<noteq> TASK_BLOCKED"
    proof
      assume b: "state (tasks s1 t) = TASK_BLOCKED"
      with sc t pass [OF i] have "64 \<le> length (to_wake w)" and out: "t \<notin> set (to_wake w)"
        by (auto simp: scanned_def passed_def asleep_def)
      moreover have "length (to_wake w) \<le> length (filter (due_woken now s (to_wake w)) [1 ..< MAX_PIDS])"
        using sc by (simp add: scanned_def)
      moreover have "\<dots> < length (filter (due now s) [1 ..< MAX_PIDS])"
        by (rule length_filter_strict [of _ _ i]) (use i t out in \<open>auto simp: due_woken_def due_def\<close>)
      ultimately show False using few by linarith
    qed
    then have "t \<in> set (to_wake w)" using sc t by (auto simp: scanned_def asleep_def)
    then have "on_rq (tasks (fold enqueue_global (to_wake w) ?s2) t)" by (simp add: on_rq_enqueued)
    with cm have "on_rq (tasks ?s' t)" by (simp add: calm_def)
    with woke cm2 show ?thesis by (auto simp: calm_def)
  qed
  ultimately show ?thesis by blast
qed


section \<open>Witnesses\<close>

definition smp_demo_task :: task where
  "smp_demo_task = \<lparr>priority = 5, runnable = False, is_userspace = True, cpu_id = 0, time_slice = 10, time_slice_init = 10,
    total_runtime = 0, last_cpu = 0, cpu_affinity = 0, user_rsp = 0, state = TASK_READY, pid = 1, ppid = 0, uid = 0,
    capabilities = 0, parent = None, children = None, sibling = None, exit_code = 0, pending_kill = False, flags = 0,
    wait_for_pid = 0, wakeup_time_ns = 0, user_saved = \<lparr>saved_rip = 0, saved_rbp = 0, saved_rbx = 0, saved_r12 = 0,
      saved_r13 = 0, saved_r14 = 0, saved_r15 = 0, saved_r11 = 0\<rparr>,
    on_cpu = False, on_rq = False, ctty = 0, run_start_ns = 0, pgid = 1, sid = 1, sig_pending = 0, sig_blocked = 0,
    sig_handler = replicate 32 0, sig_flags = replicate 32 0, sig_restorer = replicate 32 0, sig_mask = replicate 32 0,
    alarm_at_ns = 0, alarm_interval_ns = 0\<rparr>"

definition smp_demo_sched :: sched where
  "smp_demo_sched = \<lparr>tasks = (\<lambda>_. smp_demo_task), ready_queues = replicate 32 [], current_task = (\<lambda>_. None),
    pid_table = replicate 4096 None, next_pid = 1, g_earliest_wakeup_ns = UINT64_MAX, g_earliest_alarm_ns = UINT64_MAX,
    g_foreground_pid = replicate 12 0, deferred_free_task = (\<lambda>_. None),
    sfds = (\<lambda>_. \<lparr>sfd_mask = 0, sfd_queue = replicate 32 0, sfd_head = 0, sfd_tail = 0, sfd_count = 0,
      sfd_nonblock = False, owner_pid = 0, waiter = None\<rparr>), g_sfds = replicate 32 None\<rparr>"

definition smp_demo_m0 :: smp where
  "smp_demo_m0 = \<lparr>sch = smp_demo_sched, pc = (\<lambda>_. Running)\<rparr>"

lemma smp_demo_start: "smp_start smp_demo_m0"
  by (simp add: smp_start_def smp_demo_m0_def smp_demo_sched_def smp_demo_task_def may_run_def MAX_PRIORITY_def MAX_PIDS_def
)

definition smp_demo_run_task :: task where
  "smp_demo_run_task = smp_demo_task\<lparr>runnable := True\<rparr>"

text \<open>The first task has been created; the CPU picks it and switches to it.\<close>

definition smp_demo_s1 :: sched where
  "smp_demo_s1 = enqueue_global (Task 0) (pid_register (Task 0) (upd (Task 0) (\<lambda>_. smp_demo_run_task) smp_demo_sched))"

definition smp_demo_s2 :: sched where
  "smp_demo_s2 = snd (resched_pick 0 smp_demo_s1)"

definition smp_demo_m4 :: smp where
  "smp_demo_m4 = \<lparr>sch = context_switch 0 (Task 0) (switch_in 0 7 (Task 0) (requeue_old 0 smp_demo_s2)), pc = (\<lambda>_. Running)\<rparr>"

lemma smp_demo_s1_queues: "ready_queues smp_demo_s1 = (replicate 32 [])[5 := [Task 0]]" "current_task smp_demo_s1 = (\<lambda>_. None)"
  "tasks smp_demo_s1 (Task 0) = smp_demo_run_task\<lparr>on_rq := True\<rparr>"
  by (simp_all add: smp_demo_s1_def enqueue_global_def pid_register_def Let_def smp_demo_run_task_def smp_demo_task_def smp_demo_sched_def
)

lemma smp_demo_pick: "resched_pick 0 smp_demo_s1 = (Some (Task 0), smp_demo_s2)"
proof -
  have "pick_below 0 (Suc MAX_PRIORITY) smp_demo_s1 = (Some (Task 0), smp_demo_s1\<lparr>ready_queues := (ready_queues smp_demo_s1)[5 := []],
    tasks := (tasks smp_demo_s1)(Task 0 := (tasks smp_demo_s1 (Task 0))\<lparr>on_cpu := True, on_rq := False\<rparr>)\<rparr>)"
    by (rule pick_below_first)
      (auto simp: smp_demo_s1_queues MAX_PRIORITY_def elig_def may_run_def affine_def smp_demo_run_task_def smp_demo_task_def
)
  then have "fst (resched_pick 0 smp_demo_s1) = Some (Task 0)"
    by (simp add: resched_pick_def sched_pick_next_def Let_def smp_demo_s1_queues)
  then show ?thesis by (simp add: smp_demo_s2_def prod_eq_iff)
qed

lemma smp_demo_run: "smp_step\<^sup>*\<^sup>* smp_demo_m0 smp_demo_m4"
proof -
  let ?m1 = "smp_demo_m0\<lparr>sch := smp_demo_s1\<rparr>"
  let ?m2 = "?m1\<lparr>sch := smp_demo_s2, pc := (pc ?m1)(0 := Chosen (Task 0))\<rparr>"
  let ?m3 = "?m2\<lparr>sch := requeue_old 0 (sch ?m2), pc := (pc ?m2)(0 := Requeued (Task 0))\<rparr>"
  have s1: "smp_step smp_demo_m0 ?m1"
    using smp_step.create [of smp_demo_m0 0 smp_demo_run_task]
    by (simp add: smp_demo_m0_def smp_demo_sched_def smp_demo_task_def smp_demo_run_task_def smp_demo_s1_def MAX_PRIORITY_def)
  have s2: "smp_step ?m1 ?m2" using smp_demo_pick by (intro smp_step.pick) (simp_all add: smp_demo_m0_def)
  have s3: "smp_step ?m2 ?m3" by (rule smp_step.requeue) simp
  have s4: "smp_step ?m3 smp_demo_m4"
    using smp_step.switch [of ?m3 0 "Task 0" 7] by (simp add: smp_demo_m4_def smp_demo_m0_def fun_upd_def if_distrib cong: if_cong)
  show ?thesis
    by (rule converse_rtranclp_into_rtranclp, rule s1, rule converse_rtranclp_into_rtranclp, rule s2,
      rule converse_rtranclp_into_rtranclp, rule s3, rule r_into_rtranclp, rule s4)
qed

lemma smp_demo_current: "current_task (sch smp_demo_m4) 0 = Some (Task 0)"
  by (simp add: smp_demo_m4_def context_switch_def Let_def split: option.splits)

theorem one_cpu_per_task_witness:
  "smp_start smp_demo_m0 \<and> smp_step\<^sup>*\<^sup>* smp_demo_m0 smp_demo_m4 \<and> current_task (sch smp_demo_m4) 0 = Some (Task 0) \<and>
    on_cpu (tasks (sch smp_demo_m4) (Task 0))"
  using one_cpu_per_task [OF smp_demo_start smp_demo_run smp_demo_current smp_demo_current] smp_demo_start smp_demo_run smp_demo_current by simp

theorem no_task_lost_witness:
  "smp_start smp_demo_m0 \<and> smp_step\<^sup>*\<^sup>* smp_demo_m0 smp_demo_m4 \<and> count_list (concat (ready_queues (sch smp_demo_m4))) (Task 0) \<le> 1"
  using no_task_lost [OF smp_demo_start smp_demo_run, of 0] smp_demo_start smp_demo_run by simp

lemma smp_demo_s1_inv: "rq_inv smp_demo_s1"
  using quiet_create [of smp_demo_sched 0 smp_demo_run_task] smp_invD(1) [OF smp_start_inv [OF smp_demo_start]]
  by (simp add: quiet_def smp_demo_s1_def smp_demo_m0_def smp_demo_run_task_def smp_demo_task_def smp_demo_sched_def MAX_PRIORITY_def
)

theorem sched_pick_next_witness:
  "rq_inv smp_demo_s1 \<and> queue smp_demo_s1 5 = [Task 0] \<and> rq_inv (snd (sched_pick_next 0 smp_demo_s1))"
  using sched_pick_next_correct [OF smp_demo_s1_inv, of 0] smp_demo_s1_inv
  by (simp add: smp_demo_s1_queues case_prod_unfold)

text \<open>Three runnable tasks of one priority, the first of them running.\<close>

definition smp_demo_three :: sched where
  "smp_demo_three = smp_demo_sched\<lparr>tasks := (\<lambda>_. smp_demo_run_task), ready_queues := (replicate 32 [])[5 := [Task 1, Task 2]],
    current_task := (\<lambda>_. Some (Task 0))\<rparr>"

theorem third_task_starves_witness:
  "pair_running 5 (Task 0) (Task 1) [Task 2] smp_demo_three \<and>
   current_task (fold (sched_reschedule 0) [10, 20, 30, 40] smp_demo_three) 0 \<noteq> Some (Task 2)"
proof -
  have p: "pair_running 5 (Task 0) (Task 1) [Task 2] smp_demo_three"
    by (simp add: pair_running_def smp_demo_three_def smp_demo_sched_def smp_demo_run_task_def smp_demo_task_def MAX_PRIORITY_def
        may_run_def affine_def)
  from third_task_starves [OF p, of "[10, 20, 30, 40]"] p show ?thesis by simp
qed

text \<open>One registered task sleeps until time 100.\<close>

definition smp_demo_sleep :: sched where
  "smp_demo_sleep = smp_demo_sched\<lparr>tasks := (\<lambda>_. smp_demo_task\<lparr>state := TASK_BLOCKED, wakeup_time_ns := 100\<rparr>),
    pid_table := (replicate 4096 None)[1 := Some (Task 0)], g_earliest_wakeup_ns := 100\<rparr>"

theorem sleepers_wake_witness:
  "noted smp_demo_sleep \<and> on_rq (tasks (sched_wakeup_sleepers 150 smp_demo_sleep) (Task 0))"
proof -
  have pt: "pid_table smp_demo_sleep ! i = (if i = 1 then Some (Task 0) else None)" if "i < 4096" for i
    using that by (simp add: smp_demo_sleep_def nth_list_update)
  have n: "noted smp_demo_sleep"
    unfolding noted_def using pt by (auto simp: MAX_PIDS_def smp_demo_sleep_def asleep_def smp_demo_task_def smp_demo_sched_def split: if_splits)
  have "filter (due 150 smp_demo_sleep) [1 ..< MAX_PIDS] = filter (\<lambda>i. i = 1) [1 ..< MAX_PIDS]"
    using pt by (intro filter_cong) (auto simp: due_def MAX_PIDS_def smp_demo_sleep_def asleep_def smp_demo_task_def split: if_splits)
  also have "length \<dots> = card ({1} :: nat set)"
    by (subst distinct_card [symmetric]) (simp_all add: MAX_PIDS_def Collect_conv_if cong: conj_cong)
  finally have few: "length (filter (due 150 smp_demo_sleep) [1 ..< MAX_PIDS]) \<le> 64" by simp
  have "pid_table smp_demo_sleep ! 1 = Some (Task 0)" using pt [of 1] by simp
  with sleepers_wake [OF n few] n show ?thesis
    by (auto simp: MAX_PIDS_def smp_demo_sleep_def asleep_def smp_demo_task_def dest!: spec [of _ 1])
qed

end
