(* ===== verification/Uaccess.thy ===== *)
theory Uaccess
  imports Vmm
begin

text \<open>
  The helpers of \<open>kernel/src/syscall/helpers.c\<close> with which system calls reach user memory and user
  path names: validation of a user range against the page tables, the copy of a user string, the
  normalisation of a path, its resolution against the working directory, the permission checks
  and the choice of a bounce buffer. User memory is a function from addresses to characters, a C
  string in a buffer the list of its characters before the terminating zero.
\<close>

section \<open>User ranges\<close>

text \<open>The fields of the current task these helpers read; a null page map has the address 0.\<close>

record caller =
  c_pagemap :: vmm_pagemap
  c_userspace :: bool
  c_uid :: u32
  c_gid :: u32
  c_cwd :: string

partial_function (option) page_loop ::
  "vmm_pagemap \<Rightarrow> bool \<Rightarrow> pmm_state \<Rightarrow> u64 \<Rightarrow> u64 \<Rightarrow> bool option" where
  "page_loop pm need_write st p page_end =
    (if \<not> p \<le> page_end then Some True
     else case vmm_virt_flags pm p st of
       None \<Rightarrow> Some False
     | Some flags \<Rightarrow>
         if \<not> has flags VMM_USER then Some False
         else if need_write \<and> \<not> has flags VMM_WRITE then Some False
         else page_loop pm need_write st (p + 0x1000) page_end)"

definition uptr_range_ok :: "caller option \<Rightarrow> pmm_state \<Rightarrow> u64 \<Rightarrow> u64 \<Rightarrow> bool \<Rightarrow> bool option" where
  "uptr_range_ok cur st addr len need_write =
    (if addr < 0x1000 then Some False
     else if addr \<ge> 0x0000800000000000 then Some False
     else if len > 0x0000800000000000 then Some False
     else if len \<noteq> 0 \<and> addr + len - 1 < addr then Some False
     else if addr + len > 0x0000800000000000 then Some False
     else if len = 0 then Some True
     else case cur of
       None \<Rightarrow> Some True
     | Some t \<Rightarrow>
         if map_addr (c_pagemap t) = 0 then Some True
         else if \<not> c_userspace t then Some True
         else page_loop (c_pagemap t) need_write st (addr AND NOT 0xFFF) ((addr + len - 1) AND NOT 0xFFF))"

definition syscall_uptr_validate :: "caller option \<Rightarrow> pmm_state \<Rightarrow> u64 \<Rightarrow> u64 \<Rightarrow> bool option" where
  "syscall_uptr_validate cur st ptr len = uptr_range_ok cur st ptr len False"

definition syscall_uptr_validate_write :: "caller option \<Rightarrow> pmm_state \<Rightarrow> u64 \<Rightarrow> u64 \<Rightarrow> bool option" where
  "syscall_uptr_validate_write cur st ptr len = uptr_range_ok cur st ptr len True"

text \<open>The copies: a list of characters out of user memory, or user memory with a list written.\<close>

definition mem_chars :: "(u64 \<Rightarrow> char) \<Rightarrow> u64 \<Rightarrow> nat \<Rightarrow> string" where
  "mem_chars um a n = map (\<lambda>k. um (a + of_nat k)) [0 ..< n]"

definition mem_write :: "u64 \<Rightarrow> string \<Rightarrow> (u64 \<Rightarrow> char) \<Rightarrow> u64 \<Rightarrow> char" where
  "mem_write a cs um = (\<lambda>x. if unat (x - a) < length cs then cs ! unat (x - a) else um x)"

definition syscall_copy_from_user ::
  "caller option \<Rightarrow> pmm_state \<Rightarrow> (u64 \<Rightarrow> char) \<Rightarrow> u64 \<Rightarrow> u64 \<Rightarrow> string result option" where
  "syscall_copy_from_user cur st um src n =
    (case uptr_range_ok cur st src n False of
       None \<Rightarrow> None
     | Some ok \<Rightarrow> Some (if ok then Inr (mem_chars um src (unat n)) else Inl EFAULT))"

definition syscall_copy_to_user ::
  "caller option \<Rightarrow> pmm_state \<Rightarrow> u64 \<Rightarrow> string \<Rightarrow> (u64 \<Rightarrow> char) \<Rightarrow> (unit result \<times> (u64 \<Rightarrow> char)) option" where
  "syscall_copy_to_user cur st dst cs um =
    (case uptr_range_ok cur st dst (of_nat (length cs)) True of
       None \<Rightarrow> None
     | Some ok \<Rightarrow> Some (if ok then (Inr (), mem_write dst cs um) else (Inl EFAULT, um)))"

section \<open>Strings\<close>

abbreviation NUL :: char where
  "NUL \<equiv> CHR 0x00"

text \<open>
  The loop at index \<open>i\<close> with \<open>n\<close> rounds to go. The destination is a buffer of \<open>maxlen\<close> characters; a
  failing copy leaves what it wrote.
\<close>

fun strncpy_loop ::
  "caller option \<Rightarrow> pmm_state \<Rightarrow> (u64 \<Rightarrow> char) \<Rightarrow> u64 \<Rightarrow> nat \<Rightarrow> nat \<Rightarrow> nat \<Rightarrow> string \<Rightarrow> (int result \<times> string) option" where
  "strncpy_loop cur st um src maxlen i 0 dst =
    Some (Inr (to_int32 (of_nat (maxlen - 1))), dst[maxlen - 1 := NUL])"
| "strncpy_loop cur st um src maxlen i (Suc n) dst =
    (case (if i = 0 \<or> (src + of_nat i) AND 0xFFF = 0
           then syscall_uptr_validate cur st (src + of_nat i) 1 else Some True) of
       None \<Rightarrow> None
     | Some False \<Rightarrow> Some (Inl EFAULT, dst)
     | Some True \<Rightarrow>
         let dst' = dst[i := um (src + of_nat i)] in
         if um (src + of_nat i) = NUL then Some (Inr (to_int32 (of_nat i)), dst')
         else strncpy_loop cur st um src maxlen (Suc i) n dst')"

definition syscall_strncpy_from_user ::
  "caller option \<Rightarrow> pmm_state \<Rightarrow> (u64 \<Rightarrow> char) \<Rightarrow> string \<Rightarrow> u64 \<Rightarrow> nat \<Rightarrow> (int result \<times> string) option" where
  "syscall_strncpy_from_user cur st um dst src maxlen =
    (if maxlen = 0 then Some (Inl EINVAL, dst)
     else case syscall_uptr_validate cur st src 1 of
       None \<Rightarrow> None
     | Some False \<Rightarrow> Some (Inl EFAULT, dst)
     | Some True \<Rightarrow> strncpy_loop cur st um src maxlen 0 (maxlen - 1) dst)"

section \<open>Paths\<close>

abbreviation slash :: char where
  "slash \<equiv> CHR ''/''"

text \<open>
  \<open>buf\<close> is the list of the first \<open>bi\<close> characters of the source's buffer of 512, so that \<open>bi--\<close> drops the
  last one.
\<close>

fun back_to :: "string \<Rightarrow> string" where
  "back_to buf = (if 1 < length buf \<and> last buf \<noteq> slash then back_to (butlast buf) else buf)"

declare back_to.simps [simp del]

definition norm_up :: "string \<Rightarrow> string" where
  "norm_up buf =
    (if 1 < length buf then
       let b = back_to (butlast buf);
           b = (if 1 < length b \<and> last b = slash then butlast b else b)
       in if b = [] then [slash] else b
     else buf)"

text \<open>One segment; \<open>None\<close> is the \<open>break\<close> of a full buffer.\<close>

definition norm_seg :: "string \<Rightarrow> string \<Rightarrow> string option" where
  "norm_seg seg buf =
    (if seg = ''.'' then Some buf
     else if seg = ''..'' then Some (norm_up buf)
     else if buf \<noteq> [] \<and> last buf \<noteq> slash then
       if length buf \<ge> 511 then None
       else let b = buf @ [slash] in Some (b @ take (511 - length b) seg)
     else Some (buf @ take (511 - length buf) seg))"

function norm_loop :: "string \<Rightarrow> string \<Rightarrow> string" where
  "norm_loop path buf =
    (let p = dropWhile (\<lambda>c. c = slash) path in
     if p = [] then buf
     else case norm_seg (takeWhile (\<lambda>c. c \<noteq> slash) p) buf of
       None \<Rightarrow> buf
     | Some b \<Rightarrow> norm_loop (dropWhile (\<lambda>c. c \<noteq> slash) p) b)"
  by pat_completeness auto
termination
proof (relation "measure (\<lambda>(path, buf). length path)", simp)
  fix path buf :: string and p b
  assume p: "p = dropWhile (\<lambda>c. c = slash) path" "p \<noteq> []"
  then have "hd p \<noteq> slash" using hd_dropWhile [of "\<lambda>c. c = slash" path] by simp
  with p(2) have "length (dropWhile (\<lambda>c. c \<noteq> slash) p) < length p"
    by (cases p) (simp_all add: le_imp_less_Suc length_dropWhile_le)
  also have "length p \<le> length path" by (simp add: p(1) length_dropWhile_le)
  finally show "((dropWhile (\<lambda>c. c \<noteq> slash) p, b), path, buf) \<in> measure (\<lambda>(path, buf). length path)" by simp
qed

declare norm_loop.simps [simp del]

definition syscall_path_normalize :: "string \<Rightarrow> string" where
  "syscall_path_normalize path =
    (if path = [] then path
     else
       let b = norm_loop path (if hd path = slash then [slash] else []);
           b = (if b = [] then [slash] else b)
       in if 1 < length b \<and> last b = slash then butlast b else b)"

text \<open>The C string at the start of a buffer.\<close>

definition c_string :: "string \<Rightarrow> string" where
  "c_string buf = takeWhile (\<lambda>c. c \<noteq> NUL) buf"

definition syscall_resolve_path_from_user ::
  "caller option \<Rightarrow> pmm_state \<Rightarrow> (u64 \<Rightarrow> char) \<Rightarrow> u64 \<Rightarrow> nat \<Rightarrow> string result option" where
  "syscall_resolve_path_from_user cur st um src maxlen =
    (if maxlen = 0 then Some (Inl EINVAL)
     else case syscall_strncpy_from_user cur st um (replicate 512 NUL) src 512 of
       None \<Rightarrow> None
     | Some (Inl e, tmp) \<Rightarrow> Some (Inl e)
     | Some (Inr n, tmp) \<Rightarrow>
         if tmp ! 0 = NUL then Some (Inl ENOENT)
         else if tmp ! 0 = slash then
           if nat n \<ge> maxlen then Some (Inl ENAMETOOLONG)
           else Some (Inr (syscall_path_normalize (c_string (take (nat n + 1) tmp))))
         else
           let cwd = (case cur of Some t \<Rightarrow> if c_cwd t \<noteq> [] then c_cwd t else [slash] | None \<Rightarrow> [slash]);
               need = length cwd + 1 + nat n + 1
           in if need \<ge> maxlen then Some (Inl ENAMETOOLONG)
              else
                let dst = (if cwd = [] \<or> last cwd \<noteq> slash then cwd @ [slash] else cwd)
                in Some (Inr (syscall_path_normalize (dst @ take (nat n) tmp))))"

section \<open>Permissions\<close>

text \<open>The answers of \<open>vfs_stat\<close> and \<open>vfs_lstat\<close>, which the checks receive as functions.\<close>

record vstat =
  st_mode :: u32
  st_uid :: u32
  st_gid :: u32

definition perm_check :: "u32 \<Rightarrow> u32 \<Rightarrow> u32 \<Rightarrow> u32 \<Rightarrow> u32 \<Rightarrow> u32 \<Rightarrow> bool" where
  "perm_check mode fuid fgid uid gid want =
    (if uid = 0 then True
     else let m = mode AND 0x1FF in
       if m = 0 then True
       else
         let allowed = (if uid = fuid then drop_bit 6 m AND 7
                        else if gid = fgid then drop_bit 3 m AND 7 else m AND 7)
         in allowed AND want = want)"

definition syscall_perm_file ::
  "(string \<Rightarrow> vstat option) \<Rightarrow> caller option \<Rightarrow> string \<Rightarrow> u32 \<Rightarrow> unit result" where
  "syscall_perm_file vfs_stat cur kpath want =
    (case cur of
       None \<Rightarrow> Inr ()
     | Some t \<Rightarrow>
         if c_uid t = 0 then Inr ()
         else case vfs_stat kpath of
           None \<Rightarrow> Inl ENOENT
         | Some st \<Rightarrow>
             if perm_check (st_mode st) (st_uid st) (st_gid st) (c_uid t) (c_gid t) want
             then Inr () else Inl EACCES)"

text \<open>The directory part of a path, as both checks cut it out of their copy.\<close>

definition parent_of :: "string \<Rightarrow> string" where
  "parent_of kpath =
    (let p = take 511 kpath;
         up = rev (dropWhile (\<lambda>c. c \<noteq> slash) (rev p))
     in if up = [] then [slash] else if length up = 1 then take 1 p else butlast up)"

definition syscall_perm_parent ::
  "(string \<Rightarrow> vstat option) \<Rightarrow> caller option \<Rightarrow> string \<Rightarrow> u32 \<Rightarrow> unit result" where
  "syscall_perm_parent vfs_stat cur kpath want =
    (case cur of
       None \<Rightarrow> Inr ()
     | Some t \<Rightarrow>
         if c_uid t = 0 then Inr ()
         else case vfs_stat (parent_of kpath) of
           None \<Rightarrow> Inl EACCES
         | Some st \<Rightarrow>
             if perm_check (st_mode st) (st_uid st) (st_gid st) (c_uid t) (c_gid t) want
             then Inr () else Inl EACCES)"

definition syscall_perm_sticky ::
  "(string \<Rightarrow> vstat option) \<Rightarrow> (string \<Rightarrow> vstat option) \<Rightarrow> caller option \<Rightarrow> string \<Rightarrow> unit result" where
  "syscall_perm_sticky vfs_stat vfs_lstat cur kpath =
    (case cur of
       None \<Rightarrow> Inr ()
     | Some t \<Rightarrow>
         if c_uid t = 0 then Inr ()
         else case vfs_stat (parent_of kpath) of
           None \<Rightarrow> Inr ()
         | Some dir \<Rightarrow>
             if st_mode dir AND 0x200 = 0 then Inr ()
             else case vfs_lstat kpath of
               None \<Rightarrow> Inr ()
             | Some file \<Rightarrow>
                 if st_uid file = c_uid t \<or> st_uid dir = c_uid t then Inr () else Inl EPERM)"

section \<open>Bounce buffers\<close>

definition SYSCALL_BOUNCE_MAX :: nat where
  "SYSCALL_BOUNCE_MAX = 256 * 1024"

text \<open>
  \<open>kmalloc\<close> answers whether an allocation of the size succeeds; the result is the capacity and
  whether the buffer is the caller's own.
\<close>

fun bounce_loop :: "(nat \<Rightarrow> bool) \<Rightarrow> nat \<Rightarrow> nat \<Rightarrow> nat \<times> bool" where
  "bounce_loop kmalloc stack_cap sz =
    (if sz > stack_cap then if kmalloc sz then (sz, False) else bounce_loop kmalloc stack_cap (sz div 4)
     else (stack_cap, True))"

declare bounce_loop.simps [simp del]

definition syscall_bounce_get :: "(nat \<Rightarrow> bool) \<Rightarrow> nat \<Rightarrow> nat \<Rightarrow> nat \<times> bool" where
  "syscall_bounce_get kmalloc want stack_cap = bounce_loop kmalloc stack_cap (min want SYSCALL_BOUNCE_MAX)"

end
