(* ===== verification/Uaccess_Props.thy ===== *)
theory Uaccess_Props
  imports Uaccess
begin

text \<open>What the user-access helpers guarantee.\<close>

section \<open>Ranges\<close>

text \<open>A byte a user task may read, or write, through its own page tables.\<close>

definition user_byte :: "caller option \<Rightarrow> pmm_state \<Rightarrow> bool \<Rightarrow> u64 \<Rightarrow> bool" where
  "user_byte cur st wr a \<longleftrightarrow>
    (case cur of
       None \<Rightarrow> True
     | Some t \<Rightarrow> map_addr (c_pagemap t) = 0 \<or> \<not> c_userspace t \<or>
         (\<exists>f. vmm_virt_flags (c_pagemap t) a st = Some f \<and> has f VMM_USER \<and> (wr \<longrightarrow> has f VMM_WRITE)))"

definition user_range :: "caller option \<Rightarrow> pmm_state \<Rightarrow> u64 \<Rightarrow> u64 \<Rightarrow> bool \<Rightarrow> bool" where
  "user_range cur st addr len wr \<longleftrightarrow>
    0x1000 \<le> unat addr \<and> unat addr < 2 ^ 47 \<and> unat addr + unat len \<le> 2 ^ 47 \<and>
    (\<forall>k < unat len. user_byte cur st wr (addr + of_nat k))"

lemma drop_bit_page: "12 \<le> n \<Longrightarrow> drop_bit n (a AND NOT 0xFFF) = drop_bit n (a :: u64)"
proof -
  assume n: "12 \<le> n"
  have "(0xFFF :: u64) = mask 12" by (simp add: mask_eq_exp_minus_1)
  then show ?thesis using n by (auto simp: bit_eq_iff bit_simps dest: bit_imp_le_length)
qed

lemma virt_flags_page: "vmm_virt_flags pm (a AND NOT 0xFFF) st = vmm_virt_flags pm a st"
proof -
  have "pml4_i (a AND NOT 0xFFF) = pml4_i a" "pdpt_i (a AND NOT 0xFFF) = pdpt_i a"
    "pd_i (a AND NOT 0xFFF) = pd_i a" "pt_i (a AND NOT 0xFFF) = pt_i a"
    unfolding pml4_i_def pdpt_i_def pd_i_def pt_i_def by (subst drop_bit_page; simp)+
  then show ?thesis unfolding vmm_virt_flags_def by (simp only:)
qed

lemma user_byte_page: "user_byte cur st wr (a AND NOT 0xFFF) = user_byte cur st wr a"
  unfolding user_byte_def virt_flags_page ..

lemma unat_page: "unat (a AND NOT 0xFFF) = unat (a :: u64) div 4096 * 4096"
  using unat_page_floor [of a] by (simp add: PAGE_SIZE_def)

lemma user_byte_same_page:
  "unat a div 4096 = unat b div 4096 \<Longrightarrow> user_byte cur st wr a = user_byte cur st wr b"
proof -
  assume "unat a div 4096 = unat b div 4096"
  then have "a AND NOT 0xFFF = b AND NOT 0xFFF" by (simp only: word_unat_eq_iff unat_page)
  then show ?thesis by (metis user_byte_page)
qed

text \<open>The page loop returns and has tested every page of the range.\<close>

definition flags_ok :: "vmm_pagemap \<Rightarrow> bool \<Rightarrow> pmm_state \<Rightarrow> u64 \<Rightarrow> bool" where
  "flags_ok pm wr st a \<longleftrightarrow> (\<exists>f. vmm_virt_flags pm a st = Some f \<and> has f VMM_USER \<and> (wr \<longrightarrow> has f VMM_WRITE))"

lemma page_loop_step:
  "page_loop pm wr st p e = (if \<not> p \<le> e then Some True else if flags_ok pm wr st p then page_loop pm wr st (p + 0x1000) e else Some False)"
  by (subst page_loop.simps) (auto simp: flags_ok_def split: option.splits)

lemma page_loop_returns:
  assumes "unat e < 2 ^ 48" and "unat p < 2 ^ 48"
  shows "page_loop pm wr st p e = Some (\<forall>i. unat p + 4096 * i \<le> unat e \<longrightarrow> flags_ok pm wr st (p + 0x1000 * of_nat i))"
  using assms(2)
proof (induction "unat e + 4096 - unat p" arbitrary: p rule: less_induct)
  case less
  show ?case
  proof (cases "p \<le> e \<and> flags_ok pm wr st p")
    case False
    have "page_loop pm wr st p e = Some (\<not> p \<le> e)" using False by (auto simp: page_loop_step [of pm wr st p e])
    moreover have "(\<forall>i. unat p + 4096 * i \<le> unat e \<longrightarrow> flags_ok pm wr st (p + 0x1000 * of_nat i)) \<longleftrightarrow> \<not> p \<le> e"
      using False by (auto simp: word_le_nat_alt dest: spec [of _ 0])
    ultimately show ?thesis by simp
  next
    case True
    then have le: "unat p \<le> unat e" by (simp add: word_le_nat_alt)
    have up: "unat (p + 0x1000) = unat p + 4096" using less.prems assms(1)
      by (subst unat_add_lt) (simp_all)
    have eq: "page_loop pm wr st p e = page_loop pm wr st (p + 0x1000) e" using True by (subst page_loop_step) simp
    have shift: "(\<forall>i. unat p + 4096 * i \<le> unat e \<longrightarrow> flags_ok pm wr st (p + 0x1000 * of_nat i)) \<longleftrightarrow>
        (\<forall>i. unat (p + 0x1000) + 4096 * i \<le> unat e \<longrightarrow> flags_ok pm wr st (p + 0x1000 + 0x1000 * of_nat i))"
      (is "(\<forall>i. ?P i) \<longleftrightarrow> (\<forall>i. ?Q i)")
    proof -
      have "?Q i = ?P (Suc i)" for i by (simp add: up algebra_simps)
      moreover have "?P 0" using True by simp
      ultimately show ?thesis by (metis not0_implies_Suc)
    qed
    show ?thesis
    proof (cases "unat p + 4096 < 2 ^ 48")
      case True
      have "page_loop pm wr st (p + 0x1000) e = Some (\<forall>i. unat (p + 0x1000) + 4096 * i \<le> unat e \<longrightarrow> flags_ok pm wr st (p + 0x1000 + 0x1000 * of_nat i))"
        using True le up by (intro less.hyps) auto
      then show ?thesis unfolding eq shift .
    next
      case False
      with le assms(1) up have "\<not> p + 0x1000 \<le> e" by (simp add: word_le_nat_alt)
      then have "page_loop pm wr st (p + 0x1000) e = Some True" by (subst page_loop_step) simp
      moreover have "\<forall>i. \<not> unat (p + 0x1000) + 4096 * i \<le> unat e" using False up assms(1) by simp
      ultimately show ?thesis unfolding eq shift by simp
    qed
  qed
qed

lemma page_range_bytes:
  assumes r: "unat addr + unat len \<le> 2 ^ 47" and len: "len \<noteq> 0"
    and page: "\<And>a b. unat a div 4096 = unat b div 4096 \<Longrightarrow> P a = P (b :: u64)"
  shows "(\<forall>i. unat (addr AND NOT 0xFFF) + 4096 * i \<le> unat ((addr + len - 1) AND NOT 0xFFF) \<longrightarrow>
      P ((addr AND NOT 0xFFF) + 0x1000 * of_nat i)) \<longleftrightarrow> (\<forall>k < unat len. P (addr + of_nat k))"
    (is "_ \<longleftrightarrow> ?R")
proof -
  define sp where "sp = addr AND NOT 0xFFF"
  define ep where "ep = (addr + len - 1) AND NOT 0xFFF"
  let ?a = "unat addr" and ?n = "unat len"
  have n: "0 < ?n" using len by (simp add: unat_gt_0)
  have at: "unat (addr + of_nat k) = ?a + k" if "k < ?n" for k
    using that r by (simp add: unat_add_lt unat_of_nat)
  have "addr + len - 1 = addr + of_nat (?n - 1)" using n by (simp add: of_nat_diff)
  with at [of "?n - 1"] n have last: "unat (addr + len - 1) = ?a + ?n - 1" by (simp only:)
  have SE: "unat sp = ?a div 4096 * 4096" "unat ep = (?a + ?n - 1) div 4096 * 4096"
    unfolding sp_def ep_def by (simp_all only: unat_page last)
  have pg: "unat (sp + 0x1000 * of_nat i) = (?a div 4096 + i) * 4096" if "unat sp + 4096 * i \<le> unat ep" for i
  proof -
    have "4096 * i \<le> ?a + ?n" using that SE by linarith
    then have "unat (0x1000 * of_nat i :: u64) = 4096 * i" using r by (simp add: unat_word_ariths unat_of_nat)
    then show ?thesis using that r SE by (subst unat_add_lt) simp_all
  qed
  have "(\<forall>i. unat sp + 4096 * i \<le> unat ep \<longrightarrow> P (sp + 0x1000 * of_nat i)) \<longleftrightarrow> ?R"
  proof
    assume L: "\<forall>i. unat sp + 4096 * i \<le> unat ep \<longrightarrow> P (sp + 0x1000 * of_nat i)"
    show ?R
    proof (intro allI impI)
      fix k assume k: "k < ?n"
      let ?i = "(?a + k) div 4096 - ?a div 4096"
      have i: "?a div 4096 + ?i = (?a + k) div 4096" by (simp add: div_le_mono)
      have "(?a + k) div 4096 \<le> (?a + ?n - 1) div 4096" using k by (intro div_le_mono) simp
      with i SE have le: "unat sp + 4096 * ?i \<le> unat ep" by (simp add: algebra_simps)
      from L le have "P (sp + 0x1000 * of_nat ?i)" by blast
      moreover have "unat (sp + 0x1000 * of_nat ?i) div 4096 = unat (addr + of_nat k) div 4096"
        by (simp only: pg [OF le] at [OF k] i)
      ultimately show "P (addr + of_nat k)" using page by blast
    qed
  next
    assume R: ?R
    show "\<forall>i. unat sp + 4096 * i \<le> unat ep \<longrightarrow> P (sp + 0x1000 * of_nat i)"
    proof (intro allI impI)
      fix i assume le: "unat sp + 4096 * i \<le> unat ep"
      let ?k = "(?a div 4096 + i) * 4096 - ?a"
      have "?k < ?n" "(?a + ?k) div 4096 = ?a div 4096 + i" using le SE n by (cases i; simp; linarith)+
      then show "P (sp + 0x1000 * of_nat i)" using R page [of "sp + 0x1000 * of_nat i" "addr + of_nat ?k"]
        by (simp add: pg [OF le] at)
    qed
  qed
  then show ?thesis unfolding sp_def ep_def .
qed

text \<open>The validation always returns and decides exactly whether every byte of the range is accessible.\<close>

lemma uptr_range_ok_exact: "uptr_range_ok cur st addr len wr = Some (user_range cur st addr len wr)"
proof -
  define r where "r \<longleftrightarrow> 0x1000 \<le> unat addr \<and> unat addr < 2 ^ 47 \<and> unat addr + unat len \<le> 2 ^ 47"
  show ?thesis
  proof (cases r)
    case False
    have "uptr_range_ok cur st addr len wr = Some False"
    proof -
      have "unat (addr + len) = unat addr + unat len" if "unat len \<le> 2 ^ 47" "unat addr < 2 ^ 47"
        using that by (intro unat_add_lt) simp
      then show ?thesis using False
        by (auto simp: uptr_range_ok_def r_def word_less_nat_alt word_le_nat_alt)
    qed
    then show ?thesis using False by (auto simp: user_range_def r_def)
  next
    case True
    then have sum: "unat (addr + len) = unat addr + unat len" by (intro unat_add_lt) (simp add: r_def)
    have "addr + len \<noteq> 0" using sum True by (auto simp: r_def)
    then have last: "unat (addr + len - 1) = unat addr + unat len - 1" using sum by (simp add: unat_minus_one)
    have "\<not> addr + len - 1 < addr" if "len \<noteq> 0"
      using that last unat_gt_0 [of len] by (simp add: word_less_nat_alt)
    with True sum have guards: "\<not> addr < 0x1000" "\<not> addr \<ge> 0x0000800000000000" "\<not> len > 0x0000800000000000"
      "\<not> (len \<noteq> 0 \<and> addr + len - 1 < addr)" "\<not> addr + len > 0x0000800000000000"
      by (auto simp: r_def word_less_nat_alt word_le_nat_alt)
    show ?thesis
    proof (cases "len = 0")
      case True
      then show ?thesis using guards \<open>r\<close> by (simp add: uptr_range_ok_def user_range_def r_def)
    next
      case len: False
      have loop: "page_loop pm wr st (addr AND NOT 0xFFF) ((addr + len - 1) AND NOT 0xFFF) =
          Some (\<forall>k < unat len. flags_ok pm wr st (addr + of_nat k))" for pm
      proof -
        have small: "unat ((addr + len - 1) AND NOT 0xFFF) < 2 ^ 48" "unat (addr AND NOT 0xFFF) < 2 ^ 48"
          using \<open>r\<close> last unfolding unat_page r_def by (auto intro: le_less_trans [OF div_times_less_eq_dividend])
        have page: "flags_ok pm wr st a = flags_ok pm wr st b" if "unat a div 4096 = unat b div 4096" for a b
          using user_byte_same_page [OF that, of "Some \<lparr>c_pagemap = pm, c_userspace = True, c_uid = 0, c_gid = 0, c_cwd = []\<rparr>" st wr]
          by (cases "map_addr pm = 0") (auto simp: user_byte_def flags_ok_def vmm_virt_flags_def)
        show ?thesis unfolding page_loop_returns [OF small]
          using page_range_bytes [of addr len "flags_ok pm wr st", OF _ len page] \<open>r\<close> by (simp add: r_def)
      qed
      show ?thesis using guards len \<open>r\<close> unfolding uptr_range_ok_def loop
        by (auto simp: user_range_def r_def user_byte_def flags_ok_def split: option.splits)
    qed
  qed
qed

lemmas uptr_exact = uptr_range_ok_exact syscall_uptr_validate_def syscall_uptr_validate_write_def


section \<open>Strings\<close>

abbreviation readable :: "caller option \<Rightarrow> pmm_state \<Rightarrow> u64 \<Rightarrow> bool" where
  "readable cur st a \<equiv> user_range cur st a 1 False"

lemma readable_next:
  assumes "readable cur st a" and "(a + 1) AND 0xFFF \<noteq> 0"
  shows "readable cur st (a + 1)"
proof -
  have a: "0x1000 \<le> unat a" "unat a < 2 ^ 47" "user_byte cur st False a"
    using assms(1) by (auto simp: user_range_def)
  have up: "unat (a + 1) = unat a + 1" using a(2) by (subst unat_add_lt) simp_all
  have "(0xFFF :: u64) = mask 12" by (simp add: mask_eq_exp_minus_1)
  then have "unat ((a + 1) AND 0xFFF) = (unat a + 1) mod 4096"
    by (simp only: take_bit_eq_mask [symmetric] unsigned_take_bit_eq up) (simp add: take_bit_eq_mod)
  with assms(2) have ne: "(unat a + 1) mod 4096 \<noteq> 0" by (metis unat_eq_zero)
  then have "unat (a + 1) div 4096 = unat a div 4096" unfolding up by (metis div_Suc Suc_eq_plus1)
  then have "user_byte cur st False (a + 1)" using user_byte_same_page a(3) by blast
  moreover have "unat a + 2 \<le> 2 ^ 47"
  proof (rule ccontr)
    assume "\<not> unat a + 2 \<le> 2 ^ 47"
    with a(2) have "unat a + 1 = 2 ^ 47" by simp
    with ne show False by simp
  qed
  ultimately show ?thesis using a up by (simp add: user_range_def)
qed

text \<open>
  The loop is entered at index \<open>i\<close> with the previous byte readable, so the byte at \<open>i\<close> is checked
  before it is read whenever a new page starts there.
\<close>

lemma strncpy_loop_step:
  assumes "i = 0 \<or> readable cur st (src + of_nat i - 1)"
  shows "strncpy_loop cur st um src maxlen i (Suc n) dst =
    (if readable cur st (src + of_nat i) then
       if um (src + of_nat i) = NUL then Some (Inr (to_int32 (of_nat i)), dst[i := NUL])
       else strncpy_loop cur st um src maxlen (Suc i) n (dst[i := um (src + of_nat i)])
     else Some (Inl EFAULT, dst))"
proof -
  have "readable cur st (src + of_nat i)" if "\<not> (i = 0 \<or> (src + of_nat i) AND 0xFFF = 0)"
    using readable_next [of cur st "src + of_nat i - 1"] assms that by simp
  then show ?thesis by (auto simp: uptr_exact Let_def)
qed

lemma strncpy_loop_cong:
  assumes "i = 0 \<or> readable cur st (src + of_nat i - 1)"
    and "\<And>a. readable cur st a \<Longrightarrow> um a = um' a"
  shows "strncpy_loop cur st um src maxlen i n dst = strncpy_loop cur st um' src maxlen i n dst"
  using assms(1)
proof (induction n arbitrary: i dst)
  case (Suc n)
  show ?case unfolding strncpy_loop_step [OF Suc.prems] using assms(2) Suc.IH [of "Suc i"]
    by (auto simp: algebra_simps)
qed simp

text \<open>The copy of a string that ends within the buffer.\<close>

lemma strncpy_loop_string:
  assumes "i = 0 \<or> readable cur st (src + of_nat i - 1)"
    and "\<forall>k \<le> l. i \<le> k \<longrightarrow> readable cur st (src + of_nat k)"
    and "\<forall>k < l. um (src + of_nat k) \<noteq> NUL" and "um (src + of_nat l) = NUL"
    and "i \<le> l" and "l < i + n" and "l < length dst" and "take i dst = mem_chars um src i"
  shows "\<exists>d. strncpy_loop cur st um src maxlen i n dst = Some (Inr (to_int32 (of_nat l)), d) \<and>
    length d = length dst \<and> take (Suc l) d = mem_chars um src l @ [NUL]"
  using assms(1,2,5-)
proof (induction n arbitrary: i dst)
  case (Suc n)
  have r: "readable cur st (src + of_nat i)" using Suc.prems(2,3) by simp
  show ?case
  proof (cases "i = l")
    case True
    then show ?thesis unfolding strncpy_loop_step [OF Suc.prems(1)] using r assms(4) Suc.prems(5,6)
      by (simp add: take_Suc_conv_app_nth)
  next
    case False
    with Suc.prems(3) have il: "i < l" by simp
    let ?d = "dst[i := um (src + of_nat i)]"
    have "strncpy_loop cur st um src maxlen i (Suc n) dst = strncpy_loop cur st um src maxlen (Suc i) n ?d"
      unfolding strncpy_loop_step [OF Suc.prems(1)] using r assms(3) il by simp
    moreover have "take (Suc i) ?d = mem_chars um src (Suc i)"
      using Suc.prems(5,6) il by (simp add: take_Suc_conv_app_nth mem_chars_def)
    ultimately show ?thesis using Suc.IH [of "Suc i" ?d] Suc.prems r il by (simp add: algebra_simps)
  qed
qed simp

lemma to_int32_of_nat: "l < 2 ^ 31 \<Longrightarrow> to_int32 (of_nat l) = int l"
  by (simp add: to_int32_def sint_uint unsigned_ucast_eq uint_nat unat_of_nat take_bit_int_eq_self
      signed_take_bit_int_eq_self take_bit_nat_eq_self)

text \<open>C8: Copying a user string never depends on memory the user cannot read itself: two memories
  that agree on the bytes the caller may read give the same outcome. A string whose bytes are all
  readable and which ends within the buffer is copied completely with its terminating zero.\<close>

theorem strncpy_from_user_confined:
  assumes "\<And>a. readable cur st a \<Longrightarrow> um a = um' a"
  shows "syscall_strncpy_from_user cur st um dst src maxlen = syscall_strncpy_from_user cur st um' dst src maxlen \<and>
    ((\<forall>k \<le> l. readable cur st (src + of_nat k)) \<longrightarrow> (\<forall>k < l. um (src + of_nat k) \<noteq> NUL) \<longrightarrow>
       um (src + of_nat l) = NUL \<longrightarrow> Suc l < maxlen \<longrightarrow> maxlen < 2 ^ 31 \<longrightarrow> length dst = maxlen \<longrightarrow>
       (\<exists>d. syscall_strncpy_from_user cur st um dst src maxlen = Some (Inr (int l), d) \<and>
          take (Suc l) d = mem_chars um src l @ [NUL]))"
proof -
  have c: "strncpy_loop cur st um src maxlen 0 n dst = strncpy_loop cur st um' src maxlen 0 n dst" for n
    by (rule strncpy_loop_cong) (use assms in auto)
  have eq: "syscall_strncpy_from_user cur st um dst src maxlen = syscall_strncpy_from_user cur st um' dst src maxlen"
    unfolding syscall_strncpy_from_user_def c ..
  have "\<exists>d. syscall_strncpy_from_user cur st um dst src maxlen = Some (Inr (int l), d) \<and>
      take (Suc l) d = mem_chars um src l @ [NUL]"
    if r: "\<forall>k \<le> l. readable cur st (src + of_nat k)" and ne: "\<forall>k < l. um (src + of_nat k) \<noteq> NUL"
      and z: "um (src + of_nat l) = NUL" and l: "Suc l < maxlen" "maxlen < 2 ^ 31" "length dst = maxlen"
  proof -
    have i: "to_int32 (of_nat l) = int l" using l by (simp add: to_int32_of_nat)
    have "readable cur st src" using r by (auto dest: spec [of _ 0])
    moreover have "l < 0 + (maxlen - 1)" using l(1) by simp
    ultimately show ?thesis using strncpy_loop_string [of 0 cur st src l um "maxlen - 1" dst maxlen] r ne z l
      by (auto simp: syscall_strncpy_from_user_def uptr_exact mem_chars_def i)
  qed
  with eq show ?thesis by blast
qed

section \<open>Paths\<close>

text \<open>
  The reference: the components of a path are what stands between its slashes, without the empty
  ones; they are walked from the root, a dot staying and two dots leaving the last directory; the
  canonical path prints the directories reached, each behind a slash.
\<close>

fun split_slash :: "string \<Rightarrow> string list" where
  "split_slash [] = [[]]"
| "split_slash (c # cs) = (if c = slash then [] # split_slash cs else (c # hd (split_slash cs)) # tl (split_slash cs))"

definition comps :: "string \<Rightarrow> string list" where
  "comps path = filter (\<lambda>seg. seg \<noteq> []) (split_slash path)"

definition walk_step :: "string list \<Rightarrow> string \<Rightarrow> string list" where
  "walk_step dirs seg = (if seg = ''.'' then dirs else if seg = ''..'' then butlast dirs else dirs @ [seg])"

definition walk_from :: "string list \<Rightarrow> string \<Rightarrow> string list" where
  "walk_from dirs path = foldl walk_step dirs (comps path)"

definition render :: "string list \<Rightarrow> string" where
  "render dirs = (if dirs = [] then [slash] else concat (map ((#) slash) dirs))"

definition segment :: "string \<Rightarrow> bool" where
  "segment seg \<longleftrightarrow> seg \<noteq> [] \<and> slash \<notin> set seg"

lemma split_slash_noslash: "slash \<notin> set s \<Longrightarrow> split_slash s = [s]"
  by (induction s) auto

lemma split_slash_append: "slash \<notin> set s \<Longrightarrow> split_slash (s @ slash # r) = s # split_slash r"
  by (induction s) auto

lemma comps_slash [simp]: "comps (slash # p) = comps p"
  by (simp add: comps_def)

lemma comps_Nil [simp]: "comps [] = []"
  by (simp add: comps_def)

lemma comps_seg: "slash \<notin> set s \<Longrightarrow> s \<noteq> [] \<Longrightarrow> comps (s @ slash # r) = s # comps r" "slash \<notin> set s \<Longrightarrow> s \<noteq> [] \<Longrightarrow> comps s = [s]"
  by (simp_all add: comps_def split_slash_append split_slash_noslash)

lemma split_slash_ne [simp]: "split_slash p \<noteq> []"
  by (cases p) auto



lemma comps_scan:
  "comps path = (let p = dropWhile (\<lambda>c. c = slash) path in
     if p = [] then [] else takeWhile (\<lambda>c. c \<noteq> slash) p # comps (dropWhile (\<lambda>c. c \<noteq> slash) p))"
proof (induction path)
  case (Cons c path)
  show ?case
  proof (cases "c = slash")
    case False
    let ?s = "takeWhile (\<lambda>c. c \<noteq> slash) (c # path)" and ?r = "dropWhile (\<lambda>c. c \<noteq> slash) (c # path)"
    have s: "slash \<notin> set ?s" "?s \<noteq> []" using False by (auto dest: set_takeWhileD)
    have "comps (?s @ ?r) = ?s # comps ?r"
    proof (cases ?r)
      case Nil
      then show ?thesis using comps_seg(2) [OF s] by simp
    next
      case (Cons d r)
      then have "d = slash" using hd_dropWhile [of "\<lambda>c. c \<noteq> slash" "c # path"] by simp
      with Cons show ?thesis using comps_seg(1) [OF s, of r] by simp
    qed
    with False show ?thesis by simp
  qed (use Cons in simp)
qed simp

lemma split_slash_free: "seg \<in> set (split_slash path) \<Longrightarrow> slash \<notin> set seg"
proof (induction path arbitrary: seg)
  case (Cons c path)
  have "slash \<notin> set (hd (split_slash path))" using Cons.IH by simp
  with Cons show ?case by (auto split: if_splits dest: list.set_sel(2) [rotated])
qed simp

lemma comps_segment: "seg \<in> set (comps path) \<Longrightarrow> segment seg"
  using split_slash_free by (auto simp: comps_def segment_def)

abbreviation dir_names :: "string list \<Rightarrow> bool" where
  "dir_names dirs \<equiv> \<forall>s \<in> set dirs. segment s \<and> s \<noteq> ''.'' \<and> s \<noteq> ''..''"

lemma fold_walk_names: "dir_names dirs \<Longrightarrow> \<forall>s \<in> set segs. segment s \<Longrightarrow> dir_names (foldl walk_step dirs segs)"
proof (induction segs arbitrary: dirs)
  case (Cons seg segs)
  have "dir_names (walk_step dirs seg)"
    using Cons.prems in_set_butlastD [of _ dirs] by (simp add: walk_step_def)
  moreover have "\<forall>s \<in> set segs. segment s" using Cons.prems(2) by simp
  ultimately show ?case unfolding foldl_Cons by (rule Cons.IH)
qed (simp only: foldl_Nil)

lemma walk_from_names: "dir_names dirs \<Longrightarrow> dir_names (walk_from dirs path)"
  unfolding walk_from_def by (rule fold_walk_names) (assumption, blast intro: comps_segment)

lemma comps_concat: "\<forall>s \<in> set dirs. segment s \<Longrightarrow> comps (concat (map ((#) slash) dirs)) = dirs"
proof (induction dirs)
  case (Cons s dirs)
  have s: "slash \<notin> set s" "s \<noteq> []" using Cons.prems by (auto simp: segment_def)
  show ?case
  proof (cases dirs)
    case Nil
    then show ?thesis using comps_seg(2) [OF s] by simp
  next
    case (Cons s' dirs')
    then show ?thesis using comps_seg(1) [OF s] Cons.IH Cons.prems by simp
  qed
qed simp

lemma comps_render: "\<forall>s \<in> set dirs. segment s \<Longrightarrow> comps (render dirs) = dirs"
  using comps_concat [of dirs] by (simp add: render_def)

text \<open>Leaving the last directory of a printed path.\<close>

lemma back_to_slash: "slash \<notin> set t \<Longrightarrow> back_to (xs @ slash # t) = xs @ [slash]"
proof (induction t rule: rev_induct)
  case Nil
  show ?case by (subst back_to.simps) simp
next
  case (snoc c t)
  then have "back_to (xs @ slash # t @ [c]) = back_to (xs @ slash # t)"
    by (subst back_to.simps) (auto simp: butlast_append)
  with snoc show ?case by simp
qed

lemma norm_up_render:
  assumes "\<forall>s \<in> set dirs. segment s"
  shows "norm_up (render dirs) = render (butlast dirs)"
proof (cases dirs rule: rev_cases)
  case Nil
  then show ?thesis by (simp add: render_def norm_up_def)
next
  case (snoc ss s)
  let ?x = "concat (map ((#) slash) ss)"
  have s: "s \<noteq> []" "slash \<notin> set (butlast s)" using assms snoc by (auto simp: segment_def dest: in_set_butlastD)
  have r: "render dirs = ?x @ slash # s" using snoc by (simp add: render_def)
  then have "back_to (butlast (render dirs)) = ?x @ [slash]" using s back_to_slash [of "butlast s" ?x] by (simp add: butlast_append)
  then show ?thesis using s snoc r by (cases ss) (simp_all add: norm_up_def render_def Let_def butlast_append)
qed

lemma norm_seg_render:
  assumes "\<forall>s \<in> set dirs. segment s" and "segment seg"
    and "length (render dirs) + (if dirs = [] then 0 else 1) + length seg \<le> 511"
  shows "norm_seg seg (render dirs) = Some (render (walk_step dirs seg))"
proof (cases dirs rule: rev_cases)
  case Nil
  with assms show ?thesis by (auto simp: norm_seg_def render_def walk_step_def norm_up_def)
next
  case (snoc ss s)
  then have "segment s" using assms(1) by simp
  then have "slash \<notin> set s" "s \<noteq> []" by (auto simp: segment_def)
  then have "last s \<noteq> slash" using last_in_set [of s] by metis
  with snoc \<open>s \<noteq> []\<close> have "last (render dirs) \<noteq> slash" "render dirs \<noteq> []" by (simp_all add: render_def)
  moreover have "render (dirs @ [seg]) = render dirs @ slash # seg" using snoc by (simp add: render_def)
  ultimately show ?thesis using assms snoc norm_up_render [OF assms(1)]
    by (auto simp: norm_seg_def walk_step_def Let_def)
qed

lemma render_step_length:
  "length (render (walk_step dirs seg)) \<le> length (render dirs) + (if dirs = [] then 0 else 1) + length seg"
  by (cases dirs rule: rev_cases) (auto simp: walk_step_def render_def)

lemma norm_loop_render:
  assumes "\<forall>s \<in> set dirs. segment s" and "length (render dirs) + length path \<le> 511"
    and "dirs = [] \<or> path = [] \<or> hd path = slash"
  shows "norm_loop path (render dirs) = render (walk_from dirs path)"
  using assms
proof (induction path arbitrary: dirs rule: length_induct)
  case (1 path)
  let ?p = "dropWhile (\<lambda>c. c = slash) path"
  let ?seg = "takeWhile (\<lambda>c. c \<noteq> slash) ?p" and ?r = "dropWhile (\<lambda>c. c \<noteq> slash) ?p"
  show ?case
  proof (cases "?p = []")
    case True
    then show ?thesis using comps_scan [of path] by (subst norm_loop.simps) (simp add: walk_from_def)
  next
    case False
    then have hd: "hd ?p \<noteq> slash" using hd_dropWhile [of "\<lambda>c. c = slash" path] by simp
    have cs: "comps path = ?seg # comps ?r" using False comps_scan [of path] by (simp only: Let_def if_False)
    then have seg: "segment ?seg" using comps_segment [of ?seg path] by simp
    have "length (?seg @ ?r) = length ?p" by (simp only: takeWhile_dropWhile_id)
    then have len: "length ?p = length ?seg + length ?r" by (simp only: length_append)
    have pl: "length ?p + (if dirs = [] then 0 else 1) \<le> length path"
    proof (cases "dirs = []")
      case True
      then show ?thesis by (simp add: length_dropWhile_le)
    next
      case ne: False
      have "path \<noteq> []" using False by auto
      with ne 1(4) obtain q where "path = slash # q" by (cases path) auto
      then show ?thesis using ne by (simp add: length_dropWhile_le)
    qed
    have b: "length (render dirs) + (if dirs = [] then 0 else 1) + length ?seg + length ?r \<le> 511"
      using 1(3) pl len by linarith
    have step: "norm_seg ?seg (render dirs) = Some (render (walk_step dirs ?seg))"
      using b by (intro norm_seg_render [OF 1(2) seg]) simp
    have "norm_loop path (render dirs) = norm_loop ?r (render (walk_step dirs ?seg))"
      using False step by (subst norm_loop.simps) (simp only: Let_def if_False option.case)
    also have "\<dots> = render (walk_from (walk_step dirs ?seg) ?r)"
    proof -
      have "length ?r < length path" using seg len pl by (cases ?seg) (simp_all add: segment_def)
      moreover have "\<forall>s \<in> set (walk_step dirs ?seg). segment s"
        using 1(2) seg by (auto simp: walk_step_def dest: in_set_butlastD)
      moreover have "?r = [] \<or> hd ?r = slash" using hd_dropWhile [of "\<lambda>c. c \<noteq> slash" ?p] by auto
      moreover have "length (render (walk_step dirs ?seg)) + length ?r \<le> 511"
        using render_step_length [of dirs ?seg] b by linarith
      ultimately show ?thesis by (intro 1(1) [rule_format]) auto
    qed
    finally show ?thesis by (simp add: walk_from_def cs)
  qed
qed

lemma normalize_absolute:
  assumes "path = slash # p" and "length path \<le> 511"
  shows "syscall_path_normalize path = render (walk_from [] path)"
proof -
  have "norm_loop path [slash] = norm_loop p [slash]"
    unfolding assms(1) by (subst (1 2) norm_loop.simps) simp
  also have "\<dots> = render (walk_from [] p)"
    using norm_loop_render [of "[]" p] assms by (simp add: render_def)
  finally have b: "norm_loop path [slash] = render (walk_from [] path)" by (simp add: assms(1) walk_from_def)
  have "last (render dirs) \<noteq> slash \<or> length (render dirs) = 1" "render dirs \<noteq> []" if "dir_names dirs" for dirs
  proof (cases dirs rule: rev_cases)
    case (snoc ss s)
    with that have "slash \<notin> set s" "s \<noteq> []" by (auto simp: segment_def)
    then have "last s \<noteq> slash" using last_in_set [of s] by metis
    with snoc \<open>s \<noteq> []\<close> show "last (render dirs) \<noteq> slash \<or> length (render dirs) = 1" by (simp add: render_def)
  qed (auto simp: render_def)
  from this [OF walk_from_names, of "[]" path] show ?thesis
    using assms(1) b by (auto simp: syscall_path_normalize_def Let_def)
qed

text \<open>C9: Normalising an absolute path that fits the kernel's buffer gives the canonical path: the one
  that walking the components from the root reaches, where a dot stays and two dots leave the last
  directory but never the root. The components of the result are exactly the directories of that
  walk, and none of them is empty, a dot or two dots.\<close>

theorem path_normalize_canonical:
  assumes "path = slash # p" and "length path \<le> 511"
  shows "syscall_path_normalize path = render (walk_from [] path) \<and>
    comps (syscall_path_normalize path) = walk_from [] path \<and>
    (\<forall>seg \<in> set (comps (syscall_path_normalize path)). slash \<notin> set seg \<and> seg \<noteq> [] \<and> seg \<noteq> ''.'' \<and> seg \<noteq> ''..'')"
proof -
  have n: "dir_names (walk_from [] path)" by (rule walk_from_names) simp
  then have "comps (render (walk_from [] path)) = walk_from [] path" by (intro comps_render) blast
  with n normalize_absolute [OF assms] show ?thesis by (auto simp: segment_def)
qed





section \<open>Witnesses\<close>

text \<open>A kernel thread at work in \<open>/home\<close>, and a path string of four characters in its memory.\<close>

definition ua_caller :: "caller option" where
  "ua_caller = Some \<lparr>c_pagemap = \<lparr>map_addr = 0, pml4 = 0\<rparr>, c_userspace = False, c_uid = 7, c_gid = 7, c_cwd = ''/home''\<rparr>"

definition ua_mem :: "u64 \<Rightarrow> char" where
  "ua_mem = mem_write 0x2000 ''../y'' (\<lambda>_. NUL)"



theorem strncpy_from_user_confined_witness:
  "\<forall>st. (\<forall>a. readable ua_caller st a \<longrightarrow> ua_mem a = (ua_mem(0 := CHR ''x'')) a) \<and>
    syscall_strncpy_from_user ua_caller st ua_mem (replicate 512 NUL) 0x2000 512 =
    syscall_strncpy_from_user ua_caller st (ua_mem(0 := CHR ''x'')) (replicate 512 NUL) 0x2000 512"
proof (intro allI)
  fix st
  have agree: "ua_mem a = (ua_mem(0 := CHR ''x'')) a" if "readable ua_caller st a" for a
    using that by (auto simp: user_range_def)
  have "syscall_strncpy_from_user ua_caller st ua_mem (replicate 512 NUL) 0x2000 512 =
    syscall_strncpy_from_user ua_caller st (ua_mem(0 := CHR ''x'')) (replicate 512 NUL) 0x2000 512"
    by (rule strncpy_from_user_confined [THEN conjunct1]) (rule agree)
  with agree show "(\<forall>a. readable ua_caller st a \<longrightarrow> ua_mem a = (ua_mem(0 := CHR ''x'')) a) \<and>
    syscall_strncpy_from_user ua_caller st ua_mem (replicate 512 NUL) 0x2000 512 =
    syscall_strncpy_from_user ua_caller st (ua_mem(0 := CHR ''x'')) (replicate 512 NUL) 0x2000 512"
    by blast
qed

theorem path_normalize_canonical_witness: "syscall_path_normalize ''/a/.././../b//c'' = ''/b/c''"
  using path_normalize_canonical [of "''/a/.././../b//c''" "''a/.././../b//c''"]
  by (simp add: render_def walk_from_def walk_step_def comps_def)


end
