(* ===== verification/Ring.thy ===== *)
theory Ring
  imports Cervus_Prelude
begin

text \<open>
  Ring buffers. The kernel's queues (pipes, signal descriptors) are arrays with a start and a fill
  level, advanced modulo the size of the array. \<open>ring\<close> reads such an array as the list of its queued
  elements; the locale \<open>fifo\<close> is the contract of one put and one get, from which the behaviour of the
  loops that fill and drain a queue follows.
\<close>

section \<open>The contents of a ring\<close>

definition ring :: "'a list \<Rightarrow> nat \<Rightarrow> nat \<Rightarrow> 'a list" where
  "ring xs h n = map (\<lambda>i. xs ! ((h + i) mod length xs)) [0 ..< n]"

lemma length_ring [simp]: "length (ring xs h n) = n"
  by (simp add: ring_def)

lemma ring_0 [simp]: "ring xs h 0 = []"
  by (simp add: ring_def)

text \<open>Storing behind the last element appends it.\<close>

lemma ring_put:
  assumes "n < length xs"
  shows "ring (xs[(h + n) mod length xs := x]) h (Suc n) = ring xs h n @ [x]"
proof (rule nth_equalityI)
  fix i assume "i < length (ring (xs[(h + n) mod length xs := x]) h (Suc n))"
  then have i: "i \<le> n" by simp
  have pos: "(h + n) mod length xs < length xs" using assms by (intro mod_less_divisor) linarith
  have "(h + i) mod length xs \<noteq> (h + n) mod length xs" if "i < n"
  proof
    assume "(h + i) mod length xs = (h + n) mod length xs"
    then have "length xs dvd (h + n) - (h + i)" using mod_eq_dvd_iff_nat [of "h + i" "h + n" "length xs"] that by simp
    then show False using that assms by (auto dest: dvd_imp_le)
  qed
  with i pos show "ring (xs[(h + n) mod length xs := x]) h (Suc n) ! i = (ring xs h n @ [x]) ! i"
    by (cases "i = n") (simp_all add: ring_def nth_append del: upt_Suc)
qed simp

text \<open>Reading the first element and advancing the start removes it.\<close>

lemma ring_get:
  "ring xs h (Suc n) = xs ! (h mod length xs) # ring xs ((h + 1) mod length xs) n"
proof (rule nth_equalityI)
  fix i assume i: "i < length (ring xs h (Suc n))"
  show "ring xs h (Suc n) ! i = (xs ! (h mod length xs) # ring xs ((h + 1) mod length xs) n) ! i"
  proof (cases i)
    case 0
    then show ?thesis by (simp add: ring_def del: upt_Suc)
  next
    case (Suc j)
    have "((h + 1) mod length xs + j) mod length xs = (h + Suc j) mod length xs"
      by (subst mod_add_left_eq) simp
    with Suc i show ?thesis by (simp add: ring_def del: upt_Suc)
  qed
qed simp

section \<open>The contract of a bounded queue\<close>

locale fifo =
  fixes contents :: "'s \<Rightarrow> 'a list" and cap :: nat and inv :: "'s \<Rightarrow> bool"
    and put :: "'a \<Rightarrow> 's \<Rightarrow> 's" and get :: "'s \<Rightarrow> 'a \<times> 's"
  assumes put_ok: "inv s \<Longrightarrow> length (contents s) < cap \<Longrightarrow>
      inv (put x s) \<and> contents (put x s) = contents s @ [x]"
    and get_ok: "inv s \<Longrightarrow> contents s \<noteq> [] \<Longrightarrow> get s = (x, s') \<Longrightarrow> inv s' \<and> contents s = x # contents s'"
begin

text \<open>The loop that stores while there is room, and the loop that takes at most \<open>n\<close> elements.\<close>

primrec fill :: "'a list \<Rightarrow> 's \<Rightarrow> 's" where
  "fill [] s = s"
| "fill (x # xs) s = (if length (contents s) < cap then fill xs (put x s) else s)"

primrec drain :: "nat \<Rightarrow> 's \<Rightarrow> 'a list \<times> 's" where
  "drain 0 s = ([], s)"
| "drain (Suc n) s =
    (if contents s = [] then ([], s) else let (x, s1) = get s; (xs, s2) = drain n s1 in (x # xs, s2))"

lemma fill_spec:
  assumes "inv s" and "length (contents s) \<le> cap"
  shows "inv (fill xs s) \<and> contents (fill xs s) = contents s @ take (cap - length (contents s)) xs"
  using assms
proof (induction xs arbitrary: s)
  case (Cons x xs)
  show ?case
  proof (cases "length (contents s) < cap")
    case True
    with put_ok [OF Cons.prems(1), of x] have p: "inv (put x s)" "contents (put x s) = contents s @ [x]" by auto
    have "cap - length (contents s) = Suc (cap - Suc (length (contents s)))" using True by simp
    with Cons.IH [OF p(1)] p True show ?thesis by simp
  next
    case False
    then show ?thesis using Cons.prems by simp
  qed
qed simp

lemma drain_spec:
  assumes "inv s" and "drain n s = (xs, s')"
  shows "inv s' \<and> contents s = xs @ contents s' \<and> length xs = min n (length (contents s))"
  using assms
proof (induction n arbitrary: s xs s')
  case (Suc n)
  show ?case
  proof (cases "contents s = []")
    case True
    with Suc.prems show ?thesis by simp
  next
    case False
    obtain x s1 where g: "get s = (x, s1)" by (cases "get s")
    obtain ys s2 where d: "drain n s1 = (ys, s2)" by (cases "drain n s1")
    from get_ok [OF Suc.prems(1) False g] have s1: "inv s1" "contents s = x # contents s1" by auto
    have "xs = x # ys" "s' = s2" using Suc.prems(2) False g d by auto
    moreover have "length (x # ys) = min (Suc n) (length (contents s))"
      using Suc.IH [OF s1(1) d] unfolding s1(2) by (simp only: list.size add_0_right Suc_eq_plus1 [symmetric] min_Suc_Suc)
    ultimately show ?thesis using Suc.IH [OF s1(1) d] unfolding s1(2) by (simp only: append_Cons)
  qed
qed simp

end

end
