(* ===== verification/Pipe.thy ===== *)
theory Pipe
  imports Sched Ring
begin

text \<open>
  Pipes, \<open>kernel/src/syscall/io/pipe.c\<close>: the shared buffer with its two reference counts and its two
  waiter slots, one locked pass of the read and of the write loop, the release of an end and the
  poll answer. Passes of different tasks interleave freely between their critical sections; what a
  pass does to other tasks goes through \<open>task_unblock\<close> of the scheduler.
\<close>

section \<open>State\<close>

definition PIPE_BUFSZ :: nat where
  "PIPE_BUFSZ = 4096"

record pipe_shared =
  p_buf :: "u8 list"
  p_head :: u32
  p_tail :: u32
  p_readers :: int
  p_writers :: int
  p_read_waiter :: "tptr option"
  p_write_waiter :: "tptr option"

definition pipe_init :: pipe_shared where
  "pipe_init = \<lparr>p_buf = replicate PIPE_BUFSZ 0, p_head = 0, p_tail = 0, p_readers = 1, p_writers = 1,
     p_read_waiter = None, p_write_waiter = None\<rparr>"

definition pipe_next :: "u32 \<Rightarrow> u32" where
  "pipe_next i = (i + 1) mod 4096"

text \<open>The bodies of the two copy loops.\<close>

definition pipe_put :: "u8 \<Rightarrow> pipe_shared \<Rightarrow> pipe_shared" where
  "pipe_put b p = p\<lparr>p_buf := (p_buf p)[unat (p_tail p) := b], p_tail := pipe_next (p_tail p)\<rparr>"

definition pipe_get :: "pipe_shared \<Rightarrow> u8 \<times> pipe_shared" where
  "pipe_get p = (p_buf p ! unat (p_head p), p\<lparr>p_head := pipe_next (p_head p)\<rparr>)"

text \<open>
  \<open>pipe_wake_other\<close> reads a slot, clears it and unblocks the task it held: the slot's new content and
  the scheduler after it.
\<close>

definition pipe_wake_other :: "tptr option \<Rightarrow> sched \<Rightarrow> tptr option \<times> sched" where
  "pipe_wake_other slot s = (case slot of None \<Rightarrow> (None, s) | Some w \<Rightarrow> (None, task_unblock (Some w) s))"

section \<open>Reading\<close>

text \<open>\<open>while (got < len && head != tail)\<close>, with \<open>n\<close> bytes wanted.\<close>

primrec pipe_drain :: "nat \<Rightarrow> pipe_shared \<Rightarrow> u8 list \<times> pipe_shared" where
  "pipe_drain 0 p = ([], p)"
| "pipe_drain (Suc n) p =
    (if p_head p = p_tail p then ([], p)
     else let (b, p1) = pipe_get p; (bs, p2) = pipe_drain n p1 in (b # bs, p2))"

text \<open>
  What one critical section of a blocking copy comes to: the call returns, the caller sleeps and
  tries again, or it goes round the loop with more bytes copied.
\<close>

datatype 'a turn = Return 'a | Sleep | Again "u8 list"

text \<open>
  One round of \<open>pipe_read_op\<close>, entered with \<open>got < len\<close> and the bytes copied so far. A caller without a
  task yields and retries instead of blocking.
\<close>

definition block_task :: "tptr option \<Rightarrow> sched \<Rightarrow> sched" where
  "block_task me s = (case me of None \<Rightarrow> s | Some t \<Rightarrow> upd t (\<lambda>k. k\<lparr>runnable := False, state := TASK_BLOCKED\<rparr>) s)"

definition killed :: "tptr option \<Rightarrow> sched \<Rightarrow> bool" where
  "killed me s = (case me of None \<Rightarrow> False | Some t \<Rightarrow> pending_kill (tasks s t))"

definition pipe_read_pass ::
  "tptr option \<Rightarrow> nat \<Rightarrow> u8 list \<Rightarrow> sched \<Rightarrow> pipe_shared \<Rightarrow> u8 list result turn \<times> sched \<times> pipe_shared" where
  "pipe_read_pass me len got s p =
    (if p_head p = p_tail p then
       if p_writers p = 0 \<or> got \<noteq> [] then (Return (Inr got), s, p)
       else if killed me s then (Return (Inl EINTR), s, p)
       else (Sleep, block_task me s, if me = None then p else p\<lparr>p_read_waiter := me\<rparr>)
     else
       let (bs, p1) = pipe_drain (len - length got) p;
           (slot, s1) = pipe_wake_other (p_write_waiter p1) s
       in (Again (got @ bs), s1, p1\<lparr>p_write_waiter := slot\<rparr>))"

section \<open>Writing\<close>

primrec pipe_fill :: "u8 list \<Rightarrow> pipe_shared \<Rightarrow> nat \<times> pipe_shared" where
  "pipe_fill [] p = (0, p)"
| "pipe_fill (b # bs) p =
    (if pipe_next (p_tail p) = p_head p then (0, p)
     else let (n, p1) = pipe_fill bs (pipe_put b p) in (Suc n, p1))"

text \<open>One round of \<open>pipe_write_op\<close> with the bytes already stored and those still to store.\<close>

definition pipe_write_pass ::
  "tptr option \<Rightarrow> u8 list \<Rightarrow> u8 list \<Rightarrow> sched \<Rightarrow> pipe_shared \<Rightarrow> nat result turn \<times> sched \<times> pipe_shared" where
  "pipe_write_pass me stored todo s p =
    (if p_readers p = 0 then (Return (if stored \<noteq> [] then Inr (length stored) else Inl EPIPE), s, p)
     else if pipe_next (p_tail p) = p_head p then
       if killed me s then (Return (if stored \<noteq> [] then Inr (length stored) else Inl EINTR), s, p)
       else (Sleep, block_task me s, if me = None then p else p\<lparr>p_write_waiter := me\<rparr>)
     else
       let (n, p1) = pipe_fill todo p;
           (slot, s1) = pipe_wake_other (p_read_waiter p1) s
       in (Again (stored @ take n todo), s1, p1\<lparr>p_read_waiter := slot\<rparr>))"

section \<open>Release and poll\<close>

text \<open>\<open>pipe_unref_op\<close> for an end (0 the reading one); the last result is whether the buffer is freed.\<close>

definition pipe_unref_op :: "nat \<Rightarrow> sched \<Rightarrow> pipe_shared \<Rightarrow> bool \<times> sched \<times> pipe_shared" where
  "pipe_unref_op side s p =
    (let p1 = (if side = 0 then p\<lparr>p_readers := p_readers p - 1\<rparr> else p\<lparr>p_writers := p_writers p - 1\<rparr>);
         (wslot, s1) = (if p_readers p1 = 0 then pipe_wake_other (p_write_waiter p1) s else (p_write_waiter p1, s));
         p2 = p1\<lparr>p_write_waiter := wslot\<rparr>;
         (rslot, s2) = (if p_writers p1 = 0 then pipe_wake_other (p_read_waiter p2) s1 else (p_read_waiter p2, s1));
         p3 = p2\<lparr>p_read_waiter := rslot\<rparr>
     in (p_readers p1 \<le> 0 \<and> p_writers p1 \<le> 0, s2, p3))"

definition POLLIN :: u32 where "POLLIN = 1"
definition POLLOUT :: u32 where "POLLOUT = 4"
definition POLLERR :: u32 where "POLLERR = 8"
definition POLLHUP :: u32 where "POLLHUP = 16"

definition pipe_poll_op :: "nat \<Rightarrow> pipe_shared \<Rightarrow> u32" where
  "pipe_poll_op side p =
    (if side = 0 then
       (if p_head p \<noteq> p_tail p then POLLIN else 0) OR (if p_writers p = 0 then POLLIN OR POLLHUP else 0)
     else
       (if pipe_next (p_tail p) \<noteq> p_head p then POLLOUT else 0) OR (if p_readers p = 0 then POLLERR else 0))"

end
