(* ===== verification/Pipe_Props.thy ===== *)
theory Pipe_Props
  imports Pipe
begin

text \<open>
  What pipes guarantee: the buffer is a bounded queue of bytes, every interleaving of readers and
  writers delivers the stream in order, and one reader and one writer never sleep while there is
  something for them to do. With two readers the second overwrites the first's waiter slot.
\<close>

section \<open>The buffer is a queue\<close>

definition pipe_inv :: "pipe_shared \<Rightarrow> bool" where
  "pipe_inv p \<longleftrightarrow> length (p_buf p) = 4096 \<and> unat (p_head p) < 4096 \<and> unat (p_tail p) < 4096"

definition pipe_bytes :: "pipe_shared \<Rightarrow> u8 list" where
  "pipe_bytes p = ring (p_buf p) (unat (p_head p)) ((unat (p_tail p) + 4096 - unat (p_head p)) mod 4096)"

lemma unat_pipe_next: "unat i < 4096 \<Longrightarrow> unat (pipe_next i) = (unat i + 1) mod 4096"
  by (simp add: pipe_next_def unat_mod_distrib unat_word_ariths)

lemma level_cases:
  fixes h t :: nat
  assumes "h < 4096" and "t < 4096"
  shows "(t + 4096 - h) mod 4096 = (if h \<le> t then t - h else t + 4096 - h)"
    and "(t + 1) mod 4096 = (if t = 4095 then 0 else t + 1)"
  using assms by (auto simp: mod_if)

lemma level_next:
  fixes h t :: nat
  assumes "h < 4096" and "t < 4096"
  shows "(t + 4096 - h) mod 4096 = 0 \<longleftrightarrow> h = t"
    and "(t + 1) mod 4096 = h \<longleftrightarrow> (t + 4096 - h) mod 4096 = 4095"
    and "(t + 1) mod 4096 \<noteq> h \<Longrightarrow> ((t + 1) mod 4096 + 4096 - h) mod 4096 = Suc ((t + 4096 - h) mod 4096)"
    and "h \<noteq> t \<Longrightarrow> (t + 4096 - h) mod 4096 = Suc ((t + 4096 - (h + 1) mod 4096) mod 4096)"
    and "(h + (t + 4096 - h) mod 4096) mod 4096 = t"
proof -
  let ?t' = "if t = 4095 then 0 else t + 1" and ?h' = "if h = 4095 then 0 else h + 1"
  have lt: "?t' < 4096" "?h' < 4096" using assms by auto
  note L = level_cases(1) [OF assms] level_cases(2) [OF assms] level_cases(2) [OF assms(2,1)]
    level_cases(1) [OF assms(1) lt(1)] level_cases(1) [OF lt(2) assms(2)]
  show "(t + 4096 - h) mod 4096 = 0 \<longleftrightarrow> h = t" unfolding L using assms by auto
  show "(t + 1) mod 4096 = h \<longleftrightarrow> (t + 4096 - h) mod 4096 = 4095" unfolding L using assms by auto
  show "((t + 1) mod 4096 + 4096 - h) mod 4096 = Suc ((t + 4096 - h) mod 4096)" if "(t + 1) mod 4096 \<noteq> h"
    using that assms unfolding L by auto
  show "(t + 4096 - h) mod 4096 = Suc ((t + 4096 - (h + 1) mod 4096) mod 4096)" if "h \<noteq> t"
    using that assms unfolding L by auto
  show "(h + (t + 4096 - h) mod 4096) mod 4096 = t" unfolding L using assms by simp
qed

lemma pipe_bytes_empty: "pipe_inv p \<Longrightarrow> pipe_bytes p = [] \<longleftrightarrow> p_head p = p_tail p"
proof -
  assume "pipe_inv p"
  then have "(unat (p_tail p) + 4096 - unat (p_head p)) mod 4096 = 0 \<longleftrightarrow> p_head p = p_tail p"
    using level_next(1) [of "unat (p_head p)" "unat (p_tail p)"] by (simp add: pipe_inv_def word_unat_eq_iff)
  then show ?thesis by (simp add: pipe_bytes_def ring_def)
qed

lemma pipe_bytes_full: "pipe_inv p \<Longrightarrow> length (pipe_bytes p) < 4095 \<longleftrightarrow> pipe_next (p_tail p) \<noteq> p_head p"
proof -
  assume i: "pipe_inv p"
  let ?n = "(unat (p_tail p) + 4096 - unat (p_head p)) mod 4096"
  have "?n < 4096" by simp
  then have "?n < 4095 \<longleftrightarrow> ?n \<noteq> 4095" by linarith
  with i show ?thesis using level_next(2) [of "unat (p_head p)" "unat (p_tail p)"]
    by (simp add: pipe_bytes_def pipe_inv_def word_unat_eq_iff unat_pipe_next)
qed

lemma pipe_bytes_bound: "length (pipe_bytes p) \<le> 4095"
  by (simp add: pipe_bytes_def less_Suc_eq_le [symmetric])

interpretation pq: fifo pipe_bytes 4095 pipe_inv pipe_put pipe_get
proof
  fix p b
  assume i: "pipe_inv p" and room: "length (pipe_bytes p) < 4095"
  let ?h = "unat (p_head p)" and ?t = "unat (p_tail p)"
  have ht: "?h < 4096" "?t < 4096" "length (p_buf p) = 4096" using i by (auto simp: pipe_inv_def)
  have ne: "(?t + 1) mod 4096 \<noteq> ?h"
    using room pipe_bytes_full [OF i] ht by (simp add: word_unat_eq_iff unat_pipe_next)
  have "pipe_bytes (pipe_put b p) = ring ((p_buf p)[?t := b]) ?h (Suc ((?t + 4096 - ?h) mod 4096))"
    using level_next(3) [OF ht(1,2) ne] ht by (simp add: pipe_bytes_def pipe_put_def unat_pipe_next)
  also have "\<dots> = pipe_bytes p @ [b]"
    using ring_put [of "(?t + 4096 - ?h) mod 4096" "p_buf p" ?h b] level_next(5) [OF ht(1,2)] ht(3)
    by (simp add: pipe_bytes_def)
  finally show "pipe_inv (pipe_put b p) \<and> pipe_bytes (pipe_put b p) = pipe_bytes p @ [b]"
    using i by (simp add: pipe_inv_def pipe_put_def unat_pipe_next)
next
  fix p b p'
  assume i: "pipe_inv p" and ne: "pipe_bytes p \<noteq> []" and g: "pipe_get p = (b, p')"
  let ?h = "unat (p_head p)" and ?t = "unat (p_tail p)"
  have ht: "?h < 4096" "?t < 4096" "length (p_buf p) = 4096" using i by (auto simp: pipe_inv_def)
  have "?h \<noteq> ?t" using ne pipe_bytes_empty [OF i] by (simp add: word_unat_eq_iff)
  from level_next(4) [OF ht(1,2) this]
  show "pipe_inv p' \<and> pipe_bytes p = b # pipe_bytes p'"
    using g i ht ring_get [of "p_buf p" ?h] by (auto simp: pipe_get_def pipe_bytes_def pipe_inv_def unat_pipe_next)
qed

lemma pipe_drain_eq: "pipe_inv p \<Longrightarrow> pipe_drain n p = pq.drain n p"
proof (induction n arbitrary: p)
  case (Suc n)
  show ?case
  proof (cases "p_head p = p_tail p")
    case True
    then show ?thesis using pipe_bytes_empty [OF Suc.prems] by simp
  next
    case False
    then have ne: "pipe_bytes p \<noteq> []" using pipe_bytes_empty [OF Suc.prems] by simp
    obtain b p1 where g: "pipe_get p = (b, p1)" by (cases "pipe_get p")
    from pq.get_ok [OF Suc.prems ne g] have "pipe_inv p1" by simp
    with False ne g Suc.IH show ?thesis by simp
  qed
qed simp

lemma pipe_fill_eq: "pipe_inv p \<Longrightarrow> pipe_fill bs p = (min (length bs) (4095 - length (pipe_bytes p)), pq.fill bs p)"
proof (induction bs arbitrary: p)
  case (Cons b bs)
  show ?case
  proof (cases "pipe_next (p_tail p) = p_head p")
    case True
    with pipe_bytes_full [OF Cons.prems] show ?thesis by simp
  next
    case False
    with pipe_bytes_full [OF Cons.prems] have room: "length (pipe_bytes p) < 4095" by simp
    from pq.put_ok [OF Cons.prems room, of b] Cons.IH [of "pipe_put b p"] False room show ?thesis
      by (auto simp: min_def)
  qed
qed simp

text \<open>What a drain and a fill do to the queue.\<close>

lemma pipe_drain_spec:
  assumes "pipe_inv p" and "pipe_drain n p = (bs, p')"
  shows "pipe_inv p'" and "pipe_bytes p = bs @ pipe_bytes p'" and "length bs = min n (length (pipe_bytes p))"
  using pq.drain_spec [OF assms(1), of n bs p'] assms(2) unfolding pipe_drain_eq [OF assms(1)] by blast+

lemma pipe_fill_spec:
  assumes "pipe_inv p" and "pipe_fill bs p = (n, p')"
  shows "pipe_inv p'" and "pipe_bytes p' = pipe_bytes p @ take n bs"
    and "n = min (length bs) (4095 - length (pipe_bytes p))"
proof -
  have n: "n = min (length bs) (4095 - length (pipe_bytes p))" and p': "p' = pq.fill bs p"
    using assms(2) unfolding pipe_fill_eq [OF assms(1)] by simp_all
  have "take n bs = take (4095 - length (pipe_bytes p)) bs" unfolding n by (simp add: min_def)
  with pq.fill_spec [OF assms(1) pipe_bytes_bound, of bs]
  show "pipe_inv p'" "pipe_bytes p' = pipe_bytes p @ take n bs" unfolding p' by simp_all
  show "n = min (length bs) (4095 - length (pipe_bytes p))" by (rule n)
qed

lemma pipe_drain_rest: "pipe_drain n p = (bs, p') \<Longrightarrow> p' = p\<lparr>p_head := p_head p'\<rparr>"
proof (induction n arbitrary: p bs)
  case (Suc n)
  show ?case
  proof (cases "p_head p = p_tail p")
    case False
    obtain cs p2 where d: "pipe_drain n (p\<lparr>p_head := pipe_next (p_head p)\<rparr>) = (cs, p2)"
      by (cases "pipe_drain n (p\<lparr>p_head := pipe_next (p_head p)\<rparr>)")
    with Suc.prems False have "p2 = p'" by (simp add: pipe_get_def)
    with d have "pipe_drain n (p\<lparr>p_head := pipe_next (p_head p)\<rparr>) = (cs, p')" by simp
    from Suc.IH [OF this] show ?thesis by (cases p; cases p') simp
  qed (use Suc.prems in simp)
qed simp

lemma pipe_fill_rest: "pipe_fill bs p = (n, p') \<Longrightarrow> p' = p\<lparr>p_buf := p_buf p', p_tail := p_tail p'\<rparr>"
proof (induction bs arbitrary: p n)
  case (Cons b bs)
  show ?case
  proof (cases "pipe_next (p_tail p) = p_head p")
    case False
    obtain m p2 where d: "pipe_fill bs (pipe_put b p) = (m, p2)" by (cases "pipe_fill bs (pipe_put b p)")
    with Cons.prems False have "p2 = p'" by simp
    with d have "pipe_fill bs (pipe_put b p) = (m, p')" by simp
    from Cons.IH [OF this] show ?thesis by (cases p; cases p') (simp add: pipe_put_def)
  qed (use Cons.prems in simp)
qed simp

section \<open>The stream\<close>

text \<open>
  Any task may run a pass of a read or of a write at any time, with whatever it has copied so far, and
  an end may be released; a step reports the bytes it delivered and the bytes it accepted.
\<close>

datatype pipe_op =
    Read_Pass "tptr option" nat "u8 list"
  | Write_Pass "tptr option" "u8 list" "u8 list"
  | Unref nat

fun pipe_do :: "pipe_op \<Rightarrow> sched \<times> pipe_shared \<Rightarrow> u8 list \<times> u8 list \<times> sched \<times> pipe_shared" where
  "pipe_do (Read_Pass me len got) (s, p) =
    (case pipe_read_pass me len got s p of
       (Again got', s', p') \<Rightarrow> (drop (length got) got', [], s', p')
     | (_, s', p') \<Rightarrow> ([], [], s', p'))"
| "pipe_do (Write_Pass me stored todo) (s, p) =
    (case pipe_write_pass me stored todo s p of
       (Again stored', s', p') \<Rightarrow> ([], drop (length stored) stored', s', p')
     | (_, s', p') \<Rightarrow> ([], [], s', p'))"
| "pipe_do (Unref side) (s, p) = (case pipe_unref_op side s p of (_, s', p') \<Rightarrow> ([], [], s', p'))"

fun pipe_run :: "pipe_op list \<Rightarrow> sched \<times> pipe_shared \<Rightarrow> u8 list \<times> u8 list \<times> sched \<times> pipe_shared" where
  "pipe_run [] (s, p) = ([], [], s, p)"
| "pipe_run (x # xs) (s, p) =
    (let (d1, a1, s1, p1) = pipe_do x (s, p); (d2, a2, s2, p2) = pipe_run xs (s1, p1)
     in (d1 @ d2, a1 @ a2, s2, p2))"

lemma pipe_inv_fields:
  "p_buf p' = p_buf p \<Longrightarrow> p_head p' = p_head p \<Longrightarrow> p_tail p' = p_tail p \<Longrightarrow>
    pipe_inv p' = pipe_inv p \<and> pipe_bytes p' = pipe_bytes p"
  by (simp add: pipe_inv_def pipe_bytes_def)

lemma pipe_unref_queue:
  "pipe_unref_op side s p = (fr, s', p') \<Longrightarrow> p_buf p' = p_buf p \<and> p_head p' = p_head p \<and> p_tail p' = p_tail p"
  by (auto simp: pipe_unref_op_def Let_def split: if_splits prod.splits)

lemma pipe_do_stream:
  assumes "pipe_inv p" and "pipe_do x (s, p) = (d, a, s', p')"
  shows "pipe_inv p' \<and> pipe_bytes p @ a = d @ pipe_bytes p'"
proof (cases x)
  case (Read_Pass me len got)
  show ?thesis
  proof (cases "p_head p = p_tail p")
    case True
    have "d = []" "a = []" "p_buf p' = p_buf p" "p_head p' = p_head p" "p_tail p' = p_tail p"
      using assms(2) True by (auto simp: Read_Pass pipe_read_pass_def split: if_splits)
    then show ?thesis using pipe_inv_fields [of p' p] assms(1) by simp
  next
    case False
    obtain bs p1 where r: "pipe_drain (len - length got) p = (bs, p1)" by (cases "pipe_drain (len - length got) p")
    have "d = bs" "a = []" "p_buf p' = p_buf p1" "p_head p' = p_head p1" "p_tail p' = p_tail p1"
      using assms(2) False r by (auto simp: Read_Pass pipe_read_pass_def split: prod.splits)
    then show ?thesis using pipe_inv_fields [of p' p1] pipe_drain_spec(1,2) [OF assms(1) r] by simp
  qed
next
  case (Write_Pass me stored todo)
  show ?thesis
  proof (cases "p_readers p = 0 \<or> pipe_next (p_tail p) = p_head p")
    case True
    have "d = []" "a = []" "p_buf p' = p_buf p" "p_head p' = p_head p" "p_tail p' = p_tail p"
      using assms(2) True by (auto simp: Write_Pass pipe_write_pass_def split: if_splits)
    then show ?thesis using pipe_inv_fields [of p' p] assms(1) by simp
  next
    case False
    obtain n p1 where r: "pipe_fill todo p = (n, p1)" by (cases "pipe_fill todo p")
    have "d = []" "a = take n todo" "p_buf p' = p_buf p1" "p_head p' = p_head p1" "p_tail p' = p_tail p1"
      using assms(2) False r by (auto simp: Write_Pass pipe_write_pass_def split: prod.splits)
    then show ?thesis using pipe_inv_fields [of p' p1] pipe_fill_spec(1,2) [OF assms(1) r] by simp
  qed
next
  case (Unref side)
  with assms(2) obtain fr where u: "pipe_unref_op side s p = (fr, s', p')" and "d = []" "a = []"
    by (auto split: prod.splits)
  then show ?thesis using pipe_inv_fields [of p' p] pipe_unref_queue [OF u] assms(1) by simp
qed

text \<open>C29: Whatever the interleaving of read passes, write passes and closes of any number of tasks, the
  bytes delivered to the readers, in the order of delivery, followed by those still in the buffer are
  exactly the bytes that were in the buffer followed by those accepted from the writers: nothing is
  lost, duplicated or reordered, and the buffer stays well formed.\<close>

theorem pipe_stream:
  assumes "pipe_inv p"
  shows "case pipe_run ops (s, p) of (delivered, accepted, s', p') \<Rightarrow>
    pipe_inv p' \<and> pipe_bytes p @ accepted = delivered @ pipe_bytes p'"
  using assms
proof (induction ops arbitrary: s p)
  case (Cons x ops)
  obtain d1 a1 s1 p1 where x: "pipe_do x (s, p) = (d1, a1, s1, p1)" by (cases "pipe_do x (s, p)")
  obtain d2 a2 s2 p2 where r: "pipe_run ops (s1, p1) = (d2, a2, s2, p2)" by (cases "pipe_run ops (s1, p1)")
  note here = pipe_do_stream [OF Cons.prems x]
  with Cons.IH [of p1 s1] r have "pipe_inv p2" "pipe_bytes p1 @ a2 = d2 @ pipe_bytes p2" by auto
  with here show ?case using x r by (simp, metis append.assoc)
qed simp

section \<open>Sleeping and waking\<close>

abbreviation blocked :: "sched \<Rightarrow> tptr \<Rightarrow> bool" where
  "blocked s t \<equiv> state (tasks s t) = TASK_BLOCKED"

lemma blocked_unblock: "blocked (task_unblock w s) t \<longleftrightarrow> blocked s t \<and> w \<noteq> Some t"
  by (auto simp: task_unblock_def enqueue_global_def upd_def Let_def split: option.splits)

lemma blocked_wake: "pipe_wake_other slot s = (slot', s') \<Longrightarrow> slot' = None \<and> (blocked s' t \<longleftrightarrow> blocked s t \<and> slot \<noteq> Some t)"
  by (auto simp: pipe_wake_other_def blocked_unblock split: option.splits)

lemma blocked_block: "blocked (block_task me s) t \<longleftrightarrow> blocked s t \<or> me = Some t"
  by (auto simp: block_task_def upd_def split: option.splits)

text \<open>
  A critical section either changes no task and no slot, puts the caller to sleep in its slot, or
  moves bytes and wakes the other side.
\<close>

lemma read_pass_cases:
  assumes "pipe_read_pass me len got s p = (t, s', p')"
  obtains (same) "s' = s" "p' = p"
    | (sleep) "p_head p = p_tail p" "p_writers p \<noteq> 0" "s' = block_task me s" "p' = (if me = None then p else p\<lparr>p_read_waiter := me\<rparr>)"
    | (moved) "\<And>x. blocked s' x \<longleftrightarrow> blocked s x \<and> p_write_waiter p \<noteq> Some x" "p_write_waiter p' = None"
        "p_read_waiter p' = p_read_waiter p" "p_head p \<noteq> p_tail p"
proof (cases "p_head p = p_tail p")
  case True
  then show ?thesis using assms same sleep by (auto simp: pipe_read_pass_def split: if_splits)
next
  case False
  obtain bs p1 where d: "pipe_drain (len - length got) p = (bs, p1)" by (cases "pipe_drain (len - length got) p")
  obtain slot s1 where w: "pipe_wake_other (p_write_waiter p1) s = (slot, s1)" by (cases "pipe_wake_other (p_write_waiter p1) s")
  have r: "p_write_waiter p1 = p_write_waiter p" "p_read_waiter p1 = p_read_waiter p"
    using arg_cong [OF pipe_drain_rest [OF d], of p_write_waiter] arg_cong [OF pipe_drain_rest [OF d], of p_read_waiter]
    by simp_all
  have "s' = s1" "p' = p1\<lparr>p_write_waiter := slot\<rparr>" using assms False d w by (auto simp: pipe_read_pass_def)
  then show ?thesis using moved blocked_wake [OF w] r False by simp
qed

lemma write_pass_cases:
  assumes "pipe_write_pass me stored todo s p = (t, s', p')"
  obtains (same) "s' = s" "p' = p"
    | (sleep) "pipe_next (p_tail p) = p_head p" "p_readers p \<noteq> 0" "s' = block_task me s" "p' = (if me = None then p else p\<lparr>p_write_waiter := me\<rparr>)"
    | (moved) "\<And>x. blocked s' x \<longleftrightarrow> blocked s x \<and> p_read_waiter p \<noteq> Some x" "p_read_waiter p' = None"
        "p_write_waiter p' = p_write_waiter p" "pipe_next (p_tail p) \<noteq> p_head p"
proof (cases "p_readers p = 0 \<or> pipe_next (p_tail p) = p_head p")
  case True
  then show ?thesis using assms same sleep by (auto simp: pipe_write_pass_def split: if_splits)
next
  case False
  obtain n p1 where d: "pipe_fill todo p = (n, p1)" by (cases "pipe_fill todo p")
  obtain slot s1 where w: "pipe_wake_other (p_read_waiter p1) s = (slot, s1)" by (cases "pipe_wake_other (p_read_waiter p1) s")
  have r: "p_write_waiter p1 = p_write_waiter p" "p_read_waiter p1 = p_read_waiter p"
    using arg_cong [OF pipe_fill_rest [OF d], of p_write_waiter] arg_cong [OF pipe_fill_rest [OF d], of p_read_waiter]
    by simp_all
  have "s' = s1" "p' = p1\<lparr>p_read_waiter := slot\<rparr>" using assms False d w by (auto simp: pipe_write_pass_def)
  then show ?thesis using moved blocked_wake [OF w] r False by simp
qed

lemma unref_cases:
  assumes "pipe_unref_op side s p = (fr, s', p')"
  shows "blocked s' t \<Longrightarrow> blocked s t"
    and "p_read_waiter p' = (if p_writers p' = 0 then None else p_read_waiter p)"
    and "p_write_waiter p' = (if p_readers p' = 0 then None else p_write_waiter p)"
    and "p_writers p' = 0 \<Longrightarrow> p_read_waiter p = Some t \<Longrightarrow> \<not> blocked s' t"
    and "p_readers p' = 0 \<Longrightarrow> p_write_waiter p = Some t \<Longrightarrow> \<not> blocked s' t"
  using assms by (auto simp: pipe_unref_op_def Let_def pipe_wake_other_def blocked_unblock split: if_splits option.splits prod.splits)

text \<open>
  One reader and one writer. Each runs its passes only while it is not blocked; an end may be
  released; other activity (timers, signals, the scheduler) may wake them and does not block them.
\<close>

inductive pair_step :: "tptr \<Rightarrow> tptr \<Rightarrow> sched \<times> pipe_shared \<Rightarrow> sched \<times> pipe_shared \<Rightarrow> bool" for r w where
  reader: "\<not> blocked s r \<Longrightarrow> pipe_read_pass (Some r) len got s p = (t, s', p') \<Longrightarrow> pair_step r w (s, p) (s', p')"
| writer: "\<not> blocked s w \<Longrightarrow> pipe_write_pass (Some w) stored todo s p = (t, s', p') \<Longrightarrow> pair_step r w (s, p) (s', p')"
| release: "pipe_unref_op side s p = (fr, s', p') \<Longrightarrow> pair_step r w (s, p) (s', p')"
| other: "(blocked s' r \<Longrightarrow> blocked s r) \<Longrightarrow> (blocked s' w \<Longrightarrow> blocked s w) \<Longrightarrow> pair_step r w (s, p) (s', p)"

definition pair_ok :: "tptr \<Rightarrow> tptr \<Rightarrow> sched \<times> pipe_shared \<Rightarrow> bool" where
  "pair_ok r w c \<longleftrightarrow> (case c of (s, p) \<Rightarrow>
    (blocked s r \<longrightarrow> p_read_waiter p = Some r \<and> p_head p = p_tail p \<and> p_writers p \<noteq> 0) \<and>
    (blocked s w \<longrightarrow> p_write_waiter p = Some w \<and> pipe_next (p_tail p) = p_head p \<and> p_readers p \<noteq> 0))"

lemma pipe_next_ne: "pipe_next t \<noteq> t"
proof
  assume eq: "pipe_next t = t"
  have "unat (pipe_next t) < 4096" by (simp add: pipe_next_def unat_mod_distrib)
  with eq have t: "unat t < 4096" by simp
  from unat_pipe_next [OF t] eq t show False by (simp add: mod_if split: if_splits)
qed

lemma pair_step_ok:
  assumes "pair_step r w c c'" and "pair_ok r w c" and "r \<noteq> w"
  shows "pair_ok r w c'"
  using assms(1)
proof cases
  case (reader s len got p t s' p')
  from reader(4) show ?thesis
    by (cases rule: read_pass_cases)
      (use assms(2,3) reader(1-3) pipe_next_ne [of "p_tail p"] in \<open>auto simp: pair_ok_def blocked_block\<close>)
next
  case (writer s stored todo p t s' p')
  from writer(4) show ?thesis
    by (cases rule: write_pass_cases)
      (use assms(2,3) writer(1-3) pipe_next_ne [of "p_tail p"] in \<open>auto simp: pair_ok_def blocked_block\<close>)
next
  case (release side s p fr s' p')
  note u = unref_cases [OF release(3)] pipe_unref_queue [OF release(3)]
  show ?thesis unfolding release(2) pair_ok_def prod.case
    using assms(2) [unfolded release(1) pair_ok_def prod.case] u(1,2,3,6) u(4) [of r] u(5) [of w] by auto
next
  case (other s' s p)
  then show ?thesis using assms(2) by (auto simp: pair_ok_def)
qed

text \<open>C30: With one reader and one writer no wake-up is lost. In every state they reach from one where
  neither sleeps, a sleeping reader is registered, finds no byte in the buffer and still has a writer;
  a sleeping writer is registered, finds no room in the buffer and still has a reader.\<close>

theorem pipe_pair_no_lost_wakeup:
  assumes "(pair_step r w)\<^sup>*\<^sup>* (s, p) (s', p')" and "\<not> blocked s r" and "\<not> blocked s w" and "r \<noteq> w" and "pipe_inv p'"
  shows "(blocked s' r \<longrightarrow> p_read_waiter p' = Some r \<and> pipe_bytes p' = [] \<and> p_writers p' \<noteq> 0) \<and>
    (blocked s' w \<longrightarrow> p_write_waiter p' = Some w \<and> length (pipe_bytes p') = 4095 \<and> p_readers p' \<noteq> 0)"
proof -
  have "pair_ok r w (s', p')"
    using assms(1)
  proof (induction rule: rtranclp_induct)
    case base
    then show ?case using assms(2,3) by (simp add: pair_ok_def)
  next
    case (step c c')
    then show ?case using pair_step_ok assms(4) by blast
  qed
  with pipe_bytes_empty [OF assms(5)] pipe_bytes_full [OF assms(5)] pipe_bytes_bound [of p']
  show ?thesis by (auto simp: pair_ok_def)
qed

text \<open>A task that sleeps without being in either slot is not woken by any use of the pipe.\<close>

fun by_other :: "tptr \<Rightarrow> pipe_op \<Rightarrow> bool" where
  "by_other t (Read_Pass me len got) \<longleftrightarrow> me \<noteq> Some t"
| "by_other t (Write_Pass me stored todo) \<longleftrightarrow> me \<noteq> Some t"
| "by_other t (Unref side) \<longleftrightarrow> True"

definition stranded :: "tptr \<Rightarrow> sched \<times> pipe_shared \<Rightarrow> bool" where
  "stranded t c \<longleftrightarrow> blocked (fst c) t \<and> p_read_waiter (snd c) \<noteq> Some t \<and> p_write_waiter (snd c) \<noteq> Some t"

lemma stranded_do:
  assumes "stranded t (s, p)" and "by_other t x" and "pipe_do x (s, p) = (d, a, s', p')"
  shows "stranded t (s', p')"
proof (cases x)
  case (Read_Pass me len got)
  obtain tn where r: "pipe_read_pass me len got s p = (tn, s', p')"
    using assms(3) Read_Pass by (auto split: prod.splits turn.splits)
  from r show ?thesis
    by (cases rule: read_pass_cases)
      (use assms(1,2) Read_Pass in \<open>auto simp: stranded_def blocked_block\<close>)
next
  case (Write_Pass me stored todo)
  obtain tn where r: "pipe_write_pass me stored todo s p = (tn, s', p')"
    using assms(3) Write_Pass by (auto split: prod.splits turn.splits)
  from r show ?thesis
    by (cases rule: write_pass_cases)
      (use assms(1,2) Write_Pass in \<open>auto simp: stranded_def blocked_block\<close>)
next
  case (Unref side)
  obtain fr where u: "pipe_unref_op side s p = (fr, s', p')" using assms(3) Unref by (auto split: prod.splits)
  have "blocked s' t"
    using assms(1) u by (auto simp: stranded_def pipe_unref_op_def Let_def pipe_wake_other_def blocked_unblock split: if_splits option.splits prod.splits)
  then show ?thesis using unref_cases(2,3) [OF u] assms(1) by (auto simp: stranded_def)
qed

text \<open>Two readers that find the pipe empty share one waiter slot: the second overwrites the first,
  and from then on the first stays asleep through every sequence of reads, writes and closes by other
  tasks, even when bytes arrive or the last writer goes away.\<close>

theorem pipe_second_reader_strands_first:
  assumes "p_head p = p_tail p" and "p_writers p \<noteq> 0" and "r1 \<noteq> r2" and "p_write_waiter p \<noteq> Some r1"
    and "\<not> pending_kill (tasks s r1)" and "\<not> pending_kill (tasks s r2)"
    and "pipe_read_pass (Some r1) len1 [] s p = (t1, s1, p1)" and "pipe_read_pass (Some r2) len2 [] s1 p1 = (t2, s2, p2)"
    and "\<forall>x \<in> set ops. by_other r1 x" and "pipe_run ops (s2, p2) = (d, a, s3, p3)"
  shows "t1 = Sleep \<and> t2 = Sleep \<and> blocked s3 r1"
proof -
  have 1: "t1 = Sleep" "s1 = block_task (Some r1) s" "p1 = p\<lparr>p_read_waiter := Some r1\<rparr>"
    using assms(1,2,5,7) by (auto simp: pipe_read_pass_def killed_def)
  have 2: "t2 = Sleep" "s2 = block_task (Some r2) s1" "p2 = p1\<lparr>p_read_waiter := Some r2\<rparr>"
    using assms(1,2,3,6,8) 1 by (auto simp: pipe_read_pass_def killed_def block_task_def upd_def)
  have start: "stranded r1 (s2, p2)" using 1 2 assms(3,4) by (simp add: stranded_def blocked_block)
  have "stranded r1 (s3, p3)" if "stranded r1 (s2, p2)" "\<forall>x \<in> set ops. by_other r1 x" "pipe_run ops (s2, p2) = (d, a, s3, p3)" for d a s2 p2
    using that
  proof (induction ops arbitrary: s2 p2 d a)
    case (Cons x ops)
    obtain d1 a1 s' p' where x: "pipe_do x (s2, p2) = (d1, a1, s', p')" by (cases "pipe_do x (s2, p2)")
    obtain d2 a2 where "pipe_run ops (s', p') = (d2, a2, s3, p3)" using Cons.prems(3) x by (auto split: prod.splits)
    moreover have "stranded r1 (s', p')" using stranded_do [OF Cons.prems(1) _ x] Cons.prems(2) by simp
    ultimately show ?case using Cons.IH Cons.prems(2) by simp
  qed simp
  from this [OF start assms(9,10)] 1 2 show ?thesis by (simp add: stranded_def)
qed

section \<open>Witnesses\<close>

text \<open>Any scheduler state with all its tasks awake.\<close>

definition awake :: "sched \<Rightarrow> sched" where
  "awake s = s\<lparr>tasks := (\<lambda>t. (tasks s t)\<lparr>pending_kill := False, state := TASK_READY\<rparr>)\<rparr>"

lemma pipe_init_inv: "pipe_inv pipe_init"
  by (simp add: pipe_inv_def pipe_init_def PIPE_BUFSZ_def)

theorem pipe_stream_witness:
  "\<forall>s. pipe_inv pipe_init \<and>
    (case pipe_run [Write_Pass (Some (Task 1)) [] [65, 66], Read_Pass (Some (Task 2)) 1 []] (s, pipe_init) of
      (delivered, accepted, s', p') \<Rightarrow> accepted = delivered @ pipe_bytes p')"
proof
  fix s
  have "pipe_bytes pipe_init = []" by (simp add: pipe_bytes_def pipe_init_def)
  with pipe_stream [OF pipe_init_inv, of "[Write_Pass (Some (Task 1)) [] [65, 66], Read_Pass (Some (Task 2)) 1 []]" s] pipe_init_inv
  show "pipe_inv pipe_init \<and>
    (case pipe_run [Write_Pass (Some (Task 1)) [] [65, 66], Read_Pass (Some (Task 2)) 1 []] (s, pipe_init) of
      (delivered, accepted, s', p') \<Rightarrow> accepted = delivered @ pipe_bytes p')"
    by (simp add: case_prod_unfold)
qed

lemma pipe_sleep_step:
  "pipe_read_pass (Some r) len [] (awake s) pipe_init =
    (Sleep, block_task (Some r) (awake s), pipe_init\<lparr>p_read_waiter := Some r\<rparr>)"
  by (simp add: pipe_read_pass_def pipe_init_def killed_def awake_def)

theorem pipe_pair_witness:
  "\<forall>s. \<exists>s' p'. (pair_step (Task 1) (Task 2))\<^sup>*\<^sup>* (awake s, pipe_init) (s', p') \<and> blocked s' (Task 1) \<and> pipe_bytes p' = []"
proof
  fix s
  let ?s' = "block_task (Some (Task 1)) (awake s)" and ?p' = "pipe_init\<lparr>p_read_waiter := Some (Task 1)\<rparr>"
  have up: "\<not> blocked (awake s) t" for t by (simp add: awake_def)
  have "pair_step (Task 1) (Task 2) (awake s, pipe_init) (?s', ?p')"
    by (rule pair_step.reader [OF up pipe_sleep_step])
  then have run: "(pair_step (Task 1) (Task 2))\<^sup>*\<^sup>* (awake s, pipe_init) (?s', ?p')" by (rule r_into_rtranclp)
  have inv: "pipe_inv ?p'" using pipe_init_inv pipe_inv_fields [of ?p' pipe_init] by simp
  have b: "blocked ?s' (Task 1)" by (simp add: blocked_block)
  from pipe_pair_no_lost_wakeup [OF run up up _ inv] b run
  show "\<exists>s' p'. (pair_step (Task 1) (Task 2))\<^sup>*\<^sup>* (awake s, pipe_init) (s', p') \<and> blocked s' (Task 1) \<and> pipe_bytes p' = []"
    by auto
qed

theorem pipe_second_reader_witness:
  "\<forall>s. case pipe_read_pass (Some (Task 1)) 5 [] (awake s) pipe_init of (t1, s1, p1) \<Rightarrow>
    case pipe_read_pass (Some (Task 2)) 5 [] s1 p1 of (t2, s2, p2) \<Rightarrow>
    case pipe_run [Write_Pass (Some (Task 3)) [] [65], Unref 1] (s2, p2) of (d, a, s3, p3) \<Rightarrow>
      t1 = Sleep \<and> t2 = Sleep \<and> blocked s3 (Task 1)"
proof
  fix s
  obtain t1 s1 p1 where 1: "pipe_read_pass (Some (Task 1)) 5 [] (awake s) pipe_init = (t1, s1, p1)"
    by (cases "pipe_read_pass (Some (Task 1)) 5 [] (awake s) pipe_init")
  obtain t2 s2 p2 where 2: "pipe_read_pass (Some (Task 2)) 5 [] s1 p1 = (t2, s2, p2)"
    by (cases "pipe_read_pass (Some (Task 2)) 5 [] s1 p1")
  obtain d a s3 p3 where 3: "pipe_run [Write_Pass (Some (Task 3)) [] [65], Unref 1] (s2, p2) = (d, a, s3, p3)"
    by (cases "pipe_run [Write_Pass (Some (Task 3)) [] [65], Unref 1] (s2, p2)")
  have "t1 = Sleep \<and> t2 = Sleep \<and> blocked s3 (Task 1)"
    by (rule pipe_second_reader_strands_first [OF _ _ _ _ _ _ 1 2 _ 3]) (simp_all add: pipe_init_def awake_def)
  with 1 2 3 show "case pipe_read_pass (Some (Task 1)) 5 [] (awake s) pipe_init of (t1, s1, p1) \<Rightarrow>
    case pipe_read_pass (Some (Task 2)) 5 [] s1 p1 of (t2, s2, p2) \<Rightarrow>
    case pipe_run [Write_Pass (Some (Task 3)) [] [65], Unref 1] (s2, p2) of (d, a, s3, p3) \<Rightarrow>
      t1 = Sleep \<and> t2 = Sleep \<and> blocked s3 (Task 1)" by simp
qed

end
