(* ===== verification/Signal_Props.thy ===== *)
theory Signal_Props
  imports Signal Ring
begin

text \<open>
  What the signal code guarantees: a handler's return restores the interrupted context, the two
  signals that cannot be blocked stay unblocked by every call but the return from a handler, and the
  queue of a signal descriptor is a bounded queue that loses signals when it is full.
\<close>

section \<open>Frames\<close>

lemma put_frame_snoc: "put_frame a (xs @ [x]) m = (put_frame a xs m)(a + 8 * of_nat (length xs) := x)"
  by (simp add: put_frame_def)

lemma cell_distinct:
  assumes "i < 32" and "j < 32" and "i \<noteq> j"
  shows "(a :: u64) + 8 * of_nat i \<noteq> a + 8 * of_nat j"
proof
  assume "a + 8 * of_nat i = a + 8 * of_nat j"
  then have "unat (8 * of_nat i :: u64) = unat (8 * of_nat j :: u64)" by simp
  then show False using assms by (simp add: unat_word_ariths unat_of_nat)
qed

lemma put_frame_read:
  assumes "i < length xs" and "length xs \<le> 32"
  shows "put_frame a xs m (a + 8 * of_nat i) = xs ! i"
  using assms
proof (induction xs rule: rev_induct)
  case (snoc x xs)
  show ?case
  proof (cases "i = length xs")
    case False
    with snoc have "a + 8 * of_nat i \<noteq> a + 8 * of_nat (length xs)" by (intro cell_distinct) simp_all
    with False snoc show ?thesis by (simp add: put_frame_snoc nth_append)
  qed (simp add: put_frame_snoc nth_append)
qed simp

text \<open>A signal that is pending, not blocked and has a handler is delivered to that handler.\<close>

definition handled :: "(u64 \<Rightarrow> u64 \<Rightarrow> bool) \<Rightarrow> task \<Rightarrow> bool" where
  "handled valid k \<longleftrightarrow> is_userspace k \<and> sig_pending k AND NOT (sig_blocked k) \<noteq> 0 \<and>
    (let sig = ctz (sig_pending k AND NOT (sig_blocked k)) in
     0 < sig \<and> sig < NSIG \<and> sig \<noteq> SIGKILL \<and>
     sig_handler k ! nat sig \<noteq> SIG_DFL_ADDR \<and> sig_handler k ! nat sig \<noteq> SIG_IGN_ADDR \<and> sig_restorer k ! nat sig \<noteq> 0) \<and>
    valid ((user_rsp k - 104) AND NOT 0xF) 104"

lemma deliver_handled:
  assumes "handled valid (tasks s t)"
  shows "signal_deliver_pending valid (Some t) retval s um =
    (let k = tasks s t; sig = ctz (sig_pending k AND NOT (sig_blocked k)); sp = (user_rsp k - 104) AND NOT 0xF
     in (Resume retval, upd t (enter_handler sig sp (sig_restorer k ! nat sig)) s,
         put_frame sp (frame_of (sig_handler k ! nat sig) sig retval k) um))"
  using assms by (simp add: signal_deliver_pending_def handled_def Let_def)

text \<open>C27: Delivering a signal to a handler and returning from it restores the interrupted context. The
  handler may change the registers, memory outside its frame, and anything of the task but the stack
  pointer, which the trampoline leaves 16 bytes above the frame; then \<open>rt_sigreturn\<close> gives back the
  saved registers, the stack pointer, the signal mask and the interrupted call's return value.\<close>

theorem signal_frame_roundtrip:
  assumes "handled valid (tasks s t)"
    and "signal_deliver_pending valid (Some t) retval s um = (r, s1, um1)"
    and "user_rsp (tasks s2 t) = user_rsp (tasks s1 t) + 16" and "valid (user_rsp (tasks s2 t)) 88"
    and "\<forall>i < 11. um2 (user_rsp (tasks s2 t) + 8 * of_nat i) = um1 (user_rsp (tasks s2 t) + 8 * of_nat i)"
  shows "case sys_rt_sigreturn valid (Some t) s2 um2 of
      Inl e \<Rightarrow> False
    | Inr (r', s3) \<Rightarrow> r = Resume retval \<and> r' = Resume retval \<and>
        user_saved (tasks s3 t) = user_saved (tasks s t) \<and> user_rsp (tasks s3 t) = user_rsp (tasks s t) \<and>
        sig_blocked (tasks s3 t) = sig_blocked (tasks s t) \<and> (\<forall>u. u \<noteq> t \<longrightarrow> tasks s3 u = tasks s2 u)"
proof -
  let ?k = "tasks s t"
  define sig where "sig = ctz (sig_pending ?k AND NOT (sig_blocked ?k))"
  define sp where "sp = (user_rsp ?k - 104) AND NOT 0xF"
  define fr where "fr = frame_of (sig_handler ?k ! nat sig) sig retval ?k"
  have d: "r = Resume retval" "s1 = upd t (enter_handler sig sp (sig_restorer ?k ! nat sig)) s" "um1 = put_frame sp fr um"
    using assms(2) deliver_handled [OF assms(1)] by (simp_all add: sig_def sp_def fr_def Let_def)
  have rsp: "user_rsp (tasks s2 t) = sp + 16" using assms(3) d(2) by (simp add: upd_def enter_handler_def Let_def)
  have len: "length fr = 13" by (simp add: fr_def frame_of_def Let_def)
  have cell: "um2 (sp + 16 + 8 * of_nat i) = fr ! (i + 2)" if "i < 11" for i
  proof -
    have "sp + 16 + 8 * of_nat i = sp + 8 * of_nat (i + 2)" by (simp add: algebra_simps)
    then show ?thesis using assms(5) that rsp d(3) put_frame_read [of "i + 2" fr sp um] len by (simp add: add.assoc)
  qed
  show ?thesis using assms(4) rsp d(1) cell [of 0] cell [of 1] cell [of 2] cell [of 3] cell [of 4] cell [of 5]
      cell [of 6] cell [of 7] cell [of 8] cell [of 9] cell [of 10]
    by (simp add: sys_rt_sigreturn_def upd_def fr_def frame_of_def Let_def)
qed

section \<open>Signals that cannot be blocked\<close>

definition mask_ok :: "task \<Rightarrow> bool" where
  "mask_ok k \<longleftrightarrow> length (sig_handler k) = 32 \<and> length (sig_mask k) = 32 \<and>
    sig_blocked k AND unmaskable = 0 \<and> (\<forall>m \<in> set (sig_mask k). m AND unmaskable = 0) \<and>
    sig_handler k ! 9 = SIG_DFL_ADDR \<and> sig_handler k ! 19 = SIG_DFL_ADDR"

lemma clean_mask: "((x :: u64) AND NOT unmaskable) AND unmaskable = 0"
  by (simp add: bit_eq_iff bit_simps)

lemma clean_or: "(x :: u64) AND u = 0 \<Longrightarrow> y AND u = 0 \<Longrightarrow> (x OR y) AND u = 0"
  by (auto simp: bit_eq_iff bit_simps)

lemma clean_and: "(x :: u64) AND u = 0 \<Longrightarrow> (x AND y) AND u = 0"
  by (auto simp: bit_eq_iff bit_simps)

lemma sigbit_disjoint: "nat a \<noteq> nat b \<Longrightarrow> sigbit a AND sigbit b = 0"
  unfolding sigbit_def by (rule bit_word_eqI) (auto simp: bit_and_iff bit_exp_iff)

lemma sigbit_clean: "0 < sig \<Longrightarrow> sig \<noteq> 9 \<Longrightarrow> sig \<noteq> 19 \<Longrightarrow> sigbit sig AND unmaskable = 0"
  unfolding unmaskable_def SIGKILL_def SIGSTOP_def bit.conj_disj_distrib
  by (subst (1 2) sigbit_disjoint) (linarith, linarith, simp)

lemma sigaction_mask_ok:
  assumes "mask_ok (tasks s t)" and "sys_rt_sigaction valid sig act oldact (Some t) s um = (r, s', um')"
  shows "mask_ok (tasks s' t)"
proof (cases "sig = 9 \<or> sig = 19")
  case True
  with assms show ?thesis by (auto simp: sys_rt_sigaction_def split: if_splits)
next
  case False
  then have "unat sig \<noteq> 9" "unat sig \<noteq> 19" by (auto simp: word_unat_eq_iff)
  with assms show ?thesis
    by (auto simp: sys_rt_sigaction_def mask_ok_def Let_def upd_def clean_mask split: if_splits dest!: set_update_subset_insert [THEN subsetD])
qed

lemma sigprocmask_mask_ok:
  assumes "mask_ok (tasks s t)" and "sys_rt_sigprocmask valid how nset oldset (Some t) s um = (r, s', um')"
  shows "mask_ok (tasks s' t)"
  using assms
  by (auto simp: sys_rt_sigprocmask_def mask_ok_def Let_def upd_def clean_mask clean_or clean_and split: if_splits)

lemma enter_handler_mask_ok:
  assumes "mask_ok k" and "0 < sig" "sig < 32" and "sig_handler k ! nat sig \<noteq> SIG_DFL_ADDR"
  shows "mask_ok (enter_handler sig sp restorer k)"
proof -
  have ne: "sig \<noteq> 9" "sig \<noteq> 19" using assms(1,4) by (auto simp: mask_ok_def)
  have "sig_mask k ! nat sig AND unmaskable = 0" using assms(1-3) by (simp add: mask_ok_def)
  moreover have "nat sig \<noteq> 9" "nat sig \<noteq> 19" using ne assms(2) by linarith+
  ultimately show ?thesis using assms ne sigbit_clean [OF assms(2) ne]
    by (simp add: mask_ok_def enter_handler_def Let_def clean_or)
qed

lemma deliver_mask_ok:
  assumes "mask_ok (tasks s t)" and "signal_deliver_pending valid (Some t) retval s um = (r, s', um')"
  shows "mask_ok (tasks s' t)"
proof (cases "handled valid (tasks s t)")
  case True
  have "mask_ok (enter_handler sig sp restorer (tasks s t))"
    if "sig = ctz (sig_pending (tasks s t) AND NOT (sig_blocked (tasks s t)))" for sig sp restorer
    using True that by (intro enter_handler_mask_ok [OF assms(1)]) (simp_all add: handled_def Let_def NSIG_def)
  then show ?thesis using assms(2) unfolding deliver_handled [OF True] by (auto simp: Let_def upd_def)
next
  case False
  have keep: "mask_ok (k\<lparr>sig_pending := x\<rparr>) = mask_ok k" "mask_ok (k\<lparr>exit_code := c\<rparr>) = mask_ok k" for k x c
    by (simp_all add: mask_ok_def)
  from False assms show ?thesis
    by (auto simp: signal_deliver_pending_def handled_def Let_def upd_def signal_terminate_def keep split: if_splits)
qed

text \<open>C28: The two signals that cannot be blocked stay unblocked: \<open>sigaction\<close>, \<open>sigprocmask\<close> and the
  delivery of a signal keep them out of the task's mask and out of every handler's mask, and keep
  their default action. The return from a handler takes the mask from the user's frame as it is, so
  it keeps them out exactly when the frame does.\<close>

theorem unmaskable_stays_unmasked:
  assumes ok: "mask_ok (tasks s t)"
  shows "(case sys_rt_sigaction valid sig act oldact (Some t) s um of (r, s', um') \<Rightarrow> mask_ok (tasks s' t)) \<and>
    (case sys_rt_sigprocmask valid how nset oldset (Some t) s um of (r, s', um') \<Rightarrow> mask_ok (tasks s' t)) \<and>
    (case signal_deliver_pending valid (Some t) retval s um of (r, s', um') \<Rightarrow> mask_ok (tasks s' t)) \<and>
    (valid (user_rsp (tasks s t)) 88 \<longrightarrow> (case sys_rt_sigreturn valid (Some t) s um of
       Inl e \<Rightarrow> False
     | Inr (r, s') \<Rightarrow> mask_ok (tasks s' t) \<longleftrightarrow> um (user_rsp (tasks s t) + 80) AND unmaskable = 0))"
proof (intro conjI impI)
  show "case sys_rt_sigaction valid sig act oldact (Some t) s um of (r, s', um') \<Rightarrow> mask_ok (tasks s' t)"
    using sigaction_mask_ok [OF ok] by (simp split: prod.split)
  show "case sys_rt_sigprocmask valid how nset oldset (Some t) s um of (r, s', um') \<Rightarrow> mask_ok (tasks s' t)"
    using sigprocmask_mask_ok [OF ok] by (simp split: prod.split)
  show "case signal_deliver_pending valid (Some t) retval s um of (r, s', um') \<Rightarrow> mask_ok (tasks s' t)"
    using deliver_mask_ok [OF ok] by (simp split: prod.split)
  assume "valid (user_rsp (tasks s t)) 88"
  then show "case sys_rt_sigreturn valid (Some t) s um of Inl e \<Rightarrow> False
     | Inr (r, s') \<Rightarrow> mask_ok (tasks s' t) \<longleftrightarrow> um (user_rsp (tasks s t) + 80) AND unmaskable = 0"
    using ok by (simp add: sys_rt_sigreturn_def mask_ok_def Let_def upd_def)
qed

section \<open>The queue of a signal descriptor\<close>

definition sfd_inv :: "signalfd \<Rightarrow> bool" where
  "sfd_inv d \<longleftrightarrow> length (sfd_queue d) = 32 \<and> sfd_head d < 32 \<and> sfd_count d \<le> 32 \<and>
    sfd_tail d = (sfd_head d + sfd_count d) mod 32"

definition sfd_sigs :: "signalfd \<Rightarrow> u32 list" where
  "sfd_sigs d = ring (sfd_queue d) (sfd_head d) (sfd_count d)"

definition sfd_get :: "signalfd \<Rightarrow> u32 \<times> signalfd" where
  "sfd_get d = (sfd_queue d ! sfd_head d, d\<lparr>sfd_head := (sfd_head d + 1) mod SFD_QUEUE, sfd_count := sfd_count d - 1\<rparr>)"

interpretation sq: fifo sfd_sigs 32 sfd_inv sfd_push sfd_get
proof
  fix d x
  assume i: "sfd_inv d" and room: "length (sfd_sigs d) < 32"
  then have n: "sfd_count d < 32" by (simp add: sfd_sigs_def)
  have "sfd_sigs (sfd_push x d) = sfd_sigs d @ [x]"
    using i n ring_put [of "sfd_count d" "sfd_queue d" "sfd_head d" x] by (simp add: sfd_inv_def sfd_sigs_def sfd_push_def SFD_QUEUE_def)
  moreover have "((sfd_head d + sfd_count d) mod 32 + 1) mod 32 = (sfd_head d + Suc (sfd_count d)) mod 32"
    by (simp add: mod_Suc_eq)
  ultimately show "sfd_inv (sfd_push x d) \<and> sfd_sigs (sfd_push x d) = sfd_sigs d @ [x]"
    using i n by (simp add: sfd_inv_def sfd_push_def SFD_QUEUE_def)
next
  fix d x d'
  assume i: "sfd_inv d" and ne: "sfd_sigs d \<noteq> []" and g: "sfd_get d = (x, d')"
  obtain n where n: "sfd_count d = Suc n" using ne by (cases "sfd_count d") (simp_all add: sfd_sigs_def)
  have "((sfd_head d + 1) mod 32 + n) mod 32 = (sfd_head d + Suc n) mod 32" by (subst mod_add_left_eq) simp
  then show "sfd_inv d' \<and> sfd_sigs d = x # sfd_sigs d'"
    using i g n ring_get [of "sfd_queue d" "sfd_head d" n] by (auto simp: sfd_get_def sfd_inv_def sfd_sigs_def SFD_QUEUE_def)
qed

lemma sfd_pop_drain: "sfd_pop n d = sq.drain n d"
  by (induction n arbitrary: d)
    (simp_all add: sfd_get_def sfd_sigs_def ring_def split: prod.split)

text \<open>The ring of a signal descriptor is a bounded queue: a delivery appends while fewer than 32
  signals wait, and a read takes the oldest ones, as many as fit its buffer, and keeps the rest.\<close>

theorem signalfd_queue_fifo:
  assumes "sfd_inv d"
  shows "sfd_inv (sfd_push sig d) \<and>
    sfd_sigs (sfd_push sig d) = (if length (sfd_sigs d) < 32 then sfd_sigs d @ [sig] else sfd_sigs d) \<and>
    (case sfd_read_pass len me d of
       (Done (Inr sigs), d') \<Rightarrow> sfd_inv d' \<and> sfd_sigs d = sigs @ sfd_sigs d' \<and>
          length sigs = min (len div 128) (length (sfd_sigs d)) \<and> sigs \<noteq> []
     | (_, d') \<Rightarrow> sfd_inv d' \<and> sfd_sigs d' = sfd_sigs d)"
proof (intro conjI)
  have push: "sfd_inv (sfd_push sig d) \<and>
    sfd_sigs (sfd_push sig d) = (if length (sfd_sigs d) < 32 then sfd_sigs d @ [sig] else sfd_sigs d)"
    using sq.put_ok [OF assms, of sig] assms by (auto simp: sfd_push_def SFD_QUEUE_def sfd_sigs_def)
  then show "sfd_inv (sfd_push sig d)"
    and "sfd_sigs (sfd_push sig d) = (if length (sfd_sigs d) < 32 then sfd_sigs d @ [sig] else sfd_sigs d)" by blast+
  show "case sfd_read_pass len me d of
       (Done (Inr sigs), d') \<Rightarrow> sfd_inv d' \<and> sfd_sigs d = sigs @ sfd_sigs d' \<and>
          length sigs = min (len div 128) (length (sfd_sigs d)) \<and> sigs \<noteq> []
     | (_, d') \<Rightarrow> sfd_inv d' \<and> sfd_sigs d' = sfd_sigs d"
  proof (cases "128 \<le> len \<and> sfd_count d \<noteq> 0")
    case True
    obtain sigs d' where p: "sfd_pop (len div 128) d = (sigs, d')" by (cases "sfd_pop (len div 128) d")
    note spec = sq.drain_spec [OF assms p [unfolded sfd_pop_drain]]
    have "0 < min (len div 128) (length (sfd_sigs d))" using True by (auto simp: sfd_sigs_def div_greater_zero_iff)
    with spec have ne: "sigs \<noteq> []" by (metis length_greater_0_conv)
    have eq: "sfd_read_pass len me d = (Done (Inr sigs), d')" using True p by (simp add: sfd_read_pass_def)
    show ?thesis unfolding eq prod.case pass.case sum.case using spec ne by blast
  next
    case False
    then show ?thesis using assms by (auto simp: sfd_read_pass_def sfd_sigs_def sfd_inv_def)
  qed
qed

text \<open>Delivery into descriptors that are all full.\<close>

definition sfd_takes :: "u32 \<Rightarrow> int \<Rightarrow> signalfd \<Rightarrow> bool" where
  "sfd_takes p sig d \<longleftrightarrow> owner_pid d = p \<and> sfd_mask d AND sigbit sig \<noteq> 0"

lemma deliver_loop_full:
  assumes "\<forall>i. Some i \<in> set ds \<longrightarrow> sfd_takes p sig (sfds s i) \<longrightarrow> sfd_count (sfds s i) = 32"
    and "deliver_loop ds p sig taken s = (taken', s')"
  shows "sfd_sigs (sfds s' i) = sfd_sigs (sfds s i) \<and> sig_pending (tasks s' t) = sig_pending (tasks s t) \<and>
    (taken' \<longleftrightarrow> taken \<or> (\<exists>i. Some i \<in> set ds \<and> sfd_takes p sig (sfds s i)))"
  using assms
proof (induction ds p sig taken s rule: deliver_loop.induct)
  case (3 j ds p sig taken s)
  let ?d = "sfds s j"
  show ?case
  proof (cases "sfd_takes p sig ?d")
    case False
    with "3.prems"(2) have "deliver_loop ds p sig taken s = (taken', s')"
      by (auto simp: sfd_takes_def Let_def split: if_splits)
    with False "3.IH"(1,2) [OF refl] "3.prems"(1) show ?thesis by (auto simp: sfd_takes_def)
  next
    case True
    let ?s1 = "s\<lparr>sfds := (sfds s)(j := (sfd_push (of_int sig) ?d)\<lparr>waiter := None\<rparr>)\<rparr>"
    let ?s2 = "task_unblock (waiter ?d) ?s1"
    have d: "deliver_loop ds p sig True ?s2 = (taken', s')"
      using True "3.prems"(2) by (auto simp: sfd_takes_def Let_def split: if_splits)
    have full: "sfd_push (of_int sig) ?d = ?d" using True "3.prems"(1) by (simp add: sfd_push_def SFD_QUEUE_def)
    have same: "sfds ?s2 i = (if i = j then ?d\<lparr>waiter := None\<rparr> else sfds s i)" for i
      by (simp add: full task_unblock_def enqueue_global_def upd_def Let_def split: option.splits)
    have pend: "sig_pending (tasks ?s2 u) = sig_pending (tasks s u)" for u
      by (simp add: task_unblock_def enqueue_global_def upd_def Let_def split: option.splits)
    have "\<forall>i. Some i \<in> set ds \<longrightarrow> sfd_takes p sig (sfds ?s2 i) \<longrightarrow> sfd_count (sfds ?s2 i) = 32"
      using "3.prems"(1) by (simp add: same sfd_takes_def)
    moreover have "owner_pid ?d = p" "sfd_mask ?d AND sigbit sig \<noteq> 0" using True by (simp_all add: sfd_takes_def)
    ultimately have "sfd_sigs (sfds s' i) = sfd_sigs (sfds ?s2 i) \<and> sig_pending (tasks s' t) = sig_pending (tasks ?s2 t) \<and> taken'"
      using "3.IH"(3) [OF refl _ _ refl _ d] by simp
    then show ?thesis using True by (auto simp: same pend sfd_sigs_def)
  qed
qed auto

text \<open>When every descriptor that asks for a signal has a full queue, the signal is lost: it is
  reported as taken, so it becomes pending for no task, and no queue changes.\<close>

theorem signalfd_full_loses_signal:
  assumes "0 < sig" and "sig < NSIG" and "sig \<noteq> SIGKILL"
    and "Some i \<in> set (g_sfds s)" and "sfd_takes (pid (tasks s t)) sig (sfds s i)"
    and "\<forall>i. Some i \<in> set (g_sfds s) \<longrightarrow> sfd_takes (pid (tasks s t)) sig (sfds s i) \<longrightarrow> sfd_count (sfds s i) = 32"
  shows "sig_pending (tasks (signal_send (Some t) sig s) u) = sig_pending (tasks s u) \<and>
    sfd_sigs (sfds (signal_send (Some t) sig s) j) = sfd_sigs (sfds s j)"
proof -
  obtain taken s' where d: "deliver_loop (g_sfds s) (pid (tasks s t)) sig False s = (taken, s')"
    by (cases "deliver_loop (g_sfds s) (pid (tasks s t)) sig False s")
  note full = deliver_loop_full [OF assms(6) d]
  have "taken" using full assms(4,5) by blast
  then have "signal_send (Some t) sig s = s'"
    using assms(1-3) d by (simp add: signal_send_def signalfd_deliver_def NSIG_def)
  with full show ?thesis by simp
qed


section \<open>Witnesses\<close>

text \<open>A user task with a handler for every signal and the first one pending, in any scheduler state.\<close>

definition sig_demo :: "sched \<Rightarrow> sched" where
  "sig_demo s = upd (Task 0) (\<lambda>k. k\<lparr>is_userspace := True, sig_pending := 2, sig_blocked := 0,
     sig_handler := replicate 32 0x400000, sig_restorer := replicate 32 0x500000, user_rsp := 0x7000\<rparr>) s"

lemma ctz_2: "ctz 2 = 1"
  by (simp add: ctz_def upt_rec)

lemma sig_demo_handled: "handled (\<lambda>_ _. True) (tasks (sig_demo s) (Task 0))"
  by (simp add: handled_def sig_demo_def upd_def ctz_2 NSIG_def SIGKILL_def SIG_DFL_ADDR_def SIG_IGN_ADDR_def)

theorem signal_frame_roundtrip_witness:
  "\<forall>s um. handled (\<lambda>_ _. True) (tasks (sig_demo s) (Task 0)) \<and>
    (case signal_deliver_pending (\<lambda>_ _. True) (Some (Task 0)) 42 (sig_demo s) um of (r, s1, um1) \<Rightarrow>
      case sys_rt_sigreturn (\<lambda>_ _. True) (Some (Task 0)) (upd (Task 0) (\<lambda>k. k\<lparr>user_rsp := user_rsp k + 16\<rparr>) s1) um1 of
        Inl e \<Rightarrow> False
      | Inr (r', s3) \<Rightarrow> r' = Resume 42 \<and> user_rsp (tasks s3 (Task 0)) = user_rsp (tasks (sig_demo s) (Task 0)))"
proof (intro allI conjI)
  fix s um
  show "handled (\<lambda>_ _. True) (tasks (sig_demo s) (Task 0))" by (rule sig_demo_handled)
  obtain r s1 um1 where d: "signal_deliver_pending (\<lambda>_ _. True) (Some (Task 0)) 42 (sig_demo s) um = (r, s1, um1)"
    by (cases "signal_deliver_pending (\<lambda>_ _. True) (Some (Task 0)) 42 (sig_demo s) um")
  let ?s2 = "upd (Task 0) (\<lambda>k. k\<lparr>user_rsp := user_rsp k + 16\<rparr>) s1"
  have "user_rsp (tasks ?s2 (Task 0)) = user_rsp (tasks s1 (Task 0)) + 16" by (simp add: upd_def)
  from signal_frame_roundtrip [OF sig_demo_handled d this, of um1] d
  show "case signal_deliver_pending (\<lambda>_ _. True) (Some (Task 0)) 42 (sig_demo s) um of (r, s1, um1) \<Rightarrow>
      case sys_rt_sigreturn (\<lambda>_ _. True) (Some (Task 0)) (upd (Task 0) (\<lambda>k. k\<lparr>user_rsp := user_rsp k + 16\<rparr>) s1) um1 of
        Inl e \<Rightarrow> False
      | Inr (r', s3) \<Rightarrow> r' = Resume 42 \<and> user_rsp (tasks s3 (Task 0)) = user_rsp (tasks (sig_demo s) (Task 0))"
    by (auto split: sum.splits)
qed

text \<open>A task with default actions and empty masks.\<close>

definition mask_demo :: "sched \<Rightarrow> sched" where
  "mask_demo s = upd (Task 0) (\<lambda>k. k\<lparr>sig_blocked := 0, sig_handler := replicate 32 0, sig_mask := replicate 32 0\<rparr>) s"

theorem unmaskable_witness:
  "\<forall>s um. mask_ok (tasks (mask_demo s) (Task 0)) \<and>
    (case sys_rt_sigprocmask (\<lambda>_ _. True) 2 0x1000 0 (Some (Task 0)) (mask_demo s) um of
       (r, s', um') \<Rightarrow> mask_ok (tasks s' (Task 0)))"
proof (intro allI)
  fix s um
  have ok: "mask_ok (tasks (mask_demo s) (Task 0))" by (simp add: mask_ok_def mask_demo_def upd_def SIG_DFL_ADDR_def)
  from unmaskable_stays_unmasked [OF ok, of "\<lambda>_ _. True" 1 0 0 um 2 "0x1000" 0 0] ok
  show "mask_ok (tasks (mask_demo s) (Task 0)) \<and>
    (case sys_rt_sigprocmask (\<lambda>_ _. True) 2 0x1000 0 (Some (Task 0)) (mask_demo s) um of
       (r, s', um') \<Rightarrow> mask_ok (tasks s' (Task 0)))" by simp
qed

definition sfd_demo :: "nat \<Rightarrow> signalfd" where
  "sfd_demo n = \<lparr>sfd_mask = - 1, sfd_queue = replicate 32 2, sfd_head = 0, sfd_tail = n mod 32, sfd_count = n,
     sfd_nonblock = False, owner_pid = 7, waiter = None\<rparr>"

theorem signalfd_queue_witness: "sfd_inv (sfd_demo 3) \<and> length (sfd_sigs (sfd_push 5 (sfd_demo 3))) = 4"
proof -
  have i: "sfd_inv (sfd_demo 3)" by (simp add: sfd_inv_def sfd_demo_def)
  from signalfd_queue_fifo [OF this, of 5] i show ?thesis by (simp add: sfd_sigs_def sfd_demo_def)
qed

theorem signalfd_full_witness:
  "\<forall>s u. sig_pending (tasks (signal_send (Some (Task 0)) 1
      (upd (Task 0) (\<lambda>k. k\<lparr>pid := 7\<rparr>) (s\<lparr>g_sfds := [Some 0], sfds := (\<lambda>_. sfd_demo 32)\<rparr>))) u) =
    sig_pending (tasks (upd (Task 0) (\<lambda>k. k\<lparr>pid := 7\<rparr>) s) u)"
proof (intro allI)
  fix s u
  let ?s = "upd (Task 0) (\<lambda>k. k\<lparr>pid := 7\<rparr>) (s\<lparr>g_sfds := [Some 0], sfds := (\<lambda>_. sfd_demo 32)\<rparr>)"
  have "sig_pending (tasks (signal_send (Some (Task 0)) 1 ?s) u) = sig_pending (tasks ?s u)"
    by (rule signalfd_full_loses_signal [where i = 0, THEN conjunct1])
      (simp_all add: NSIG_def SIGKILL_def upd_def sfd_takes_def sfd_demo_def sigbit_def)
  then show "sig_pending (tasks (signal_send (Some (Task 0)) 1 ?s) u) =
    sig_pending (tasks (upd (Task 0) (\<lambda>k. k\<lparr>pid := 7\<rparr>) s) u)" by (simp add: upd_def)
qed

end
