(* ===== verification/Fd.thy ===== *)
theory Fd
  imports Cervus_Prelude
begin

text \<open>
  Open files and descriptor tables of \<open>kernel/src/fs/vfs.c\<close>. The global array of open files is a list of
  \<open>vfs_file\<close> records, a file pointer an index into it; descriptor tables live in a list of their own, a
  table pointer is its position and a new table a new position. A vnode is named by a number; what
  \<open>vnode_unref\<close> does with it, once per released file, is recorded in \<open>unrefs\<close>.
\<close>

section \<open>State\<close>

definition VFS_MAX_OPEN_FILES :: nat where "VFS_MAX_OPEN_FILES = 512"
definition TASK_MAX_FDS :: nat where "TASK_MAX_FDS = 256"
definition FD_CLOEXEC :: u32 where "FD_CLOEXEC = 1"

record vfs_file =
  f_vnode :: "nat option"
  f_offset :: u64
  f_flags :: u32
  f_refcount :: int

record fd_entry =
  e_file :: "nat option"
  e_flags :: u32

record fd_table =
  entries :: "fd_entry list"
  refs :: int

record fd_state =
  open_files :: "vfs_file list"
  tables :: "fd_table list"
  unrefs :: "nat option list"

definition vfs_init :: fd_state where
  "vfs_init = \<lparr>open_files = replicate VFS_MAX_OPEN_FILES \<lparr>f_vnode = None, f_offset = 0, f_flags = 0, f_refcount = 0\<rparr>,
     tables = [], unrefs = []\<rparr>"

section \<open>Open files\<close>

definition upd_file :: "nat \<Rightarrow> (vfs_file \<Rightarrow> vfs_file) \<Rightarrow> fd_state \<Rightarrow> fd_state" where
  "upd_file i f st = st\<lparr>open_files := (open_files st)[i := f (open_files st ! i)]\<rparr>"

definition vfs_file_alloc :: "fd_state \<Rightarrow> nat option \<times> fd_state" where
  "vfs_file_alloc st = (case find_slot (\<lambda>f. f_refcount f = 0) (open_files st) of
     None \<Rightarrow> (None, st)
   | Some i \<Rightarrow> (Some i, upd_file i (\<lambda>_. \<lparr>f_vnode = None, f_offset = 0, f_flags = 0, f_refcount = 1\<rparr>) st))"

text \<open>
  \<open>vfs_file_free\<close> is not atomic: the decrement is one step, and the processor that saw the count at one
  then releases the vnode and clears the pointer.
\<close>

definition file_dec :: "nat \<Rightarrow> fd_state \<Rightarrow> int \<times> fd_state" where
  "file_dec i st = (f_refcount (open_files st ! i), upd_file i (\<lambda>f. f\<lparr>f_refcount := f_refcount f - 1\<rparr>) st)"

definition file_finish :: "nat \<Rightarrow> fd_state \<Rightarrow> fd_state" where
  "file_finish i st = upd_file i (\<lambda>f. f\<lparr>f_vnode := None\<rparr>) (st\<lparr>unrefs := unrefs st @ [f_vnode (open_files st ! i)]\<rparr>)"

definition vfs_file_free :: "nat option \<Rightarrow> fd_state \<Rightarrow> fd_state" where
  "vfs_file_free fp st = (case fp of
     None \<Rightarrow> st
   | Some i \<Rightarrow> let (old, st1) = file_dec i st in if old = 1 then file_finish i st1 else st1)"

definition fd_put :: "nat option \<Rightarrow> fd_state \<Rightarrow> fd_state" where
  "fd_put fp st = vfs_file_free fp st"

definition file_get :: "nat \<Rightarrow> fd_state \<Rightarrow> fd_state" where
  "file_get i st = upd_file i (\<lambda>f. f\<lparr>f_refcount := f_refcount f + 1\<rparr>) st"

section \<open>Tables\<close>

definition empty_entry :: fd_entry where
  "empty_entry = \<lparr>e_file = None, e_flags = 0\<rparr>"

definition upd_table :: "nat \<Rightarrow> (fd_table \<Rightarrow> fd_table) \<Rightarrow> fd_state \<Rightarrow> fd_state" where
  "upd_table tb g st = st\<lparr>tables := (tables st)[tb := g (tables st ! tb)]\<rparr>"

text \<open>\<open>mem\<close> is whether the allocation succeeds.\<close>

definition fd_table_create :: "bool \<Rightarrow> fd_state \<Rightarrow> nat option \<times> fd_state" where
  "fd_table_create mem st =
    (if \<not> mem then (None, st)
     else (Some (length (tables st)),
           st\<lparr>tables := tables st @ [\<lparr>entries = replicate TASK_MAX_FDS empty_entry, refs = 1\<rparr>]\<rparr>))"

text \<open>The loop of \<open>fd_table_clone\<close> over the entries of the source.\<close>

definition clone_entry :: "fd_entry \<Rightarrow> fd_entry list \<times> fd_state \<Rightarrow> fd_entry list \<times> fd_state" where
  "clone_entry e acc = (case acc of (es, st) \<Rightarrow> (case e_file e of
     None \<Rightarrow> (es @ [empty_entry], st)
   | Some i \<Rightarrow> (es @ [e], file_get i st)))"

definition fd_table_clone :: "bool \<Rightarrow> nat \<Rightarrow> fd_state \<Rightarrow> nat option \<times> fd_state" where
  "fd_table_clone mem src st =
    (if \<not> mem then (None, st)
     else case fold clone_entry (entries (tables st ! src)) ([], st) of
       (es, st1) \<Rightarrow> (Some (length (tables st1)), st1\<lparr>tables := tables st1 @ [\<lparr>entries = es, refs = 1\<rparr>]\<rparr>))"

definition close_now :: "fd_entry \<Rightarrow> bool" where
  "close_now e \<longleftrightarrow> e_file e \<noteq> None \<and> e_flags e AND FD_CLOEXEC \<noteq> 0"

definition fd_table_cloexec :: "nat \<Rightarrow> fd_state \<Rightarrow> fd_state" where
  "fd_table_cloexec tb st =
    (let es = entries (tables st ! tb);
         to_free = map e_file (filter close_now es)
     in fold vfs_file_free to_free
          (upd_table tb (\<lambda>t. t\<lparr>entries := map (\<lambda>e. if close_now e then empty_entry else e) es\<rparr>) st))"

definition fd_table_ref :: "nat \<Rightarrow> fd_state \<Rightarrow> fd_state" where
  "fd_table_ref tb st = upd_table tb (\<lambda>t. t\<lparr>refs := refs t + 1\<rparr>) st"

definition fd_table_destroy :: "nat \<Rightarrow> fd_state \<Rightarrow> fd_state" where
  "fd_table_destroy tb st =
    (let st1 = upd_table tb (\<lambda>t. t\<lparr>refs := refs t - 1\<rparr>) st in
     if refs (tables st1 ! tb) > 0 then st1
     else
       let es = entries (tables st1 ! tb);
           to_free = map e_file (filter (\<lambda>e. e_file e \<noteq> None) es)
       in fold vfs_file_free to_free
            (upd_table tb (\<lambda>t. t\<lparr>entries := map (\<lambda>e. e\<lparr>e_file := None\<rparr>) es\<rparr>) st1))"

section \<open>Descriptors\<close>

definition set_entry :: "nat \<Rightarrow> nat \<Rightarrow> fd_entry \<Rightarrow> fd_state \<Rightarrow> fd_state" where
  "set_entry tb fd e st = upd_table tb (\<lambda>t. t\<lparr>entries := (entries t)[fd := e]\<rparr>) st"

definition entry_of :: "nat \<Rightarrow> nat \<Rightarrow> fd_state \<Rightarrow> fd_entry" where
  "entry_of tb fd st = entries (tables st ! tb) ! fd"

text \<open>\<open>for (i = min_fd; i < TASK_MAX_FDS; i++) if (!entries[i].file)\<close>\<close>

definition free_fd :: "nat \<Rightarrow> nat \<Rightarrow> fd_state \<Rightarrow> nat option" where
  "free_fd tb min_fd st = find (\<lambda>i. e_file (entry_of tb i st) = None) [min_fd ..< TASK_MAX_FDS]"

definition fd_alloc :: "nat \<Rightarrow> nat \<Rightarrow> int \<Rightarrow> fd_state \<Rightarrow> nat result \<times> fd_state" where
  "fd_alloc tb file min_fd st =
    (if min_fd < 0 \<or> min_fd \<ge> int TASK_MAX_FDS then (Inl EINVAL, st)
     else case free_fd tb (nat min_fd) st of
       None \<Rightarrow> (Inl EMFILE, st)
     | Some i \<Rightarrow> (Inr i, set_entry tb i \<lparr>e_file = Some file, e_flags = 0\<rparr> st))"

definition bad_fd :: "int \<Rightarrow> bool" where
  "bad_fd fd \<longleftrightarrow> fd < 0 \<or> fd \<ge> int TASK_MAX_FDS"

definition fd_get :: "nat \<Rightarrow> int \<Rightarrow> fd_state \<Rightarrow> nat option \<times> fd_state" where
  "fd_get tb fd st =
    (if bad_fd fd then (None, st)
     else case e_file (entry_of tb (nat fd) st) of
       None \<Rightarrow> (None, st)
     | Some i \<Rightarrow> (Some i, file_get i st))"

definition fd_close :: "nat \<Rightarrow> int \<Rightarrow> fd_state \<Rightarrow> unit result \<times> fd_state" where
  "fd_close tb fd st =
    (if bad_fd fd then (Inl EBADF, st)
     else case e_file (entry_of tb (nat fd) st) of
       None \<Rightarrow> (Inl EBADF, st)
     | Some i \<Rightarrow> (Inr (), vfs_file_free (Some i) (set_entry tb (nat fd) empty_entry st)))"

definition fd_dup2 :: "nat \<Rightarrow> int \<Rightarrow> int \<Rightarrow> fd_state \<Rightarrow> int result \<times> fd_state" where
  "fd_dup2 tb oldfd newfd st =
    (if bad_fd oldfd \<or> bad_fd newfd then (Inl EBADF, st)
     else if oldfd = newfd then (Inr newfd, st)
     else case e_file (entry_of tb (nat oldfd) st) of
       None \<Rightarrow> (Inl EBADF, st)
     | Some src \<Rightarrow>
         let old_dst = e_file (entry_of tb (nat newfd) st);
             st1 = file_get src (set_entry tb (nat newfd) \<lparr>e_file = Some src, e_flags = 0\<rparr> st)
         in (Inr newfd, vfs_file_free old_dst st1))"

definition fd_set_flags :: "nat \<Rightarrow> int \<Rightarrow> u32 \<Rightarrow> fd_state \<Rightarrow> unit result \<times> fd_state" where
  "fd_set_flags tb fd flags st =
    (if bad_fd fd then (Inl EBADF, st)
     else let e = entry_of tb (nat fd) st in
       if e_file e = None then (Inl EBADF, st)
       else (Inr (), set_entry tb (nat fd) (e\<lparr>e_flags := flags\<rparr>) st))"

definition fd_get_flags :: "nat \<Rightarrow> int \<Rightarrow> fd_state \<Rightarrow> u32 result" where
  "fd_get_flags tb fd st =
    (if bad_fd fd then Inl EBADF
     else let e = entry_of tb (nat fd) st in if e_file e = None then Inl EBADF else Inr (e_flags e))"

text \<open>\<open>types\<close> is the type of each vnode; a file without a vnode answers \<open>-1\<close>.\<close>

definition vfs_fd_info :: "(nat \<Rightarrow> int) \<Rightarrow> nat \<Rightarrow> int \<Rightarrow> fd_state \<Rightarrow> (int \<times> u32) result" where
  "vfs_fd_info types tb fd st =
    (if bad_fd fd then Inl EBADF
     else case e_file (entry_of tb (nat fd) st) of
       None \<Rightarrow> Inl EBADF
     | Some i \<Rightarrow>
         let f = open_files st ! i
         in Inr (case f_vnode f of None \<Rightarrow> - 1 | Some v \<Rightarrow> types v, f_flags f))"

end
