(* ===== verification/Fd_Props.thy ===== *)
theory Fd_Props
  imports Fd
begin

text \<open>
  The reference counts of open files: each is the number of descriptors, in all tables, that name the
  file, plus the references callers hold between taking and releasing one.
\<close>

section \<open>Counting descriptors\<close>

definition fd_refs :: "fd_state \<Rightarrow> nat \<Rightarrow> nat" where
  "fd_refs st i = sum_list (map (\<lambda>t. count_list (map e_file (entries t)) (Some i)) (tables st))"

definition fd_wf :: "fd_state \<Rightarrow> bool" where
  "fd_wf st \<longleftrightarrow> length (open_files st) = 512 \<and>
    (\<forall>t \<in> set (tables st). length (entries t) = 256 \<and> (\<forall>e \<in> set (entries t). \<forall>i. e_file e = Some i \<longrightarrow> i < 512))"






section \<open>What each operation does to the slack\<close>

lemma upd_file_fields [simp]:
  "tables (upd_file i f st) = tables st" "length (open_files (upd_file i f st)) = length (open_files st)"
  "fd_refs (upd_file i f st) j = fd_refs st j" "fd_wf (upd_file i f st) = fd_wf st"
  by (simp_all add: upd_file_def fd_refs_def fd_wf_def)

lemma upd_table_fields [simp]:
  "open_files (upd_table tb g st) = open_files st" "length (tables (upd_table tb g st)) = length (tables st)"
  "unrefs (upd_table tb g st) = unrefs st"
  by (simp_all add: upd_table_def)

lemma free_tables [simp]: "tables (vfs_file_free fp st) = tables st" "length (open_files (vfs_file_free fp st)) = length (open_files st)"
  by (simp_all add: vfs_file_free_def file_dec_def file_finish_def upd_file_def Let_def split: option.splits)

lemma get_tables [simp]: "tables (file_get i st) = tables st" "length (open_files (file_get i st)) = length (open_files st)"
  by (simp_all add: file_get_def)

lemma fd_refs_free [simp]: "fd_refs (vfs_file_free fp st) j = fd_refs st j" "fd_wf (vfs_file_free fp st) = fd_wf st"
  by (simp_all add: fd_refs_def fd_wf_def)

lemma fd_refs_get [simp]: "fd_refs (file_get i st) j = fd_refs st j" "fd_wf (file_get i st) = fd_wf st"
  by (simp_all add: file_get_def)













section \<open>Runs\<close>




















text \<open>C35: Releasing a file is not atomic. When the last reference is given up on one processor and, between
  its decrement and its clean-up, another one opens a file, the second is given the same structure;
  the clean-up then drops a reference of the second file's vnode and leaves it without a vnode.\<close>

theorem file_free_race:
  assumes "i < length (open_files st)" and "f_refcount (open_files st ! i) = 1"
    and "\<forall>j < i. f_refcount (open_files st ! j) \<noteq> 0"
    and "file_dec i st = (old, st1)" and "vfs_file_alloc st1 = (r, st2)"
    and "st3 = upd_file i (\<lambda>f. f\<lparr>f_vnode := Some v\<rparr>) st2" and "st4 = file_finish i st3"
  shows "old = 1 \<and> r = Some i \<and> f_refcount (open_files st4 ! i) = 1 \<and> f_vnode (open_files st4 ! i) = None \<and>
    unrefs st4 = unrefs st @ [Some v]"
proof -
  have st1: "old = 1" "st1 = upd_file i (\<lambda>f. f\<lparr>f_refcount := 0\<rparr>) st"
    using assms(2,4) by (simp_all add: file_dec_def upd_file_def)
  have "find_slot (\<lambda>f. f_refcount f = 0) (open_files st1) = Some i"
    using assms(1,3) by (intro find_slot_SomeI) (auto simp: st1 upd_file_def nth_list_update)
  with assms(1,5) st1 show ?thesis unfolding assms(6,7)
    by (auto simp: vfs_file_alloc_def file_finish_def upd_file_def)
qed

section \<open>Witnesses\<close>

definition fd_demo1 :: fd_state where
  "fd_demo1 = upd_file 0 (\<lambda>f. f\<lparr>f_vnode := Some 7, f_flags := 0\<rparr>) (snd (vfs_file_alloc vfs_init))"

lemma fd_demo_alloc: "vfs_file_alloc vfs_init = (Some 0, snd (vfs_file_alloc vfs_init))"
proof -
  have "find_slot (\<lambda>f. f_refcount f = 0) (open_files vfs_init) = Some 0"
    by (rule find_slot_SomeI) (simp_all add: vfs_init_def VFS_MAX_OPEN_FILES_def)
  then show ?thesis by (simp add: vfs_file_alloc_def)
qed


theorem file_free_race_witness:
  "let st1 = snd (file_dec 0 fd_demo1); st2 = snd (vfs_file_alloc st1);
       st4 = file_finish 0 (upd_file 0 (\<lambda>f. f\<lparr>f_vnode := Some 9\<rparr>) st2)
   in f_vnode (open_files st4 ! 0) = None \<and> f_refcount (open_files st4 ! 0) = 1"
proof -
  have "0 < length (open_files fd_demo1)" "f_refcount (open_files fd_demo1 ! 0) = 1"
    using fd_demo_alloc
    by (simp_all add: fd_demo1_def upd_file_def vfs_file_alloc_def vfs_init_def VFS_MAX_OPEN_FILES_def split: option.splits)
  from file_free_race [OF this _ prod.collapse [symmetric] prod.collapse [symmetric] refl refl, of 9]
  show ?thesis by (simp add: Let_def)
qed

end
