(* ===== verification/Flock.thy ===== *)
theory Flock
  imports Cervus_Prelude
begin

text \<open>
  Record locks on files, \<open>kernel/src/fs/flock.c\<close>: a global table of byte ranges, each with its vnode,
  its owner and its type. The test for a conflict and the change of the table are two critical
  sections, which \<open>vfs_lock_set\<close> enters one after the other. Vnodes and owners are numbers, the null
  vnode is \<open>None\<close>.
\<close>

section \<open>State\<close>

definition VFS_MAX_LOCKS :: nat where "VFS_MAX_LOCKS = 256"

datatype lock_type = VFS_LOCK_READ | VFS_LOCK_WRITE | VFS_LOCK_UNLOCK

record file_lock =
  l_used :: bool
  l_vnode :: nat
  l_start :: u64
  l_end :: u64
  l_type :: lock_type
  l_owner :: int

type_synonym lock_table = "file_lock list"

definition overlaps :: "file_lock \<Rightarrow> u64 \<Rightarrow> u64 \<Rightarrow> bool" where
  "overlaps l s e \<longleftrightarrow> l_start l \<le> e \<and> s \<le> l_end l"

section \<open>The table\<close>

definition lock_insert :: "nat \<Rightarrow> u64 \<Rightarrow> u64 \<Rightarrow> lock_type \<Rightarrow> int \<Rightarrow> lock_table \<Rightarrow> unit result \<times> lock_table" where
  "lock_insert vnode s e ty owner ls = (case find_slot (\<lambda>l. \<not> l_used l) ls of
     None \<Rightarrow> (Inl ENOLCK, ls)
   | Some i \<Rightarrow> (Inr (), ls[i := \<lparr>l_used = True, l_vnode = vnode, l_start = s, l_end = e, l_type = ty, l_owner = owner\<rparr>]))"

text \<open>The loop of \<open>lock_clear_range\<close> over the slots; the pieces left of a cut lock are stored at once.\<close>

fun clear_loop :: "nat list \<Rightarrow> nat \<Rightarrow> u64 \<Rightarrow> u64 \<Rightarrow> int \<Rightarrow> lock_table \<Rightarrow> unit result \<times> lock_table" where
  "clear_loop [] vnode s e owner ls = (Inr (), ls)"
| "clear_loop (i # is) vnode s e owner ls =
    (let l = ls ! i in
     if \<not> l_used l \<or> l_vnode l \<noteq> vnode \<or> l_owner l \<noteq> owner then clear_loop is vnode s e owner ls
     else if \<not> overlaps l s e then clear_loop is vnode s e owner ls
     else
       let ls1 = ls[i := l\<lparr>l_used := False\<rparr>] in
       case (if l_start l < s then lock_insert vnode (l_start l) (s - 1) (l_type l) owner ls1 else (Inr (), ls1)) of
         (Inl r, ls2) \<Rightarrow> (Inl r, ls2)
       | (Inr _, ls2) \<Rightarrow>
           (case (if e < l_end l then lock_insert vnode (e + 1) (l_end l) (l_type l) owner ls2 else (Inr (), ls2)) of
              (Inl r, ls3) \<Rightarrow> (Inl r, ls3)
            | (Inr _, ls3) \<Rightarrow> clear_loop is vnode s e owner ls3))"

definition lock_clear_range :: "nat \<Rightarrow> u64 \<Rightarrow> u64 \<Rightarrow> int \<Rightarrow> lock_table \<Rightarrow> unit result \<times> lock_table" where
  "lock_clear_range vnode s e owner ls = clear_loop [0 ..< length ls] vnode s e owner ls"

section \<open>Operations\<close>

definition conflicting :: "nat \<Rightarrow> lock_type \<Rightarrow> u64 \<Rightarrow> u64 \<Rightarrow> int \<Rightarrow> file_lock \<Rightarrow> bool" where
  "conflicting vnode ty s e owner l \<longleftrightarrow> l_used l \<and> l_vnode l = vnode \<and> l_owner l \<noteq> owner \<and> overlaps l s e \<and>
    \<not> (ty = VFS_LOCK_READ \<and> l_type l = VFS_LOCK_READ)"

text \<open>\<open>vfs_lock_test\<close> with the lock it reports to the caller.\<close>

definition vfs_lock_test ::
  "nat option \<Rightarrow> lock_type \<Rightarrow> u64 \<Rightarrow> u64 \<Rightarrow> int \<Rightarrow> lock_table \<Rightarrow> unit result \<times> file_lock option" where
  "vfs_lock_test vp ty s e owner ls = (case vp of
     None \<Rightarrow> (Inl EINVAL, None)
   | Some vnode \<Rightarrow> (case find (conflicting vnode ty s e owner) ls of
       None \<Rightarrow> (Inr (), None)
     | Some l \<Rightarrow> (Inl EAGAIN, Some l)))"

text \<open>The second critical section of \<open>vfs_lock_set\<close>.\<close>

definition lock_apply :: "nat \<Rightarrow> lock_type \<Rightarrow> u64 \<Rightarrow> u64 \<Rightarrow> int \<Rightarrow> lock_table \<Rightarrow> unit result \<times> lock_table" where
  "lock_apply vnode ty s e owner ls = (case lock_clear_range vnode s e owner ls of
     (Inl r, ls1) \<Rightarrow> (Inl r, ls1)
   | (Inr _, ls1) \<Rightarrow>
       if ty \<noteq> VFS_LOCK_UNLOCK then lock_insert vnode s e ty owner ls1 else (Inr (), ls1))"

definition vfs_lock_set ::
  "nat option \<Rightarrow> lock_type \<Rightarrow> u64 \<Rightarrow> u64 \<Rightarrow> int \<Rightarrow> lock_table \<Rightarrow> unit result \<times> lock_table" where
  "vfs_lock_set vp ty s e owner ls = (case vp of
     None \<Rightarrow> (Inl EINVAL, ls)
   | Some vnode \<Rightarrow>
       (case (if ty \<noteq> VFS_LOCK_UNLOCK then fst (vfs_lock_test vp ty s e owner ls) else Inr ()) of
          Inl r \<Rightarrow> (Inl r, ls)
        | Inr _ \<Rightarrow> lock_apply vnode ty s e owner ls))"

definition vfs_lock_release_owner :: "int \<Rightarrow> lock_table \<Rightarrow> lock_table" where
  "vfs_lock_release_owner owner ls = map (\<lambda>l. if l_used l \<and> l_owner l = owner then l\<lparr>l_used := False\<rparr> else l) ls"

definition vfs_lock_release_vnode :: "nat \<Rightarrow> int \<Rightarrow> lock_table \<Rightarrow> lock_table" where
  "vfs_lock_release_vnode vnode owner ls =
    map (\<lambda>l. if l_used l \<and> l_vnode l = vnode \<and> l_owner l = owner then l\<lparr>l_used := False\<rparr> else l) ls"

end
