(* ===== verification/Flock_Props.thy ===== *)
theory Flock_Props
  imports Flock
begin

text \<open>
  What record locks guarantee, in terms of bytes: which type of lock an owner has on each byte of each
  file.
\<close>

section \<open>Bytes under lock\<close>

definition covers :: "lock_table \<Rightarrow> nat \<Rightarrow> int \<Rightarrow> u64 \<Rightarrow> lock_type \<Rightarrow> bool" where
  "covers ls v p b ty \<longleftrightarrow> (\<exists>l \<in> set ls. l_used l \<and> l_vnode l = v \<and> l_owner l = p \<and> l_start l \<le> b \<and> b \<le> l_end l \<and> l_type l = ty)"

definition lock_holds :: "file_lock \<Rightarrow> nat \<Rightarrow> int \<Rightarrow> u64 \<Rightarrow> lock_type \<Rightarrow> bool" where
  "lock_holds l v p b ty \<longleftrightarrow> l_used l \<and> l_vnode l = v \<and> l_owner l = p \<and> l_start l \<le> b \<and> b \<le> l_end l \<and> l_type l = ty"

lemma covers_nth: "covers ls v p b ty \<longleftrightarrow> (\<exists>i < length ls. lock_holds (ls ! i) v p b ty)"
  unfolding covers_def lock_holds_def by (metis in_set_conv_nth)

lemma covers_update:
  assumes "i < length ls"
  shows "covers (ls[i := l]) v p b ty \<longleftrightarrow> (\<exists>j < length ls. j \<noteq> i \<and> lock_holds (ls ! j) v p b ty) \<or> lock_holds l v p b ty"
  using assms unfolding covers_nth by (auto simp: nth_list_update)

lemma covers_split:
  assumes "i < length ls"
  shows "covers ls v p b ty \<longleftrightarrow> (\<exists>j < length ls. j \<noteq> i \<and> lock_holds (ls ! j) v p b ty) \<or> lock_holds (ls ! i) v p b ty"
  using assms unfolding covers_nth by blast

text \<open>Dropping a lock and storing one.\<close>

lemma covers_drop:
  assumes "i < length ls"
  shows "covers ls v p b ty \<longleftrightarrow> covers (ls[i := (ls ! i)\<lparr>l_used := False\<rparr>]) v p b ty \<or> lock_holds (ls ! i) v p b ty"
  unfolding covers_update [OF assms] covers_split [OF assms] by (auto simp: lock_holds_def)

abbreviation new_lock :: "nat \<Rightarrow> u64 \<Rightarrow> u64 \<Rightarrow> lock_type \<Rightarrow> int \<Rightarrow> file_lock" where
  "new_lock v s e ty p \<equiv> \<lparr>l_used = True, l_vnode = v, l_start = s, l_end = e, l_type = ty, l_owner = p\<rparr>"

lemma lock_insert_cases:
  assumes "lock_insert v s e ty p ls = (r, ls')"
  obtains (full) "r = Inl ENOLCK" "ls' = ls"
    | (stored) i where "i < length ls" "\<not> l_used (ls ! i)" "r = Inr ()" "ls' = ls[i := new_lock v s e ty p]"
proof (cases "find_slot (\<lambda>l. \<not> l_used l) ls")
  case None
  with assms full show ?thesis by (simp add: lock_insert_def)
next
  case (Some i)
  with assms stored [of i] find_slot_SomeD [OF Some] show ?thesis by (simp add: lock_insert_def)
qed

lemma covers_insert:
  assumes "lock_insert v' s e ty' p' ls = (Inr u, ls')"
  shows "covers ls' v p b ty \<longleftrightarrow> covers ls v p b ty \<or> v = v' \<and> p = p' \<and> s \<le> b \<and> b \<le> e \<and> ty = ty'"
  using assms
proof (cases rule: lock_insert_cases)
  case (stored i)
  then show ?thesis by (auto simp: covers_update [OF stored(1)] covers_split [OF stored(1)] lock_holds_def)
qed simp

lemma length_insert: "lock_insert v s e ty p ls = (r, ls') \<Longrightarrow> length ls' = length ls"
  by (erule lock_insert_cases) (simp_all only: length_list_update)

lemma nth_insert:
  assumes "lock_insert v s e ty p ls = (r, ls')" and "j < length ls"
  shows "ls' ! j = ls ! j \<or> ls' ! j = new_lock v s e ty p"
  using assms(1)
proof (cases rule: lock_insert_cases)
  case (stored i)
  then show ?thesis using assms(2) by (cases "j = i") simp_all
qed simp

section \<open>Clearing a range\<close>

definition mine :: "nat \<Rightarrow> int \<Rightarrow> u64 \<Rightarrow> u64 \<Rightarrow> file_lock \<Rightarrow> bool" where
  "mine v p s e l \<longleftrightarrow> l_used l \<and> l_vnode l = v \<and> l_owner l = p \<and> overlaps l s e"

lemma below_iff: "(l :: u64) < s \<Longrightarrow> b \<le> s - 1 \<longleftrightarrow> b < s"
proof -
  assume "l < s"
  then have "s \<noteq> 0" by auto
  then have "unat (s - 1) = unat s - 1" "0 < unat s" by (simp_all add: unat_minus_one unat_gt_0)
  then show ?thesis by (auto simp: word_le_nat_alt word_less_nat_alt)
qed

lemma above_iff: "(e :: u64) < h \<Longrightarrow> e + 1 \<le> b \<longleftrightarrow> e < b"
proof -
  assume "e < h"
  then have "unat e + 1 < 2 ^ 64" using unsigned_less [of h, where ?'a = nat] by (simp add: word_less_nat_alt)
  then have "unat (e + 1) = unat e + 1" by (simp add: unat_word_ariths)
  then show ?thesis by (auto simp: word_le_nat_alt word_less_nat_alt)
qed

text \<open>
  One cut: dropping the lock of slot \<open>i\<close> and storing what stands out of the range to its left and to
  its right keeps every byte outside the range, and brings back nothing inside.
\<close>

definition in_range :: "nat \<Rightarrow> int \<Rightarrow> u64 \<Rightarrow> u64 \<Rightarrow> nat \<Rightarrow> int \<Rightarrow> u64 \<Rightarrow> bool" where
  "in_range v p s e v' p' b \<longleftrightarrow> v' = v \<and> p' = p \<and> s \<le> b \<and> b \<le> e"

definition cleared :: "nat \<Rightarrow> int \<Rightarrow> u64 \<Rightarrow> u64 \<Rightarrow> lock_table \<Rightarrow> lock_table \<Rightarrow> bool" where
  "cleared v p s e ls ls' \<longleftrightarrow> length ls' = length ls \<and>
    (\<forall>v' p' b ty. (covers ls' v' p' b ty \<longrightarrow> covers ls v' p' b ty) \<and>
       (\<not> in_range v p s e v' p' b \<longrightarrow> covers ls v' p' b ty \<longrightarrow> covers ls' v' p' b ty))"

lemma cut_covers:
  assumes i: "i < length ls" and l: "mine v p s e (ls ! i)"
    and left: "(if l_start (ls ! i) < s then lock_insert v (l_start (ls ! i)) (s - 1) (l_type (ls ! i)) p
        (ls[i := (ls ! i)\<lparr>l_used := False\<rparr>]) else (Inr (), ls[i := (ls ! i)\<lparr>l_used := False\<rparr>])) = (Inr u, ls2)"
    and right: "(if e < l_end (ls ! i) then lock_insert v (e + 1) (l_end (ls ! i)) (l_type (ls ! i)) p ls2 else (Inr (), ls2)) = (Inr u', ls3)"
    and se: "s \<le> e"
  shows "cleared v p s e ls ls3" and "j < length ls \<Longrightarrow> mine v p s e (ls3 ! j) \<Longrightarrow> j \<noteq> i \<and> mine v p s e (ls ! j)"
proof -
  let ?l = "ls ! i"
  let ?ls1 = "ls[i := ?l\<lparr>l_used := False\<rparr>]"
  have own: "l_used ?l" "l_vnode ?l = v" "l_owner ?l = p" "l_start ?l \<le> e" "s \<le> l_end ?l"
    using l by (auto simp: mine_def overlaps_def)
  have c2: "covers ls2 v' p' b ty \<longleftrightarrow> covers ?ls1 v' p' b ty \<or>
      l_start ?l < s \<and> v' = v \<and> p' = p \<and> l_start ?l \<le> b \<and> b < s \<and> ty = l_type ?l" for v' p' b ty
  proof (cases "l_start ?l < s")
    case True
    with left have "lock_insert v (l_start ?l) (s - 1) (l_type ?l) p ?ls1 = (Inr u, ls2)" by simp
    from covers_insert [OF this] below_iff [OF True] True show ?thesis by simp
  qed (use left in simp)
  have c3: "covers ls3 v' p' b ty \<longleftrightarrow> covers ls2 v' p' b ty \<or>
      e < l_end ?l \<and> v' = v \<and> p' = p \<and> e < b \<and> b \<le> l_end ?l \<and> ty = l_type ?l" for v' p' b ty
  proof (cases "e < l_end ?l")
    case True
    with right have "lock_insert v (e + 1) (l_end ?l) (l_type ?l) p ls2 = (Inr u', ls3)" by simp
    from covers_insert [OF this] above_iff [OF True] True show ?thesis by simp
  qed (use right in simp)
  have len2: "length ls2 = length ls" using left length_insert [of v "l_start ?l" "s - 1" "l_type ?l" p ?ls1] by (auto split: if_splits)
  have len: "length ls3 = length ls" using right len2 length_insert [of v "e + 1" "l_end ?l" "l_type ?l" p ls2] by (auto split: if_splits)
  have d: "covers ls v' p' b ty \<longleftrightarrow> covers ?ls1 v' p' b ty \<or> v' = v \<and> p' = p \<and> l_start ?l \<le> b \<and> b \<le> l_end ?l \<and> ty = l_type ?l"
    for v' p' b ty using covers_drop [OF i] own by (auto simp: lock_holds_def)
  show "cleared v p s e ls ls3"
    unfolding cleared_def
  proof (intro conjI allI impI)
    fix v' p' b ty
    show "covers ls v' p' b ty" if "covers ls3 v' p' b ty"
      using that own(4,5) se unfolding c3 c2 d by (meson le_less_trans less_imp_le less_le_trans order_trans)
    show "covers ls3 v' p' b ty" if "\<not> in_range v p s e v' p' b" "covers ls v' p' b ty"
      using that unfolding c3 c2 d in_range_def by (meson le_less_trans less_le_trans not_le)
  qed (rule len)
  show "j \<noteq> i \<and> mine v p s e (ls ! j)" if j: "j < length ls" "mine v p s e (ls3 ! j)"
  proof -
    have "ls3 ! j = ls2 ! j"
    proof (cases "e < l_end ?l")
      case True
      with right have "lock_insert v (e + 1) (l_end ?l) (l_type ?l) p ls2 = (Inr u', ls3)" by simp
      moreover have "\<not> mine v p s e (new_lock v (e + 1) (l_end ?l) (l_type ?l) p)"
        using above_iff [OF True, of e] by (simp add: mine_def overlaps_def)
      ultimately show ?thesis using nth_insert j len2 by metis
    qed (use right in simp)
    moreover have "ls2 ! j = ?ls1 ! j" if "mine v p s e (ls2 ! j)"
    proof (cases "l_start ?l < s")
      case True
      with left have "lock_insert v (l_start ?l) (s - 1) (l_type ?l) p ?ls1 = (Inr u, ls2)" by simp
      moreover have "\<not> mine v p s e (new_lock v (l_start ?l) (s - 1) (l_type ?l) p)"
        using below_iff [OF True, of s] by (simp add: mine_def overlaps_def)
      ultimately show ?thesis using nth_insert j(1) that length_list_update by metis
    qed (use left in simp)
    ultimately have "mine v p s e (?ls1 ! j)" using j(2) by simp
    then show ?thesis using i j(1) by (cases "j = i") (auto simp: mine_def)
  qed
qed

lemma cleared_refl: "cleared v p s e ls ls"
  by (simp add: cleared_def)

lemma cleared_trans: "cleared v p s e ls ls1 \<Longrightarrow> cleared v p s e ls1 ls2 \<Longrightarrow> cleared v p s e ls ls2"
  unfolding cleared_def by metis

lemma clear_loop_spec:
  assumes "clear_loop is v s e p ls = (Inr u, ls')" and "\<forall>j \<in> set is. j < length ls" and "s \<le> e"
  shows "cleared v p s e ls ls' \<and> (\<forall>j < length ls. mine v p s e (ls' ! j) \<longrightarrow> j \<notin> set is \<and> mine v p s e (ls ! j))"
  using assms
proof (induction "is" v s e p ls rule: clear_loop.induct)
  case (1 v s e p ls)
  then show ?case by (simp add: cleared_refl)
next
  case (2 i "is" v s e p ls)
  let ?l = "ls ! i"
  let ?ls1 = "ls[i := ?l\<lparr>l_used := False\<rparr>]"
  show ?case
  proof (cases "mine v p s e ?l")
    case False
    with "2.prems"(1) have rec: "clear_loop is v s e p ls = (Inr u, ls')" by (auto simp: mine_def Let_def split: if_splits)
    have js: "\<forall>j \<in> set is. j < length ls" using "2.prems"(2) by simp
    have "cleared v p s e ls ls' \<and> (\<forall>j < length ls. mine v p s e (ls' ! j) \<longrightarrow> j \<notin> set is \<and> mine v p s e (ls ! j))"
    proof (cases "\<not> l_used ?l \<or> l_vnode ?l \<noteq> v \<or> l_owner ?l \<noteq> p")
      case True
      show ?thesis by (rule "2.IH"(1) [OF refl True rec js "2.prems"(3)])
    next
      case other: False
      with False have "\<not> overlaps ?l s e" by (simp add: mine_def)
      from "2.IH"(2) [OF refl other this rec js "2.prems"(3)] show ?thesis .
    qed
    with False show ?thesis by (metis set_ConsD)
  next
    case True
    obtain r2 ls2 where l2: "(if l_start ?l < s then lock_insert v (l_start ?l) (s - 1) (l_type ?l) p ?ls1 else (Inr (), ?ls1)) = (r2, ls2)"
      by (cases "if l_start ?l < s then lock_insert v (l_start ?l) (s - 1) (l_type ?l) p ?ls1 else (Inr (), ?ls1)")
    obtain r3 ls3 where l3: "(if e < l_end ?l then lock_insert v (e + 1) (l_end ?l) (l_type ?l) p ls2 else (Inr (), ls2)) = (r3, ls3)"
      by (cases "if e < l_end ?l then lock_insert v (e + 1) (l_end ?l) (l_type ?l) p ls2 else (Inr (), ls2)")
    have cond: "\<not> (\<not> l_used ?l \<or> l_vnode ?l \<noteq> v \<or> l_owner ?l \<noteq> p)" "\<not> \<not> overlaps ?l s e"
      using True by (auto simp: mine_def)
    from "2.prems"(1) obtain u2 u3 where r: "r2 = Inr u2" "r3 = Inr u3" and rec: "clear_loop is v s e p ls3 = (Inr u, ls')"
      unfolding clear_loop.simps Let_def if_not_P [OF cond(1)] if_not_P [OF cond(2)] l2
      by (cases r2; cases r3) (simp_all add: l3)
    have i: "i < length ls" using "2.prems"(2) by simp
    note cut = cut_covers [OF i True l2 [unfolded r] l3 [unfolded r] "2.prems"(3)]
    have "length ls3 = length ls" using cut(1) by (simp add: cleared_def)
    moreover from this have "cleared v p s e ls3 ls' \<and> (\<forall>j < length ls3. mine v p s e (ls' ! j) \<longrightarrow> j \<notin> set is \<and> mine v p s e (ls3 ! j))"
      using "2.IH"(3) [OF refl cond refl l2 [symmetric] r(1) l3 [symmetric] r(2) rec] "2.prems"(2,3) by simp
    ultimately show ?thesis using cut(2) cleared_trans [OF cut(1)] by auto
  qed
qed

text \<open>Also when the table runs full on the way, no byte comes under a lock that was not.\<close>

lemma left_shrinks:
  assumes i: "i < length ls" and l: "mine v p s e (ls ! i)"
    and left: "(if l_start (ls ! i) < s then lock_insert v (l_start (ls ! i)) (s - 1) (l_type (ls ! i)) p
        (ls[i := (ls ! i)\<lparr>l_used := False\<rparr>]) else (Inr (), ls[i := (ls ! i)\<lparr>l_used := False\<rparr>])) = (r, ls2)"
    and c: "covers ls2 v' p' b ty"
  shows "covers ls v' p' b ty"
proof (cases "l_start (ls ! i) < s \<and> r = Inr ()")
  case True
  with left have "lock_insert v (l_start (ls ! i)) (s - 1) (l_type (ls ! i)) p (ls[i := (ls ! i)\<lparr>l_used := False\<rparr>]) = (Inr (), ls2)" by simp
  from covers_insert [OF this] c True below_iff [of "l_start (ls ! i)" s b] l covers_drop [OF i] show ?thesis
    by (auto simp: lock_holds_def mine_def overlaps_def)
next
  case False
  then have "ls2 = ls[i := (ls ! i)\<lparr>l_used := False\<rparr>]"
    using left by (auto split: if_splits elim: lock_insert_cases)
  with c covers_drop [OF i] show ?thesis by simp
qed

lemma clear_loop_shrinks:
  assumes "clear_loop is v s e p ls = (r, ls')" and "\<forall>j \<in> set is. j < length ls" and "s \<le> e" and "covers ls' v' p' b ty"
  shows "covers ls v' p' b ty"
proof (cases r)
  case (Inr u)
  with clear_loop_spec [of "is" v s e p ls u ls'] assms show ?thesis by (auto simp: cleared_def)
next
  case (Inl err)
  with assms show ?thesis
  proof (induction "is" v s e p ls rule: clear_loop.induct)
    case (2 i "is" v s e p ls)
    let ?l = "ls ! i"
    let ?ls1 = "ls[i := ?l\<lparr>l_used := False\<rparr>]"
    have js: "\<forall>j \<in> set is. j < length ls" and i: "i < length ls" using "2.prems"(2) by simp_all
    show ?case
    proof (cases "mine v p s e ?l")
      case False
      then have rec: "clear_loop is v s e p ls = (r, ls')" using "2.prems"(1) by (auto simp: mine_def Let_def split: if_splits)
      show ?thesis
      proof (cases "\<not> l_used ?l \<or> l_vnode ?l \<noteq> v \<or> l_owner ?l \<noteq> p")
        case True
        show ?thesis by (rule "2.IH"(1) [OF refl True rec js "2.prems"(3,4,5)])
      next
        case other: False
        with False have "\<not> overlaps ?l s e" by (simp add: mine_def)
        from "2.IH"(2) [OF refl other this rec js "2.prems"(3,4,5)] show ?thesis .
      qed
    next
      case True
      have cond: "\<not> (\<not> l_used ?l \<or> l_vnode ?l \<noteq> v \<or> l_owner ?l \<noteq> p)" "\<not> \<not> overlaps ?l s e"
        using True by (auto simp: mine_def)
      obtain r2 ls2 where l2: "(if l_start ?l < s then lock_insert v (l_start ?l) (s - 1) (l_type ?l) p ?ls1 else (Inr (), ?ls1)) = (r2, ls2)"
        by (cases "if l_start ?l < s then lock_insert v (l_start ?l) (s - 1) (l_type ?l) p ?ls1 else (Inr (), ?ls1)")
      obtain r3 ls3 where l3: "(if e < l_end ?l then lock_insert v (e + 1) (l_end ?l) (l_type ?l) p ls2 else (Inr (), ls2)) = (r3, ls3)"
        by (cases "if e < l_end ?l then lock_insert v (e + 1) (l_end ?l) (l_type ?l) p ls2 else (Inr (), ls2)")
      note eq = "2.prems"(1) [unfolded clear_loop.simps Let_def if_not_P [OF cond(1)] if_not_P [OF cond(2)] l2]
      consider (first) err2 where "r2 = Inl err2" | (second) u2 err3 where "r2 = Inr u2" "r3 = Inl err3" | (both) u2 u3 where "r2 = Inr u2" "r3 = Inr u3"
        by (cases r2; cases r3) auto
      then show ?thesis
      proof cases
        case first
        with eq have "ls' = ls2" by simp
        with "2.prems"(4) left_shrinks [OF i True l2] show ?thesis by simp
      next
        case second
        with eq have "ls' = ls3" by (simp add: l3)
        moreover have "ls3 = ls2" using l3 second(2) by (auto split: if_splits elim: lock_insert_cases)
        ultimately show ?thesis using "2.prems"(4) left_shrinks [OF i True l2] by simp
      next
        case both
        with eq have rec: "clear_loop is v s e p ls3 = (r, ls')" by (simp add: l3)
        note cut = cut_covers(1) [OF i True l2 [unfolded both] l3 [unfolded both] "2.prems"(3)]
        then have "\<forall>j \<in> set is. j < length ls3" using js by (simp add: cleared_def)
        from "2.IH"(3) [OF refl cond refl l2 [symmetric] both(1) l3 [symmetric] both(2) rec this "2.prems"(3,4,5)]
        show ?thesis using cut by (auto simp: cleared_def)
      qed
    qed
  qed simp
qed

section \<open>Locking\<close>

lemma clear_range_spec:
  assumes "lock_clear_range v s e p ls = (Inr u, ls')" and "s \<le> e"
  shows "covers ls' v' p' b ty \<longleftrightarrow> covers ls v' p' b ty \<and> \<not> in_range v p s e v' p' b"
proof -
  note spec = clear_loop_spec [OF assms(1) [unfolded lock_clear_range_def] _ assms(2)]
  then have c: "cleared v p s e ls ls'" and none: "\<forall>j < length ls. \<not> mine v p s e (ls' ! j)" by auto
  have len: "length ls' = length ls" using c by (simp add: cleared_def)
  have "\<not> covers ls' v' p' b ty" if "in_range v p s e v' p' b"
  proof
    assume "covers ls' v' p' b ty"
    then obtain j where "j < length ls" "lock_holds (ls' ! j) v' p' b ty" unfolding covers_nth len by blast
    moreover have "mine v p s e (ls' ! j)" if "lock_holds (ls' ! j) v' p' b ty"
      using that \<open>in_range v p s e v' p' b\<close> by (auto simp: lock_holds_def in_range_def mine_def overlaps_def)
    ultimately show False using none by blast
  qed
  with c show ?thesis unfolding cleared_def by blast
qed

lemma lock_apply_exact:
  assumes "lock_apply v ty s e p ls = (Inr u, ls')" and "s \<le> e"
  shows "covers ls' v' p' b t \<longleftrightarrow> (if in_range v p s e v' p' b then t = ty \<and> ty \<noteq> VFS_LOCK_UNLOCK else covers ls v' p' b t)"
proof -
  obtain r1 ls1 where c: "lock_clear_range v s e p ls = (r1, ls1)" by (cases "lock_clear_range v s e p ls")
  with assms(1) obtain u1 where r1: "r1 = Inr u1" by (cases r1) (auto simp: lock_apply_def)
  note cl = clear_range_spec [OF c [unfolded r1] assms(2)]
  show ?thesis
  proof (cases "ty = VFS_LOCK_UNLOCK")
    case True
    with assms(1) c r1 have "ls' = ls1" by (simp add: lock_apply_def)
    with cl True show ?thesis by simp
  next
    case False
    with assms(1) c r1 have "lock_insert v s e ty p ls1 = (Inr u, ls')" by (simp add: lock_apply_def)
    from covers_insert [OF this] cl False show ?thesis by (auto simp: in_range_def)
  qed
qed

lemma lock_apply_shrinks:
  assumes "lock_apply v ty s e p ls = (Inl r, ls')" and "s \<le> e" and "covers ls' v' p' b t"
  shows "covers ls v' p' b t"
proof -
  obtain r1 ls1 where c: "lock_clear_range v s e p ls = (r1, ls1)" by (cases "lock_clear_range v s e p ls")
  have "ls' = ls1" using assms(1) c by (cases r1) (auto simp: lock_apply_def split: if_splits elim: lock_insert_cases)
  then show ?thesis
    using clear_loop_shrinks [OF c [unfolded lock_clear_range_def] _ assms(2)] assms(3) by simp
qed

definition exclusive :: "lock_table \<Rightarrow> bool" where
  "exclusive ls \<longleftrightarrow> (\<forall>v b p1 p2 t1 t2. p1 \<noteq> p2 \<longrightarrow> covers ls v p1 b t1 \<longrightarrow> covers ls v p2 b t2 \<longrightarrow>
    t1 = VFS_LOCK_READ \<and> t2 = VFS_LOCK_READ)"

lemma test_free:
  assumes "fst (vfs_lock_test (Some v) ty s e p ls) = Inr u" and "covers ls v p' b t" and "p' \<noteq> p" and "s \<le> b" and "b \<le> e"
  shows "ty = VFS_LOCK_READ \<and> t = VFS_LOCK_READ"
proof -
  have "find (conflicting v ty s e p) ls = None" using assms(1) by (auto simp: vfs_lock_test_def split: option.splits)
  then have none: "\<forall>l \<in> set ls. \<not> conflicting v ty s e p l" by (simp add: find_None_iff)
  from assms(2) obtain l where l: "l \<in> set ls" "l_used l" "l_vnode l = v" "l_owner l = p'" "l_start l \<le> b" "b \<le> l_end l" "l_type l = t"
    by (auto simp: covers_def)
  have "overlaps l s e" using l(5,6) assms(4,5) by (auto simp: overlaps_def)
  with none l assms(3) show ?thesis by (auto simp: conflicting_def)
qed

text \<open>C17: Setting a lock gives the owner exactly that type of lock (none, for an unlock) on exactly the
  bytes of the range and changes nothing else, also where it cuts older locks of the owner in pieces;
  when it fails, no byte comes under a lock that was not. If before no byte was locked by two owners
  other than both for reading, then so it is after.\<close>

theorem flock_set_exact:
  assumes "s \<le> e"
  shows "case vfs_lock_set (Some v) ty s e p ls of
      (Inr _, ls') \<Rightarrow> (\<forall>v' p' b t. covers ls' v' p' b t \<longleftrightarrow>
         (if v' = v \<and> p' = p \<and> s \<le> b \<and> b \<le> e then t = ty \<and> ty \<noteq> VFS_LOCK_UNLOCK else covers ls v' p' b t)) \<and>
         (exclusive ls \<longrightarrow> exclusive ls')
    | (Inl _, ls') \<Rightarrow> (\<forall>v' p' b t. covers ls' v' p' b t \<longrightarrow> covers ls v' p' b t) \<and> (exclusive ls \<longrightarrow> exclusive ls')"
proof (cases "vfs_lock_set (Some v) ty s e p ls")
  case (Pair r ls')
  show ?thesis
  proof (cases r)
    case (Inl err)
    then have "ls' = ls \<or> lock_apply v ty s e p ls = (Inl err, ls')"
      using Pair by (auto simp: vfs_lock_set_def split: sum.splits if_splits)
    then have "\<forall>v' p' b t. covers ls' v' p' b t \<longrightarrow> covers ls v' p' b t"
      using lock_apply_shrinks [OF _ assms] by blast
    then show ?thesis using Pair Inl unfolding exclusive_def by simp blast
  next
    case (Inr u)
    then have app: "lock_apply v ty s e p ls = (Inr u, ls')"
      and test: "ty \<noteq> VFS_LOCK_UNLOCK \<Longrightarrow> fst (vfs_lock_test (Some v) ty s e p ls) = Inr ()"
      using Pair by (auto simp: vfs_lock_set_def split: sum.splits if_splits)
    note ex = lock_apply_exact [OF app assms, unfolded in_range_def]
    have "exclusive ls'" if "exclusive ls"
      unfolding exclusive_def
    proof (intro allI impI)
      fix v' b p1 p2 t1 t2
      assume ne: "p1 \<noteq> p2" and c: "covers ls' v' p1 b t1" "covers ls' v' p2 b t2"
      have clash: "t = VFS_LOCK_READ \<and> t' = VFS_LOCK_READ"
        if "q \<noteq> p" "v' = v" "s \<le> b" "b \<le> e" "covers ls' v' p b t" "covers ls' v' q b t'" for q t t'
      proof -
        from that ex [of v' p b t] ex [of v' q b t'] have "t = ty" "ty \<noteq> VFS_LOCK_UNLOCK" "covers ls v q b t'" by auto
        with test_free [OF test _ that(1,3,4)] show ?thesis by blast
      qed
      show "t1 = VFS_LOCK_READ \<and> t2 = VFS_LOCK_READ"
      proof (cases "v' = v \<and> s \<le> b \<and> b \<le> e \<and> (p1 = p \<or> p2 = p)")
        case True
        with c ne clash [of p2 t1 t2] clash [of p1 t2 t1] show ?thesis by metis
      next
        case False
        with c ex [of v' p1 b t1] ex [of v' p2 b t2] have "covers ls v' p1 b t1" "covers ls v' p2 b t2"
          by (auto split: if_splits)
        with \<open>exclusive ls\<close> ne show ?thesis unfolding exclusive_def by blast
      qed
    qed
    with ex Pair Inr show ?thesis by simp
  qed
qed


section \<open>Witnesses\<close>

definition free_slot :: file_lock where
  "free_slot = \<lparr>l_used = False, l_vnode = 0, l_start = 0, l_end = 0, l_type = VFS_LOCK_READ, l_owner = 0\<rparr>"

definition lock_demo :: lock_table where
  "lock_demo = [\<lparr>l_used = True, l_vnode = 1, l_start = 0, l_end = 99, l_type = VFS_LOCK_WRITE, l_owner = 7\<rparr>, free_slot, free_slot, free_slot]"

text \<open>Unlocking the middle of a lock leaves its two ends.\<close>

theorem flock_set_witness:
  "fst (vfs_lock_set (Some 1) VFS_LOCK_UNLOCK 10 20 7 lock_demo) = Inr () \<and>
    covers (snd (vfs_lock_set (Some 1) VFS_LOCK_UNLOCK 10 20 7 lock_demo)) 1 7 50 VFS_LOCK_WRITE \<and>
    \<not> covers (snd (vfs_lock_set (Some 1) VFS_LOCK_UNLOCK 10 20 7 lock_demo)) 1 7 15 VFS_LOCK_WRITE"
proof -
  have ok: "fst (vfs_lock_set (Some 1) VFS_LOCK_UNLOCK 10 20 7 lock_demo) = Inr ()"
    by (simp add: vfs_lock_set_def lock_apply_def lock_clear_range_def lock_demo_def free_slot_def upt_rec overlaps_def lock_insert_def Let_def)
  have "covers lock_demo 1 7 50 VFS_LOCK_WRITE" by (simp add: covers_def lock_demo_def)
  with flock_set_exact [where s = 10 and e = 20 and v = 1 and ty = VFS_LOCK_UNLOCK and p = 7 and ls = lock_demo] ok show ?thesis
    by (cases "vfs_lock_set (Some 1) VFS_LOCK_UNLOCK 10 20 7 lock_demo") auto
qed



end
