(* ===== verification/Net.thy ===== *)
theory Net
  imports Cervus_Prelude
begin

text \<open>
  The lower half of the network stack, \<open>kernel/src/net/\<close>: big-endian access (\<open>net.h\<close>), the table of
  devices (\<open>netdev.c\<close>), the loopback queue (\<open>loopback.c\<close>) and the ARP cache (\<open>arp.c\<close>). A device is
  named by its place in the order of registration; the list \<open>g_netdevs\<close> runs from the last one
  registered. Packets are byte lists whose length is the length argument of the C functions. The
  outcome of an allocation and of a driver's \<open>transmit\<close> is taken from the stream \<open>outcome\<close> in the state, and a
  frame accepted by a driver is logged in \<open>wire\<close>, a datagram passed to a bound handler in
  \<open>to_handler\<close> and a packet passed to the socket layer in \<open>to_sockets\<close>. An access outside an array sets \<open>fault\<close>.
\<close>

section \<open>Big-endian fields\<close>

definition rd16be :: "u8 list \<Rightarrow> nat \<Rightarrow> u16" where
  "rd16be p i = push_bit 8 (ucast (p ! i)) OR ucast (p ! (i + 1))"

definition rd32be :: "u8 list \<Rightarrow> nat \<Rightarrow> u32" where
  "rd32be p i = push_bit 24 (ucast (p ! i)) OR push_bit 16 (ucast (p ! (i + 1))) OR
     push_bit 8 (ucast (p ! (i + 2))) OR ucast (p ! (i + 3))"

definition wr16be :: "nat \<Rightarrow> u16 \<Rightarrow> u8 list \<Rightarrow> u8 list" where
  "wr16be i v p = p[i := ucast (drop_bit 8 v), i + 1 := ucast v]"

definition wr32be :: "nat \<Rightarrow> u32 \<Rightarrow> u8 list \<Rightarrow> u8 list" where
  "wr32be i v p = p[i := ucast (drop_bit 24 v), i + 1 := ucast (drop_bit 16 v),
     i + 2 := ucast (drop_bit 8 v), i + 3 := ucast v]"

definition IP4 :: "u8 \<Rightarrow> u8 \<Rightarrow> u8 \<Rightarrow> u8 \<Rightarrow> u32" where
  "IP4 a b c d = push_bit 24 (ucast a) OR push_bit 16 (ucast b) OR push_bit 8 (ucast c) OR ucast d"

definition memcpy_at :: "nat \<Rightarrow> u8 list \<Rightarrow> u8 list \<Rightarrow> u8 list" where
  "memcpy_at i src dst = take i dst @ src @ drop (i + length src) dst"

definition ETH_P_IP :: u16 where "ETH_P_IP = 0x0800"
definition ETH_P_ARP :: u16 where "ETH_P_ARP = 0x0806"
definition ETH_P_IPV6 :: u16 where "ETH_P_IPV6 = 0x86DD"

section \<open>State\<close>

datatype transmit_fun = Tx_none | Tx_loopback | Tx_driver

record netdev =
  nd_name :: string
  nd_mac :: "u8 list"
  nd_mtu :: u32
  nd_transmit :: transmit_fun
  nd_link_up :: bool
  nd_is_loopback :: bool
  nd_ip :: u32
  nd_netmask :: u32
  nd_gateway :: u32
  nd_dns :: u32
  nd_ip6_ll :: "u8 list"
  rx_packets :: u64
  rx_bytes :: u64
  tx_packets :: u64
  tx_bytes :: u64
  rx_dropped :: u64
  tx_dropped :: u64
  rx_arp :: u64
  rx_ip :: u64
  rx_other :: u64
  rx_not_for_us :: u64
  rx_tcp_syn :: u64
  rx_bad_csum :: u64
  rx_frag_dropped :: u64
  rx_frag_reasm :: u64
  rx_frag_timeout :: u64
  tx_fragmented :: u64

record arp_entry =
  arp_ip :: u32
  arp_mac :: "u8 list"
  arp_valid :: bool
  arp_ts_ms :: u64

record frag =
  fr_used :: bool
  fr_dev :: "nat option"
  fr_src :: u32
  fr_dst :: u32
  fr_id :: u16
  fr_proto :: u8
  fr_have_first :: bool
  fr_first_hdr :: "u8 list"
  fr_total :: nat
  fr_filled :: nat
  fr_deadline :: u64
  fr_buf :: "(nat \<Rightarrow> u8) option"
  fr_bmap :: "nat \<Rightarrow> u8"

datatype sock_input = Sock_icmp u32 "u8 list" | Sock_udp u32 u16 u16 "u8 list"

record net =
  devs :: "netdev list"
  g_eth_index :: nat
  g_lo :: "nat option"
  lo_queue :: "(u16 \<times> u8 list) list"
  g_queued :: u64
  g_draining :: bool
  g_arp :: "arp_entry list"
  g_ip_id :: u16
  g_frags :: "frag list"
  g_binds :: "(u16 \<times> nat option) list"
  to_handler :: "(nat \<times> u32 \<times> u16 \<times> u16 \<times> u8 list) list"
  to_sockets :: "sock_input list"
  wire :: "(nat \<times> u8 list) list"
  outcome :: "nat \<Rightarrow> bool"
  fresh :: "nat \<Rightarrow> nat \<Rightarrow> u8"
  asked :: nat
  fault :: bool

definition ask :: "net \<Rightarrow> bool \<times> net" where
  "ask s = (outcome s (asked s), s\<lparr>asked := asked s + 1\<rparr>)"

definition upd_dev :: "nat \<Rightarrow> (netdev \<Rightarrow> netdev) \<Rightarrow> net \<Rightarrow> net" where
  "upd_dev d g s = s\<lparr>devs := (devs s)[d := g (devs s ! d)]\<rparr>"

section \<open>Devices\<close>

definition NETDEV_NAME_MAX :: nat where "NETDEV_NAME_MAX = 16"

definition eth_broadcast :: "u8 list" where "eth_broadcast = replicate 6 0xff"

definition netdev_register_named :: "string \<Rightarrow> u8 list \<Rightarrow> u32 \<Rightarrow> transmit_fun \<Rightarrow> net \<Rightarrow> nat option \<times> net" where
  "netdev_register_named name mac mtu tx s = (let (ok, s) = ask s in
     if \<not> ok then (None, s) else
     (Some (length (devs s)), s\<lparr>devs := devs s @ [\<lparr>nd_name = take (NETDEV_NAME_MAX - 1) name, nd_mac = mac, nd_mtu = mtu,
        nd_transmit = tx, nd_link_up = False, nd_is_loopback = False, nd_ip = 0, nd_netmask = 0, nd_gateway = 0, nd_dns = 0,
        nd_ip6_ll = [0xfe, 0x80, 0, 0, 0, 0, 0, 0, mac ! 0 XOR 0x02, mac ! 1, mac ! 2, 0xff, 0xfe, mac ! 3, mac ! 4, mac ! 5],
        rx_packets = 0, rx_bytes = 0, tx_packets = 0, tx_bytes = 0, rx_dropped = 0, tx_dropped = 0, rx_arp = 0, rx_ip = 0, rx_other = 0,
        rx_not_for_us = 0, rx_tcp_syn = 0, rx_bad_csum = 0, rx_frag_dropped = 0, rx_frag_reasm = 0, rx_frag_timeout = 0,
        tx_fragmented = 0\<rparr>]\<rparr>))"

definition netdev_register :: "u8 list \<Rightarrow> u32 \<Rightarrow> transmit_fun \<Rightarrow> net \<Rightarrow> nat option \<times> net" where
  "netdev_register mac mtu tx s =
     netdev_register_named (''eth'' @ [char_of (48 + g_eth_index s mod 10)]) mac mtu tx (s\<lparr>g_eth_index := g_eth_index s + 1\<rparr>)"

definition dev_list :: "net \<Rightarrow> nat list" where
  "dev_list s = rev [0 ..< length (devs s)]"

definition netdev_first :: "net \<Rightarrow> nat option" where
  "netdev_first s = (case find (\<lambda>d. \<not> nd_is_loopback (devs s ! d)) (dev_list s) of
     Some d \<Rightarrow> Some d
   | None \<Rightarrow> (case dev_list s of [] \<Rightarrow> None | d # _ \<Rightarrow> Some d))"

definition netdev_loopback :: "net \<Rightarrow> nat option" where
  "netdev_loopback s = find (\<lambda>d. nd_is_loopback (devs s ! d)) (dev_list s)"

definition netdev_get :: "string \<Rightarrow> net \<Rightarrow> nat option" where
  "netdev_get name s = find (\<lambda>d. nd_name (devs s ! d) = name) (dev_list s)"

definition net_ifcfg_set :: "nat \<Rightarrow> u32 \<Rightarrow> u32 \<Rightarrow> u32 \<Rightarrow> u32 \<Rightarrow> net \<Rightarrow> int \<times> net" where
  "net_ifcfg_set index ip netmask gateway dns s =
    (if index \<ge> length (devs s) then (-1, s) else
     let d = dev_list s ! index in
     if nd_is_loopback (devs s ! d) then (-1, s) else
     (0, upd_dev d (\<lambda>v. v\<lparr>nd_ip := ip,
        nd_netmask := if netmask \<noteq> 0 then netmask else nd_netmask v,
        nd_gateway := if gateway = 0xFFFFFFFF then 0 else if gateway \<noteq> 0 then gateway else nd_gateway v,
        nd_dns := if dns = 0xFFFFFFFF then 0 else if dns \<noteq> 0 then dns else nd_dns v\<rparr>) s))"

section \<open>The loopback queue\<close>

definition LO_MTU :: nat where "LO_MTU = 65535"
definition LO_BUDGET :: u64 where "LO_BUDGET = 512 * 1024"

definition lo_enqueue :: "u16 \<Rightarrow> u8 list \<Rightarrow> net \<Rightarrow> int \<times> net" where
  "lo_enqueue ethertype pkt s =
    (if length pkt = 0 \<or> length pkt > LO_MTU then (-1, s) else
     let (ok, s) = ask s in
     if \<not> ok then (-1, s)
     else if g_queued s + of_nat (length pkt) > LO_BUDGET then
       (-1, case g_lo s of None \<Rightarrow> s | Some d \<Rightarrow> upd_dev d (\<lambda>v. v\<lparr>tx_dropped := tx_dropped v + 1\<rparr>) s)
     else (0, s\<lparr>lo_queue := lo_queue s @ [(ethertype, pkt)], g_queued := g_queued s + of_nat (length pkt)\<rparr>))"

definition lo_transmit :: "u8 list \<Rightarrow> net \<Rightarrow> int \<times> net" where
  "lo_transmit p s = (if length p < 1 then (-1, s)
     else lo_enqueue (if drop_bit 4 (p ! 0) = 6 then ETH_P_IPV6 else ETH_P_IP) p s)"

definition loopback_output :: "u16 \<Rightarrow> u8 list \<Rightarrow> net \<Rightarrow> int \<times> net" where
  "loopback_output ethertype pkt s = (case g_lo s of
     None \<Rightarrow> (-1, s)
   | Some d \<Rightarrow> (case lo_enqueue ethertype pkt s of (rc, s) \<Rightarrow>
       if rc \<noteq> 0 then (-1, s)
       else (0, upd_dev d (\<lambda>v. v\<lparr>tx_packets := tx_packets v + 1, tx_bytes := tx_bytes v + of_nat (length pkt)\<rparr>) s)))"

text \<open>The head of the queue is taken under the lock, before it is handed to the protocol.\<close>

definition loopback_take :: "net \<Rightarrow> (u16 \<times> u8 list) option \<times> net" where
  "loopback_take s = (case lo_queue s of
     [] \<Rightarrow> (None, s)
   | e # q \<Rightarrow> (Some e, s\<lparr>lo_queue := q, g_queued := g_queued s - of_nat (length (snd e))\<rparr>))"

definition loopback_init :: "net \<Rightarrow> net" where
  "loopback_init s = (case g_lo s of
     Some _ \<Rightarrow> s
   | None \<Rightarrow> (case netdev_register_named ''lo'' (replicate 6 0) (of_nat LO_MTU) Tx_loopback s of
       (None, s) \<Rightarrow> s
     | (Some d, s) \<Rightarrow> upd_dev d (\<lambda>v. v\<lparr>nd_is_loopback := True, nd_link_up := True, nd_ip := IP4 127 0 0 1,
           nd_netmask := IP4 255 0 0 0, nd_ip6_ll := (replicate 16 0)[15 := 1]\<rparr>) (s\<lparr>g_lo := Some d\<rparr>)))"

section \<open>Transmission\<close>

definition call_transmit :: "nat \<Rightarrow> u8 list \<Rightarrow> net \<Rightarrow> int \<times> net" where
  "call_transmit d frame s = (case nd_transmit (devs s ! d) of
     Tx_none \<Rightarrow> (-1, s)
   | Tx_loopback \<Rightarrow> lo_transmit frame s
   | Tx_driver \<Rightarrow> (case ask s of (ok, s) \<Rightarrow> if ok then (0, s\<lparr>wire := wire s @ [(d, frame)]\<rparr>) else (-1, s)))"

definition netdev_transmit :: "nat option \<Rightarrow> u8 list \<Rightarrow> net \<Rightarrow> int \<times> net" where
  "netdev_transmit dev frame s = (case dev of
     None \<Rightarrow> (-1, s)
   | Some d \<Rightarrow>
       if nd_transmit (devs s ! d) = Tx_none then (-1, s) else
       (case call_transmit d frame s of (r, s) \<Rightarrow>
          (r, upd_dev d (\<lambda>v. if r = 0 then v\<lparr>tx_packets := tx_packets v + 1, tx_bytes := tx_bytes v + of_nat (length frame)\<rparr>
                             else v\<lparr>tx_dropped := tx_dropped v + 1\<rparr>) s)))"

definition ETH_FRAME_BUF :: nat where "ETH_FRAME_BUF = 1600"

definition eth_send :: "nat option \<Rightarrow> u8 list \<Rightarrow> u16 \<Rightarrow> u8 list \<Rightarrow> net \<Rightarrow> int \<times> net" where
  "eth_send dev dst ethertype payload s = (case dev of
     None \<Rightarrow> (-1, s)
   | Some d \<Rightarrow>
       if length payload > unat (nd_mtu (devs s ! d)) then (-1, s) else
       let s = s\<lparr>fault := fault s \<or> 14 + length payload > ETH_FRAME_BUF\<rparr>;
           frame = dst @ nd_mac (devs s ! d) @ wr16be 0 ethertype [0, 0] @ payload;
           frame = (if 14 + length payload < 60 then frame @ replicate (60 - (14 + length payload)) 0 else frame) in
       netdev_transmit dev frame s)"

section \<open>The ARP cache\<close>

definition ARP_CACHE_SIZE :: nat where "ARP_CACHE_SIZE = 32"
definition ARP_TTL_MS :: u64 where "ARP_TTL_MS = 5 * 60 * 1000"
definition ARP_HTYPE_ETH :: u16 where "ARP_HTYPE_ETH = 1"
definition ARP_OP_REQUEST :: u16 where "ARP_OP_REQUEST = 1"
definition ARP_OP_REPLY :: u16 where "ARP_OP_REPLY = 2"

definition now_ms :: "u64 \<Rightarrow> u64" where
  "now_ms now_ns = now_ns div 1000000"

text \<open>The two searches that share the loop: the first free slot, and the earliest slot with the least time.\<close>

fun arp_oldest :: "nat list \<Rightarrow> nat \<Rightarrow> arp_entry list \<Rightarrow> nat" where
  "arp_oldest [] oldest es = oldest"
| "arp_oldest (i # is) oldest es = arp_oldest is (if arp_ts_ms (es ! i) < arp_ts_ms (es ! oldest) then i else oldest) es"

definition arp_find :: "u32 \<Rightarrow> arp_entry list \<Rightarrow> nat option" where
  "arp_find ip es = find_slot (\<lambda>e. arp_valid e \<and> arp_ip e = ip) es"

definition arp_put :: "u64 \<Rightarrow> u32 \<Rightarrow> u8 list \<Rightarrow> arp_entry list \<Rightarrow> arp_entry list" where
  "arp_put now ip mac es =
    (if ip = 0 then es else
     case arp_find ip es of
       Some i \<Rightarrow> es[i := (es ! i)\<lparr>arp_mac := mac, arp_ts_ms := now\<rparr>]
     | None \<Rightarrow>
         let slot = (case find_slot (\<lambda>e. \<not> arp_valid e) es of Some i \<Rightarrow> i | None \<Rightarrow> arp_oldest [0 ..< length es] 0 es) in
         es[slot := \<lparr>arp_ip = ip, arp_mac = mac, arp_valid = True, arp_ts_ms = now\<rparr>])"

definition arp_cache_put :: "u64 \<Rightarrow> u32 \<Rightarrow> u8 list \<Rightarrow> net \<Rightarrow> net" where
  "arp_cache_put now ip mac s = s\<lparr>g_arp := arp_put (now_ms now) ip mac (g_arp s)\<rparr>"

definition arp_lookup :: "u32 \<Rightarrow> net \<Rightarrow> u8 list option" where
  "arp_lookup ip s = map_option (\<lambda>i. arp_mac (g_arp s ! i)) (arp_find ip (g_arp s))"

definition arp_age :: "u64 \<Rightarrow> net \<Rightarrow> net" where
  "arp_age now s = s\<lparr>g_arp := map (\<lambda>e. if arp_valid e \<and> now_ms now - arp_ts_ms e > ARP_TTL_MS then e\<lparr>arp_valid := False\<rparr> else e) (g_arp s)\<rparr>"

definition arp_build :: "u16 \<Rightarrow> netdev \<Rightarrow> u8 list option \<Rightarrow> u32 \<Rightarrow> u8 list" where
  "arp_build op dev tha tpa =
    wr32be 24 tpa (memcpy_at 18 (case tha of Some m \<Rightarrow> m | None \<Rightarrow> replicate 6 0)
      (wr32be 14 (nd_ip dev) (memcpy_at 8 (nd_mac dev) (wr16be 6 op
        ((wr16be 2 ETH_P_IP (wr16be 0 ARP_HTYPE_ETH (replicate 28 0)))[4 := 6, 5 := 4])))))"

definition arp_request :: "nat \<Rightarrow> u32 \<Rightarrow> net \<Rightarrow> net" where
  "arp_request d target_ip s =
    (if nd_ip (devs s ! d) = 0 then s
     else snd (eth_send (Some d) eth_broadcast ETH_P_ARP (arp_build ARP_OP_REQUEST (devs s ! d) None target_ip) s))"

definition arp_rx :: "u64 \<Rightarrow> nat \<Rightarrow> u8 list \<Rightarrow> net \<Rightarrow> net" where
  "arp_rx now d p s =
    (if length p < 28 then s
     else if rd16be p 0 \<noteq> ARP_HTYPE_ETH \<or> rd16be p 2 \<noteq> ETH_P_IP then s
     else if p ! 4 \<noteq> 6 \<or> p ! 5 \<noteq> 4 then s
     else
       let op = rd16be p 6; sha = take 6 (drop 8 p); spa = rd32be p 14; tpa = rd32be p 24;
           s = arp_cache_put now spa sha s in
       if op = ARP_OP_REQUEST \<and> nd_ip (devs s ! d) \<noteq> 0 \<and> tpa = nd_ip (devs s ! d)
       then snd (eth_send (Some d) sha ETH_P_ARP (arp_build ARP_OP_REPLY (devs s ! d) (Some sha) spa) s)
       else s)"

end
