(* ===== verification/Ip.thy ===== *)
theory Ip
  imports Net
begin

text \<open>
  The internet protocol, \<open>kernel/src/net/ip.c\<close>, \<open>ip_frag.c\<close>, \<open>icmp.c\<close> and \<open>udp.c\<close>: the checksum, sending with
  fragmentation, the table of datagrams under reassembly, receiving, the control messages and the
  datagram protocol. Receiving returns the call it makes to the protocol above, which
  \<open>ip_deliver\<close> carries out.
\<close>

section \<open>The checksum\<close>

fun csum_add :: "u8 list \<Rightarrow> u32 \<Rightarrow> u32" where
  "csum_add (a # b # p) acc = csum_add p (acc + (push_bit 8 (ucast a) OR ucast b))"
| "csum_add [a] acc = acc + push_bit 8 (ucast a)"
| "csum_add [] acc = acc"

lemma fold_shrinks: "unat ((s :: u32) AND 0xffff) + unat (drop_bit 16 s) < unat s" if "drop_bit 16 s \<noteq> 0"
proof -
  have d: "unat (drop_bit 16 s) = unat s div 65536" by (simp add: unat_drop_bit_eq) (simp add: drop_bit_eq_div)
  have m: "unat (s AND 0xffff) = unat s mod 65536"
    using unsigned_and_eq [where 'a = nat, of s "0xffff :: u32"] take_bit_eq_mask [of 16 "unat s"] take_bit_eq_mod [of 16 "unat s"]
    by (simp add: mask_eq_exp_minus_1)
  have "unat s div 65536 \<noteq> 0" using that d by (metis unat_eq_zero)
  then have "unat s div 65536 < 65536 * (unat s div 65536)" by simp
  then show ?thesis unfolding d m using mult_div_mod_eq [of 65536 "unat s"] by linarith
qed

function csum_fold :: "u32 \<Rightarrow> u32" where
  "csum_fold acc = (if drop_bit 16 acc \<noteq> 0 then csum_fold ((acc AND 0xffff) + drop_bit 16 acc) else acc)"
  by pat_completeness auto
termination
proof (relation "measure unat")
  fix s :: u32
  assume "drop_bit 16 s \<noteq> 0"
  from fold_shrinks [OF this] unat_plus_if' [of "s AND 0xffff" "drop_bit 16 s"]
  show "((s AND 0xffff) + drop_bit 16 s, s) \<in> measure unat" by (auto split: if_splits)
qed simp

declare csum_fold.simps [simp del]

definition ip_checksum :: "u8 list \<Rightarrow> u16" where
  "ip_checksum p = NOT (ucast (csum_fold (csum_add p 0)))"

section \<open>Sending\<close>

definition IPPROTO_ICMP :: u8 where "IPPROTO_ICMP = 1"
definition IPPROTO_TCP :: u8 where "IPPROTO_TCP = 6"
definition IPPROTO_UDP :: u8 where "IPPROTO_UDP = 17"
definition IP_DEFAULT_TTL :: u8 where "IP_DEFAULT_TTL = 64"

definition same_subnet :: "netdev \<Rightarrow> u32 \<Rightarrow> bool" where
  "same_subnet dev ip \<longleftrightarrow> (ip AND nd_netmask dev) = (nd_ip dev AND nd_netmask dev)"

definition ip_is_local :: "nat option \<Rightarrow> u32 \<Rightarrow> net \<Rightarrow> bool" where
  "ip_is_local dev ip s \<longleftrightarrow>
    drop_bit 24 ip = 127 \<or>
    (case dev of None \<Rightarrow> False | Some d \<Rightarrow> nd_ip (devs s ! d) \<noteq> 0 \<and> ip = nd_ip (devs s ! d)) \<or>
    (\<exists>d \<in> set (dropWhile (\<lambda>d. Some d \<noteq> netdev_first s) (dev_list s)). nd_ip (devs s ! d) \<noteq> 0 \<and> ip = nd_ip (devs s ! d))"

definition ip_source_for :: "nat option \<Rightarrow> u32 \<Rightarrow> net \<Rightarrow> u32" where
  "ip_source_for dev dst s = (if ip_is_local dev dst s then dst
     else case dev of Some d \<Rightarrow> nd_ip (devs s ! d) | None \<Rightarrow> 0)"

definition ip_fill_header :: "u32 \<Rightarrow> u32 \<Rightarrow> u8 \<Rightarrow> u8 \<Rightarrow> u16 \<Rightarrow> u16 \<Rightarrow> nat \<Rightarrow> u8 list \<Rightarrow> u8 list" where
  "ip_fill_header src dst proto ttl ident frag payload pkt =
    (let pkt = pkt[0 := 0x45, 1 := 0];
         pkt = wr16be 2 (of_nat (20 + payload)) pkt;
         pkt = wr16be 4 ident pkt;
         pkt = wr16be 6 frag pkt;
         pkt = pkt[8 := ttl, 9 := proto];
         pkt = wr16be 10 0 pkt;
         pkt = wr32be 12 src pkt;
         pkt = wr32be 16 dst pkt
     in wr16be 10 (ip_checksum (take 20 pkt)) pkt)"

definition ip_emit :: "nat \<Rightarrow> u8 list \<Rightarrow> bool \<Rightarrow> u8 list \<Rightarrow> net \<Rightarrow> int \<times> net" where
  "ip_emit d mac local pkt s =
    (if local then netdev_transmit (Some d) pkt s else eth_send (Some d) mac ETH_P_IP pkt s)"

text \<open>The device, the address of the next hop and whether the target is this machine.\<close>

definition ip_route :: "nat option \<Rightarrow> u32 \<Rightarrow> net \<Rightarrow> (nat \<times> bool \<times> u8 list) option \<times> net" where
  "ip_route dev dst s =
    (if ip_is_local dev dst s then
       (case netdev_loopback s of None \<Rightarrow> (None, s) | Some lo \<Rightarrow> (Some (lo, True, []), s))
     else (case dev of
        None \<Rightarrow> (None, s)
      | Some d \<Rightarrow>
          if dst = 0xFFFFFFFF then (Some (d, False, eth_broadcast), s)
          else if nd_ip (devs s ! d) = 0 then (None, s)
          else
            let nexthop = (if same_subnet (devs s ! d) dst then dst else nd_gateway (devs s ! d)) in
            (case arp_lookup nexthop s of
               None \<Rightarrow> (None, arp_request d nexthop s)
             | Some mac \<Rightarrow> (Some (d, False, mac), s))))"

definition ip_mtu :: "netdev \<Rightarrow> nat" where
  "ip_mtu dev = (let mtu = (if nd_mtu dev \<noteq> 0 then unat (nd_mtu dev) else 1500);
      mtu = (if mtu < 68 then 68 else mtu) in if mtu > 65535 then 65535 else mtu)"

definition ip_chunk :: "nat \<Rightarrow> nat" where
  "ip_chunk mtu = (mtu - 20) div 8 * 8"

text \<open>
  One packet: the header is written over the first 20 bytes of the buffer, the data after it. The
  buffer may hold anything; here it starts as zeros.
\<close>

definition ip_packet :: "u32 \<Rightarrow> u32 \<Rightarrow> u8 \<Rightarrow> u8 \<Rightarrow> u16 \<Rightarrow> u16 \<Rightarrow> u8 list \<Rightarrow> u8 list" where
  "ip_packet src dst proto ttl ident frag data =
     memcpy_at 20 data (ip_fill_header src dst proto ttl ident frag (length data) (replicate (20 + length data) 0))"

definition frag_field :: "nat \<Rightarrow> nat \<Rightarrow> nat \<Rightarrow> u16" where
  "frag_field off n len = (if off + n < len then of_nat (off div 8) OR 0x2000 else of_nat (off div 8))"

text \<open>The loop over the pieces; the chunk is at least 48 bytes, as the unit of transfer is at least 68.\<close>

function send_frags :: "nat \<Rightarrow> u8 list \<Rightarrow> bool \<Rightarrow> (u16 \<Rightarrow> u8 list \<Rightarrow> u8 list) \<Rightarrow> nat \<Rightarrow> u8 list \<Rightarrow> nat \<Rightarrow> net \<Rightarrow> int \<times> net" where
  "send_frags d mac local mk chunk data off s =
    (if chunk = 0 \<or> \<not> off < length data then (0, s) else
     let n = (if length data - off < chunk then length data - off else chunk) in
     case ip_emit d mac local (mk (frag_field off n (length data)) (take n (drop off data))) s of
       (rc, s) \<Rightarrow> if rc \<noteq> 0 then (rc, s) else send_frags d mac local mk chunk data (off + chunk) s)"
  by pat_completeness auto
termination by (relation "measure (\<lambda>(d, mac, local, mk, chunk, data, off, s). length data - off)") auto

declare send_frags.simps [simp del]

definition IP_SBUF :: nat where "IP_SBUF = 1520"

definition ip_send :: "nat option \<Rightarrow> u32 \<Rightarrow> u8 \<Rightarrow> u8 list \<Rightarrow> u8 \<Rightarrow> net \<Rightarrow> int \<times> net" where
  "ip_send dev dst proto payload ttl s =
    (if length payload > 65515 then (-1, s) else
     let src = ip_source_for dev dst s in
     case ip_route dev dst s of
       (None, s) \<Rightarrow> (-1, s)
     | (Some (d, local, mac), s) \<Rightarrow>
         let mtu = ip_mtu (devs s ! d);
             ident = g_ip_id s;
             s = s\<lparr>g_ip_id := ident + 1\<rparr>;
             want = 20 + (if length payload + 20 \<le> mtu then length payload else ip_chunk mtu)
         in case (if want > IP_SBUF then ask s else (True, s)) of
           (False, s) \<Rightarrow> (-1, s)
         | (True, s) \<Rightarrow>
             if 20 + length payload \<le> mtu then ip_emit d mac local (ip_packet src dst proto ttl ident 0 payload) s
             else (case send_frags d mac local (ip_packet src dst proto ttl ident) (ip_chunk mtu) payload 0 s of
                (rc, s) \<Rightarrow> (rc, if rc = 0 then upd_dev d (\<lambda>v. v\<lparr>tx_fragmented := tx_fragmented v + 1\<rparr>) s else s)))"

section \<open>Control messages\<close>

definition ICMP_ECHO_REPLY :: u8 where "ICMP_ECHO_REPLY = 0"
definition ICMP_ECHO_REQUEST :: u8 where "ICMP_ECHO_REQUEST = 8"
definition ICMP_TIME_EXCEEDED :: u8 where "ICMP_TIME_EXCEEDED = 11"
definition ICMP_TE_REASSEMBLY :: u8 where "ICMP_TE_REASSEMBLY = 1"

definition icmp_send_echo :: "nat option \<Rightarrow> u32 \<Rightarrow> u16 \<Rightarrow> u16 \<Rightarrow> net \<Rightarrow> int \<times> net" where
  "icmp_send_echo dev dst ident sq s =
    (let msg = memcpy_at 8 (map (\<lambda>i. of_nat (97 + i mod 26)) [0 ..< 32])
           (wr16be 6 sq (wr16be 4 ident ((replicate 40 0)[0 := ICMP_ECHO_REQUEST, 1 := 0])));
         msg = wr16be 2 (ip_checksum msg) msg
     in ip_send dev dst IPPROTO_ICMP msg IP_DEFAULT_TTL s)"

definition icmp_send_error :: "nat option \<Rightarrow> u32 \<Rightarrow> u8 \<Rightarrow> u8 \<Rightarrow> u8 list \<Rightarrow> net \<Rightarrow> int \<times> net" where
  "icmp_send_error dev dst ty code orig s =
    (if dev = None \<or> length orig < 20 then (-1, s)
     else if drop_bit 4 (orig ! 0) \<noteq> 4 then (-1, s)
     else if rd16be orig 6 AND 0x1FFF \<noteq> 0 then (-1, s)
     else if dst = 0 \<or> dst = 0xFFFFFFFF \<or> drop_bit 28 dst = 0xE then (-1, s)
     else
       let oihl = unat (orig ! 0 AND 0x0f) * 4 in
       if oihl < 20 \<or> length orig < oihl then (-1, s)
       else if orig ! 9 = IPPROTO_ICMP \<and> length orig \<ge> oihl + 1 \<and>
          orig ! oihl \<noteq> ICMP_ECHO_REQUEST \<and> orig ! oihl \<noteq> ICMP_ECHO_REPLY \<and> orig ! oihl \<noteq> 13 \<and> orig ! oihl \<noteq> 14 then (-1, s)
       else
         let orig = (if length orig > oihl + 8 then take (oihl + 8) orig else orig);
             s = s\<lparr>fault := fault s \<or> 8 + length orig > 8 + 68\<rparr>;
             msg = [ty, code, 0, 0, 0, 0, 0, 0] @ orig;
             msg = wr16be 2 (ip_checksum msg) msg
         in ip_send dev dst IPPROTO_ICMP msg IP_DEFAULT_TTL s)"

definition ICMP_SBUF :: nat where "ICMP_SBUF = 1500"

definition icmp_rx :: "nat \<Rightarrow> u32 \<Rightarrow> u8 list \<Rightarrow> net \<Rightarrow> net" where
  "icmp_rx d src p s =
    (if length p < 8 then s else
     let ty = p ! 0; s = s\<lparr>to_sockets := to_sockets s @ [Sock_icmp src p]\<rparr> in
     if ty \<noteq> ICMP_ECHO_REQUEST then s
     else if length p > 65515 then s
     else case (if length p > ICMP_SBUF then ask s else (True, s)) of
       (False, s) \<Rightarrow> s
     | (True, s) \<Rightarrow>
         let reply = wr16be 2 0 (p[0 := ICMP_ECHO_REPLY, 1 := 0]);
             reply = wr16be 2 (ip_checksum reply) reply
         in snd (ip_send (Some d) src IPPROTO_ICMP reply IP_DEFAULT_TTL s))"

end
