(* ===== verification/Ip_Input.thy ===== *)
theory Ip_Input
  imports Ip
begin

text \<open>
  The receiving half of the network stack: the reassembly table of \<open>kernel/src/net/ip_frag.c\<close>, \<open>ip_rx\<close> and
  \<open>ip_deliver\<close> of \<open>ip.c\<close>, the datagram protocol of \<open>udp.c\<close>, and the entry points of \<open>netdev.c\<close> and \<open>loopback.c\<close>.
  The reassembly buffer and its bitmap are functions on indices; an index outside the array is
  reported with the result. Its offsets are natural numbers: the length of a packet is at most
  65535, so no sum of the source wraps. The stream protocol and version 6 are parameters.
\<close>

section \<open>The reassembly table\<close>

definition FRAG_SLOTS :: nat where "FRAG_SLOTS = 8"
definition FRAG_MAXLEN :: nat where "FRAG_MAXLEN = 65535"
definition FRAG_UNITS :: nat where "FRAG_UNITS = FRAG_MAXLEN div 8 + 1"
definition FRAG_BMAP :: nat where "FRAG_BMAP = FRAG_UNITS div 8"
definition FRAG_TIMEOUT_NS :: u64 where "FRAG_TIMEOUT_NS = 30000000000"

definition slot_reset :: "frag \<Rightarrow> frag" where
  "slot_reset f = f\<lparr>fr_used := False, fr_have_first := False, fr_total := 0, fr_filled := 0, fr_first_hdr := [],
     fr_bmap := (\<lambda>_. 0)\<rparr>"

definition slot_match :: "u32 \<Rightarrow> u32 \<Rightarrow> u16 \<Rightarrow> u8 \<Rightarrow> frag \<Rightarrow> bool" where
  "slot_match src dst ident proto f \<longleftrightarrow>
     fr_used f \<and> fr_src f = src \<and> fr_dst f = dst \<and> fr_id f = ident \<and> fr_proto f = proto"

definition slot_find :: "u32 \<Rightarrow> u32 \<Rightarrow> u16 \<Rightarrow> u8 \<Rightarrow> frag list \<Rightarrow> nat option" where
  "slot_find src dst ident proto fs = find_slot (slot_match src dst ident proto) fs"

definition slot_start :: "u64 \<Rightarrow> frag \<Rightarrow> frag" where
  "slot_start now f = (slot_reset f)\<lparr>fr_used := True, fr_deadline := now + FRAG_TIMEOUT_NS\<rparr>"

fun slot_oldest :: "nat list \<Rightarrow> nat option \<Rightarrow> frag list \<Rightarrow> nat option" where
  "slot_oldest [] oldest fs = oldest"
| "slot_oldest (i # is) oldest fs = slot_oldest is (case oldest of
     None \<Rightarrow> Some i
   | Some k \<Rightarrow> if fr_deadline (fs ! i) < fr_deadline (fs ! k) then Some i else Some k) fs"

definition slot_claim :: "u64 \<Rightarrow> net \<Rightarrow> nat option \<times> net" where
  "slot_claim now s = (case find_slot (\<lambda>f. \<not> fr_used f) (g_frags s) of
     Some i \<Rightarrow>
       (case fr_buf (g_frags s ! i) of
          Some _ \<Rightarrow> (Some i, s\<lparr>g_frags := (g_frags s)[i := slot_start now (g_frags s ! i)]\<rparr>)
        | None \<Rightarrow>
            (case ask s of
               (False, s) \<Rightarrow> (None, s)
             | (True, s) \<Rightarrow> (Some i, s\<lparr>g_frags := (g_frags s)[i := slot_start now ((g_frags s ! i)\<lparr>fr_buf := Some (fresh s (asked s))\<rparr>)]\<rparr>)))
   | None \<Rightarrow>
       (case slot_oldest [0 ..< length (g_frags s)] None (g_frags s) of
          None \<Rightarrow> (None, s)
        | Some i \<Rightarrow>
            let s = (case fr_dev (g_frags s ! i) of
                None \<Rightarrow> s | Some d \<Rightarrow> upd_dev d (\<lambda>v. v\<lparr>rx_frag_dropped := rx_frag_dropped v + 1\<rparr>) s)
            in (Some i, s\<lparr>g_frags := (g_frags s)[i := slot_start now (g_frags s ! i)]\<rparr>)))"

definition bmap_get :: "(nat \<Rightarrow> u8) \<Rightarrow> nat \<Rightarrow> bool" where
  "bmap_get m u \<longleftrightarrow> (m (u div 8) AND push_bit (u mod 8) 1) \<noteq> 0"

definition bmap_set :: "(nat \<Rightarrow> u8) \<Rightarrow> nat \<Rightarrow> (nat \<Rightarrow> u8)" where
  "bmap_set m u = m(u div 8 := m (u div 8) OR push_bit (u mod 8) 1)"

text \<open>The bytes of one unit that the piece at \<open>off\<close> covers: where they start and how many.\<close>

definition unit_span :: "nat \<Rightarrow> nat \<Rightarrow> nat \<Rightarrow> nat \<times> nat" where
  "unit_span off len u =
    (let b = u * 8; n = 8;
         (b, n) = (if b < off then (off, n - (off - b)) else (b, n))
     in (b, if b + n > off + len then off + len - b else n))"

text \<open>The body of the loop; the flag reports an access outside the bitmap, the buffer or the data.\<close>

definition fill_unit :: "nat \<Rightarrow> u8 list \<Rightarrow> nat \<Rightarrow> frag \<times> bool \<Rightarrow> frag \<times> bool" where
  "fill_unit off data u fb = (case fb of (f, bad) \<Rightarrow>
     let bad = (bad \<or> u div 8 \<ge> FRAG_BMAP) in
     if bmap_get (fr_bmap f) u then (f, bad) else
     (case unit_span off (length data) u of (b, n) \<Rightarrow>
       (f\<lparr>fr_bmap := bmap_set (fr_bmap f) u, fr_filled := fr_filled f + 1,
          fr_buf := map_option (\<lambda>m i. if b \<le> i \<and> i < b + n then data ! (i - off) else m i) (fr_buf f)\<rparr>,
        bad \<or> fr_buf f = None \<or> b + n > FRAG_MAXLEN \<or> b - off + n > length data)))"

definition bmap_fill :: "nat \<Rightarrow> u8 list \<Rightarrow> frag \<Rightarrow> frag \<times> bool" where
  "bmap_fill off data f = fold (fill_unit off data) [off div 8 ..< (off + length data + 7) div 8] (f, False)"

section \<open>Delivery\<close>

datatype upcall = To_icmp nat u32 "u8 list" | To_udp nat u32 u32 "u8 list" | To_tcp nat u32 u32 "u8 list"

definition ip_deliver :: "nat \<Rightarrow> u32 \<Rightarrow> u32 \<Rightarrow> u8 \<Rightarrow> u8 list \<Rightarrow> upcall option" where
  "ip_deliver d src dst proto payload =
    (if proto = IPPROTO_ICMP then Some (To_icmp d src payload)
     else if proto = IPPROTO_UDP then Some (To_udp d src dst payload)
     else if proto = IPPROTO_TCP then Some (To_tcp d src dst payload)
     else None)"

section \<open>A fragment arrives\<close>

definition frag_drop :: "nat \<Rightarrow> net \<Rightarrow> net" where
  "frag_drop d s = upd_dev d (\<lambda>v. v\<lparr>rx_frag_dropped := rx_frag_dropped v + 1\<rparr>) s"

definition keep_first :: "nat \<Rightarrow> nat \<Rightarrow> nat \<Rightarrow> u8 list \<Rightarrow> frag \<Rightarrow> frag" where
  "keep_first off ihl plen pkt f =
    (if off = 0 \<and> \<not> fr_have_first f
     then f\<lparr>fr_first_hdr := take ihl pkt @ take (if plen < 8 then plen else 8) (drop ihl pkt), fr_have_first := True\<rparr>
     else f)"

definition frag_complete :: "frag \<Rightarrow> bool" where
  "frag_complete f \<longleftrightarrow> fr_total f \<noteq> 0 \<and> fr_filled f = (fr_total f + 7) div 8"

text \<open>The part of the handler that has found or claimed the slot \<open>i\<close>.\<close>

definition frag_store :: "nat \<Rightarrow> u8 list \<Rightarrow> nat \<Rightarrow> nat \<Rightarrow> bool \<Rightarrow> nat \<Rightarrow> net \<Rightarrow> upcall option \<times> net" where
  "frag_store d pkt off ihl mf i s =
    (let f = g_frags s ! i; data = drop ihl pkt; end_off = off + length data in
     if \<not> mf \<and> fr_total f \<noteq> 0 \<and> fr_total f \<noteq> end_off
     then (None, frag_drop d (s\<lparr>g_frags := (g_frags s)[i := slot_reset f]\<rparr>))
     else
       let f = (if mf then f else f\<lparr>fr_total := end_off\<rparr>);
           f = keep_first off ihl (length data) pkt f
       in case bmap_fill off data f of (f, bad) \<Rightarrow>
         let s = s\<lparr>fault := fault s \<or> bad \<or> length (fr_first_hdr f) > 68\<rparr> in
         if frag_complete f then
           (case fr_buf f of
              Some m \<Rightarrow>
                (ip_deliver d (rd32be pkt 12) (rd32be pkt 16) (pkt ! 9) (map m [0 ..< fr_total f]),
                 upd_dev d (\<lambda>v. v\<lparr>rx_frag_reasm := rx_frag_reasm v + 1\<rparr>)
                   (s\<lparr>g_frags := (g_frags s)[i := slot_reset (f\<lparr>fr_buf := None\<rparr>)]\<rparr>))
            | None \<Rightarrow> (None, s\<lparr>g_frags := (g_frags s)[i := slot_reset f]\<rparr>))
         else (None, s\<lparr>g_frags := (g_frags s)[i := f]\<rparr>))"

definition ip_frag_input :: "u64 \<Rightarrow> nat \<Rightarrow> u8 list \<Rightarrow> net \<Rightarrow> upcall option \<times> net" where
  "ip_frag_input now d pkt s =
    (let ihl = unat (pkt ! 0 AND 0x0f) * 4 in
     if ihl < 20 \<or> length pkt < ihl then (None, s) else
     let frag = rd16be pkt 6; off = unat (frag AND 0x1FFF) * 8; mf = (frag AND 0x2000 \<noteq> 0); plen = length pkt - ihl in
     if plen = 0 \<and> mf then (None, s)
     else if off + plen > FRAG_MAXLEN then (None, frag_drop d s)
     else if mf \<and> plen mod 8 \<noteq> 0 then (None, frag_drop d s)
     else
       let src = rd32be pkt 12; dst = rd32be pkt 16; ident = rd16be pkt 4; proto = pkt ! 9 in
       case slot_find src dst ident proto (g_frags s) of
         Some i \<Rightarrow> frag_store d pkt off ihl mf i s
       | None \<Rightarrow>
           (case slot_claim now s of
              (None, s) \<Rightarrow> (None, frag_drop d s)
            | (Some i, s) \<Rightarrow>
                frag_store d pkt off ihl mf i
                  (s\<lparr>g_frags := (g_frags s)[i := (g_frags s ! i)\<lparr>fr_dev := Some d, fr_src := src, fr_dst := dst, fr_id := ident,
                     fr_proto := proto\<rparr>]\<rparr>)))"

text \<open>The pass over the slots of the timer: a slot past its deadline is reset, and when its first piece had come, its source is told.\<close>

fun frag_expire :: "u64 \<Rightarrow> nat list \<Rightarrow> net \<Rightarrow> net" where
  "frag_expire now [] s = s"
| "frag_expire now (i # is) s =
    (let f = g_frags s ! i in
     if fr_used f \<and> 0 \<le> sint (now - fr_deadline f) then
       let s = (case fr_dev f of None \<Rightarrow> s | Some d \<Rightarrow> upd_dev d (\<lambda>v. v\<lparr>rx_frag_timeout := rx_frag_timeout v + 1\<rparr>) s);
           s = s\<lparr>g_frags := (g_frags s)[i := slot_reset f]\<rparr>;
           s = (if fr_have_first f \<and> fr_first_hdr f \<noteq> [] \<and> fr_dev f \<noteq> None
                then snd (icmp_send_error (fr_dev f) (fr_src f) ICMP_TIME_EXCEEDED ICMP_TE_REASSEMBLY (fr_first_hdr f) s)
                else s)
       in frag_expire now is s
     else frag_expire now is s)"

definition ip_frag_tick :: "u64 \<Rightarrow> net \<Rightarrow> net" where
  "ip_frag_tick now s = frag_expire now [0 ..< length (g_frags s)] s"

section \<open>A packet arrives\<close>

definition ip_rx :: "u64 \<Rightarrow> nat \<Rightarrow> u8 list \<Rightarrow> net \<Rightarrow> upcall option \<times> net" where
  "ip_rx now d p s =
    (if length p < 20 \<or> drop_bit 4 (p ! 0) \<noteq> 4 then (None, s) else
     let ihl = unat (p ! 0 AND 0x0f) * 4 in
     if ihl < 20 \<or> length p < ihl then (None, s)
     else if ip_checksum (take ihl p) \<noteq> 0 then (None, upd_dev d (\<lambda>v. v\<lparr>rx_bad_csum := rx_bad_csum v + 1\<rparr>) s)
     else
       let total = unat (rd16be p 2);
           total = (if total < ihl \<or> total > length p then unat (of_nat (length p) :: u16) else total);
           proto = p ! 9; src = rd32be p 12; dst = rd32be p 16; ip = nd_ip (devs s ! d) in
       if drop_bit 24 dst \<noteq> 127 \<and> ip \<noteq> 0 \<and> dst \<noteq> ip \<and> dst \<noteq> 0xFFFFFFFF
       then (None, upd_dev d (\<lambda>v. v\<lparr>rx_not_for_us := rx_not_for_us v + 1\<rparr>) s)
       else
         let frag = rd16be p 6 in
         if frag AND 0x2000 \<noteq> 0 \<or> frag AND 0x1FFF \<noteq> 0 then ip_frag_input now d (take total p) s
         else (ip_deliver d src dst proto (drop ihl (take total p)), s))"

section \<open>Datagrams\<close>

definition UDP_MAX_BINDS :: nat where "UDP_MAX_BINDS = 16"

definition udp_bind :: "u16 \<Rightarrow> nat option \<Rightarrow> net \<Rightarrow> int \<times> net" where
  "udp_bind port h s = (case find_slot (\<lambda>b. fst b = port) (g_binds s) of
     Some i \<Rightarrow> (0, s\<lparr>g_binds := (g_binds s)[i := (port, h)]\<rparr>)
   | None \<Rightarrow> (case find_slot (\<lambda>b. snd b = None) (g_binds s) of
       Some i \<Rightarrow> (0, s\<lparr>g_binds := (g_binds s)[i := (port, h)]\<rparr>)
     | None \<Rightarrow> (-1, s)))"

definition udp_unbind :: "u16 \<Rightarrow> net \<Rightarrow> net" where
  "udp_unbind port s = s\<lparr>g_binds := map (\<lambda>b. if snd b \<noteq> None \<and> fst b = port then (0, None) else b) (g_binds s)\<rparr>"

text \<open>The sum over the pseudo header and the datagram, before it is folded.\<close>

definition udp_sum :: "u32 \<Rightarrow> u32 \<Rightarrow> u8 list \<Rightarrow> u32" where
  "udp_sum src dst p =
    csum_add p ((drop_bit 16 src AND 0xffff) + (src AND 0xffff) + (drop_bit 16 dst AND 0xffff) + (dst AND 0xffff) + 17 +
      (of_nat (length p) AND 0xffff))"

definition udp_checksum :: "u32 \<Rightarrow> u32 \<Rightarrow> u8 list \<Rightarrow> u16" where
  "udp_checksum src dst p = (let c = NOT (ucast (csum_fold (udp_sum src dst p))) in if c \<noteq> 0 then c else 0xFFFF)"

definition UDP_SBUF :: nat where "UDP_SBUF = 1500"

definition udp_packet :: "u32 \<Rightarrow> u32 \<Rightarrow> u16 \<Rightarrow> u16 \<Rightarrow> u8 list \<Rightarrow> u8 list" where
  "udp_packet src dst src_port dst_port data =
    (let pkt = memcpy_at 8 data (wr16be 6 0 (wr16be 4 (of_nat (8 + length data)) (wr16be 2 dst_port (wr16be 0 src_port
           (replicate (8 + length data) 0)))))
     in wr16be 6 (udp_checksum src dst pkt) pkt)"

definition udp_send :: "nat option \<Rightarrow> u32 \<Rightarrow> u16 \<Rightarrow> u16 \<Rightarrow> u8 list \<Rightarrow> net \<Rightarrow> int \<times> net" where
  "udp_send dev dst_ip src_port dst_port data s =
    (if length data + 8 > 65515 then (-1, s) else
     case (if 8 + length data > UDP_SBUF then ask s else (True, s)) of
       (False, s) \<Rightarrow> (-1, s)
     | (True, s) \<Rightarrow> ip_send dev dst_ip IPPROTO_UDP (udp_packet (ip_source_for dev dst_ip s) dst_ip src_port dst_port data) IP_DEFAULT_TTL s)"

definition udp_csum_ok :: "u32 \<Rightarrow> u32 \<Rightarrow> u8 list \<Rightarrow> bool" where
  "udp_csum_ok src dst p =
    (if length p < 8 then False
     else if rd16be p 6 = 0 then True
     else let c = NOT (ucast (csum_fold (udp_sum src dst p)) :: u16) in c = 0 \<or> c = 0xFFFF)"

definition udp_rx :: "nat \<Rightarrow> u32 \<Rightarrow> u32 \<Rightarrow> u8 list \<Rightarrow> net \<Rightarrow> net" where
  "udp_rx d src_ip dst_ip p s =
    (if length p < 8 then s else
     let ulen = unat (rd16be p 4);
         clen = (if ulen \<ge> 8 \<and> ulen \<le> length p then ulen else length p) in
     if \<not> udp_csum_ok src_ip dst_ip (take clen p) then upd_dev d (\<lambda>v. v\<lparr>rx_bad_csum := rx_bad_csum v + 1\<rparr>) s
     else
       let src_port = rd16be p 0; dst_port = rd16be p 2;
           ulen = (if ulen < 8 \<or> ulen > length p then unat (of_nat (length p) :: u16) else ulen);
           data = take (ulen - 8) (drop 8 p) in
       case find_slot (\<lambda>b. snd b \<noteq> None \<and> fst b = dst_port) (g_binds s) of
         Some i \<Rightarrow> s\<lparr>to_handler := to_handler s @ [(the (snd (g_binds s ! i)), src_ip, src_port, dst_port, data)]\<rparr>
       | None \<Rightarrow> s\<lparr>to_sockets := to_sockets s @ [Sock_udp src_ip src_port dst_port data]\<rparr>)"

section \<open>The entry points\<close>

type_synonym upper = "(nat \<Rightarrow> u32 \<Rightarrow> u32 \<Rightarrow> u8 list \<Rightarrow> net \<Rightarrow> net) \<times> (nat \<Rightarrow> u8 list \<Rightarrow> u8 list \<Rightarrow> net \<Rightarrow> net)"

definition run_upcall :: "upper \<Rightarrow> upcall option \<times> net \<Rightarrow> net" where
  "run_upcall up r = (case r of
     (None, s) \<Rightarrow> s
   | (Some (To_icmp d src p), s) \<Rightarrow> icmp_rx d src p s
   | (Some (To_udp d src dst p), s) \<Rightarrow> udp_rx d src dst p s
   | (Some (To_tcp d src dst p), s) \<Rightarrow> fst up d src dst p s)"

definition net_rx :: "upper \<Rightarrow> u64 \<Rightarrow> nat \<Rightarrow> u8 list \<Rightarrow> net \<Rightarrow> net" where
  "net_rx up now d p s =
    (let s = upd_dev d (\<lambda>v. v\<lparr>rx_packets := rx_packets v + 1, rx_bytes := rx_bytes v + of_nat (length p)\<rparr>) s in
     if length p < 14 then s else
     let ethertype = rd16be p 12 in
     if ethertype = ETH_P_ARP then arp_rx now d (drop 14 p) (upd_dev d (\<lambda>v. v\<lparr>rx_arp := rx_arp v + 1\<rparr>) s)
     else if ethertype = ETH_P_IP then run_upcall up (ip_rx now d (drop 14 p) (upd_dev d (\<lambda>v. v\<lparr>rx_ip := rx_ip v + 1\<rparr>) s))
     else if ethertype = ETH_P_IPV6 then snd up d (take 6 (drop 6 p)) (drop 14 p) s
     else upd_dev d (\<lambda>v. v\<lparr>rx_other := rx_other v + 1\<rparr>) s)"

definition loopback_drain_one :: "upper \<Rightarrow> u64 \<Rightarrow> net \<Rightarrow> bool \<times> net" where
  "loopback_drain_one up now s = (case loopback_take s of
     (None, s) \<Rightarrow> (False, s)
   | (Some (ethertype, p), s) \<Rightarrow>
       let d = the (g_lo s);
           s = upd_dev d (\<lambda>v. v\<lparr>rx_packets := rx_packets v + 1, rx_bytes := rx_bytes v + of_nat (length p)\<rparr>) s in
       (True, if ethertype = ETH_P_IPV6
          then snd up d (nd_mac (devs s ! d)) p (upd_dev d (\<lambda>v. v\<lparr>rx_other := rx_other v + 1\<rparr>) s)
          else run_upcall up (ip_rx now d p (upd_dev d (\<lambda>v. v\<lparr>rx_ip := rx_ip v + 1\<rparr>) s))))"

text \<open>At most 256 packets are drained in one go; a handler may queue new ones.\<close>

fun drain :: "upper \<Rightarrow> u64 \<Rightarrow> nat \<Rightarrow> net \<Rightarrow> net" where
  "drain up now 0 s = s"
| "drain up now (Suc n) s = (case loopback_drain_one up now s of (again, s) \<Rightarrow> if again then drain up now n s else s)"

definition loopback_drain_all :: "upper \<Rightarrow> u64 \<Rightarrow> net \<Rightarrow> net" where
  "loopback_drain_all up now s =
    (if g_draining s then s else (drain up now 256 (s\<lparr>g_draining := True\<rparr>))\<lparr>g_draining := False\<rparr>)"

end
