(* ===== verification/Ip_Packet.thy ===== *)
theory Ip_Packet
  imports Ip_Input
begin

text \<open>
  What is written in a packet is what the receiver reads: the big-endian fields, the one's complement checksum, which
  a receiver accepts in every packet it was stored in, and the header of the internet protocol.
\<close>

section \<open>Big-endian fields\<close>

lemma join16: "push_bit 8 (ucast (ucast (drop_bit 8 v) :: u8)) OR ucast (ucast v :: u8) = (v :: u16)"
  by (rule bit_word_eqI) (auto simp: bit_simps)

lemma rd16be_wr16be [simp]: "i + 1 < length p \<Longrightarrow> rd16be (wr16be i v p) i = v"
  using join16 [of v] by (simp add: rd16be_def wr16be_def)

lemma rd16be_wr16be_other: "j + 1 < i \<or> i + 1 < j \<Longrightarrow> rd16be (wr16be i v p) j = rd16be p j"
  by (auto simp: rd16be_def wr16be_def)

lemma join32:
  "push_bit 24 (ucast (ucast (drop_bit 24 v) :: u8)) OR push_bit 16 (ucast (ucast (drop_bit 16 v) :: u8)) OR
     push_bit 8 (ucast (ucast (drop_bit 8 v) :: u8)) OR ucast (ucast v :: u8) = (v :: u32)"
proof (rule bit_word_eqI)
  fix n
  assume "n < LENGTH(32)"
  then consider "n < 8" | k where "n = 8 + k" "k < 8" | k where "n = 16 + k" "k < 8" | k where "n = 24 + k" "k < 8"
    by (cases "n < 8"; cases "n < 16"; cases "n < 24") (auto simp: not_less dest!: le_Suc_ex)
  then show "bit (push_bit 24 (ucast (ucast (drop_bit 24 v) :: u8)) OR push_bit 16 (ucast (ucast (drop_bit 16 v) :: u8)) OR
     push_bit 8 (ucast (ucast (drop_bit 8 v) :: u8)) OR ucast (ucast v :: u8) :: u32) n = bit v n"
    by cases (auto simp: bit_simps)
qed

lemma rd32be_wr32be [simp]: "i + 3 < length p \<Longrightarrow> rd32be (wr32be i v p) i = v"
  using join32 [of v] by (simp add: rd32be_def wr32be_def)

lemma length_wr [simp]: "length (wr16be i v p) = length p" "length (wr32be i w p) = length p"
  by (simp_all add: wr16be_def wr32be_def)

section \<open>The checksum\<close>

lemma byte_lt: "unat (b :: u8) < 256"
  using unsigned_less [of b] by simp

text \<open>The sum of the 16-bit words of a packet, without bounds.\<close>

fun csum_nat :: "u8 list \<Rightarrow> nat" where
  "csum_nat (a # b # p) = unat a * 256 + unat b + csum_nat p"
| "csum_nat [a] = unat a * 256"
| "csum_nat [] = 0"

lemma word16_value: "unat (push_bit 8 (ucast (a :: u8)) OR ucast (b :: u8) :: u32) = unat a * 256 + unat b"
proof -
  have "push_bit 8 (ucast a) OR ucast b = (push_bit 8 (ucast a) + ucast b :: u32)"
    by (rule disjunctive_add [symmetric]) (auto simp: bit_simps dest: bit_imp_le_length)
  moreover have "unat (push_bit 8 (ucast a) + ucast b :: u32) = unat a * 256 + unat b"
    using byte_lt [of a] byte_lt [of b]
    by (simp add: push_bit_eq_mult unat_word_ariths unsigned_ucast_eq take_bit_eq_mod)
  ultimately show ?thesis by simp
qed

lemma csum_nat_bound: "csum_nat p \<le> 65535 * ((length p + 1) div 2)"
proof (induction p rule: csum_nat.induct)
  case (1 a b p)
  with byte_lt [of a] byte_lt [of b] show ?case by simp
next
  case (2 a)
  with byte_lt [of a] show ?case by simp
qed simp

lemma csum_add_value:
  "unat acc + csum_nat p < 2 ^ 32 \<Longrightarrow> unat (csum_add p acc) = unat acc + csum_nat p"
proof (induction p acc rule: csum_add.induct)
  case (1 a b p acc)
  have "unat (acc + (push_bit 8 (ucast a) OR ucast b)) = unat acc + (unat a * 256 + unat b)"
    using "1.prems" by (subst unat_plus_if') (simp add: word16_value)
  with 1 show ?case by simp
next
  case (2 a acc)
  have "unat (acc + push_bit 8 (ucast a)) = unat acc + unat a * 256"
    using "2.prems" word16_value [of a 0] by (subst unat_plus_if') simp
  then show ?case by simp
qed simp

lemma fold_parts: "unat ((s :: u32) AND 0xffff) = unat s mod 65536" "unat (drop_bit 16 s) = unat s div 65536"
proof -
  show "unat (drop_bit 16 s) = unat s div 65536" by (simp add: unat_drop_bit_eq) (simp add: drop_bit_eq_div)
  show "unat (s AND 0xffff) = unat s mod 65536"
    using unsigned_and_eq [where 'a = nat, of s "0xffff :: u32"] take_bit_eq_mask [of 16 "unat s"] take_bit_eq_mod [of 16 "unat s"]
    by (simp add: mask_eq_exp_minus_1)
qed

lemma mod_65535_fold: "(n mod 65536 + n div 65536) mod 65535 = n mod (65535 :: nat)"
proof -
  have "n mod 65535 = (65536 * (n div 65536) + n mod 65536) mod 65535" by simp
  also have "65536 * (n div 65536) + n mod 65536 = 65535 * (n div 65536) + (n mod 65536 + n div 65536)" by linarith
  also have "\<dots> mod 65535 = (n mod 65536 + n div 65536) mod 65535" by (rule mod_mult_self4)
  finally show ?thesis by simp
qed

lemma csum_fold_value:
  "unat (csum_fold s) < 65536 \<and> unat (csum_fold s) mod 65535 = unat s mod 65535 \<and> (csum_fold s = 0 \<longleftrightarrow> s = 0)"
proof (induction s rule: csum_fold.induct)
  case (1 s)
  show ?case
  proof (cases "drop_bit 16 s = 0")
    case True
    then have "unat s div 65536 = 0" using fold_parts(2) [of s] by simp
    with True show ?thesis by (simp add: csum_fold.simps [of s] div_eq_0_iff del: unsigned_less)
  next
    case False
    let ?t = "(s AND 0xffff) + drop_bit 16 s"
    have v: "unat ?t = unat s mod 65536 + unat s div 65536" and nz: "?t \<noteq> 0"
      using fold_parts [of s] fold_shrinks [OF False] False unsigned_less [where 'a = nat, of s] by (auto simp: unat_plus_if' word_unat_eq_iff split: if_splits)
    have "unat ?t mod 65535 = unat s mod 65535"
      unfolding v by (rule mod_65535_fold)
    with 1 [OF False] nz False show ?thesis by (auto simp: csum_fold.simps [of s])
  qed
qed

text \<open>A sum of words is accepted when it is a positive multiple of 65535.\<close>

lemma fold_ones: "NOT (ucast (csum_fold s) :: u16) = 0 \<longleftrightarrow> s \<noteq> 0 \<and> unat s mod 65535 = 0"
proof -
  have "NOT (ucast (csum_fold s) :: u16) = 0 \<longleftrightarrow> (ucast (csum_fold s) :: u16) = - 1"
    by (metis bit.compl_eq_compl_iff bit.compl_one bit.double_compl)
  also have "\<dots> \<longleftrightarrow> unat (csum_fold s) = 65535"
    using csum_fold_value [of s]
    by (simp add: word_unat_eq_iff [of "ucast (csum_fold s) :: u16"] unsigned_ucast_eq take_bit_eq_mod unsigned_minus_1_eq_mask mask_eq_exp_minus_1)
  also have "\<dots> \<longleftrightarrow> s \<noteq> 0 \<and> unat s mod 65535 = 0"
  proof -
    define n where "n = unat (csum_fold s)"
    have n: "n < 65536" "n mod 65535 = unat s mod 65535" "n = 0 \<longleftrightarrow> s = 0"
      by (simp_all add: n_def csum_fold_value unsigned_eq_0_iff)
    have "n = 65535 \<longleftrightarrow> n \<noteq> 0 \<and> n mod 65535 = 0" 
    proof (cases "n < 65535")
      case False
      with n(1) have "n = 65535" by linarith
      then show ?thesis by simp
    qed auto
    with n show ?thesis by (simp add: n_def [symmetric])
  qed
  finally show ?thesis .
qed

lemma fold_compl: "unat (NOT (ucast (csum_fold s) :: u16)) = 65535 - unat (csum_fold s)"
proof -
  have "NOT (ucast (csum_fold s) :: u16) = - 1 - ucast (csum_fold s)" by (simp add: not_eq_complement)
  then have "unat (NOT (ucast (csum_fold s) :: u16)) = unat (- 1 :: u16) - unat (ucast (csum_fold s) :: u16)"
    by (simp add: unat_sub)
  with csum_fold_value [of s] show ?thesis
    by (simp add: unsigned_ucast_eq take_bit_eq_mod unsigned_minus_1_eq_mask mask_eq_exp_minus_1)
qed

lemma value16: "unat (push_bit 8 (ucast (a :: u8)) OR ucast (b :: u8) :: u16) = unat a * 256 + unat b"
proof -
  have "push_bit 8 (ucast a) OR ucast b = (push_bit 8 (ucast a) + ucast b :: u16)"
    by (rule disjunctive_add [symmetric]) (auto simp: bit_simps dest: bit_imp_le_length)
  moreover have "unat (push_bit 8 (ucast a) + ucast b :: u16) = unat a * 256 + unat b"
    using byte_lt [of a] byte_lt [of b]
    by (simp add: push_bit_eq_mult unat_word_ariths unsigned_ucast_eq take_bit_eq_mod)
  ultimately show ?thesis by simp
qed

lemma split16: "unat (ucast (drop_bit 8 v) :: u8) * 256 + unat (ucast v :: u8) = unat (v :: u16)"
  using value16 [of "ucast (drop_bit 8 v)" "ucast v"] unfolding join16 by simp

lemma unat_rd16be: "unat (rd16be p i) = unat (p ! i) * 256 + unat (p ! (i + 1))"
  by (simp add: rd16be_def value16)

text \<open>Writing a word at an even place changes the sum by the difference of the words.\<close>

lemma csum_nat_wr:
  "2 * k + 1 < length p \<Longrightarrow> csum_nat (wr16be (2 * k) v p) + unat (rd16be p (2 * k)) = csum_nat p + unat v"
proof (induction k arbitrary: p)
  case 0
  then obtain a b q where "p = a # b # q" by (cases p; cases "tl p") auto
  with split16 [of v] show ?case by (simp add: wr16be_def unat_rd16be)
next
  case (Suc k)
  then obtain a b q where p: "p = a # b # q" "2 * k + 1 < length q" by (cases p; cases "tl p") auto
  have "wr16be (2 * Suc k) v p = a # b # wr16be (2 * k) v q" "rd16be p (2 * Suc k) = rd16be q (2 * k)"
    by (simp_all add: p wr16be_def rd16be_def)
  with Suc.IH [OF p(2)] p show ?case by simp
qed

lemma csum_add_0: "length p < 65536 \<Longrightarrow> unat (csum_add p 0) = csum_nat p"
  using csum_nat_bound [of p] by (subst csum_add_value) auto

text \<open>A checksum stored in a zero field makes the sum one the receiver accepts.\<close>

lemma checksum_accepted:
  assumes "2 * k + 1 < length p" and "length p < 65536" and "rd16be p (2 * k) = 0" and "csum_nat p \<noteq> 0"
  shows "ip_checksum (wr16be (2 * k) (ip_checksum p) p) = 0"
proof -
  let ?q = "wr16be (2 * k) (ip_checksum p) p"
  let ?F = "unat (csum_fold (csum_add p 0))"
  have F: "?F < 65536" "?F mod 65535 = csum_nat p mod 65535"
    using csum_fold_value [of "csum_add p 0"] csum_add_0 [OF assms(2)] by auto
  have "csum_nat ?q = csum_nat p + (65535 - ?F)"
    using csum_nat_wr [OF assms(1), of "ip_checksum p"] assms(3) fold_compl [of "csum_add p 0"] by (simp add: ip_checksum_def)
  moreover have "(csum_nat p + (65535 - ?F)) mod 65535 = 0"
  proof -
    have "(csum_nat p + (65535 - ?F)) mod 65535 = (csum_nat p mod 65535 + (65535 - ?F)) mod 65535" by (simp only: mod_add_left_eq)
    also have "\<dots> = (?F + (65535 - ?F)) mod 65535" unfolding F(2) [symmetric] by (simp only: mod_add_left_eq)
    also have "?F + (65535 - ?F) = 65535" using F(1) by linarith
    finally show ?thesis by simp
  qed
  ultimately have "csum_nat ?q mod 65535 = 0" "csum_nat ?q \<noteq> 0" using assms(4) by simp_all
  moreover have v: "unat (csum_add ?q 0) = csum_nat ?q" using assms(2) by (simp add: csum_add_0)
  ultimately show ?thesis unfolding ip_checksum_def fold_ones by (metis unat_0)
qed

section \<open>Packets\<close>

definition hdr0 :: "u32 \<Rightarrow> u32 \<Rightarrow> u8 \<Rightarrow> u8 \<Rightarrow> u16 \<Rightarrow> u16 \<Rightarrow> nat \<Rightarrow> u8 list" where
  "hdr0 src dst proto ttl ident frag n =
    [0x45, 0, ucast (drop_bit 8 (of_nat (20 + n) :: u16)), ucast (of_nat (20 + n) :: u16), ucast (drop_bit 8 ident), ucast ident,
     ucast (drop_bit 8 frag), ucast frag, ttl, proto, 0, 0,
     ucast (drop_bit 24 src), ucast (drop_bit 16 src), ucast (drop_bit 8 src), ucast src,
     ucast (drop_bit 24 dst), ucast (drop_bit 16 dst), ucast (drop_bit 8 dst), ucast dst]"

abbreviation hdr :: "u32 \<Rightarrow> u32 \<Rightarrow> u8 \<Rightarrow> u8 \<Rightarrow> u16 \<Rightarrow> u16 \<Rightarrow> nat \<Rightarrow> u8 list" where
  "hdr src dst proto ttl ident frag n \<equiv> wr16be 10 (ip_checksum (hdr0 src dst proto ttl ident frag n)) (hdr0 src dst proto ttl ident frag n)"

lemma length_hdr0 [simp]: "length (hdr0 src dst proto ttl ident frag n) = 20"
  by (simp add: hdr0_def)

lemma wr16be_append: "i + 1 < length p \<Longrightarrow> wr16be i v (p @ q) = wr16be i v p @ q"
  by (simp add: wr16be_def list_update_append)

lemma zeros20: "replicate (20 + n) (0 :: u8) = [0,0,0,0,0,0,0,0,0,0,0,0,0,0,0,0,0,0,0,0] @ replicate n 0"
  by (simp add: numeral_eq_Suc)

lemma ip_packet_eq: "ip_packet src dst proto ttl ident frag data = hdr src dst proto ttl ident frag (length data) @ data"
proof -
  have "ip_fill_header src dst proto ttl ident frag (length data) (replicate (20 + length data) 0) =
      wr16be 10 (ip_checksum (hdr0 src dst proto ttl ident frag (length data))) (hdr0 src dst proto ttl ident frag (length data) @ replicate (length data) 0)"
    unfolding ip_fill_header_def zeros20 Let_def
    by (simp add: wr16be_def wr32be_def hdr0_def)
  then show ?thesis by (simp add: ip_packet_def memcpy_at_def wr16be_append)
qed

lemma ip_packet_fields:
  fixes src dst proto ttl ident frag data
  defines "pk \<equiv> ip_packet src dst proto ttl ident frag data"
  shows "length pk = 20 + length data" "pk ! 0 = 0x45" "rd16be pk 2 = of_nat (20 + length data)" "rd16be pk 4 = ident"
    "rd16be pk 6 = frag" "pk ! 9 = proto" "rd32be pk 12 = src" "rd32be pk 16 = dst" "drop 20 pk = data"
    "ip_checksum (take 20 pk) = 0"
proof -
  have pk: "pk = hdr src dst proto ttl ident frag (length data) @ data" by (simp add: pk_def ip_packet_eq)
  show "length pk = 20 + length data" "drop 20 pk = data" by (simp_all add: pk)
  show "pk ! 0 = 0x45" "rd16be pk 2 = of_nat (20 + length data)" "rd16be pk 4 = ident"
    "rd16be pk 6 = frag" "pk ! 9 = proto" "rd32be pk 12 = src" "rd32be pk 16 = dst"
    unfolding pk using join16 join32 by (simp_all add: hdr0_def wr16be_def rd16be_def rd32be_def)
  have "csum_nat (hdr0 src dst proto ttl ident frag (length data)) \<noteq> 0" by (simp add: hdr0_def)
  moreover have "rd16be (hdr0 src dst proto ttl ident frag (length data)) (2 * 5) = 0" by (simp add: hdr0_def rd16be_def)
  ultimately show "ip_checksum (take 20 pk) = 0"
    using checksum_accepted [of 5 "hdr0 src dst proto ttl ident frag (length data)"] by (simp add: pk)
qed

end
