(* ===== verification/Ip_Frag.thy ===== *)
theory Ip_Frag
  imports Ip_Packet
begin

text \<open>
  The reassembly of datagrams. A slot is well formed when its counter counts the units its bitmap marks; it agrees with a datagram when
  every marked unit holds the bytes of the datagram. Every run of arriving pieces and of timer passes keeps both, so that a slot
  that is full holds the whole datagram.
\<close>

section \<open>The bitmap\<close>

lemma bmap_get_bit: "bmap_get m u \<longleftrightarrow> bit (m (u div 8)) (u mod 8)"
  by (simp add: bmap_get_def push_bit_of_1 and_exp_eq_0_iff_not_bit)

lemma bmap_get_set [simp]: "bmap_get (bmap_set m u) v \<longleftrightarrow> v = u \<or> bmap_get m v"
proof (cases "v div 8 = u div 8")
  case True
  then have "v = u \<longleftrightarrow> v mod 8 = u mod 8" by (metis mult_div_mod_eq)
  with True show ?thesis by (auto simp: bmap_get_bit bmap_set_def bit_or_iff push_bit_of_1 bit_exp_iff bit_1_iff)
qed (auto simp: bmap_get_bit bmap_set_def)

lemma bmap_get_0 [simp]: "\<not> bmap_get (\<lambda>_. 0) u"
  by (simp add: bmap_get_def)

definition bits :: "frag \<Rightarrow> nat set" where
  "bits f = {u. bmap_get (fr_bmap f) u}"

definition units :: "nat \<Rightarrow> u8 list \<Rightarrow> nat set" where
  "units off data = {off div 8 ..< (off + length data + 7) div 8}"

lemma unit_less: "u < (n + 7) div 8 \<longleftrightarrow> u * 8 < (n :: nat)"
  by presburger

section \<open>Filling\<close>

text \<open>All of a slot but the bitmap, the counter and the buffer.\<close>

definition same_slot :: "frag \<Rightarrow> frag \<Rightarrow> bool" where
  "same_slot f g \<longleftrightarrow> g = f\<lparr>fr_bmap := fr_bmap g, fr_filled := fr_filled g, fr_buf := fr_buf g\<rparr>"

definition filled_ok :: "frag \<Rightarrow> bool" where
  "filled_ok f \<longleftrightarrow> finite (bits f) \<and> fr_filled f = card (bits f)"

definition filled_from :: "nat \<Rightarrow> u8 list \<Rightarrow> nat set \<Rightarrow> (nat \<Rightarrow> u8) \<Rightarrow> nat \<Rightarrow> u8" where
  "filled_from off data us m i = (if i div 8 \<in> us \<and> i < off + length data then data ! (i - off) else m i)"

lemma filled_from_none [simp]: "filled_from off data {} m = m"
  by (simp add: filled_from_def fun_eq_iff)

lemma unit_span_eq:
  assumes "off \<le> u * 8" and "u * 8 < off + len"
  shows "unit_span off len u = (u * 8, min 8 (off + len - u * 8))"
  using assms by (auto simp: unit_span_def Let_def)

lemma fill_unit_spec:
  assumes "8 dvd off" and "off + length data \<le> FRAG_MAXLEN" and "u \<in> units off data" and "fr_buf f = Some m" and "filled_ok f"
  shows "\<exists>g. fill_unit off data u (f, False) = (g, False) \<and> same_slot f g \<and> bits g = insert u (bits f) \<and> filled_ok g \<and>
    fr_buf g = Some (filled_from off data ({u} - bits f) m)"
proof -
  have lo: "off \<le> u * 8" and hi: "u * 8 < off + length data"
    using assms(1,3) by (auto simp: units_def unit_less elim!: dvdE)
  then have bound: "u div 8 < FRAG_BMAP" using assms(2) by (auto simp: FRAG_BMAP_def FRAG_UNITS_def FRAG_MAXLEN_def)
  note span = unit_span_eq [OF lo hi]
  show ?thesis
  proof (cases "bmap_get (fr_bmap f) u")
    case True
    then have "insert u (bits f) = bits f" "{u} - bits f = {}" by (auto simp: bits_def)
    with True bound assms show ?thesis by (simp add: fill_unit_def same_slot_def)
  next
    case False
    let ?n = "min 8 (off + length data - u * 8)"
    let ?g = "f\<lparr>fr_bmap := bmap_set (fr_bmap f) u, fr_filled := fr_filled f + 1,
      fr_buf := Some (\<lambda>i. if u * 8 \<le> i \<and> i < u * 8 + ?n then data ! (i - off) else m i)\<rparr>"
    have eq: "fill_unit off data u (f, False) = (?g, False)"
      using False bound assms(2,4) lo hi by (auto simp: fill_unit_def span FRAG_MAXLEN_def)
    have b: "bits ?g = insert u (bits f)" by (auto simp: bits_def)
    have new: "u \<notin> bits f" using False by (simp add: bits_def)
    have "(u * 8 \<le> i \<and> i < u * 8 + ?n) = (i div 8 = u \<and> i < off + length data)" for i using hi by auto
    then have "(\<lambda>i. if u * 8 \<le> i \<and> i < u * 8 + ?n then data ! (i - off) else m i) = filled_from off data {u} m"
      by (simp add: filled_from_def fun_eq_iff)
    moreover have "{u} - bits f = {u}" using new by blast
    moreover have "filled_ok ?g" using assms(5) new b by (simp add: filled_ok_def)
    ultimately show ?thesis using eq b by (simp add: same_slot_def)
  qed
qed

lemma fill_list_spec:
  assumes "8 dvd off" and "off + length data \<le> FRAG_MAXLEN" and "set us \<subseteq> units off data" and "fr_buf f = Some m" and "filled_ok f"
  shows "\<exists>g. fold (fill_unit off data) us (f, False) = (g, False) \<and> same_slot f g \<and> bits g = bits f \<union> set us \<and> filled_ok g \<and>
    fr_buf g = Some (filled_from off data (set us - bits f) m)"
  using assms(3-5)
proof (induction us arbitrary: f m)
  case Nil
  then show ?case by (simp add: same_slot_def)
next
  case (Cons u us)
  from fill_unit_spec [OF assms(1,2) _ Cons.prems(2,3), of u] Cons.prems(1)
  obtain g where g: "fill_unit off data u (f, False) = (g, False)" "same_slot f g" "bits g = insert u (bits f)" "filled_ok g"
    "fr_buf g = Some (filled_from off data ({u} - bits f) m)" by auto
  from Cons.IH [OF _ g(5,4)] Cons.prems(1)
  obtain h where h: "fold (fill_unit off data) us (g, False) = (h, False)" "same_slot g h" "bits h = bits g \<union> set us" "filled_ok h"
    "fr_buf h = Some (filled_from off data (set us - bits g) (filled_from off data ({u} - bits f) m))" by auto
  have "filled_from off data (set us - bits g) (filled_from off data ({u} - bits f) m) = filled_from off data (set (u # us) - bits f) m"
    by (auto simp: filled_from_def fun_eq_iff g(3))
  moreover have "same_slot f h" using g(2) h(2) unfolding same_slot_def by (cases f; cases g; cases h) simp
  ultimately show ?case using g h by auto
qed

lemma bmap_fill_spec:
  assumes "8 dvd off" and "off + length data \<le> FRAG_MAXLEN" and "fr_buf f = Some m" and "filled_ok f"
  shows "\<exists>g. bmap_fill off data f = (g, False) \<and> same_slot f g \<and> bits g = bits f \<union> units off data \<and> filled_ok g \<and>
    fr_buf g = Some (filled_from off data (units off data - bits f) m)"
proof -
  have "set [off div 8 ..< (off + length data + 7) div 8] = units off data" by (simp add: units_def)
  with fill_list_spec [OF assms(1,2) _ assms(3,4), of "[off div 8 ..< (off + length data + 7) div 8]"] show ?thesis
    unfolding bmap_fill_def by (metis order_refl)
qed

section \<open>One piece\<close>

text \<open>What the handler reads in the header of a piece.\<close>

definition ihl_of :: "u8 list \<Rightarrow> nat" where "ihl_of pkt = unat (pkt ! 0 AND 0x0f) * 4"
definition off_of :: "u8 list \<Rightarrow> nat" where "off_of pkt = unat (rd16be pkt 6 AND 0x1FFF) * 8"
definition mf_of :: "u8 list \<Rightarrow> bool" where "mf_of pkt \<longleftrightarrow> rd16be pkt 6 AND 0x2000 \<noteq> 0"
definition data_of :: "u8 list \<Rightarrow> u8 list" where "data_of pkt = drop (ihl_of pkt) pkt"
definition key_of :: "u8 list \<Rightarrow> u32 \<times> u32 \<times> u16 \<times> u8" where
  "key_of pkt = (rd32be pkt 12, rd32be pkt 16, rd16be pkt 4, pkt ! 9)"
definition slot_key :: "frag \<Rightarrow> u32 \<times> u32 \<times> u16 \<times> u8" where
  "slot_key f = (fr_src f, fr_dst f, fr_id f, fr_proto f)"

definition acceptable :: "u8 list \<Rightarrow> bool" where
  "acceptable pkt \<longleftrightarrow> 20 \<le> ihl_of pkt \<and> ihl_of pkt \<le> length pkt \<and> \<not> (data_of pkt = [] \<and> mf_of pkt) \<and>
    off_of pkt + length (data_of pkt) \<le> FRAG_MAXLEN \<and> (mf_of pkt \<longrightarrow> length (data_of pkt) mod 8 = 0)"

lemma ihl_le: "ihl_of pkt \<le> 60"
proof -
  have "pkt ! 0 AND 0x0f \<le> (0x0f :: u8)" by (rule word_and_le1)
  then have "unat (pkt ! 0 AND 0x0f) \<le> unat (0x0f :: u8)" by (rule word_le_nat_alt [THEN iffD1])
  then show ?thesis by (simp add: ihl_of_def)
qed

lemma off_dvd: "8 dvd off_of pkt"
  by (simp add: off_of_def)

definition slot_wf :: "frag \<Rightarrow> bool" where
  "slot_wf f \<longleftrightarrow> (fr_used f \<longrightarrow> fr_buf f \<noteq> None \<and> filled_ok f \<and> length (fr_first_hdr f) \<le> 68)"

definition frags_wf :: "net \<Rightarrow> bool" where
  "frags_wf s \<longleftrightarrow> (\<forall>f \<in> set (g_frags s). slot_wf f)"

text \<open>A slot before and after the bytes of a piece are stored in it.\<close>

definition stored :: "u8 list \<Rightarrow> frag \<Rightarrow> frag \<Rightarrow> bool" where
  "stored pkt f g \<longleftrightarrow> fr_used g \<and> slot_key g = slot_key f \<and>
    fr_total g = (if mf_of pkt then fr_total f else off_of pkt + length (data_of pkt)) \<and> length (fr_first_hdr g) \<le> 68 \<and>
    bits g = bits f \<union> units (off_of pkt) (data_of pkt) \<and> filled_ok g \<and>
    fr_buf g = Some (filled_from (off_of pkt) (data_of pkt) (units (off_of pkt) (data_of pkt) - bits f) (the (fr_buf f)))"

definition mismatch :: "u8 list \<Rightarrow> frag \<Rightarrow> bool" where
  "mismatch pkt f \<longleftrightarrow> \<not> mf_of pkt \<and> fr_total f \<noteq> 0 \<and> fr_total f \<noteq> off_of pkt + length (data_of pkt)"

definition full_slot :: "frag \<Rightarrow> frag" where
  "full_slot g = slot_reset (g\<lparr>fr_buf := None\<rparr>)"

lemma bits_total [simp]:
  "bits (f\<lparr>fr_total := t\<rparr>) = bits f" "bits (keep_first off ihl n pkt f) = bits f"
  "filled_ok (f\<lparr>fr_total := t\<rparr>) = filled_ok f" "filled_ok (keep_first off ihl n pkt f) = filled_ok f"
  "fr_buf (keep_first off ihl n pkt f) = fr_buf f" "fr_used (keep_first off ihl n pkt f) = fr_used f"
  "slot_key (f\<lparr>fr_total := t\<rparr>) = slot_key f" "slot_key (keep_first off ihl n pkt f) = slot_key f" "fr_total (keep_first off ihl n pkt f) = fr_total f"
  by (simp_all add: bits_def filled_ok_def keep_first_def slot_key_def)

lemma same_slotD:
  assumes "same_slot f g"
  shows "fr_used g = fr_used f" "slot_key g = slot_key f" "fr_total g = fr_total f" "fr_first_hdr g = fr_first_hdr f"
  using assms unfolding same_slot_def slot_key_def by (cases f; cases g; simp)+

lemma frag_store_spec:
  assumes ok: "acceptable pkt" and wf: "slot_wf (g_frags s ! i)" and used: "fr_used (g_frags s ! i)"
    and m: "\<not> mismatch pkt (g_frags s ! i)"
  shows "\<exists>g. stored pkt (g_frags s ! i) g \<and>
    frag_store d pkt (off_of pkt) (ihl_of pkt) (mf_of pkt) i s =
      (if frag_complete g
       then (ip_deliver d (rd32be pkt 12) (rd32be pkt 16) (pkt ! 9) (map (the (fr_buf g)) [0 ..< fr_total g]),
             upd_dev d (\<lambda>v. v\<lparr>rx_frag_reasm := rx_frag_reasm v + 1\<rparr>) (s\<lparr>g_frags := (g_frags s)[i := full_slot g]\<rparr>))
       else (None, s\<lparr>g_frags := (g_frags s)[i := g]\<rparr>))"
proof -
  let ?f = "g_frags s ! i"
  let ?t = "if mf_of pkt then ?f else ?f\<lparr>fr_total := off_of pkt + length (data_of pkt)\<rparr>"
  let ?k = "keep_first (off_of pkt) (ihl_of pkt) (length (data_of pkt)) pkt ?t"
  from wf used obtain b where b: "fr_buf ?f = Some b" "filled_ok ?f" "length (fr_first_hdr ?f) \<le> 68" by (auto simp: slot_wf_def)
  have "fr_buf ?k = Some b" "filled_ok ?k" using b by simp_all
  with ok bmap_fill_spec [OF off_dvd, of pkt "data_of pkt" ?k b]
  obtain g where g: "bmap_fill (off_of pkt) (data_of pkt) ?k = (g, False)" "same_slot ?k g" "bits g = bits ?k \<union> units (off_of pkt) (data_of pkt)"
    "filled_ok g" "fr_buf g = Some (filled_from (off_of pkt) (data_of pkt) (units (off_of pkt) (data_of pkt) - bits ?k) b)"
    by (auto simp: acceptable_def)
  note same = same_slotD [OF g(2)]
  have hdr: "length (fr_first_hdr ?k) \<le> 68" using b(3) ihl_le [of pkt] by (auto simp: keep_first_def)
  have "stored pkt ?f g"
    using g(3-5) same hdr used b by (simp add: stored_def)
  moreover have "frag_store d pkt (off_of pkt) (ihl_of pkt) (mf_of pkt) i s =
      (if frag_complete g
       then (ip_deliver d (rd32be pkt 12) (rd32be pkt 16) (pkt ! 9) (map (the (fr_buf g)) [0 ..< fr_total g]),
             upd_dev d (\<lambda>v. v\<lparr>rx_frag_reasm := rx_frag_reasm v + 1\<rparr>) (s\<lparr>g_frags := (g_frags s)[i := full_slot g]\<rparr>))
       else (None, s\<lparr>g_frags := (g_frags s)[i := g]\<rparr>))"
    using m g(1,5) same(4) hdr
    by (cases "mf_of pkt") (auto simp: frag_store_def Let_def data_of_def [symmetric] mismatch_def full_slot_def)
  ultimately show ?thesis by blast
qed

section \<open>Slots\<close>

lemma slot_oldest_lt:
  "slot_oldest is k fs = Some i \<Longrightarrow> i \<in> set is \<or> k = Some i"
  by (induction "is" k fs rule: slot_oldest.induct) (auto split: option.splits if_splits)

lemma upd_dev_sel [simp]:
  "g_frags (upd_dev d g s) = g_frags s" "fault (upd_dev d g s) = fault s" "wire (upd_dev d g s) = wire s" "lo_queue (upd_dev d g s) = lo_queue s"
  by (simp_all add: upd_dev_def)

text \<open>A slot that holds nothing yet.\<close>

definition empty_slot :: "frag \<Rightarrow> bool" where
  "empty_slot f \<longleftrightarrow> fr_used f \<and> fr_buf f \<noteq> None \<and> bits f = {} \<and> fr_filled f = 0 \<and> fr_total f = 0 \<and> fr_first_hdr f = []"

lemma slot_start_empty: "fr_buf f \<noteq> None \<Longrightarrow> empty_slot (slot_start now f)"
  by (simp add: empty_slot_def slot_start_def slot_reset_def bits_def)

lemma slot_claim_spec:
  assumes "slot_claim now s = (Some i, s')" and "frags_wf s"
  shows "\<exists>h. i < length (g_frags s) \<and> g_frags s' = (g_frags s)[i := h] \<and> empty_slot h \<and> fault s' = fault s"
proof (cases "find_slot (\<lambda>f. \<not> fr_used f) (g_frags s)")
  case (Some j)
  note j = find_slot_lt [OF Some]
  show ?thesis
  proof (cases "fr_buf (g_frags s ! j)")
    case None
    with assms(1) Some have "i = j \<and> g_frags s' = (g_frags s)[j := slot_start now ((g_frags s ! j)\<lparr>fr_buf := Some (fresh s (asked s + 1))\<rparr>)] \<and> fault s' = fault s"
      by (auto simp: slot_claim_def ask_def split: prod.splits bool.splits)
    with j slot_start_empty [of "(g_frags s ! j)\<lparr>fr_buf := Some (fresh s (asked s + 1))\<rparr>" now] show ?thesis by auto
  next
    case b: (Some m)
    with assms(1) Some j slot_start_empty [of "g_frags s ! j" now] show ?thesis by (auto simp: slot_claim_def)
  qed
next
  case None
  with assms(1) obtain "slot_oldest [0 ..< length (g_frags s)] None (g_frags s) = Some i"
      "g_frags s' = (g_frags s)[i := slot_start now (g_frags s ! i)]" "fault s' = fault s"
    by (auto simp: slot_claim_def Let_def split: option.splits)
  moreover from this(1) have i: "i < length (g_frags s)" by (auto dest: slot_oldest_lt)
  moreover have "fr_used (g_frags s ! i)" using None i by (auto simp: find_slot_None_nth)
  then have "fr_buf (g_frags s ! i) \<noteq> None" using assms(2) i by (auto simp: frags_wf_def slot_wf_def)
  ultimately show ?thesis using slot_start_empty by blast
qed

lemma slot_claim_None: "slot_claim now s = (None, s') \<Longrightarrow> g_frags s' = g_frags s \<and> fault s' = fault s"
  by (auto simp: slot_claim_def Let_def ask_def split: option.splits prod.splits bool.splits)

text \<open>The slot in which a piece is stored: the one of its datagram, or a new one.\<close>

definition opened :: "net \<Rightarrow> u8 list \<Rightarrow> nat \<Rightarrow> frag \<Rightarrow> bool" where
  "opened s pkt i f \<longleftrightarrow> i < length (g_frags s) \<and> fr_used f \<and> slot_key f = key_of pkt \<and> slot_wf f \<and>
    (f = g_frags s ! i \<or> empty_slot f \<and> (\<forall>g \<in> set (g_frags s). fr_used g \<longrightarrow> slot_key g \<noteq> key_of pkt))"

lemma empty_wf: "empty_slot f \<Longrightarrow> slot_wf f"
  by (auto simp: empty_slot_def slot_wf_def filled_ok_def)

text \<open>All the ways the handler ends.\<close>

inductive frag_outcome :: "nat \<Rightarrow> u8 list \<Rightarrow> frag list \<Rightarrow> frag \<Rightarrow> nat \<Rightarrow> upcall option \<Rightarrow> frag list \<Rightarrow> bool"
  for d :: nat and pkt :: "u8 list" and fs :: "frag list" and f :: frag and i :: nat where
  Mismatch: "mismatch pkt f \<Longrightarrow> frag_outcome d pkt fs f i None (fs[i := slot_reset f])"
| Partial: "\<not> mismatch pkt f \<Longrightarrow> stored pkt f g \<Longrightarrow> \<not> frag_complete g \<Longrightarrow> frag_outcome d pkt fs f i None (fs[i := g])"
| Whole: "\<not> mismatch pkt f \<Longrightarrow> stored pkt f g \<Longrightarrow> frag_complete g \<Longrightarrow>
    frag_outcome d pkt fs f i (ip_deliver d (rd32be pkt 12) (rd32be pkt 16) (pkt ! 9) (map (the (fr_buf g)) [0 ..< fr_total g])) (fs[i := full_slot g])"

lemma frag_store_outcome:
  assumes "acceptable pkt" and "slot_wf (g_frags s ! i)" and "fr_used (g_frags s ! i)" and "i < length (g_frags s)"
    and "frag_store d pkt (off_of pkt) (ihl_of pkt) (mf_of pkt) i s = (up, s')"
  shows "frag_outcome d pkt (g_frags s) (g_frags s ! i) i up (g_frags s') \<and> fault s' = fault s"
proof (cases "mismatch pkt (g_frags s ! i)")
  case True
  then have "up = None" "g_frags s' = (g_frags s)[i := slot_reset (g_frags s ! i)]" "fault s' = fault s"
    using assms(5) by (auto simp: frag_store_def Let_def mismatch_def data_of_def [symmetric] frag_drop_def)
  with Mismatch [OF True] show ?thesis by simp
next
  case False
  from frag_store_spec [OF assms(1-3) False] obtain g where g: "stored pkt (g_frags s ! i) g"
    "frag_store d pkt (off_of pkt) (ihl_of pkt) (mf_of pkt) i s =
      (if frag_complete g
       then (ip_deliver d (rd32be pkt 12) (rd32be pkt 16) (pkt ! 9) (map (the (fr_buf g)) [0 ..< fr_total g]),
             upd_dev d (\<lambda>v. v\<lparr>rx_frag_reasm := rx_frag_reasm v + 1\<rparr>) (s\<lparr>g_frags := (g_frags s)[i := full_slot g]\<rparr>))
       else (None, s\<lparr>g_frags := (g_frags s)[i := g]\<rparr>))" by blast
  show ?thesis
  proof (cases "frag_complete g")
    case True
    with g(2) assms(5) Whole [OF False g(1) True, of d "g_frags s" i] show ?thesis by auto
  next
    case n: False
    with g(2) assms(5) Partial [OF False g(1) n, of d "g_frags s" i] show ?thesis by auto
  qed
qed

lemma frag_input_outcome:
  assumes "ip_frag_input now d pkt s = (up, s')" and "frags_wf s"
  shows "fault s' = fault s \<and>
   (up = None \<and> g_frags s' = g_frags s \<and>
     (acceptable pkt \<longrightarrow> (\<forall>g \<in> set (g_frags s). fr_used g \<longrightarrow> slot_key g \<noteq> key_of pkt) \<and> fst (slot_claim now s) = None) \<or>
    (\<exists>i f. acceptable pkt \<and> opened s pkt i f \<and> frag_outcome d pkt (g_frags s) f i up (g_frags s')))"
proof (cases "acceptable pkt")
  case False
  then show ?thesis using assms(1)
    by (auto simp: ip_frag_input_def Let_def acceptable_def ihl_of_def [symmetric] off_of_def [symmetric] mf_of_def [symmetric]
        data_of_def frag_drop_def split: if_splits)
next
  case True
  note fold_defs = ihl_of_def [symmetric] off_of_def [symmetric] mf_of_def [symmetric]
  note frag = assms(1) [unfolded ip_frag_input_def Let_def fold_defs]
  show ?thesis
  proof (cases "slot_find (rd32be pkt 12) (rd32be pkt 16) (rd16be pkt 4) (pkt ! 9) (g_frags s)")
    case (Some i)
    then have i: "i < length (g_frags s)" "slot_match (rd32be pkt 12) (rd32be pkt 16) (rd16be pkt 4) (pkt ! 9) (g_frags s ! i)"
      by (auto simp: slot_find_def dest: find_slot_SomeD)
    then have "slot_wf (g_frags s ! i)" using assms(2) by (auto simp: frags_wf_def)
    moreover have st: "frag_store d pkt (off_of pkt) (ihl_of pkt) (mf_of pkt) i s = (up, s')"
      using frag True Some by (auto simp: acceptable_def data_of_def split: if_splits)
    ultimately have "opened s pkt i (g_frags s ! i)" using i by (auto simp: opened_def slot_match_def slot_key_def key_of_def)
    moreover from frag_store_outcome [OF True \<open>slot_wf _\<close> _ i(1) st] i(2)
    have "frag_outcome d pkt (g_frags s) (g_frags s ! i) i up (g_frags s') \<and> fault s' = fault s" by (simp add: slot_match_def)
    ultimately show ?thesis using True by blast
  next
    case None
    then have none: "\<forall>g \<in> set (g_frags s). fr_used g \<longrightarrow> slot_key g \<noteq> key_of pkt"
      by (auto simp: slot_find_def find_slot_None slot_match_def slot_key_def key_of_def)
    obtain r s1 where c: "slot_claim now s = (r, s1)" by (cases "slot_claim now s")
    show ?thesis
    proof (cases r)
      case n: None
      with frag True None c have "up = None" "s' = frag_drop d s1" by (auto simp: acceptable_def data_of_def split: if_splits)
      with slot_claim_None [OF c [unfolded n]] none c n show ?thesis by (simp add: frag_drop_def)
    next
      case (Some i)
      from slot_claim_spec [OF c [unfolded Some] assms(2)] obtain h where h: "i < length (g_frags s)" "g_frags s1 = (g_frags s)[i := h]"
        "empty_slot h" "fault s1 = fault s" by blast
      let ?h = "h\<lparr>fr_dev := Some d, fr_src := rd32be pkt 12, fr_dst := rd32be pkt 16, fr_id := rd16be pkt 4, fr_proto := pkt ! 9\<rparr>"
      let ?s2 = "s1\<lparr>g_frags := (g_frags s)[i := ?h]\<rparr>"
      have e: "empty_slot ?h" using h(3) by (simp add: empty_slot_def bits_def)
      have st: "frag_store d pkt (off_of pkt) (ihl_of pkt) (mf_of pkt) i ?s2 = (up, s')"
        using frag True None c Some h(1,2) by (auto simp: acceptable_def data_of_def split: if_splits)
      have "frag_outcome d pkt (g_frags ?s2) (g_frags ?s2 ! i) i up (g_frags s') \<and> fault s' = fault ?s2"
        by (rule frag_store_outcome [OF True _ _ _ st]) (use h(1) e empty_wf in \<open>auto simp: empty_slot_def\<close>)
      then have "frag_outcome d pkt ((g_frags s)[i := ?h]) ?h i up (g_frags s')" "fault s' = fault s" using h(1,4) by simp_all
      moreover from this(1) have "frag_outcome d pkt (g_frags s) ?h i up (g_frags s')"
        by (cases rule: frag_outcome.cases) (auto intro: frag_outcome.intros)
      moreover have "opened s pkt i ?h" using h(1) e none empty_wf [OF e] by (auto simp: opened_def slot_key_def key_of_def empty_slot_def)
      ultimately show ?thesis using True by blast
    qed
  qed
qed

section \<open>The table stays well formed\<close>

lemma reset_wf [simp]: "slot_wf (slot_reset f)" "slot_wf (full_slot f)"
  by (simp_all add: slot_wf_def slot_reset_def full_slot_def)

lemma stored_wf: "stored pkt f g \<Longrightarrow> slot_wf g"
  by (simp add: stored_def slot_wf_def)

lemma frags_wf_store: "frags_wf s \<Longrightarrow> slot_wf g \<Longrightarrow> g_frags s' = (g_frags s)[i := g] \<Longrightarrow> frags_wf s'"
  unfolding frags_wf_def using set_update_subset_insert [of "g_frags s" i g] by auto

lemma frag_input_wf:
  assumes "ip_frag_input now d pkt s = (up, s')" and "frags_wf s"
  shows "frags_wf s' \<and> fault s' = fault s"
proof -
  have "frags_wf s'" if "frag_outcome d pkt (g_frags s) f i up (g_frags s')" for f i
    using that by cases (auto intro: frags_wf_store [OF assms(2)] stored_wf reset_wf)
  with frag_input_outcome [OF assms] assms(2) show ?thesis by (auto simp: frags_wf_def)
qed

section \<open>The slots agree with the datagrams\<close>

text \<open>A piece of the datagram that \<open>P\<close> gives for its key; the last one ends where the datagram ends.\<close>

definition genuine :: "(u32 \<times> u32 \<times> u16 \<times> u8 \<Rightarrow> u8 list) \<Rightarrow> u8 list \<Rightarrow> bool" where
  "genuine P pkt \<longleftrightarrow> off_of pkt + length (data_of pkt) \<le> length (P (key_of pkt)) \<and>
    (\<forall>j < length (data_of pkt). data_of pkt ! j = P (key_of pkt) ! (off_of pkt + j)) \<and>
    (\<not> mf_of pkt \<longrightarrow> off_of pkt + length (data_of pkt) = length (P (key_of pkt)))"

definition agrees :: "(u32 \<times> u32 \<times> u16 \<times> u8 \<Rightarrow> u8 list) \<Rightarrow> frag \<Rightarrow> bool" where
  "agrees P f \<longleftrightarrow> (fr_used f \<longrightarrow>
    (\<forall>u \<in> bits f. u * 8 < length (P (slot_key f)) \<and>
       (\<forall>i. i div 8 = u \<longrightarrow> i < length (P (slot_key f)) \<longrightarrow> the (fr_buf f) i = P (slot_key f) ! i)) \<and>
    (fr_total f = 0 \<or> fr_total f = length (P (slot_key f))))"

lemma piece_reaches:
  assumes "acceptable pkt" and "genuine P pkt" and "i div 8 \<in> units (off_of pkt) (data_of pkt)" and "i < length (P (key_of pkt))"
  shows "off_of pkt \<le> i \<and> i < off_of pkt + length (data_of pkt)"
proof -
  let ?o = "off_of pkt" and ?n = "length (data_of pkt)"
  obtain k where k: "?o = 8 * k" using off_dvd by (auto elim: dvdE)
  have u: "k \<le> i div 8" "i div 8 * 8 < ?o + ?n" using assms(3) by (auto simp: units_def k unit_less)
  have "i < ?o + ?n"
  proof (cases "mf_of pkt")
    case True
    then obtain j where "?n = 8 * j" using assms(1) by (auto simp: acceptable_def)
    with k u(2) show ?thesis by presburger
  next
    case False
    with assms(2,4) show ?thesis by (simp add: genuine_def)
  qed
  with u(1) k show ?thesis by presburger
qed

lemma stored_agrees:
  assumes ok: "acceptable pkt" and gen: "genuine P pkt" and k: "slot_key f = key_of pkt" and used: "fr_used f"
    and f: "agrees P f" and st: "stored pkt f g"
  shows "agrees P g"
proof -
  let ?p = "P (key_of pkt)" and ?us = "units (off_of pkt) (data_of pkt)"
  have kg: "slot_key g = key_of pkt" using st k by (simp add: stored_def)
  have "u * 8 < length ?p \<and> (\<forall>i. i div 8 = u \<longrightarrow> i < length ?p \<longrightarrow> the (fr_buf g) i = ?p ! i)" if u: "u \<in> bits g" for u
  proof (cases "u \<in> bits f")
    case True
    then show ?thesis using f used k st by (auto simp: agrees_def stored_def filled_from_def)
  next
    case False
    then have new: "u \<in> ?us" using u st by (auto simp: stored_def)
    have "u * 8 < off_of pkt + length (data_of pkt)" using new by (simp add: units_def unit_less)
    moreover have "the (fr_buf g) i = ?p ! i" if i: "i div 8 = u" "i < length ?p" for i
    proof -
      have r: "off_of pkt \<le> i" "i < off_of pkt + length (data_of pkt)" using piece_reaches [OF ok gen _ i(2)] i(1) new by simp_all
      then have "the (fr_buf g) i = data_of pkt ! (i - off_of pkt)" using st i(1) new False by (simp add: stored_def filled_from_def)
      moreover have "i - off_of pkt < length (data_of pkt)" using r by linarith
      ultimately show ?thesis using gen r(1) by (auto simp: genuine_def)
    qed
    ultimately show ?thesis using gen by (auto simp: genuine_def)
  qed
  moreover have "fr_total g = 0 \<or> fr_total g = length ?p"
    using st f used k gen by (auto simp: stored_def agrees_def genuine_def)
  ultimately show ?thesis using kg unfolding agrees_def by simp
qed

text \<open>A slot whose counter says that it is full holds the datagram.\<close>

lemma complete_is_datagram:
  assumes "agrees P g" and "filled_ok g" and "fr_used g" and "frag_complete g"
  shows "map (the (fr_buf g)) [0 ..< fr_total g] = P (slot_key g)"
proof -
  let ?p = "P (slot_key g)"
  have t: "fr_total g = length ?p" and n: "card (bits g) = (length ?p + 7) div 8" and fin: "finite (bits g)"
    using assms by (auto simp: agrees_def frag_complete_def filled_ok_def)
  have "bits g \<subseteq> {..< (length ?p + 7) div 8}" using assms(1,3) by (auto simp: agrees_def unit_less)
  then have all: "bits g = {..< (length ?p + 7) div 8}" using n by (intro card_subset_eq) simp_all
  have val: "the (fr_buf g) i = ?p ! i" if "i < length ?p" for i
  proof -
    have "i div 8 < (length ?p + 7) div 8" using that unfolding unit_less by (metis div_times_less_eq_dividend le_less_trans)
    then have "i div 8 \<in> bits g" by (simp add: all)
    with assms(1,3) that show ?thesis by (auto simp: agrees_def)
  qed
  show ?thesis unfolding t by (rule nth_equalityI) (simp, simp add: val)
qed

definition table_agrees :: "(u32 \<times> u32 \<times> u16 \<times> u8 \<Rightarrow> u8 list) \<Rightarrow> net \<Rightarrow> bool" where
  "table_agrees P s \<longleftrightarrow> (\<forall>f \<in> set (g_frags s). agrees P f)"

lemma agrees_reset [simp]: "agrees P (slot_reset f)" "agrees P (full_slot f)"
  by (simp_all add: agrees_def slot_reset_def full_slot_def)

lemma table_agrees_store: "table_agrees P s \<Longrightarrow> agrees P g \<Longrightarrow> g_frags s' = (g_frags s)[i := g] \<Longrightarrow> table_agrees P s'"
  unfolding table_agrees_def using set_update_subset_insert [of "g_frags s" i g] by auto

lemma opened_agrees: "opened s pkt i f \<Longrightarrow> table_agrees P s \<Longrightarrow> agrees P f"
  by (auto simp: opened_def table_agrees_def agrees_def empty_slot_def)

lemma frag_input_genuine:
  assumes "ip_frag_input now d pkt s = (up, s')" and "frags_wf s" and "table_agrees P s" and "genuine P pkt"
  shows "table_agrees P s' \<and> (up = None \<or> up = ip_deliver d (rd32be pkt 12) (rd32be pkt 16) (pkt ! 9) (P (key_of pkt)))"
proof -
  have "table_agrees P s' \<and> (up = None \<or> up = ip_deliver d (rd32be pkt 12) (rd32be pkt 16) (pkt ! 9) (P (key_of pkt)))"
    if out: "frag_outcome d pkt (g_frags s) f i up (g_frags s')" and op: "opened s pkt i f" and ok: "acceptable pkt" for f i
  proof -
    have a: "agrees P f" and k: "slot_key f = key_of pkt" and used: "fr_used f"
      using opened_agrees [OF op assms(3)] op by (auto simp: opened_def)
    note ag = stored_agrees [OF ok assms(4) k used a]
    from out show ?thesis
    proof cases
      case Mismatch
      then show ?thesis by (auto intro: table_agrees_store [OF assms(3)] agrees_reset)
    next
      case (Partial g)
      then show ?thesis using ag by (auto intro: table_agrees_store [OF assms(3)] agrees_reset)
    next
      case (Whole g)
      from complete_is_datagram [OF ag [OF Whole(4)] _ _ Whole(5)] Whole(4) k
      have "map (the (fr_buf g)) [0 ..< fr_total g] = P (key_of pkt)" by (simp add: stored_def)
      with Whole show ?thesis by (auto intro: table_agrees_store [OF assms(3)] agrees_reset)
    qed
  qed
  with frag_input_outcome [OF assms(1,2)] assms(3) show ?thesis by (auto simp: table_agrees_def)
qed

end
