(* ===== verification/Ip_Reasm.thy ===== *)
theory Ip_Reasm
  imports Ip_Frag
begin

text \<open>
  Pieces in any order: when every piece of a datagram arrives once, in whatever order and at whatever times, the last
  one to arrive delivers the datagram, and no other does.
\<close>

section \<open>A set of pieces\<close>

text \<open>The pieces of one datagram \<open>pl\<close> with key \<open>K\<close>: they mark disjoint sets of units that together are all units.\<close>

definition piece_set :: "u32 \<times> u32 \<times> u16 \<times> u8 \<Rightarrow> u8 list \<Rightarrow> u8 list set \<Rightarrow> bool" where
  "piece_set K pl Q \<longleftrightarrow> pl \<noteq> [] \<and>
    (\<forall>q \<in> Q. acceptable q \<and> genuine (\<lambda>_. pl) q \<and> key_of q = K \<and> units (off_of q) (data_of q) \<noteq> {}) \<and>
    (\<forall>q \<in> Q. \<forall>r \<in> Q. q \<noteq> r \<longrightarrow> units (off_of q) (data_of q) \<inter> units (off_of r) (data_of r) = {}) \<and>
    (\<Union>q \<in> Q. units (off_of q) (data_of q)) = {..< (length pl + 7) div 8} \<and> (\<exists>q \<in> Q. \<not> mf_of q)"

lemma piece_setD:
  assumes "piece_set K pl Q"
  shows "q \<in> Q \<Longrightarrow> acceptable q" "q \<in> Q \<Longrightarrow> genuine (\<lambda>_. pl) q" "q \<in> Q \<Longrightarrow> key_of q = K"
    "q \<in> Q \<Longrightarrow> units (off_of q) (data_of q) \<noteq> {}"
    "q \<in> Q \<Longrightarrow> r \<in> Q \<Longrightarrow> q \<noteq> r \<Longrightarrow> units (off_of q) (data_of q) \<inter> units (off_of r) (data_of r) = {}"
    "(\<Union>q \<in> Q. units (off_of q) (data_of q)) = {..< (length pl + 7) div 8}" "\<exists>q \<in> Q. \<not> mf_of q" "pl \<noteq> []"
  using assms unfolding piece_set_def by simp_all

definition units_of :: "u8 list set \<Rightarrow> nat set" where
  "units_of R = (\<Union>q \<in> R. units (off_of q) (data_of q))"

lemma units_of_all:
  assumes "piece_set K pl Q" and "R \<subseteq> Q"
  shows "units_of R = {..< (length pl + 7) div 8} \<longleftrightarrow> R = Q"
proof
  assume all: "units_of R = {..< (length pl + 7) div 8}"
  have "q \<in> R" if q: "q \<in> Q" for q
  proof -
    from piece_setD(4) [OF assms(1) q] obtain u where u: "u \<in> units (off_of q) (data_of q)" by blast
    with q have "u \<in> units_of R" unfolding all piece_setD(6) [OF assms(1), symmetric] by blast
    then obtain r where r: "r \<in> R" "u \<in> units (off_of r) (data_of r)" by (auto simp: units_of_def)
    have "q = r"
    proof (rule ccontr)
      assume "q \<noteq> r"
      moreover have "r \<in> Q" using assms(2) r(1) by blast
      ultimately have "units (off_of q) (data_of q) \<inter> units (off_of r) (data_of r) = {}"
        using piece_setD(5) [OF assms(1) q] by simp
      with u r(2) show False by blast
    qed
    with r(1) show ?thesis by simp
  qed
  with assms(2) show "R = Q" by blast
next
  assume "R = Q"
  with assms(1) show "units_of R = {..< (length pl + 7) div 8}" using piece_setD(6) [OF assms(1)] by (simp add: units_of_def)
qed

text \<open>The table after the pieces \<open>R\<close> have come.\<close>

definition holding :: "u32 \<times> u32 \<times> u16 \<times> u8 \<Rightarrow> u8 list \<Rightarrow> u8 list set \<Rightarrow> net \<Rightarrow> bool" where
  "holding K pl R s \<longleftrightarrow> frags_wf s \<and>
    (\<exists>i < length (g_frags s). \<forall>j < length (g_frags s). fr_used (g_frags s ! j) \<and> slot_key (g_frags s ! j) = K \<longleftrightarrow> j = i) \<and>
    (\<forall>f \<in> set (g_frags s). fr_used f \<longrightarrow> slot_key f = K \<longrightarrow>
       agrees (\<lambda>_. pl) f \<and> bits f = units_of R \<and> fr_total f = (if \<exists>q \<in> R. \<not> mf_of q then length pl else 0))"

definition no_slot :: "u32 \<times> u32 \<times> u16 \<times> u8 \<Rightarrow> net \<Rightarrow> bool" where
  "no_slot K s \<longleftrightarrow> (\<forall>f \<in> set (g_frags s). fr_used f \<longrightarrow> slot_key f \<noteq> K)"

definition waiting :: "u32 \<times> u32 \<times> u16 \<times> u8 \<Rightarrow> u8 list \<Rightarrow> u8 list set \<Rightarrow> net \<Rightarrow> bool" where
  "waiting K pl R s \<longleftrightarrow> (if R = {} then frags_wf s \<and> no_slot K s \<and> (\<forall>now. fst (slot_claim now s) \<noteq> None) else holding K pl R s)"

text \<open>The slot a piece opens: it has what the earlier pieces left, and it becomes the only one of its key.\<close>

lemma opened_waiting:
  assumes "waiting K pl R s" and "opened s q i f" and "key_of q = K"
  shows "agrees (\<lambda>_. pl) f \<and> bits f = units_of R \<and> fr_total f = (if \<exists>q \<in> R. \<not> mf_of q then length pl else 0) \<and>
    (\<forall>j < length (g_frags s). j \<noteq> i \<longrightarrow> \<not> (fr_used (g_frags s ! j) \<and> slot_key (g_frags s ! j) = K))"
proof (cases "R = {}")
  case True
  then have ns: "no_slot K s" using assms(1) by (simp add: waiting_def)
  then have "f \<noteq> g_frags s ! i" using assms(2,3) by (auto simp: opened_def no_slot_def)
  then have "empty_slot f" using assms(2) by (auto simp: opened_def)
  with True ns show ?thesis by (auto simp: empty_slot_def agrees_def units_of_def no_slot_def)
next
  case False
  then have h: "holding K pl R s" using assms(1) by (simp add: waiting_def)
  then obtain k where k: "k < length (g_frags s)"
    "\<forall>j < length (g_frags s). fr_used (g_frags s ! j) \<and> slot_key (g_frags s ! j) = K \<longleftrightarrow> j = k" by (auto simp: holding_def)
  then have "\<not> (\<forall>g \<in> set (g_frags s). fr_used g \<longrightarrow> slot_key g \<noteq> key_of q)" using assms(3) by auto
  then have f: "f = g_frags s ! i" "i < length (g_frags s)" "fr_used f" "slot_key f = K" using assms(2,3) by (auto simp: opened_def)
  then have "i = k" using k by auto
  with h k f show ?thesis by (auto simp: holding_def)
qed

lemma stored_complete:
  assumes ps: "piece_set K pl Q" and R: "R \<subseteq> Q" and q: "q \<in> Q" and f: "bits f = units_of R"
    "fr_total f = (if \<exists>q \<in> R. \<not> mf_of q then length pl else 0)" and st: "stored q f g" and ag: "agrees (\<lambda>_. pl) g"
  shows "bits g = units_of (insert q R)" "fr_total g = (if \<exists>q \<in> insert q R. \<not> mf_of q then length pl else 0)"
    "frag_complete g \<longleftrightarrow> insert q R = Q"
proof -
  show b: "bits g = units_of (insert q R)" using st f(1) by (auto simp: stored_def units_of_def)
  show t: "fr_total g = (if \<exists>q \<in> insert q R. \<not> mf_of q then length pl else 0)"
  proof (cases "mf_of q")
    case True
    then have "fr_total g = fr_total f" using st by (simp add: stored_def)
    with True f(2) show ?thesis by simp
  next
    case False
    then have "fr_total g = length pl" using st piece_setD(2) [OF ps q] by (simp add: stored_def genuine_def)
    with False show ?thesis by simp
  qed
  have sub: "bits g \<subseteq> {..< (length pl + 7) div 8}"
  proof
    fix u
    assume "u \<in> bits g"
    moreover have "fr_used g" using st by (simp add: stored_def)
    ultimately have "u * 8 < length pl" using ag unfolding agrees_def by blast
    then show "u \<in> {..< (length pl + 7) div 8}" by (simp add: unit_less)
  qed
  have n: "fr_filled g = card (bits g)" using st by (simp add: stored_def filled_ok_def)
  have full: "card (bits g) = (length pl + 7) div 8 \<longleftrightarrow> insert q R = Q"
  proof -
    have "insert q R = Q \<longleftrightarrow> bits g = {..< (length pl + 7) div 8}" using units_of_all [OF ps, of "insert q R"] q R by (simp add: b)
    also have "\<dots> \<longleftrightarrow> card (bits g) = (length pl + 7) div 8" using card_subset_eq [OF finite_lessThan sub] by (metis card_lessThan)
    finally show ?thesis by simp
  qed
  have len: "0 < length pl" using piece_setD(8) [OF ps] by simp
  show "frag_complete g \<longleftrightarrow> insert q R = Q"
  proof (cases "\<exists>q \<in> insert q R. \<not> mf_of q")
    case True
    then have "fr_total g = length pl" using t by simp
    then show ?thesis using len full n by (simp add: frag_complete_def)
  next
    case False
    then have "fr_total g = 0" using t by simp
    moreover have "insert q R \<noteq> Q" using False piece_setD(7) [OF ps] by blast
    ultimately show ?thesis by (simp add: frag_complete_def)
  qed
qed

lemma piece_step:
  assumes ps: "piece_set K pl Q" and w: "waiting K pl R s" and q: "q \<in> Q" "q \<notin> R" and R: "R \<subseteq> Q"
    and inp: "ip_frag_input now d q s = (up, s')"
  shows "if insert q R = Q then up = ip_deliver d (fst K) (fst (snd K)) (snd (snd (snd K))) pl
    else up = None \<and> waiting K pl (insert q R) s'"
proof -
  have wf: "frags_wf s" using w by (auto simp: waiting_def holding_def split: if_splits)
  have ok: "acceptable q" and gen: "genuine (\<lambda>_. pl) q" and k: "key_of q = K" using piece_setD(1-3) [OF ps q(1)] .
  have "\<not> ((\<forall>g \<in> set (g_frags s). fr_used g \<longrightarrow> slot_key g \<noteq> key_of q) \<and> fst (slot_claim now s) = None)"
    using w k by (auto simp: waiting_def holding_def split: if_splits)
  with frag_input_outcome [OF inp wf] ok obtain i f where op: "opened s q i f" and out: "frag_outcome d q (g_frags s) f i up (g_frags s')" by blast
  note f = opened_waiting [OF w op k]
  have fi: "i < length (g_frags s)" "fr_used f" "slot_key f = K" using op k by (auto simp: opened_def)
  have mm: "\<not> mismatch q f" using f gen ps by (auto simp: mismatch_def genuine_def split: if_splits)
  note st_ag = stored_agrees [OF ok gen _ fi(2)]
  from out show ?thesis
  proof cases
    case Mismatch
    with mm show ?thesis by simp
  next
    case (Partial g)
    have ag: "agrees (\<lambda>_. pl) g" by (rule st_ag [OF _ _ Partial(4)]) (use f fi(3) k in simp_all)
    note c = stored_complete [OF ps R q(1) _ _ Partial(4) ag]
    have g: "fr_used g" "slot_key g = K" using Partial(4) fi(3) by (auto simp: stored_def)
    have "holding K pl (insert q R) s'"
      unfolding holding_def
    proof (intro conjI ballI impI)
      show "frags_wf s'" using frag_input_wf [OF inp wf] by simp
      show "\<exists>i < length (g_frags s'). \<forall>j < length (g_frags s'). fr_used (g_frags s' ! j) \<and> slot_key (g_frags s' ! j) = K \<longleftrightarrow> j = i"
        using f fi g Partial(2) by (intro exI [of _ i]) (auto simp: nth_list_update)
      fix h
      assume h: "h \<in> set (g_frags s')" "fr_used h" "slot_key h = K"
      then obtain j where "j < length (g_frags s)" "h = (g_frags s)[i := g] ! j" using Partial(2) by (auto simp: in_set_conv_nth)
      with f h(2,3) have "h = g" by (cases "j = i") auto
      then show "agrees (\<lambda>_. pl) h" "bits h = units_of (insert q R)" "fr_total h = (if \<exists>q \<in> insert q R. \<not> mf_of q then length pl else 0)"
        using ag c f by auto
    qed
    moreover have "insert q R \<noteq> Q" using Partial(5) c f by blast
    ultimately show ?thesis using Partial(1) by (simp add: waiting_def)
  next
    case (Whole g)
    have ag: "agrees (\<lambda>_. pl) g" by (rule st_ag [OF _ _ Whole(4)]) (use f fi(3) k in simp_all)
    note c = stored_complete [OF ps R q(1) _ _ Whole(4) ag]
    have "insert q R = Q" using Whole(5) c f by blast
    moreover have "map (the (fr_buf g)) [0 ..< fr_total g] = pl"
      using complete_is_datagram [OF ag _ _ Whole(5)] Whole(4) by (simp add: stored_def)
    ultimately show ?thesis using Whole(1) k by (auto simp: key_of_def)
  qed
qed

end
