(* ===== verification/Ip_Send.thy ===== *)
theory Ip_Send
  imports Ip_Reasm "HOL-Library.Multiset"
begin

text \<open>
  The pieces that \<open>ip_send\<close> cuts a datagram into: what goes on the wire is one frame per piece, the pieces form a
  set in the sense of the reassembly, and a frame that arrives is a piece that arrives.
\<close>

section \<open>The pieces\<close>

definition piece_at :: "(u16 \<Rightarrow> u8 list \<Rightarrow> u8 list) \<Rightarrow> nat \<Rightarrow> u8 list \<Rightarrow> nat \<Rightarrow> u8 list" where
  "piece_at mk chunk pl off =
    (let n = (if length pl - off < chunk then length pl - off else chunk)
     in mk (frag_field off n (length pl)) (take n (drop off pl)))"

function offs :: "nat \<Rightarrow> nat \<Rightarrow> nat \<Rightarrow> nat list" where
  "offs chunk off len = (if chunk = 0 \<or> \<not> off < len then [] else off # offs chunk (off + chunk) len)"
  by pat_completeness auto
termination by (relation "measure (\<lambda>(chunk, off, len). len - off)") auto

declare offs.simps [simp del]

lemma set_offs: "0 < chunk \<Longrightarrow> set (offs chunk off len) = {off + k * chunk | k. off + k * chunk < len}"
proof (induction chunk off len rule: offs.induct)
  case (1 chunk off len)
  show ?case
  proof (cases "off < len")
    case True
    have "{off + k * chunk | k. off + k * chunk < len} = insert off {off + chunk + k * chunk | k. off + chunk + k * chunk < len}"
    proof (intro set_eqI iffI)
      fix x
      assume "x \<in> {off + k * chunk | k. off + k * chunk < len}"
      then obtain k where "x = off + k * chunk" "x < len" by blast
      then show "x \<in> insert off {off + chunk + k * chunk | k. off + chunk + k * chunk < len}" by (cases k) auto
    next
      fix x
      assume "x \<in> insert off {off + chunk + k * chunk | k. off + chunk + k * chunk < len}"
      then consider "x = off" | k where "x = off + chunk + k * chunk" "x < len" by blast
      then show "x \<in> {off + k * chunk | k. off + k * chunk < len}"
      proof cases
        case 1
        with True show ?thesis by (auto intro: exI [of _ 0])
      next
        case 2
        then show ?thesis by (auto intro: exI [of _ "Suc k"])
      qed
    qed
    moreover have "set (offs chunk off len) = insert off (set (offs chunk (off + chunk) len))"
      using True "1.prems" by (simp add: offs.simps [of chunk off len])
    ultimately show ?thesis using "1.IH" True "1.prems" by simp
  qed (simp add: offs.simps [of chunk off len])
qed

lemma distinct_offs: "0 < chunk \<Longrightarrow> distinct (offs chunk off len)"
proof (induction chunk off len rule: offs.induct)
  case (1 chunk off len)
  then show ?case using set_offs [of chunk "off + chunk" len] by (auto simp: offs.simps [of chunk off len])
qed

lemma low13:
  fixes w :: u16
  assumes hi: "\<And>j. 13 \<le> j \<Longrightarrow> \<not> bit w j"
  shows "w AND 0x1FFF = w" "(w OR 0x2000) AND 0x1FFF = w"
proof -
  have m: "(0x1FFF :: u16) = mask 13" by (simp add: mask_eq_exp_minus_1)
  have b: "(0x2000 :: u16) = 2 ^ 13" by simp
  have lt: "n < 13" if "bit w n" for n using hi [of n] that by (metis not_less)
  show "w AND 0x1FFF = w" unfolding m by (rule bit_word_eqI) (use lt in \<open>auto simp: bit_simps\<close>)
  have e: "bit (0x2000 :: u16) n \<longleftrightarrow> n = 13" for n unfolding b bit_exp_iff by auto
  show "(w OR 0x2000) AND 0x1FFF = w" unfolding m by (rule bit_word_eqI) (use lt e in \<open>auto simp only: bit_and_iff bit_or_iff bit_mask_iff possible_bit_word less_irrefl\<close>)
qed

lemma frag_field_parts:
  assumes "off div 8 < 8192"
  shows "unat (frag_field off n len AND 0x1FFF) = off div 8" "frag_field off n len AND 0x2000 \<noteq> 0 \<longleftrightarrow> off + n < len"
proof -
  let ?k = "of_nat (off div 8) :: u16"
  have k: "unat ?k = off div 8" using assms by (simp add: unat_of_nat take_bit_eq_mod)
  have hi: "\<not> bit ?k j" if "13 \<le> j" for j
  proof -
    have "off div 8 < 2 ^ j" using assms power_increasing [OF that, of "2 :: nat"] by simp
    then have "\<not> bit (off div 8) j" by (simp add: bit_iff_odd)
    with k have "\<not> bit (unat ?k) j" by metis
    then show ?thesis by (simp add: bit_unsigned_iff)
  qed
  note low = low13 [OF hi]
  have b13: "w AND 0x2000 \<noteq> 0 \<longleftrightarrow> bit w 13" for w :: u16
    using and_exp_eq_0_iff_not_bit [of w 13] by simp
  show "unat (frag_field off n len AND 0x1FFF) = off div 8" using low k by (simp add: frag_field_def)
  have "bit (0x2000 :: u16) 13" using b13 [of "0x2000"] by simp
  then have "bit (?k OR 0x2000) 13" by (simp add: bit_or_iff)
  then show "frag_field off n len AND 0x2000 \<noteq> 0 \<longleftrightarrow> off + n < len"
    unfolding b13 using hi [of 13] by (simp add: frag_field_def)
qed

definition piece_len :: "nat \<Rightarrow> u8 list \<Rightarrow> nat \<Rightarrow> nat" where
  "piece_len chunk pl off = (if length pl - off < chunk then length pl - off else chunk)"

lemma piece_fields:
  fixes src dst proto ttl ident
  defines "mk \<equiv> ip_packet src dst proto ttl ident"
  assumes "8 dvd off" and "off < length pl" and "length pl \<le> 65515"
  shows "off_of (piece_at mk chunk pl off) = off" "mf_of (piece_at mk chunk pl off) \<longleftrightarrow> off + piece_len chunk pl off < length pl"
    "ihl_of (piece_at mk chunk pl off) = 20" "data_of (piece_at mk chunk pl off) = take (piece_len chunk pl off) (drop off pl)"
    "key_of (piece_at mk chunk pl off) = (src, dst, ident, proto)"
proof -
  let ?q = "piece_at mk chunk pl off"
  have q: "?q = ip_packet src dst proto ttl ident (frag_field off (piece_len chunk pl off) (length pl)) (take (piece_len chunk pl off) (drop off pl))"
    by (simp add: piece_at_def piece_len_def mk_def Let_def)
  note f = ip_packet_fields [of src dst proto ttl ident "frag_field off (piece_len chunk pl off) (length pl)"
      "take (piece_len chunk pl off) (drop off pl)", folded q]
  have k: "off div 8 < 8192" using assms(3,4) by linarith
  show "off_of ?q = off" unfolding off_of_def f(5) frag_field_parts(1) [OF k] using assms(2) by simp
  show "mf_of ?q \<longleftrightarrow> off + piece_len chunk pl off < length pl" unfolding mf_of_def f(5) by (rule frag_field_parts(2) [OF k])
  show ihl: "ihl_of ?q = 20" unfolding ihl_of_def f(2) by simp
  show "data_of ?q = take (piece_len chunk pl off) (drop off pl)" unfolding data_of_def ihl by (rule f(9))
  show "key_of ?q = (src, dst, ident, proto)" unfolding key_of_def by (simp only: f)
qed

lemma units_iff: "8 dvd off \<Longrightarrow> u \<in> units off data \<longleftrightarrow> off \<le> u * 8 \<and> u * 8 < off + length data"
  by (auto simp: units_def unit_less elim!: dvdE)

lemma pieces_set:
  fixes src dst proto ttl ident
  defines "mk \<equiv> ip_packet src dst proto ttl ident"
  assumes c: "8 dvd chunk" "0 < chunk" and len: "0 < length pl" "length pl \<le> 65515"
  shows "piece_set (src, dst, ident, proto) pl (set (map (piece_at mk chunk pl) (offs chunk 0 (length pl))))"
proof -
  let ?O = "{k * chunk | k. k * chunk < length pl}"
  let ?q = "piece_at mk chunk pl"
  have Q: "set (map ?q (offs chunk 0 (length pl))) = ?q ` ?O" using set_offs [OF c(2), of 0 "length pl"] by simp
  have o: "8 dvd off \<and> off < length pl" if "off \<in> ?O" for off using that c(1) by auto
  note f = piece_fields [of _ pl src dst proto ttl ident chunk, folded mk_def, OF _ _ len(2)]
  have dl: "length (data_of (?q off)) = piece_len chunk pl off" "off + piece_len chunk pl off \<le> length pl" "0 < piece_len chunk pl off"
    if "off \<in> ?O" for off
    using f(4) [of off] o [OF that] c(2) by (auto simp: piece_len_def)
  have u: "u \<in> units (off_of (?q off)) (data_of (?q off)) \<longleftrightarrow> u * 8 < length pl \<and> u * 8 div chunk * chunk = off" if "off \<in> ?O" for off u
  proof -
    from that obtain k where k: "off = k * chunk" by blast
    have "u \<in> units (off_of (?q off)) (data_of (?q off)) \<longleftrightarrow> off \<le> u * 8 \<and> u * 8 < off + piece_len chunk pl off"
      using units_iff [of off u "data_of (?q off)"] f(1) [of off] o [OF that] dl(1) [OF that] by simp
    also have "\<dots> \<longleftrightarrow> u * 8 < length pl \<and> k * chunk \<le> u * 8 \<and> u * 8 < k * chunk + chunk"
      using o [OF that] by (auto simp: piece_len_def k)
    also have "\<dots> \<longleftrightarrow> u * 8 < length pl \<and> u * 8 div chunk = k"
      using c(2) div_nat_eqI [of chunk k "u * 8"] dividend_less_div_times [of chunk "u * 8"] div_times_less_eq_dividend [of "u * 8" chunk]
      by (auto simp: algebra_simps)
    finally show ?thesis using c(2) by (simp add: k)
  qed
  have "acceptable (?q off) \<and> genuine (\<lambda>_. pl) (?q off) \<and> key_of (?q off) = (src, dst, ident, proto) \<and> units (off_of (?q off)) (data_of (?q off)) \<noteq> {}"
    if "off \<in> ?O" for off
  proof -
    note of = f [OF o [OF that, THEN conjunct1] o [OF that, THEN conjunct2]]
    have "length (?q off) = 20 + piece_len chunk pl off"
      using dl(1) [OF that] dl(3) [OF that] of(3) unfolding data_of_def by simp
    moreover have "piece_len chunk pl off mod 8 = 0" if "off + piece_len chunk pl off < length pl"
      using that c(1) by (auto simp: piece_len_def split: if_splits)
    ultimately have "acceptable (?q off)"
      using of dl [OF that] len(2) by (auto simp: acceptable_def FRAG_MAXLEN_def)
    moreover have "genuine (\<lambda>_. pl) (?q off)" using of dl [OF that] by (auto simp: genuine_def)
    moreover have "off div 8 \<in> units (off_of (?q off)) (data_of (?q off))"
      using units_iff [of off "off div 8" "data_of (?q off)"] of(1) o [OF that] dl [OF that] by simp
    ultimately show ?thesis using of(5) by blast
  qed
  moreover have "units (off_of (?q a)) (data_of (?q a)) \<inter> units (off_of (?q b)) (data_of (?q b)) = {}"
    if "a \<in> ?O" "b \<in> ?O" "?q a \<noteq> ?q b" for a b
  proof (rule equals0I)
    fix x
    assume "x \<in> units (off_of (?q a)) (data_of (?q a)) \<inter> units (off_of (?q b)) (data_of (?q b))"
    with u [OF that(1), of x] u [OF that(2), of x] have "a = b" by simp
    with that(3) show False by simp
  qed
  moreover have "(\<Union>q \<in> ?q ` ?O. units (off_of q) (data_of q)) = {..< (length pl + 7) div 8}"
  proof (intro set_eqI iffI)
    fix x
    assume "x \<in> (\<Union>q \<in> ?q ` ?O. units (off_of q) (data_of q))"
    then show "x \<in> {..< (length pl + 7) div 8}" using u by (auto simp: unit_less)
  next
    fix x
    assume "x \<in> {..< (length pl + 7) div 8}"
    then have x: "x * 8 < length pl" by (simp add: unit_less)
    let ?o = "x * 8 div chunk * chunk"
    have "?o < length pl" by (rule le_less_trans [OF div_times_less_eq_dividend x])
    then have "?o \<in> ?O" by blast
    with u [OF this, of x] x show "x \<in> (\<Union>q \<in> ?q ` ?O. units (off_of q) (data_of q))" by blast
  qed
  moreover have "\<exists>off \<in> ?O. \<not> mf_of (?q off)"
  proof -
    let ?o = "(length pl - 1) div chunk * chunk"
    have "?o \<le> length pl - 1" by (rule div_times_less_eq_dividend)
    then have "?o < length pl" using len(1) by linarith
    then have o1: "?o \<in> ?O" by blast
    have "length pl - 1 < ?o + chunk" using dividend_less_div_times [OF c(2), of "length pl - 1"] by simp
    then have "?o + piece_len chunk pl ?o = length pl" using o [OF o1] by (auto simp: piece_len_def)
    with f(2) [of ?o] o [OF o1] o1 show ?thesis by (intro bexI [of _ ?o]) simp_all
  qed
  ultimately show ?thesis unfolding Q piece_set_def using len(1) by (auto simp del: mem_Collect_eq)
qed

section \<open>On the wire\<close>

text \<open>The part of a device that counting does not change.\<close>

definition cfg :: "netdev \<Rightarrow> u8 list \<times> u32 \<times> transmit_fun \<times> u32" where
  "cfg v = (nd_mac v, nd_mtu v, nd_transmit v, nd_ip v)"

lemma upd_dev_cfg: "(\<And>v. cfg (g v) = cfg v) \<Longrightarrow> cfg (devs (upd_dev e g s) ! d) = cfg (devs s ! d)"
  by (cases "e = d"; cases "d < length (devs s)") (auto simp: upd_dev_def list_update_beyond)

definition eth_frame :: "netdev \<Rightarrow> u8 list \<Rightarrow> u16 \<Rightarrow> u8 list \<Rightarrow> u8 list" where
  "eth_frame dev dst ethertype payload =
     dst @ nd_mac dev @ wr16be 0 ethertype [0, 0] @ payload @ replicate (60 - (14 + length payload)) 0"

lemma drop_eth_frame:
  "length dst = 6 \<Longrightarrow> length (nd_mac dev) = 6 \<Longrightarrow>
    drop 14 (eth_frame dev dst e payload) = payload @ replicate (60 - (14 + length payload)) 0"
  by (simp add: eth_frame_def)

lemma eth_send_wire:
  assumes "eth_send (Some d) dst e p s = (0, s')" and "nd_transmit (devs s ! d) = Tx_driver"
  shows "wire s' = wire s @ [(d, eth_frame (devs s ! d) dst e p)]" "cfg (devs s' ! d) = cfg (devs s ! d)"
proof -
  let ?f = "eth_frame (devs s ! d) dst e p"
  have frame: "(if 14 + length p < 60 then (dst @ nd_mac (devs s ! d) @ wr16be 0 e [0, 0] @ p) @ replicate (60 - (14 + length p)) 0
      else dst @ nd_mac (devs s ! d) @ wr16be 0 e [0, 0] @ p) = ?f" by (simp add: eth_frame_def)
  have "netdev_transmit (Some d) ?f (s\<lparr>fault := fault s \<or> 14 + length p > ETH_FRAME_BUF\<rparr>) = (0, s')"
    using assms(1) unfolding eth_send_def Let_def frame [symmetric] by (simp split: if_splits)
  with assms(2) have s': "s' = upd_dev d (\<lambda>v. v\<lparr>tx_packets := tx_packets v + 1, tx_bytes := tx_bytes v + of_nat (length ?f)\<rparr>)
      (s\<lparr>fault := fault s \<or> 14 + length p > ETH_FRAME_BUF, asked := asked s + 1, wire := wire s @ [(d, ?f)]\<rparr>)"
    by (auto simp: netdev_transmit_def call_transmit_def ask_def split: if_splits)
  show "wire s' = wire s @ [(d, ?f)]" unfolding s' by simp
  show "cfg (devs s' ! d) = cfg (devs s ! d)" unfolding s' by (subst upd_dev_cfg) (simp_all add: cfg_def)
qed

lemma eth_frame_cfg: "cfg v = cfg w \<Longrightarrow> eth_frame v = eth_frame w"
  by (simp add: cfg_def eth_frame_def fun_eq_iff)

lemma send_frags_wire:
  assumes "send_frags d mac False mk chunk pl off s = (0, s')" and "nd_transmit (devs s ! d) = Tx_driver"
  shows "wire s' = wire s @ map (\<lambda>o'. (d, eth_frame (devs s ! d) mac ETH_P_IP (piece_at mk chunk pl o'))) (offs chunk off (length pl))"
  using assms
proof (induction d mac "False" mk chunk pl off s rule: send_frags.induct)
  case (1 d mac mk chunk pl off s)
  show ?case
  proof (cases "chunk = 0 \<or> \<not> off < length pl")
    case True
    then show ?thesis using "1.prems"(1) by (auto simp: send_frags.simps [of d mac False mk chunk pl off s] offs.simps [of chunk off])
  next
    case False
    let ?n = "if length pl - off < chunk then length pl - off else chunk"
    obtain rc s1 where e: "ip_emit d mac False (mk (frag_field off ?n (length pl)) (take ?n (drop off pl))) s = (rc, s1)"
      by (cases "ip_emit d mac False (mk (frag_field off ?n (length pl)) (take ?n (drop off pl))) s")
    with "1.prems"(1) False have rc: "rc = 0" and rest: "send_frags d mac False mk chunk pl (off + chunk) s1 = (0, s')"
      by (auto simp: send_frags.simps [of d mac False mk chunk pl off s] Let_def split: if_splits)
    have p: "mk (frag_field off ?n (length pl)) (take ?n (drop off pl)) = piece_at mk chunk pl off" by (simp add: piece_at_def Let_def)
    from e have "eth_send (Some d) mac ETH_P_IP (piece_at mk chunk pl off) s = (0, s1)" by (simp add: ip_emit_def p rc)
    note w = eth_send_wire [OF this "1.prems"(2)]
    have tx: "nd_transmit (devs s1 ! d) = Tx_driver" and fr: "eth_frame (devs s1 ! d) = eth_frame (devs s ! d)"
      using w(2) "1.prems"(2) eth_frame_cfg [OF w(2)] by (simp_all add: cfg_def)
    from "1.hyps" [OF False refl e [symmetric] _ rest tx] rc w(1) False show ?thesis
      by (simp add: offs.simps [of chunk off] fr)
  qed
qed

section \<open>A piece arrives\<close>

definition accepts :: "net \<Rightarrow> nat \<Rightarrow> u32 \<Rightarrow> bool" where
  "accepts s d dst \<longleftrightarrow> drop_bit 24 dst = 127 \<or> nd_ip (devs s ! d) = 0 \<or> dst = nd_ip (devs s ! d) \<or> dst = 0xFFFFFFFF"

lemma rd16be_append: "i + 1 < length p \<Longrightarrow> rd16be (p @ q) i = rd16be p i"
  by (simp add: rd16be_def nth_append)

lemma rd32be_append: "i + 3 < length p \<Longrightarrow> rd32be (p @ q) i = rd32be p i"
  by (simp add: rd32be_def nth_append)

lemma ip_rx_packet:
  assumes "length data \<le> 65515" and "accepts s d dst"
  shows "ip_rx now d (ip_packet src dst proto ttl ident frag data @ pad) s =
    (if frag AND 0x2000 \<noteq> 0 \<or> frag AND 0x1FFF \<noteq> 0 then ip_frag_input now d (ip_packet src dst proto ttl ident frag data) s
     else (ip_deliver d src dst proto data, s))"
proof -
  let ?p = "ip_packet src dst proto ttl ident frag data"
  note f = ip_packet_fields [of src dst proto ttl ident frag data]
  have rd: "rd16be (?p @ pad) 2 = of_nat (20 + length data)" "rd16be (?p @ pad) 6 = frag" "rd32be (?p @ pad) 12 = src"
    "rd32be (?p @ pad) 16 = dst" "(?p @ pad) ! 9 = proto" "(?p @ pad) ! 0 = 0x45"
    using f by (simp_all add: rd16be_append rd32be_append nth_append)
  have total: "unat (of_nat (20 + length data) :: u16) = 20 + length data"
    by (subst unsigned_of_nat) (use assms(1) in \<open>simp add: take_bit_eq_mod\<close>)
  have tk: "take 20 (?p @ pad) = take 20 ?p" "take (20 + length data) (?p @ pad) = ?p" using f(1) by simp_all
  have ihl: "unat ((0x45 :: u8) AND 0x0f) * 4 = 20" by simp
  show ?thesis
    unfolding ip_rx_def Let_def rd ihl total tk f(10)
    using f(1,9) assms by (auto simp: accepts_def)
qed

section \<open>All pieces arrive\<close>

lemma frag_drop_cfg [simp]: "cfg (devs (frag_drop d s) ! e) = cfg (devs s ! e)"
  unfolding frag_drop_def by (rule upd_dev_cfg) (simp add: cfg_def)

lemma slot_claim_cfg: "slot_claim now s = (r, s') \<Longrightarrow> cfg (devs s' ! e) = cfg (devs s ! e)"
  by (auto simp: slot_claim_def Let_def ask_def upd_dev_cfg cfg_def [of "_\<lparr>rx_frag_dropped := _\<rparr>"] cfg_def [symmetric]
      split: option.splits prod.splits bool.splits)

lemma frag_store_cfg: "frag_store d pkt off ihl mf i s = (up, s') \<Longrightarrow> cfg (devs s' ! e) = cfg (devs s ! e)"
proof -
  have "cfg (devs (upd_dev d (\<lambda>v. v\<lparr>rx_frag_reasm := rx_frag_reasm v + 1\<rparr>) t) ! e) = cfg (devs t ! e)" for t
    by (rule upd_dev_cfg) (simp add: cfg_def)
  then show "frag_store d pkt off ihl mf i s = (up, s') \<Longrightarrow> cfg (devs s' ! e) = cfg (devs s ! e)"
    by (auto simp: frag_store_def Let_def split: if_splits prod.splits option.splits)
qed

lemma frag_input_cfg: "ip_frag_input now d pkt s = (up, s') \<Longrightarrow> cfg (devs s' ! e) = cfg (devs s ! e)"
  by (auto simp: ip_frag_input_def Let_def split: if_splits option.splits prod.splits dest!: frag_store_cfg [where e = e] slot_claim_cfg [where e = e])

fun rx_all :: "nat \<Rightarrow> (u64 \<times> u8 list) list \<Rightarrow> net \<Rightarrow> upcall option list" where
  "rx_all d [] s = []"
| "rx_all d ((now, p) # ps) s = (case ip_rx now d p s of (up, s') \<Rightarrow> up # rx_all d ps s')"

lemma rx_pieces:
  assumes ps: "piece_set K pl Q"
    and rx: "\<And>q pad now s. q \<in> Q \<Longrightarrow> accepts s d dst \<Longrightarrow> ip_rx now d (q @ pad) s = ip_frag_input now d q s"
  shows "waiting K pl R s \<Longrightarrow> R \<subseteq> Q \<Longrightarrow> distinct qs \<Longrightarrow> set qs = Q - R \<Longrightarrow> qs \<noteq> [] \<Longrightarrow> accepts s d dst \<Longrightarrow>
    length ts = length qs \<Longrightarrow>
    rx_all d (zip ts (map (\<lambda>q. q @ pad q) qs)) s =
      replicate (length qs - 1) None @ [ip_deliver d (fst K) (fst (snd K)) (snd (snd (snd K))) pl]"
proof (induction qs arbitrary: R s ts)
  case (Cons q qs)
  then obtain t ts' where ts: "ts = t # ts'" "length ts' = length qs" by (cases ts) auto
  have q: "q \<in> Q" "q \<notin> R" using Cons.prems(4) by auto
  obtain up s' where inp: "ip_frag_input t d q s = (up, s')" by (cases "ip_frag_input t d q s")
  have r: "ip_rx t d (q @ pad q) s = (up, s')" using rx [OF q(1) Cons.prems(6)] inp by simp
  note step = piece_step [OF ps Cons.prems(1) q Cons.prems(2) inp]
  show ?case
  proof (cases "qs = []")
    case True
    with Cons.prems(2,4) have "insert q R = Q" by auto
    with step r ts True show ?thesis by simp
  next
    case False
    then obtain x where x: "x \<in> set qs" by (cases qs) auto
    then have "x \<in> Q" "x \<notin> R" "x \<noteq> q" using Cons.prems(3,4) by auto
    then have ne: "insert q R \<noteq> Q" by blast
    have acc: "accepts s' d dst" using Cons.prems(6) frag_input_cfg [OF inp, of d] by (simp add: accepts_def cfg_def)
    have "set qs = Q - insert q R" using Cons.prems(3,4) by auto
    with Cons.IH [of "insert q R" s' ts'] step ne q Cons.prems(2,3) False acc ts
    have "rx_all d (zip ts' (map (\<lambda>q. q @ pad q) qs)) s' = replicate (length qs - 1) None @ [ip_deliver d (fst K) (fst (snd K)) (snd (snd (snd K))) pl]"
      by simp
    moreover have "up = None" using step ne by simp
    ultimately show ?thesis using r ts False by (cases qs) auto
  qed
qed simp

lemma mset_map_split:
  "mset xs = mset (map F ys) \<Longrightarrow> \<exists>zs. xs = map F zs \<and> mset zs = mset ys"
proof (induction xs arbitrary: ys)
  case (Cons x xs)
  have "x \<in> set (map F ys)" using Cons.prems by (metis list.set_intros(1) set_mset_mset)
  then obtain y where y: "y \<in> set ys" "x = F y" by auto
  then obtain as bs where ys: "ys = as @ y # bs" by (meson split_list)
  have "mset xs = mset (map F (as @ bs))" using Cons.prems y(2) ys by simp
  from Cons.IH [OF this] obtain zs where "xs = map F zs" "mset zs = mset (as @ bs)" by blast
  with y(2) ys show ?case by (intro exI [of _ "y # zs"]) simp
qed simp

end
