(* ===== verification/Ip_Props.thy ===== *)
theory Ip_Props
  imports Ip_Send
begin

text \<open>
  What the network stack promises: nothing but what was sent is delivered, the pieces that \<open>ip_send\<close> puts on
  the wire are put together whatever the order they arrive in, and the arrays of the stack are never left, save by
  a broadcast on a machine whose only device is the loopback.
\<close>

section \<open>What transmission leaves alone\<close>

lemma lo_enqueue_frags [simp]: "g_frags (snd (lo_enqueue e p s)) = g_frags s"
  by (simp add: lo_enqueue_def ask_def Let_def split: option.splits)

lemma netdev_transmit_frags [simp]: "g_frags (snd (netdev_transmit dev fr s)) = g_frags s"
proof -
  have "g_frags (snd (call_transmit d fr s)) = g_frags s" for d
    by (simp add: call_transmit_def lo_transmit_def ask_def split: transmit_fun.splits)
  then show ?thesis by (simp add: netdev_transmit_def split: option.splits prod.splits) (metis snd_conv)
qed

lemma eth_send_frags [simp]: "g_frags (snd (eth_send dev dst e p s)) = g_frags s"
  by (simp add: eth_send_def Let_def split: option.splits)

lemma ip_emit_frags [simp]: "g_frags (snd (ip_emit d mac l p s)) = g_frags s"
  by (simp add: ip_emit_def)

lemma ip_route_frags [simp]: "g_frags (snd (ip_route dev dst s)) = g_frags s"
  by (simp add: ip_route_def arp_request_def Let_def split: option.splits)

lemma send_frags_frags: "g_frags (snd (send_frags d mac l mk chunk pl off s)) = g_frags s"
proof (induction d mac l mk chunk pl off s rule: send_frags.induct)
  case (1 d mac l mk chunk pl off s)
  let ?n = "if length pl - off < chunk then length pl - off else chunk"
  let ?e = "ip_emit d mac l (mk (frag_field off ?n (length pl)) (take ?n (drop off pl))) s"
  have e: "g_frags (snd ?e) = g_frags s" by simp
  obtain rc s1 where es: "?e = (rc, s1)" by (cases ?e)
  show ?case
  proof (cases "chunk = 0 \<or> \<not> off < length pl \<or> rc \<noteq> 0")
    case True
    then show ?thesis using e es by (auto simp: send_frags.simps [of d mac l mk chunk pl off s] Let_def)
  next
    case False
    with "1.IH" [OF _ refl es [symmetric]] es e show ?thesis
      by (simp add: send_frags.simps [of d mac l mk chunk pl off s] Let_def)
  qed
qed

lemma send_frags_fragsD: "send_frags d mac l mk chunk pl off s = (rc, s') \<Longrightarrow> g_frags s' = g_frags s"
  using send_frags_frags [of d mac l mk chunk pl off s] by simp

lemma ip_send_frags [simp]: "g_frags (snd (ip_send dev dst proto pl ttl s)) = g_frags s"
proof (cases "ip_route dev dst s")
  case (Pair r s1)
  have r: "g_frags s1 = g_frags s" using ip_route_frags [of dev dst s] Pair by simp
  show ?thesis
  proof (cases r)
    case None
    with Pair r show ?thesis by (simp add: ip_send_def)
  next
    case (Some x)
    obtain d l mac where x: "x = (d, l, mac)" by (cases x)
    show ?thesis using Pair Some x r
      by (auto simp: ip_send_def Let_def ask_def split: prod.splits bool.splits dest!: send_frags_fragsD)
  qed
qed

lemma icmp_send_error_frags [simp]: "g_frags (snd (icmp_send_error dev dst t c orig s)) = g_frags s"
  by (simp add: icmp_send_error_def Let_def)

section \<open>Arrivals and timer passes\<close>

lemma frag_expire_keeps:
  assumes "\<And>f. Q (slot_reset f)" and "\<forall>f \<in> set (g_frags s). Q f"
  shows "\<forall>f \<in> set (g_frags (frag_expire now is s)). Q f"
  using assms(2)
proof (induction "is" arbitrary: s)
  case (Cons i "is")
  let ?f = "g_frags s ! i"
  show ?case
  proof (cases "fr_used ?f \<and> 0 \<le> sint (now - fr_deadline ?f)")
    case True
    define s1 where "s1 = (case fr_dev ?f of None \<Rightarrow> s | Some d \<Rightarrow> upd_dev d (\<lambda>v. v\<lparr>rx_frag_timeout := rx_frag_timeout v + 1\<rparr>) s)"
    define s2 where "s2 = s1\<lparr>g_frags := (g_frags s1)[i := slot_reset ?f]\<rparr>"
    define s3 where "s3 = (if fr_have_first ?f \<and> fr_first_hdr ?f \<noteq> [] \<and> fr_dev ?f \<noteq> None
        then snd (icmp_send_error (fr_dev ?f) (fr_src ?f) ICMP_TIME_EXCEEDED ICMP_TE_REASSEMBLY (fr_first_hdr ?f) s2) else s2)"
    have "g_frags s3 = (g_frags s)[i := slot_reset ?f]" by (simp add: s3_def s2_def s1_def split: option.splits)
    then have "\<forall>f \<in> set (g_frags s3). Q f"
      using Cons.prems assms(1) set_update_subset_insert [of "g_frags s" i "slot_reset ?f"] by auto
    moreover have "frag_expire now (i # is) s = frag_expire now is s3"
      unfolding frag_expire.simps(2) Let_def if_P [OF True] s3_def s2_def s1_def ..
    ultimately show ?thesis using Cons.IH [of s3] by (simp only:)
  next
    case False
    show ?thesis unfolding frag_expire.simps(2) Let_def if_not_P [OF False] by (rule Cons.IH [OF Cons.prems])
  qed
qed simp

inductive frag_reach :: "(u32 \<times> u32 \<times> u16 \<times> u8 \<Rightarrow> u8 list) \<Rightarrow> net \<Rightarrow> (nat \<times> u8 list \<times> upcall option) list \<Rightarrow> bool"
  for P :: "u32 \<times> u32 \<times> u16 \<times> u8 \<Rightarrow> u8 list" where
  Start: "\<forall>f \<in> set (g_frags s). \<not> fr_used f \<Longrightarrow> frag_reach P s []"
| Piece: "frag_reach P s log \<Longrightarrow> genuine P pkt \<Longrightarrow> ip_frag_input now d pkt s = (up, s') \<Longrightarrow> frag_reach P s' (log @ [(d, pkt, up)])"
| Tick: "frag_reach P s log \<Longrightarrow> frag_reach P (ip_frag_tick now s) log"

lemma frag_reach_ok:
  "frag_reach P s log \<Longrightarrow> frags_wf s \<and> table_agrees P s \<and> (\<forall>d pkt u. (d, pkt, Some u) \<in> set log \<longrightarrow>
     Some u = ip_deliver d (rd32be pkt 12) (rd32be pkt 16) (pkt ! 9) (P (key_of pkt)))"
proof (induction rule: frag_reach.induct)
  case (Start s)
  then show ?case by (auto simp: frags_wf_def slot_wf_def table_agrees_def agrees_def)
next
  case (Piece s log pkt now d up s')
  then have wf: "frags_wf s" and ag: "table_agrees P s" by simp_all
  from frag_input_wf [OF Piece(3) wf] frag_input_genuine [OF Piece(3) wf ag Piece(2)] Piece.IH show ?case by auto
next
  case (Tick s log now)
  have "frags_wf (ip_frag_tick now s)" "table_agrees P (ip_frag_tick now s)"
    unfolding frags_wf_def table_agrees_def ip_frag_tick_def
    by (rule frag_expire_keeps; use Tick.IH in \<open>simp add: frags_wf_def table_agrees_def\<close>)+
  with Tick.IH show ?case by simp
qed

text \<open>C19: Whatever pieces of datagrams arrive, in whatever order, with repetitions and overlaps, mixed with those of other datagrams and
  with timer passes that discard slots: a datagram that is delivered is exactly the one whose pieces carry its key.\<close>

theorem reassembly_sound:
  assumes "frag_reach P s log" and "(d, pkt, Some u) \<in> set log"
  shows "Some u = ip_deliver d (rd32be pkt 12) (rd32be pkt 16) (pkt ! 9) (P (key_of pkt))"
  using frag_reach_ok [OF assms(1)] assms(2) by blast

lemma ip_rx_cases:
  "ip_rx now d p s = (up, s') \<Longrightarrow>
    (g_frags s' = g_frags s \<and> fault s' = fault s) \<or> (\<exists>q. ip_frag_input now d q s = (up, s'))"
  by (auto simp: ip_rx_def Let_def split: if_splits)

text \<open>C20: Whatever packet arrives, hostile ones included, receiving it keeps the reassembly table well formed - a used slot has its buffer, its
  counter is the number of units marked, the stored header fits its field - and touches no byte outside the bitmap, the buffer and the packet.\<close>

theorem ip_rx_well_formed:
  assumes "frags_wf s"
  shows "frags_wf (snd (ip_rx now d p s)) \<and> fault (snd (ip_rx now d p s)) = fault s"
proof (cases "ip_rx now d p s")
  case (Pair up s')
  from ip_rx_cases [OF Pair] show ?thesis
  proof
    assume "g_frags s' = g_frags s \<and> fault s' = fault s"
    with assms Pair show ?thesis by (simp add: frags_wf_def)
  next
    assume "\<exists>q. ip_frag_input now d q s = (up, s')"
    then show ?thesis using frag_input_wf assms Pair by auto
  qed
qed

section \<open>Sending and receiving\<close>

lemma ip_mtu_bounds: "68 \<le> ip_mtu v \<and> ip_mtu v \<le> 65535"
  by (simp add: ip_mtu_def Let_def)

lemma ip_chunk_ok: "68 \<le> mtu \<Longrightarrow> 8 dvd ip_chunk mtu \<and> 0 < ip_chunk mtu"
  by (auto simp: ip_chunk_def div_greater_zero_iff)

lemma arp_lookup_mem: "arp_lookup ip s = Some mac \<Longrightarrow> \<exists>e \<in> set (g_arp s). mac = arp_mac e"
  by (auto simp: arp_lookup_def arp_find_def dest!: find_slot_lt intro!: bexI [OF _ nth_mem])

lemma ip_send_pieces:
  assumes sent: "ip_send (Some d) dst proto pl ttl s = (0, s1)" and remote: "\<not> ip_is_local (Some d) dst s"
    and cut: "ip_mtu (devs s ! d) < 20 + length pl" and tx: "nd_transmit (devs s ! d) = Tx_driver"
  shows "length pl \<le> 65515" "\<exists>mac. (mac = eth_broadcast \<or> (\<exists>e \<in> set (g_arp s). mac = arp_mac e)) \<and>
    wire s1 = wire s @ map (\<lambda>off. (d, eth_frame (devs s ! d) mac ETH_P_IP
      (piece_at (ip_packet (nd_ip (devs s ! d)) dst proto ttl (g_ip_id s)) (ip_chunk (ip_mtu (devs s ! d))) pl off)))
      (offs (ip_chunk (ip_mtu (devs s ! d))) 0 (length pl))"
proof -
  show len: "length pl \<le> 65515" using sent by (auto simp: ip_send_def split: if_splits)
  obtain r s' where r: "ip_route (Some d) dst s = (r, s')" by (cases "ip_route (Some d) dst s")
  have src: "ip_source_for (Some d) dst s = nd_ip (devs s ! d)" using remote by (simp add: ip_source_for_def)
  have "r \<noteq> None"
  proof
    assume "r = None"
    with sent r len show False by (simp add: ip_send_def Let_def)
  qed
  then obtain mac where mac: "r = Some (d, False, mac)" "s' = s" "mac = eth_broadcast \<or> (\<exists>e \<in> set (g_arp s). mac = arp_mac e)"
    using r remote
    by (auto simp: ip_route_def Let_def split: if_splits option.splits dest: arp_lookup_mem)
  let ?s2 = "s\<lparr>g_ip_id := g_ip_id s + 1\<rparr>"
  obtain ok s3 where ask: "(if 20 + ip_chunk (ip_mtu (devs s ! d)) > IP_SBUF then ask ?s2 else (True, ?s2)) = (ok, s3)"
    by (cases "if 20 + ip_chunk (ip_mtu (devs s ! d)) > IP_SBUF then ask ?s2 else (True, ?s2)")
  have s3: "devs s3 = devs s" "wire s3 = wire s" using ask by (auto simp: ask_def split: if_splits)
  have "ok" using sent r mac len cut ask by (cases ok) (auto simp: ip_send_def Let_def)
  then obtain s4 where s4: "send_frags d mac False (ip_packet (nd_ip (devs s ! d)) dst proto ttl (g_ip_id s)) (ip_chunk (ip_mtu (devs s ! d))) pl 0 s3 = (0, s4)"
    "wire s1 = wire s4"
    using sent r mac len cut ask src by (auto simp: ip_send_def Let_def split: prod.splits if_splits)
  from send_frags_wire [OF s4(1)] s3 tx s4(2) mac(3) show "\<exists>mac. (mac = eth_broadcast \<or> (\<exists>e \<in> set (g_arp s). mac = arp_mac e)) \<and>
    wire s1 = wire s @ map (\<lambda>off. (d, eth_frame (devs s ! d) mac ETH_P_IP
      (piece_at (ip_packet (nd_ip (devs s ! d)) dst proto ttl (g_ip_id s)) (ip_chunk (ip_mtu (devs s ! d))) pl off)))
      (offs (ip_chunk (ip_mtu (devs s ! d))) 0 (length pl))" by auto
qed

lemma piece_not_whole:
  assumes "8 dvd off" "off < length pl" "length pl \<le> 65515" "chunk < length pl"
  shows "frag_field off (piece_len chunk pl off) (length pl) AND 0x2000 \<noteq> 0 \<or> frag_field off (piece_len chunk pl off) (length pl) AND 0x1FFF \<noteq> 0"
proof (cases "off = 0")
  case True
  then show ?thesis using frag_field_parts(2) [of 0 "piece_len chunk pl 0" "length pl"] assms(4) by (auto simp: piece_len_def)
next
  case False
  then have "off div 8 \<noteq> 0" using assms(1) by auto
  moreover have "off div 8 < 8192" using assms(2,3) by linarith
  note part = frag_field_parts(1) [OF this, of "piece_len chunk pl off" "length pl"]
  ultimately have "unat (frag_field off (piece_len chunk pl off) (length pl) AND 0x1FFF) \<noteq> 0" by simp
  then show ?thesis by (metis unat_0)
qed

lemma ip_rx_piece:
  assumes "8 dvd off" "off < length pl" and len: "length pl \<le> 65515" "chunk < length pl" and acc: "accepts t e dst"
  shows "ip_rx now e (piece_at (ip_packet src dst proto ttl ident) chunk pl off @ pd) t =
    ip_frag_input now e (piece_at (ip_packet src dst proto ttl ident) chunk pl off) t"
proof -
  have q: "piece_at (ip_packet src dst proto ttl ident) chunk pl off =
      ip_packet src dst proto ttl ident (frag_field off (piece_len chunk pl off) (length pl)) (take (piece_len chunk pl off) (drop off pl))"
    by (simp add: piece_at_def piece_len_def Let_def)
  have "length (take (piece_len chunk pl off) (drop off pl)) \<le> 65515" using len by simp
  from ip_rx_packet [OF this acc] piece_not_whole [OF assms(1,2) len] show ?thesis unfolding q by simp
qed

text \<open>What is left of the frames when their Ethernet headers are cut off.\<close>

lemma frames_unpack:
  assumes "length mac = 6" and "length (nd_mac dev) = 6" and "map snd arrivals = map (eth_frame dev mac ETH_P_IP) qs"
  shows "map (\<lambda>(t, f). (t, drop 14 f)) arrivals = zip (map fst arrivals) (map (\<lambda>q. q @ replicate (60 - (14 + length q)) 0) qs)"
proof -
  have "map (drop 14) (map snd arrivals) = map (\<lambda>q. q @ replicate (60 - (14 + length q)) 0) qs"
    unfolding assms(3) by (simp add: drop_eth_frame [OF assms(1,2)])
  then have e: "map (\<lambda>q. q @ replicate (60 - (14 + length q)) 0) qs = map (\<lambda>x. drop 14 (snd x)) arrivals" by (simp add: comp_def)
  show ?thesis unfolding e by (induction arrivals) auto
qed

lemma pieces_distinct:
  assumes "8 dvd chunk" "0 < chunk" "length pl \<le> 65515"
  shows "distinct (map (piece_at (ip_packet src dst proto ttl ident) chunk pl) (offs chunk 0 (length pl)))"
  unfolding distinct_map
proof
  show "distinct (offs chunk 0 (length pl))" by (rule distinct_offs [OF assms(2)])
  show "inj_on (piece_at (ip_packet src dst proto ttl ident) chunk pl) (set (offs chunk 0 (length pl)))"
    by (rule inj_on_inverseI [of _ off_of])
      (use set_offs [OF assms(2), of 0 "length pl"] assms(1) piece_fields(1) [OF _ _ assms(3)] in auto)
qed

text \<open>C18: When \<open>ip_send\<close> cuts a datagram and reports success, then the frames it has put on the wire, in whatever order and at whatever times they
  arrive, make the receiver deliver exactly that datagram, with the last frame and with no other.\<close>

theorem ip_fragments_reassemble:
  assumes sent: "ip_send (Some d) dst proto pl ttl s = (0, s1)" and remote: "\<not> ip_is_local (Some d) dst s"
    and cut: "ip_mtu (devs s ! d) < 20 + length pl" and tx: "nd_transmit (devs s ! d) = Tx_driver"
    and macs: "length (nd_mac (devs s ! d)) = 6" "\<forall>e \<in> set (g_arp s). length (arp_mac e) = 6"
    and arrived: "mset (map snd arrivals) = mset (map snd (drop (length (wire s)) (wire s1)))"
    and r: "frags_wf r" "no_slot (nd_ip (devs s ! d), dst, g_ip_id s, proto) r" "\<forall>now. fst (slot_claim now r) \<noteq> None" "accepts r e dst"
  shows "rx_all e (map (\<lambda>(t, f). (t, drop 14 f)) arrivals) r =
    replicate (length arrivals - 1) None @ [ip_deliver e (nd_ip (devs s ! d)) dst proto pl]"
proof -
  let ?K = "(nd_ip (devs s ! d), dst, g_ip_id s, proto)"
  let ?mk = "ip_packet (nd_ip (devs s ! d)) dst proto ttl (g_ip_id s)"
  let ?mtu = "ip_mtu (devs s ! d)"
  let ?c = "ip_chunk ?mtu"
  note len = ip_send_pieces(1) [OF sent remote cut tx]
  from ip_send_pieces(2) [OF sent remote cut tx] obtain mac where mac: "mac = eth_broadcast \<or> (\<exists>e \<in> set (g_arp s). mac = arp_mac e)"
    and w: "wire s1 = wire s @ map (\<lambda>off. (d, eth_frame (devs s ! d) mac ETH_P_IP (piece_at ?mk ?c pl off))) (offs ?c 0 (length pl))" by blast
  have m6: "length mac = 6" using mac macs(2) by (auto simp: eth_broadcast_def)
  have c: "8 dvd ?c" "0 < ?c" using ip_chunk_ok ip_mtu_bounds by auto
  have cl: "?c < length pl" "0 < length pl" using cut ip_mtu_bounds [of "devs s ! d"] by (auto simp: ip_chunk_def)
  define qs0 where "qs0 = map (piece_at ?mk ?c pl) (offs ?c 0 (length pl))"
  note ps = pieces_set [OF c cl(2) len, of "nd_ip (devs s ! d)" dst "g_ip_id s" proto ttl, folded qs0_def]
  have off: "8 dvd off \<and> off < length pl" if "off \<in> set (offs ?c 0 (length pl))" for off using that c set_offs [OF c(2), of 0 "length pl"] by auto
  have dist: "distinct qs0" unfolding qs0_def by (rule pieces_distinct [OF c len])
  define F where "F q = eth_frame (devs s ! d) mac ETH_P_IP q" for q
  have "map snd (drop (length (wire s)) (wire s1)) = map F qs0" by (simp add: w qs0_def F_def)
  with arrived obtain qs where qs: "map snd arrivals = map F qs" "mset qs = mset qs0" using mset_map_split by metis
  define pad where "pad q = replicate (60 - (14 + length q)) (0 :: u8)" for q :: "u8 list"
  have arr: "map (\<lambda>(t, f). (t, drop 14 f)) arrivals = zip (map fst arrivals) (map (\<lambda>q. q @ pad q) qs)"
    unfolding pad_def by (rule frames_unpack [OF m6 macs(1) qs(1) [unfolded F_def [abs_def]]])
  have rx: "ip_rx now e (q @ pd) t = ip_frag_input now e q t" if "q \<in> set qs0" "accepts t e dst" for q pd now t
  proof -
    from that(1) obtain off' where "off' \<in> set (offs ?c 0 (length pl))" "q = piece_at ?mk ?c pl off'" by (auto simp: qs0_def)
    then show ?thesis using ip_rx_piece [OF _ _ len cl(1) that(2)] off by blast
  qed
  have l: "length arrivals = length qs" using qs(1) by (metis length_map)
  have "qs0 \<noteq> []" unfolding qs0_def using cl(2) c(2) by (simp add: offs.simps [of ?c 0])
  then have "set qs = set qs0 - {}" "distinct qs" "qs \<noteq> []" "length (map fst arrivals) = length qs"
    using mset_eq_setD [OF qs(2)] mset_eq_imp_distinct_iff [OF qs(2)] dist l by auto
  moreover have "waiting ?K pl {} r" using r by (simp add: waiting_def)
  ultimately have "rx_all e (zip (map fst arrivals) (map (\<lambda>q. q @ pad q) qs)) r = replicate (length qs - 1) None @ [ip_deliver e (nd_ip (devs s ! d)) dst proto pl]"
    using rx_pieces [OF ps, of e dst "{}" r qs "map fst arrivals" pad] rx r(4) by simp
  then show ?thesis unfolding arr l .
qed

end
