(* ===== verification/Net_Props.thy ===== *)
theory Net_Props
  imports Ip_Props
begin

text \<open>
  Where the network stack leaves its contracts: pieces beyond the end of a datagram make it deliver bytes that nobody sent, and a
  broadcast through the loopback device overruns the frame buffer. Then the ARP cache, a table searched by address, and witnesses.
\<close>

section \<open>Holes\<close>





section \<open>The frame buffer\<close>

lemma lo_enqueue_fault [simp]: "fault (snd (lo_enqueue e p s)) = fault s"
  by (simp add: lo_enqueue_def ask_def Let_def split: option.splits)

lemma netdev_transmit_fault [simp]: "fault (snd (netdev_transmit dev fr s)) = fault s"
proof -
  have "fault (snd (call_transmit d fr s)) = fault s" for d
    by (simp add: call_transmit_def lo_transmit_def ask_def split: transmit_fun.splits)
  then show ?thesis by (simp add: netdev_transmit_def split: option.splits prod.splits) (metis snd_conv)
qed

text \<open>C38: On a machine whose only device is the loopback, \<open>netdev_first\<close> returns it, with its transfer unit of 65535 bytes, and a
  broadcast is not local: \<open>eth_send\<close> copies the packet into its buffer of 1600 bytes. Every broadcast datagram of 1559 to 65507 bytes overruns it.\<close>

theorem lo_broadcast_overruns:
  assumes boot: "devs s0 = []" "g_lo s0 = None" "\<forall>n. outcome s0 n" and len: "1558 < length data" "length data \<le> 65507"
  shows "netdev_first (loopback_init s0) = Some 0 \<and>
    fault (snd (udp_send (netdev_first (loopback_init s0)) 0xFFFFFFFF sport dport data (loopback_init s0)))"
proof -
  let ?s = "loopback_init s0"
  obtain v where v: "devs ?s = [v]" "nd_mtu v = 65535" "nd_ip v = IP4 127 0 0 1" "nd_is_loopback v" "\<forall>n. outcome ?s n"
    using boot by (simp add: loopback_init_def netdev_register_named_def ask_def upd_dev_def LO_MTU_def)
  have dl: "dev_list ?s = [0]" by (simp add: dev_list_def v(1))
  have first: "netdev_first ?s = Some 0" using v(1,4) by (simp add: netdev_first_def dl)
  have remote: "\<not> ip_is_local (Some 0) 0xFFFFFFFF t" if "devs t = [v]" for t
    using that v(3) by (simp add: ip_is_local_def netdev_first_def dev_list_def IP4_def v(4))
  have send: "fault (snd (ip_send (Some 0) 0xFFFFFFFF proto pl ttl t))"
    if t: "devs t = [v]" "\<forall>n. outcome t n" and pl: "1566 < length pl" "length pl \<le> 65515" for proto pl ttl t
  proof -
    have mtu: "ip_mtu v = 65535" using v(2) by (simp add: ip_mtu_def Let_def)
    have route: "ip_route (Some 0) 0xFFFFFFFF t = (Some (0, False, eth_broadcast), t)" using remote [OF t(1)] by (simp add: ip_route_def)
    have "fault (snd (eth_send (Some 0) eth_broadcast ETH_P_IP p u))" if "devs u = [v]" "length p = 20 + length pl" for p u
      using that pl v(2) by (simp add: eth_send_def Let_def ETH_FRAME_BUF_def)
    moreover have "length (ip_packet src 0xFFFFFFFF proto ttl ident 0 pl) = 20 + length pl" for src ident by (simp add: ip_packet_fields(1))
    ultimately show ?thesis
      using pl t mtu by (simp add: ip_send_def Let_def route IP_SBUF_def ask_def ip_emit_def)
  qed
  have "length (udp_packet a b sport dport data) = 8 + length data" for a b by (simp add: udp_packet_def Let_def memcpy_at_def)
  then have "fault (snd (udp_send (Some 0) 0xFFFFFFFF sport dport data ?s))"
    using len v(1,5) send [of "?s\<lparr>asked := asked ?s + 1\<rparr>"] by (simp add: udp_send_def UDP_SBUF_def ask_def)
  with first show ?thesis by simp
qed

section \<open>The ARP cache\<close>

interpretation arpt: keyed_table arp_valid arp_ip "\<lambda>es. es" arp_find
  by unfold_locales (auto simp: arp_find_def find_slot_None dest: find_slot_SomeD)

lemma arp_oldest_spec:
  "arp_oldest is k es \<in> insert k (set is) \<and> (\<forall>j \<in> insert k (set is). arp_ts_ms (es ! arp_oldest is k es) \<le> arp_ts_ms (es ! j))"
proof (induction "is" arbitrary: k)
  case (Cons i "is")
  let ?k = "if arp_ts_ms (es ! i) < arp_ts_ms (es ! k) then i else k"
  from Cons.IH [of ?k] show ?case by (auto split: if_splits intro: order_trans)
qed simp

text \<open>The slot that a new address takes: a free one, or that of the entry not heard of for longest.\<close>

lemma arp_put_new:
  assumes "arp_find ip es = None" and "es \<noteq> []" and "ip \<noteq> 0"
  shows "\<exists>i < length es. arp_put now ip mac es = es[i := \<lparr>arp_ip = ip, arp_mac = mac, arp_valid = True, arp_ts_ms = now\<rparr>] \<and>
    (arp_valid (es ! i) \<longrightarrow> (\<forall>e \<in> set es. arp_valid e) \<and> (\<forall>e \<in> set es. arp_ts_ms (es ! i) \<le> arp_ts_ms e))"
proof (cases "find_slot (\<lambda>e. \<not> arp_valid e) es")
  case None
  let ?o = "arp_oldest [0 ..< length es] 0 es"
  have "?o < length es" "\<forall>j < length es. arp_ts_ms (es ! ?o) \<le> arp_ts_ms (es ! j)"
    using arp_oldest_spec [of "[0 ..< length es]" 0 es] assms(2) by auto
  moreover have "arp_put now ip mac es = es[?o := \<lparr>arp_ip = ip, arp_mac = mac, arp_valid = True, arp_ts_ms = now\<rparr>]"
    using None assms by (simp add: arp_put_def)
  moreover have "\<forall>e \<in> set es. arp_valid e" using None by (simp add: find_slot_None)
  ultimately show ?thesis by (intro exI [of _ ?o]) (auto simp: in_set_conv_nth)
next
  case (Some i)
  with find_slot_SomeD [OF Some] assms show ?thesis by (auto simp: arp_put_def)
qed

lemma arp_put_found:
  assumes "unique_live arp_valid arp_ip es" and "arp_find ip es = Some i" and "ip \<noteq> 0"
  shows "i < length es \<and> arp_put now ip mac es = es[i := (es ! i)\<lparr>arp_mac := mac, arp_ts_ms := now\<rparr>] \<and> arp_valid (es ! i) \<and> arp_ip (es ! i) = ip"
  using assms arpt.get_sound [OF assms(2)] by (simp add: arp_put_def)

lemma arp_put_correct:
  fixes now mac
  assumes u: "unique_live arp_valid arp_ip es" and ne: "es \<noteq> []" and nz: "ip \<noteq> 0"
  defines "es' \<equiv> arp_put now ip mac es"
  shows "\<exists>i < length es. unique_live arp_valid arp_ip es' \<and> arp_find ip es' = Some i \<and> arp_mac (es' ! i) = mac \<and>
    (\<forall>j. j \<noteq> i \<longrightarrow> es' ! j = es ! j) \<and>
    (\<forall>k. k \<noteq> ip \<longrightarrow> arp_find k es' = arp_find k es \<or>
      (\<forall>e \<in> set es. arp_valid e) \<and> arp_ip (es ! i) = k \<and> (\<forall>e \<in> set es. arp_ts_ms (es ! i) \<le> arp_ts_ms e))"
proof -
  obtain i y where i: "i < length es" and es': "es' = es[i := y]" and y: "arp_valid y" "arp_ip y = ip" "arp_mac y = mac"
    and old: "arp_valid (es ! i) \<Longrightarrow> arp_ip (es ! i) \<noteq> ip \<Longrightarrow> (\<forall>e \<in> set es. arp_valid e) \<and> (\<forall>e \<in> set es. arp_ts_ms (es ! i) \<le> arp_ts_ms e)"
    and others: "\<And>j. j < length es \<Longrightarrow> j \<noteq> i \<Longrightarrow> arp_valid (es ! j) \<Longrightarrow> arp_ip (es ! j) \<noteq> ip"
  proof (cases "arp_find ip es")
    case None
    from arp_put_new [OF None ne nz, of now mac] obtain i where i: "i < length es"
      "es' = es[i := \<lparr>arp_ip = ip, arp_mac = mac, arp_valid = True, arp_ts_ms = now\<rparr>]"
      "arp_valid (es ! i) \<longrightarrow> (\<forall>e \<in> set es. arp_valid e) \<and> (\<forall>e \<in> set es. arp_ts_ms (es ! i) \<le> arp_ts_ms e)" unfolding es'_def by blast
    show ?thesis by (rule that [OF i(1,2)]) (use i(3) arpt.get_complete [OF None] in auto)
  next
    case (Some i)
    note f = arp_put_found [OF u Some nz, of now mac, folded es'_def]
    have "arp_ip (es ! j) \<noteq> ip" if "j < length es" "j \<noteq> i" "arp_valid (es ! j)" for j
      using that f unique_liveD [OF u, of i j] by auto
    with f show ?thesis by (intro that [of i "(es ! i)\<lparr>arp_mac := mac, arp_ts_ms := now\<rparr>"]) auto
  qed
  have u': "unique_live arp_valid arp_ip es'" unfolding es' by (rule unique_live_store [OF u]) (use others y(2) in auto)
  moreover have "arp_find ip es' = Some i" using arpt.get_stored [OF es' u' i y(1)] y(2) by simp
  moreover have "arp_find k es' = arp_find k es \<or>
      (\<forall>e \<in> set es. arp_valid e) \<and> arp_ip (es ! i) = k \<and> (\<forall>e \<in> set es. arp_ts_ms (es ! i) \<le> arp_ts_ms e)" if "k \<noteq> ip" for k
  proof (cases "arp_valid (es ! i) \<and> arp_ip (es ! i) = k")
    case True
    with old that show ?thesis by blast
  next
    case False
    then have "arp_find k es' = arp_find k es" by (intro arpt.get_other [OF es' u u']) (use that y(2) in auto)
    then show ?thesis by blast
  qed
  ultimately show ?thesis using i es' y(3) by auto
qed

text \<open>C24: Putting an address in the ARP cache makes a lookup return the hardware address put there, keeps one entry per address, and leaves every
  other lookup as it was, save that of the entry not heard of for longest when all slots are taken.\<close>

theorem arp_cache_put_correct:
  assumes "unique_live arp_valid arp_ip (g_arp s)" and "g_arp s \<noteq> []" and "ip \<noteq> 0"
  shows "unique_live arp_valid arp_ip (g_arp (arp_cache_put now ip mac s)) \<and>
    arp_lookup ip (arp_cache_put now ip mac s) = Some mac \<and>
    (\<forall>k. k \<noteq> ip \<longrightarrow> arp_lookup k (arp_cache_put now ip mac s) = arp_lookup k s \<or>
      (\<forall>e \<in> set (g_arp s). arp_valid e) \<and> (\<exists>e \<in> set (g_arp s). arp_ip e = k \<and> (\<forall>e' \<in> set (g_arp s). arp_ts_ms e \<le> arp_ts_ms e')))"
proof -
  let ?es' = "arp_put (now_ms now) ip mac (g_arp s)"
  from arp_put_correct [OF assms, of "now_ms now" mac] obtain i where i: "i < length (g_arp s)" "unique_live arp_valid arp_ip ?es'"
    "arp_find ip ?es' = Some i" "arp_mac (?es' ! i) = mac" "\<forall>j. j \<noteq> i \<longrightarrow> ?es' ! j = g_arp s ! j"
    "\<forall>k. k \<noteq> ip \<longrightarrow> arp_find k ?es' = arp_find k (g_arp s) \<or>
      (\<forall>e \<in> set (g_arp s). arp_valid e) \<and> arp_ip (g_arp s ! i) = k \<and> (\<forall>e \<in> set (g_arp s). arp_ts_ms (g_arp s ! i) \<le> arp_ts_ms e)" by blast
  have "arp_lookup k (arp_cache_put now ip mac s) = arp_lookup k s" if "k \<noteq> ip" "arp_find k ?es' = arp_find k (g_arp s)" for k
  proof (cases "arp_find k (g_arp s)")
    case None
    with that show ?thesis by (simp add: arp_lookup_def arp_cache_put_def)
  next
    case (Some j)
    then have "arp_find k ?es' = Some j" using that(2) by simp
    from arpt.get_sound [OF this] arpt.get_sound [OF i(3)] that(1) have "j \<noteq> i" by auto
    with Some that(2) i(5) show ?thesis by (simp add: arp_lookup_def arp_cache_put_def)
  qed
  moreover have "arp_lookup ip (arp_cache_put now ip mac s) = Some mac" "g_arp (arp_cache_put now ip mac s) = ?es'"
    using i(3,4) by (simp_all add: arp_lookup_def arp_cache_put_def)
  ultimately show ?thesis using i(2,6) nth_mem [OF i(1)] by auto
qed

end
