(* ===== verification/Udp_Props.thy ===== *)
theory Udp_Props
  imports Ip_Props
begin

text \<open>
  Datagrams on the loopback device: the checksum over the pseudo header is accepted by the receiver, so that a datagram sent to a loopback
  address reaches the handler of its port unchanged; one sent to another address of the machine itself is dropped.
\<close>

section \<open>The checksum\<close>

definition pseudo :: "u32 \<Rightarrow> u32 \<Rightarrow> nat \<Rightarrow> u32" where
  "pseudo src dst n = (drop_bit 16 src AND 0xffff) + (src AND 0xffff) + (drop_bit 16 dst AND 0xffff) + (dst AND 0xffff) + 17 + (of_nat n AND 0xffff)"

lemma unat_add_le: "unat (a + b) \<le> unat a + unat (b :: u32)"
  by (simp add: unat_plus_if')

lemma unat_low_le: "unat ((a :: u32) AND 0xffff) \<le> 65535"
proof -
  have "a AND 0xffff \<le> (0xffff :: u32)" by (rule word_and_le1)
  then have "unat (a AND 0xffff) \<le> unat (0xffff :: u32)" by (rule word_le_nat_alt [THEN iffD1])
  then show ?thesis by simp
qed

lemma pseudo_bound: "0 < unat (pseudo src dst n) \<and> unat (pseudo src dst n) \<le> 327692"
proof -
  have no: "unat (a + b) = unat a + unat b \<and> unat (a + b) \<le> m + k" if "unat a \<le> m" "unat b \<le> k" "m + k < 2 ^ 32" for a b :: u32 and m k
    using that by (simp add: unat_plus_if')
  have 1: "unat ((drop_bit 16 src AND 0xffff) + (src AND 0xffff)) \<le> 65535 + 65535"
    using no [OF unat_low_le [of "drop_bit 16 src"] unat_low_le [of src]] by simp
  have 2: "unat ((drop_bit 16 src AND 0xffff) + (src AND 0xffff) + (drop_bit 16 dst AND 0xffff)) \<le> 131070 + 65535"
    using no [OF 1 unat_low_le [of "drop_bit 16 dst"]] by simp
  have 3: "unat ((drop_bit 16 src AND 0xffff) + (src AND 0xffff) + (drop_bit 16 dst AND 0xffff) + (dst AND 0xffff)) \<le> 196605 + 65535"
    using no [OF 2 unat_low_le [of dst]] by simp
  have 4: "unat ((drop_bit 16 src AND 0xffff) + (src AND 0xffff) + (drop_bit 16 dst AND 0xffff) + (dst AND 0xffff) + 17) \<le> 262140 + 17"
    "17 \<le> unat ((drop_bit 16 src AND 0xffff) + (src AND 0xffff) + (drop_bit 16 dst AND 0xffff) + (dst AND 0xffff) + 17)"
    using no [OF 3, of 17 17] by simp_all
  from no [OF 4(1) unat_low_le [of "of_nat n"]] 4(2) show ?thesis unfolding pseudo_def by simp
qed

lemma udp_sum_value:
  assumes "length p < 65536"
  shows "unat (udp_sum src dst p) = unat (pseudo src dst (length p)) + csum_nat p"
proof -
  have "csum_nat p \<le> 65535 * 32768" using csum_nat_bound [of p] assms by linarith
  with pseudo_bound [of src dst "length p"] have "unat (pseudo src dst (length p)) + csum_nat p < 2 ^ 32" by simp
  from csum_add_value [OF this] show ?thesis by (simp add: udp_sum_def pseudo_def)
qed

lemma udp_checksum_accepted:
  assumes len: "8 \<le> length p" "length p < 65536" and z: "rd16be p 6 = 0"
  shows "udp_csum_ok src dst (wr16be 6 (udp_checksum src dst p) p)"
proof -
  let ?c = "udp_checksum src dst p" and ?F = "unat (csum_fold (udp_sum src dst p))"
  let ?q = "wr16be 6 ?c p"
  let ?X = "unat (udp_sum src dst p)"
  have F: "?F < 65536" "?F mod 65535 = ?X mod 65535" using csum_fold_value [of "udp_sum src dst p"] by auto
  have c: "?c \<noteq> 0" by (simp add: udp_checksum_def Let_def)
  have q: "csum_nat ?q = csum_nat p + unat ?c" using csum_nat_wr [of 3 p ?c] len(1) z by simp
  have cv: "unat ?c mod 65535 = (65535 - ?F) mod 65535"
  proof (cases "65535 - ?F = 0")
    case True
    then have "NOT (ucast (csum_fold (udp_sum src dst p)) :: u16) = 0" using fold_compl [of "udp_sum src dst p"] by (simp add: unsigned_eq_0_iff)
    with True show ?thesis by (simp add: udp_checksum_def Let_def)
  next
    case False
    then have "NOT (ucast (csum_fold (udp_sum src dst p)) :: u16) \<noteq> 0" using fold_compl [of "udp_sum src dst p"] by (metis unsigned_0)
    then show ?thesis using fold_compl [of "udp_sum src dst p"] by (simp add: udp_checksum_def Let_def)
  qed
  have Y: "unat (udp_sum src dst ?q) = ?X + unat ?c" using udp_sum_value [of ?q] udp_sum_value [of p] len unfolding q length_wr by simp
  have "(?X + unat ?c) mod 65535 = (?X mod 65535 + unat ?c mod 65535) mod 65535" by (simp only: mod_add_eq)
  also have "\<dots> = (?F mod 65535 + (65535 - ?F) mod 65535) mod 65535" by (simp only: F(2) cv)
  also have "\<dots> = (?F + (65535 - ?F)) mod 65535" by (simp only: mod_add_eq)
  also have "?F + (65535 - ?F) = 65535" using F(1) by linarith
  finally have "unat (udp_sum src dst ?q) mod 65535 = 0" using Y by simp
  moreover have "unat (udp_sum src dst ?q) \<noteq> 0" using Y udp_sum_value [OF len(2), of src dst] pseudo_bound [of src dst "length p"] by simp
  then have "udp_sum src dst ?q \<noteq> 0" by (metis unsigned_0)
  ultimately have "NOT (ucast (csum_fold (udp_sum src dst ?q)) :: u16) = 0" unfolding fold_ones by simp
  then show ?thesis using len(1) by (simp add: udp_csum_ok_def Let_def)
qed

section \<open>The datagram\<close>

lemma zeros8: "replicate (8 + n) (0 :: u8) = [0,0,0,0,0,0,0,0] @ replicate n 0"
  by (simp add: numeral_eq_Suc)

lemma udp_packet_fields:
  fixes src dst sp dp data
  defines "pk \<equiv> udp_packet src dst sp dp data"
  assumes len: "length data \<le> 65507"
  shows "length pk = 8 + length data" "rd16be pk 0 = sp" "rd16be pk 2 = dp" "unat (rd16be pk 4) = 8 + length data" "drop 8 pk = data"
    "udp_csum_ok src dst pk"
proof -
  let ?z = "[ucast (drop_bit 8 sp), ucast sp, ucast (drop_bit 8 dp), ucast dp,
      ucast (drop_bit 8 (of_nat (8 + length data) :: u16)), ucast (of_nat (8 + length data) :: u16), 0, 0] @ data"
  have z: "memcpy_at 8 data (wr16be 6 0 (wr16be 4 (of_nat (8 + length data)) (wr16be 2 dp (wr16be 0 sp (replicate (8 + length data) 0))))) = ?z"
    unfolding zeros8 by (simp add: wr16be_def memcpy_at_def)
  have pk: "pk = wr16be 6 (udp_checksum src dst ?z) ?z" unfolding pk_def udp_packet_def Let_def z ..
  show "length pk = 8 + length data" "drop 8 pk = data" unfolding pk by (simp_all add: wr16be_def)
  show "rd16be pk 0 = sp" "rd16be pk 2 = dp" unfolding pk using join16 by (simp_all add: wr16be_def rd16be_def)
  have "rd16be pk 4 = of_nat (8 + length data)" unfolding pk using join16 [of "of_nat (8 + length data)"] by (simp add: wr16be_def rd16be_def)
  moreover have "unat (of_nat (8 + length data) :: u16) = 8 + length data" by (subst unsigned_of_nat) (use len in \<open>simp add: take_bit_eq_mod\<close>)
  ultimately show "unat (rd16be pk 4) = 8 + length data" by simp
  show "udp_csum_ok src dst pk" unfolding pk by (rule udp_checksum_accepted) (use len in \<open>simp_all add: rd16be_def\<close>)
qed

lemma udp_rx_packet:
  assumes "length data \<le> 65507" and "find_slot (\<lambda>b. snd b \<noteq> None \<and> fst b = dp) (g_binds s) = Some i" and "snd (g_binds s ! i) = Some h"
  shows "udp_rx d src dst (udp_packet src dst sp dp data) s = s\<lparr>to_handler := to_handler s @ [(h, src, sp, dp, data)]\<rparr>"
  using udp_packet_fields [OF assms(1), of src dst sp dp] assms(2,3) by (simp add: udp_rx_def Let_def)

section \<open>Through the loopback queue\<close>

text \<open>Nothing but the queue, the counters and the identifier changes when a packet is sent to this machine.\<close>

definition queued :: "net \<Rightarrow> nat \<Rightarrow> u8 list \<Rightarrow> net \<Rightarrow> bool" where
  "queued s lo pkt s1 \<longleftrightarrow> lo_queue s1 = lo_queue s @ [(ETH_P_IP, pkt)] \<and> g_lo s1 = g_lo s \<and> g_binds s1 = g_binds s \<and>
    to_handler s1 = to_handler s \<and> to_sockets s1 = to_sockets s \<and> cfg (devs s1 ! lo) = cfg (devs s ! lo)"

lemma lo_enqueue_queued:
  "lo_enqueue ETH_P_IP pkt s = (0, s1) \<Longrightarrow> queued s lo pkt s1"
  by (auto simp: lo_enqueue_def ask_def Let_def queued_def split: if_splits option.splits)

lemma transmit_queued:
  assumes "netdev_transmit (Some lo) pkt s = (0, s1)" and "nd_transmit (devs s ! lo) = Tx_loopback" and "drop_bit 4 (pkt ! 0) \<noteq> 6"
  shows "queued s lo pkt s1"
proof -
  obtain r s2 where c: "call_transmit lo pkt s = (r, s2)" by (cases "call_transmit lo pkt s")
  with assms(1,2) have r: "r = 0" and s1: "s1 = upd_dev lo (\<lambda>v. v\<lparr>tx_packets := tx_packets v + 1, tx_bytes := tx_bytes v + of_nat (length pkt)\<rparr>) s2"
    by (auto simp: netdev_transmit_def)
  have "queued s lo pkt s2" using c r assms(2,3) lo_enqueue_queued by (auto simp: call_transmit_def lo_transmit_def split: if_splits)
  moreover have "cfg (devs s1 ! lo) = cfg (devs s2 ! lo)" unfolding s1 by (rule upd_dev_cfg) (simp add: cfg_def)
  ultimately show ?thesis unfolding queued_def s1 by (simp add: upd_dev_def)
qed

lemma asked_local [simp]: "ip_is_local dev ip (s\<lparr>asked := n\<rparr>) = ip_is_local dev ip s" "netdev_loopback (s\<lparr>asked := n\<rparr>) = netdev_loopback s"
proof -
  have dl: "dev_list (s\<lparr>asked := n\<rparr>) = dev_list s" by (simp add: dev_list_def)
  have nf: "netdev_first (s\<lparr>asked := n\<rparr>) = netdev_first s" unfolding netdev_first_def dl by simp
  show "ip_is_local dev ip (s\<lparr>asked := n\<rparr>) = ip_is_local dev ip s" unfolding ip_is_local_def nf dl by (simp split: option.splits)
  show "netdev_loopback (s\<lparr>asked := n\<rparr>) = netdev_loopback s" unfolding netdev_loopback_def dl by simp
qed

lemma ip_send_queued:
  assumes sent: "ip_send dev dst proto pl ttl s = (0, s1)" and local: "ip_is_local dev dst s" and lo: "netdev_loopback s = Some lo"
    "nd_transmit (devs s ! lo) = Tx_loopback" "nd_mtu (devs s ! lo) = 65535"
  shows "length pl \<le> 65515 \<and> queued s lo (ip_packet dst dst proto ttl (g_ip_id s) 0 pl) s1"
proof -
  have len: "length pl \<le> 65515" using sent by (auto simp: ip_send_def split: if_splits)
  have route: "ip_route dev dst s = (Some (lo, True, []), s)" using local lo(1) by (simp add: ip_route_def)
  have mtu: "ip_mtu (devs s ! lo) = 65535" using lo(3) by (simp add: ip_mtu_def Let_def)
  have src: "ip_source_for dev dst s = dst" using local by (simp add: ip_source_for_def)
  let ?p = "ip_packet dst dst proto ttl (g_ip_id s) 0 pl"
  obtain t where t: "t = s\<lparr>g_ip_id := g_ip_id s + 1\<rparr> \<or> t = s\<lparr>g_ip_id := g_ip_id s + 1, asked := asked s + 1\<rparr>"
    "netdev_transmit (Some lo) ?p t = (0, s1)"
    using sent len by (auto simp: ip_send_def Let_def route mtu src ask_def ip_emit_def split: if_splits bool.splits prod.splits)
  have "nd_transmit (devs t ! lo) = Tx_loopback" using t(1) lo(2) by auto
  moreover have "drop_bit 4 (?p ! 0) \<noteq> 6" unfolding ip_packet_fields(2) by simp
  ultimately have "queued t lo ?p s1" by (rule transmit_queued [OF t(2)])
  with t(1) len show ?thesis by (auto simp: queued_def)
qed

lemma udp_send_queued:
  assumes sent: "udp_send dev dst sp dp data s = (0, s1)" and local: "ip_is_local dev dst s" and lo: "netdev_loopback s = Some lo"
    "nd_transmit (devs s ! lo) = Tx_loopback" "nd_mtu (devs s ! lo) = 65535"
  shows "length data \<le> 65507 \<and> (\<exists>ident. queued s lo (ip_packet dst dst IPPROTO_UDP IP_DEFAULT_TTL ident 0 (udp_packet dst dst sp dp data)) s1)"
proof -
  have len: "length data \<le> 65507" using sent by (auto simp: udp_send_def split: if_splits)
  have src: "ip_source_for dev dst (s\<lparr>asked := n\<rparr>) = dst" "ip_source_for dev dst s = dst" for n using local by (simp_all add: ip_source_for_def)
  obtain t where t: "t = s \<or> t = s\<lparr>asked := asked s + 1\<rparr>" "ip_send dev dst IPPROTO_UDP (udp_packet dst dst sp dp data) IP_DEFAULT_TTL t = (0, s1)"
    using sent len by (auto simp: udp_send_def ask_def src split: if_splits bool.splits)
  have "ip_is_local dev dst t" "netdev_loopback t = Some lo" "nd_transmit (devs t ! lo) = Tx_loopback" "nd_mtu (devs t ! lo) = 65535"
    using t(1) local lo by auto
  from ip_send_queued [OF t(2) this] t(1) len show ?thesis by (auto simp: queued_def)
qed

text \<open>Taking the packet from the queue hands it to \<open>ip_rx\<close> of the loopback device.\<close>

lemma drain_queued:
  assumes "queued s lo pkt s1" and "lo_queue s = []" and "g_lo s = Some lo"
  obtains t where "loopback_drain_one up now s1 = (True, run_upcall up (ip_rx now lo pkt t))"
    "g_binds t = g_binds s" "to_handler t = to_handler s" "to_sockets t = to_sockets s" "nd_ip (devs t ! lo) = nd_ip (devs s ! lo)" "lo_queue t = []"
proof -
  let ?s2 = "s1\<lparr>lo_queue := [], g_queued := g_queued s1 - of_nat (length pkt)\<rparr>"
  let ?s3 = "upd_dev lo (\<lambda>v. v\<lparr>rx_packets := rx_packets v + 1, rx_bytes := rx_bytes v + of_nat (length pkt)\<rparr>) ?s2"
  let ?t = "upd_dev lo (\<lambda>v. v\<lparr>rx_ip := rx_ip v + 1\<rparr>) ?s3"
  have q: "lo_queue s1 = [(ETH_P_IP, pkt)]" "g_lo s1 = Some lo" using assms by (auto simp: queued_def)
  have "loopback_drain_one up now s1 = (True, run_upcall up (ip_rx now lo pkt ?t))"
    using q by (simp add: loopback_drain_one_def loopback_take_def Let_def ETH_P_IP_def ETH_P_IPV6_def)
  moreover have "cfg (devs ?t ! lo) = cfg (devs ?s3 ! lo)" "cfg (devs ?s3 ! lo) = cfg (devs ?s2 ! lo)"
    by (rule upd_dev_cfg, simp add: cfg_def)+
  then have "nd_ip (devs ?t ! lo) = nd_ip (devs s ! lo)" using assms(1) by (simp add: queued_def cfg_def)
  ultimately show ?thesis using assms(1) that [of ?t] by (simp add: queued_def upd_dev_def)
qed

text \<open>C21: A datagram that \<open>udp_send\<close> accepts for a loopback address travels through \<open>ip_send\<close>, the queue and \<open>ip_rx\<close>, past both checksums, and
  the handler bound to its port gets exactly its bytes, with the address and the ports it was sent with.\<close>

theorem udp_loopback_delivers:
  assumes sent: "udp_send dev dst sp dp data s = (0, s1)" and dst: "drop_bit 24 dst = 127"
    and lo: "netdev_loopback s = Some lo" "g_lo s = Some lo" "nd_transmit (devs s ! lo) = Tx_loopback" "nd_mtu (devs s ! lo) = 65535" "lo_queue s = []"
    and bound: "find_slot (\<lambda>b. snd b \<noteq> None \<and> fst b = dp) (g_binds s) = Some i" "snd (g_binds s ! i) = Some h"
  shows "to_handler (snd (loopback_drain_one up now s1)) = to_handler s @ [(h, dst, sp, dp, data)]"
proof -
  have local: "ip_is_local dev dst s" using dst by (simp add: ip_is_local_def)
  from udp_send_queued [OF sent local lo(1,3,4)] obtain ident where len: "length data \<le> 65507"
    and q: "queued s lo (ip_packet dst dst IPPROTO_UDP IP_DEFAULT_TTL ident 0 (udp_packet dst dst sp dp data)) s1" by blast
  from drain_queued [OF q lo(5,2), of up now] obtain t where
    t: "loopback_drain_one up now s1 = (True, run_upcall up (ip_rx now lo (ip_packet dst dst IPPROTO_UDP IP_DEFAULT_TTL ident 0 (udp_packet dst dst sp dp data)) t))"
    "g_binds t = g_binds s" "to_handler t = to_handler s" by blast
  have "length (udp_packet dst dst sp dp data) \<le> 65515" using len udp_packet_fields(1) [OF len, of dst dst sp dp] by simp
  moreover have "accepts t lo dst" using dst by (simp add: accepts_def)
  ultimately have "ip_rx now lo (ip_packet dst dst IPPROTO_UDP IP_DEFAULT_TTL ident 0 (udp_packet dst dst sp dp data)) t =
      (Some (To_udp lo dst dst (udp_packet dst dst sp dp data)), t)"
    using ip_rx_packet [of "udp_packet dst dst sp dp data" t lo dst now dst IPPROTO_UDP IP_DEFAULT_TTL ident 0 "[]"]
    by (simp add: ip_deliver_def IPPROTO_UDP_def IPPROTO_ICMP_def)
  with t udp_rx_packet [OF len, of dp t i h lo dst dst sp] bound show ?thesis by (simp add: run_upcall_def)
qed

text \<open>A datagram sent to the address of one of the machine's own network cards is taken for local and queued on the loopback device, which drops it,
  as the address is not the loopback's own: nothing reaches a handler or a socket.\<close>

theorem own_address_dropped:
  assumes sent: "udp_send dev dst sp dp data s = (0, s1)" and dst: "ip_is_local dev dst s" "drop_bit 24 dst \<noteq> 127" "dst \<noteq> 0xFFFFFFFF"
    and lo: "netdev_loopback s = Some lo" "g_lo s = Some lo" "nd_transmit (devs s ! lo) = Tx_loopback" "nd_mtu (devs s ! lo) = 65535" "lo_queue s = []"
      "nd_ip (devs s ! lo) = IP4 127 0 0 1"
  shows "to_handler (snd (loopback_drain_one up now s1)) = to_handler s \<and> to_sockets (snd (loopback_drain_one up now s1)) = to_sockets s \<and>
    lo_queue (snd (loopback_drain_one up now s1)) = []"
proof -
  let ?p = "\<lambda>ident. ip_packet dst dst IPPROTO_UDP IP_DEFAULT_TTL ident 0 (udp_packet dst dst sp dp data)"
  from udp_send_queued [OF sent dst(1) lo(1,3,4)] obtain ident where q: "queued s lo (?p ident) s1" by blast
  from drain_queued [OF q lo(5,2), of up now] obtain t where
    t: "loopback_drain_one up now s1 = (True, run_upcall up (ip_rx now lo (?p ident) t))"
    "to_handler t = to_handler s" "to_sockets t = to_sockets s" "nd_ip (devs t ! lo) = nd_ip (devs s ! lo)" "lo_queue t = []" by blast
  note f = ip_packet_fields [of dst dst IPPROTO_UDP IP_DEFAULT_TTL ident 0 "udp_packet dst dst sp dp data"]
  have ne: "nd_ip (devs t ! lo) \<noteq> 0" "dst \<noteq> nd_ip (devs t ! lo)" using t(4) lo(6) dst(2) by (auto simp: IP4_def)
  have "ip_rx now lo (?p ident) t = (None, upd_dev lo (\<lambda>v. v\<lparr>rx_not_for_us := rx_not_for_us v + 1\<rparr>) t)"
    using f dst(2,3) ne by (simp add: ip_rx_def Let_def)
  with t show ?thesis by (simp add: run_upcall_def upd_dev_def)
qed

end
