(* ===== verification/Net_Demo.thy ===== *)
theory Net_Demo
  imports Net_Props Udp_Props
begin

text \<open>
  A machine with one network card and the loopback device, its peer on the wire, and the properties of the network stack at
  work on them.
\<close>

section \<open>The machines\<close>

definition nic :: netdev where
  "nic = \<lparr>nd_name = ''eth0'', nd_mac = [2, 0, 0, 0, 0, 1], nd_mtu = 68, nd_transmit = Tx_driver, nd_link_up = True, nd_is_loopback = False,
     nd_ip = 0x0A00020F, nd_netmask = 0xFFFFFF00, nd_gateway = 0, nd_dns = 0, nd_ip6_ll = [], rx_packets = 0, rx_bytes = 0, tx_packets = 0,
     tx_bytes = 0, rx_dropped = 0, tx_dropped = 0, rx_arp = 0, rx_ip = 0, rx_other = 0, rx_not_for_us = 0, rx_tcp_syn = 0, rx_bad_csum = 0, rx_frag_dropped = 0,
     rx_frag_reasm = 0, rx_frag_timeout = 0, tx_fragmented = 0\<rparr>"

definition free_frag :: frag where
  "free_frag = \<lparr>fr_used = False, fr_dev = None, fr_src = 0, fr_dst = 0, fr_id = 0, fr_proto = 0, fr_have_first = False, fr_first_hdr = [],
     fr_total = 0, fr_filled = 0, fr_deadline = 0, fr_buf = Some (\<lambda>_. 0xAA), fr_bmap = (\<lambda>_. 0)\<rparr>"

definition boot_net :: net where
  "boot_net = \<lparr>devs = [], g_eth_index = 0, g_lo = None, lo_queue = [], g_queued = 0, g_draining = False,
     g_arp = [\<lparr>arp_ip = 0x0A000202, arp_mac = [2, 0, 0, 0, 0, 2], arp_valid = True, arp_ts_ms = 0\<rparr>],
     g_ip_id = 1, g_frags = [free_frag, free_frag], g_binds = [(7, Some 3)], to_handler = [], to_sockets = [], wire = [],
     outcome = (\<lambda>_. True), fresh = (\<lambda>_ _. 0), asked = 0, fault = False\<rparr>"

definition host :: net where
  "host = (loopback_init boot_net)\<lparr>devs := devs (loopback_init boot_net) @ [nic]\<rparr>"

definition peer :: net where
  "peer = boot_net\<lparr>devs := [nic\<lparr>nd_ip := 0x0A000202\<rparr>]\<rparr>"

definition demo_pl :: "u8 list" where
  "demo_pl = replicate 60 7"

section \<open>Sending succeeds\<close>

lemma budget: "n \<le> 65535 \<Longrightarrow> (of_nat n :: u64) \<le> LO_BUDGET"
proof -
  assume "n \<le> 65535"
  then have "unat (of_nat n :: u64) \<le> 65535" by (simp add: unat_of_nat take_bit_eq_mod)
  then show ?thesis by (simp add: LO_BUDGET_def word_le_nat_alt)
qed

lemma ip_send_local_ok:
  assumes "ip_is_local dev dst s" "netdev_loopback s = Some lo" "nd_transmit (devs s ! lo) = Tx_loopback" "nd_mtu (devs s ! lo) = 65535"
    "length pl \<le> 65515" "\<forall>n. outcome s n" "g_queued s = 0"
  shows "fst (ip_send dev dst proto pl ttl s) = 0"
proof -
  let ?p = "ip_packet (ip_source_for dev dst s) dst proto ttl (g_ip_id s) 0 pl"
  have len: "length ?p = 20 + length pl" by (rule ip_packet_fields(1))
  have "fst (netdev_transmit (Some lo) ?p t) = 0" if "devs t = devs s" "outcome t = outcome s" "g_queued t = 0" for t
    using that assms(3,5,6) len budget [of "20 + length pl"]
    by (simp add: netdev_transmit_def call_transmit_def lo_transmit_def lo_enqueue_def ask_def Let_def LO_MTU_def case_prod_unfold not_less)
  then show ?thesis using assms
    by (simp add: ip_send_def Let_def ip_route_def ip_mtu_def ask_def ip_emit_def)
qed

lemma eth_send_ok:
  assumes "length p \<le> unat (nd_mtu (devs s ! d))" "nd_transmit (devs s ! d) = Tx_driver" "\<forall>n. outcome s n"
  shows "\<exists>s'. eth_send (Some d) mac e p s = (0, s') \<and> cfg (devs s' ! d) = cfg (devs s ! d) \<and> outcome s' = outcome s"
proof -
  obtain r s' where e: "eth_send (Some d) mac e p s = (r, s')" by (cases "eth_send (Some d) mac e p s")
  then have "r = 0 \<and> outcome s' = outcome s"
    using assms by (auto simp: eth_send_def Let_def netdev_transmit_def call_transmit_def ask_def upd_dev_def split: if_splits)
  with e eth_send_wire(2) [of d mac e p s s'] assms(2) show ?thesis by simp
qed

lemma send_frags_ok:
  assumes "nd_transmit (devs s ! d) = Tx_driver" "\<forall>n. outcome s n" "\<And>fr x. length x \<le> chunk \<Longrightarrow> length (mk fr x) \<le> unat (nd_mtu (devs s ! d))"
  shows "fst (send_frags d mac False mk chunk pl off s) = 0"
  using assms
proof (induction d mac "False" mk chunk pl off s rule: send_frags.induct)
  case (1 d mac mk chunk pl off s)
  let ?n = "if length pl - off < chunk then length pl - off else chunk"
  let ?p = "mk (frag_field off ?n (length pl)) (take ?n (drop off pl))"
  show ?case
  proof (cases "chunk = 0 \<or> \<not> off < length pl")
    case False
    have "length ?p \<le> unat (nd_mtu (devs s ! d))" by (rule "1.prems"(3)) simp
    from eth_send_ok [OF this "1.prems"(1,2), of mac ETH_P_IP] obtain s' where
      s': "ip_emit d mac False ?p s = (0, s')" "cfg (devs s' ! d) = cfg (devs s ! d)" "outcome s' = outcome s" by (auto simp: ip_emit_def)
    have "fst (send_frags d mac False mk chunk pl (off + chunk) s') = 0"
      by (rule "1.hyps" [OF False refl s'(1) [symmetric]]) (use s'(2,3) "1.prems" in \<open>auto simp: cfg_def\<close>)
    with False s'(1) show ?thesis by (simp add: send_frags.simps [of d mac False mk chunk pl off s] Let_def)
  qed (auto simp: send_frags.simps [of d mac False mk chunk pl off s])
qed

section \<open>Facts on the machines\<close>

lemma host_facts:
  "dev_list host = [1, 0]" "length (devs host) = 2" "devs host ! Suc 0 = nic" "nd_is_loopback (devs host ! 0)" "nd_mtu (devs host ! 0) = 65535"
  "nd_transmit (devs host ! 0) = Tx_loopback" "nd_ip (devs host ! 0) = IP4 127 0 0 1" "g_lo host = Some 0" "\<forall>n. outcome host n"
  "g_queued host = 0" "lo_queue host = []" "g_binds host = [(7, Some 3)]" "wire host = []" "g_arp host = g_arp boot_net" "to_handler host = []"
  by (simp_all add: host_def boot_net_def loopback_init_def netdev_register_named_def ask_def upd_dev_def dev_list_def LO_MTU_def)

lemma host_loopback: "netdev_loopback host = Some 0"
  using host_facts(3,4) by (simp add: netdev_loopback_def host_facts(1) nic_def)

lemma host_remote: "\<not> ip_is_local (Some (Suc 0)) 0x0A000202 host"
  using host_facts(3,4,7) by (simp add: ip_is_local_def netdev_first_def host_facts(1) nic_def IP4_def)

lemma host_route: "ip_route (Some (Suc 0)) 0x0A000202 host = (Some (Suc 0, False, [2, 0, 0, 0, 0, 2]), host)"
  using host_remote
  by (simp add: ip_route_def Let_def host_facts(3) same_subnet_def arp_lookup_def arp_find_def host_facts(14))
    (simp add: nic_def boot_net_def)

lemma nic_facts: "nd_transmit nic = Tx_driver" "length (nd_mac nic) = 6" "nd_ip nic = 0x0A00020F"
  by (simp_all add: nic_def)

lemma host_mtu: "ip_mtu nic = 68" "ip_chunk 68 = 48"
  by (simp_all add: ip_mtu_def nic_def ip_chunk_def Let_def)

lemma demo_sent: "fst (ip_send (Some (Suc 0)) 0x0A000202 IPPROTO_UDP demo_pl 64 host) = 0"
proof -
  have "fst (send_frags (Suc 0) mac False (ip_packet src 0x0A000202 IPPROTO_UDP 64 ident) 48 demo_pl 0 (host\<lparr>g_ip_id := n\<rparr>)) = 0" for mac src ident n
    by (rule send_frags_ok) (use host_facts in \<open>simp_all add: nic_def ip_packet_fields(1)\<close>)
  then show ?thesis
    by (simp add: ip_send_def Let_def host_route host_facts(3) host_mtu demo_pl_def IP_SBUF_def case_prod_unfold)
qed

lemma peer_facts: "frags_wf peer" "no_slot K peer" "fst (slot_claim now peer) \<noteq> None" "accepts peer 0 0x0A000202"
  by (simp_all add: peer_def boot_net_def frags_wf_def slot_wf_def free_frag_def no_slot_def slot_claim_def accepts_def)

section \<open>Witnesses\<close>

definition demo_wire :: "(nat \<times> u8 list) list" where
  "demo_wire = wire (snd (ip_send (Some (Suc 0)) 0x0A000202 IPPROTO_UDP demo_pl 64 host))"

text \<open>The frames of a datagram, arriving in the reverse order, deliver it.\<close>

theorem ip_fragments_reassemble_witness:
  "last (rx_all 0 (map (\<lambda>(t, f). (t, drop 14 f)) (rev (map (\<lambda>x. (0, snd x)) demo_wire))) peer) =
    Some (To_udp 0 0x0A00020F 0x0A000202 demo_pl)"
proof -
  let ?s1 = "snd (ip_send (Some (Suc 0)) 0x0A000202 IPPROTO_UDP demo_pl 64 host)"
  have sent: "ip_send (Some (Suc 0)) 0x0A000202 IPPROTO_UDP demo_pl 64 host = (0, ?s1)" using demo_sent by (metis prod.collapse)
  have rv: "map snd (rev (map (\<lambda>x. (0 :: u64, snd x)) w)) = rev (map snd w)" for w :: "(nat \<times> u8 list) list" by (simp add: rev_map comp_def)
  have ms: "mset (map snd (rev (map (\<lambda>x. (0 :: u64, snd x)) demo_wire))) = mset (map snd (drop (length (wire host)) (wire ?s1)))"
    unfolding rv mset_rev host_facts(13) demo_wire_def by simp
  have "rx_all 0 (map (\<lambda>(t, f). (t, drop 14 f)) (rev (map (\<lambda>x. (0, snd x)) demo_wire))) peer =
      replicate (length (rev (map (\<lambda>x. (0 :: u64, snd x)) demo_wire)) - 1) None @ [ip_deliver 0 (nd_ip (devs host ! Suc 0)) 0x0A000202 IPPROTO_UDP demo_pl]"
    by (rule ip_fragments_reassemble [OF sent host_remote _ _ _ _ ms])
      (simp_all add: host_facts(3,14) peer_facts host_mtu nic_facts demo_pl_def, simp add: boot_net_def)
  then show ?thesis by (simp add: ip_deliver_def host_facts(3) nic_facts IPPROTO_UDP_def IPPROTO_ICMP_def)
qed

definition demo_piece :: "nat \<Rightarrow> u8 list" where
  "demo_piece off = piece_at (ip_packet 1 2 IPPROTO_UDP 64 9) 48 demo_pl off"

lemma demo_pieces: "piece_set (1, 2, 9, IPPROTO_UDP) demo_pl {demo_piece 0, demo_piece 48}" "demo_piece 0 \<noteq> demo_piece 48"
proof -
  have "offs 48 0 60 = [0, 48]" by (simp add: offs.simps)
  then show "piece_set (1, 2, 9, IPPROTO_UDP) demo_pl {demo_piece 0, demo_piece 48}"
    using pieces_set [of 48 demo_pl 1 2 9 IPPROTO_UDP 64] by (simp add: demo_piece_def demo_pl_def)
  have "off_of (demo_piece 0) = 0" "off_of (demo_piece 48) = 48"
    using piece_fields(1) [of 0 demo_pl] piece_fields(1) [of 48 demo_pl] by (simp_all add: demo_piece_def demo_pl_def)
  then show "demo_piece 0 \<noteq> demo_piece 48" by auto
qed

theorem reassembly_sound_witness:
  "\<exists>s log u. frag_reach (\<lambda>_. demo_pl) s log \<and> (0, demo_piece 0, Some u) \<in> set log \<and>
    Some u = ip_deliver 0 (rd32be (demo_piece 0) 12) (rd32be (demo_piece 0) 16) (demo_piece 0 ! 9) demo_pl"
proof -
  obtain up1 s1 where one: "ip_frag_input 0 0 (demo_piece 48) peer = (up1, s1)" by (cases "ip_frag_input 0 0 (demo_piece 48) peer")
  obtain up2 s2 where two: "ip_frag_input 5 0 (demo_piece 0) s1 = (up2, s2)" by (cases "ip_frag_input 5 0 (demo_piece 0) s1")
  have gen: "genuine (\<lambda>_. demo_pl) (demo_piece 0)" "genuine (\<lambda>_. demo_pl) (demo_piece 48)" using piece_setD(2) [OF demo_pieces(1)] by simp_all
  have w: "waiting (1, 2, 9, IPPROTO_UDP) demo_pl {} peer" using peer_facts by (simp add: waiting_def)
  have "{demo_piece 48} \<noteq> {demo_piece 0, demo_piece 48}" using demo_pieces(2) by auto
  with piece_step [OF demo_pieces(1) w _ _ _ one] have w1: "waiting (1, 2, 9, IPPROTO_UDP) demo_pl {demo_piece 48} s1" by simp
  from piece_step [OF demo_pieces(1) w1 _ _ _ two] demo_pieces(2) have up2: "up2 = Some (To_udp 0 1 2 demo_pl)"
    by (simp add: ip_deliver_def IPPROTO_UDP_def IPPROTO_ICMP_def)
  have "frag_reach (\<lambda>_. demo_pl) peer []" by (rule Start) (simp add: peer_def boot_net_def free_frag_def)
  from Piece [OF Piece [OF this gen(2) one] gen(1) two]
  have reach: "frag_reach (\<lambda>_. demo_pl) s2 [(0, demo_piece 48, up1), (0, demo_piece 0, Some (To_udp 0 1 2 demo_pl))]" by (simp add: up2)
  have mem: "(0, demo_piece 0, Some (To_udp 0 1 2 demo_pl)) \<in> set [(0, demo_piece 48, up1), (0, demo_piece 0, Some (To_udp 0 1 2 demo_pl))]" by simp
  from reach mem reassembly_sound [OF reach mem] show ?thesis by blast
qed

theorem ip_rx_well_formed_witness:
  "frags_wf (snd (ip_rx 0 0 (demo_piece 48) peer)) \<and> fault (snd (ip_rx 0 0 (demo_piece 48) peer)) = fault peer"
  by (rule ip_rx_well_formed [OF peer_facts(1)])




theorem lo_broadcast_overruns_witness:
  "fault (snd (udp_send (netdev_first (loopback_init boot_net)) 0xFFFFFFFF 5 7 (replicate 2000 0) (loopback_init boot_net)))"
proof -
  have "devs boot_net = []" "g_lo boot_net = None" "\<forall>n. outcome boot_net n" by (simp_all add: boot_net_def)
  from lo_broadcast_overruns [OF this, of "replicate 2000 0" 5 7, THEN conjunct2] show ?thesis by simp
qed

theorem arp_cache_put_witness:
  "arp_lookup 0x0A000203 (arp_cache_put 0 0x0A000203 [9, 9, 9, 9, 9, 9] boot_net) = Some [9, 9, 9, 9, 9, 9]"
proof -
  have "unique_live arp_valid arp_ip (g_arp boot_net)" "g_arp boot_net \<noteq> []" by (simp_all add: boot_net_def unique_live_def)
  from arp_cache_put_correct [OF this, of "0x0A000203" 0 "[9, 9, 9, 9, 9, 9]"] show ?thesis by simp
qed

lemma demo_udp:
  assumes "ip_is_local (Some (Suc 0)) dst host"
  shows "udp_send (Some (Suc 0)) dst 5 7 [1, 2, 3] host = (0, snd (udp_send (Some (Suc 0)) dst 5 7 [1, 2, 3] host))"
proof -
  have "length (udp_packet dst dst 5 7 [1, 2, 3]) = 11" by (simp add: udp_packet_fields(1))
  then have "fst (udp_send (Some (Suc 0)) dst 5 7 [1, 2, 3] host) = 0"
    using ip_send_local_ok [OF assms host_loopback host_facts(6,5) _ host_facts(9,10)] assms
    by (simp add: udp_send_def UDP_SBUF_def ip_source_for_def)
  then show ?thesis by (metis prod.collapse)
qed

theorem udp_loopback_witness:
  "\<forall>up. to_handler (snd (loopback_drain_one up 0 (snd (udp_send (Some (Suc 0)) 0x7F000001 5 7 [1, 2, 3] host)))) = [(3, 0x7F000001, 5, 7, [1, 2, 3])]"
proof
  fix up
  have "ip_is_local (Some (Suc 0)) 0x7F000001 host" by (simp add: ip_is_local_def)
  from udp_loopback_delivers [OF demo_udp [OF this] _ host_loopback host_facts(8,6,5,11), of 0 3 up 0]
  show "to_handler (snd (loopback_drain_one up 0 (snd (udp_send (Some (Suc 0)) 0x7F000001 5 7 [1, 2, 3] host)))) = [(3, 0x7F000001, 5, 7, [1, 2, 3])]"
    by (simp add: host_facts(12,15))
qed

theorem own_address_witness:
  "\<forall>up. to_handler (snd (loopback_drain_one up 0 (snd (udp_send (Some (Suc 0)) 0x0A00020F 5 7 [1, 2, 3] host)))) = []"
proof
  fix up
  have "ip_is_local (Some (Suc 0)) 0x0A00020F host" by (simp add: ip_is_local_def host_facts(3) nic_facts)
  from own_address_dropped [OF demo_udp [OF this] this _ _ host_loopback host_facts(8,6,5,11,7), of up 0]
  show "to_handler (snd (loopback_drain_one up 0 (snd (udp_send (Some (Suc 0)) 0x0A00020F 5 7 [1, 2, 3] host)))) = []"
    by (simp add: host_facts(15))
qed

end
