(* ===== verification/Ramfs.thy ===== *)
theory Ramfs
  imports Cervus_Prelude
begin

text \<open>
  Vnodes and the file system in memory: \<open>kernel/src/fs/ramfs.c\<close> and the reference counting of
  \<open>kernel/src/fs/vfs.c\<close>. A vnode is named by its index in the list of all vnodes ever allocated; one that
  was freed stays in the list and is no longer live. The table of operations a vnode points to is a value
  of a datatype: none, or one of the three tables of \<open>ramfs.c\<close>. Whether an allocation succeeds is taken
  from the stream \<open>mem\<close>, the wall clock is a field. The bytes of a file are in chunks of a page each,
  functions on the offsets below 4096; the length of the list of chunks is \<open>chunk_count\<close>, below which no
  chunk pointer is ever null. \<open>stale\<close> is set when the code touches a vnode that was freed, \<open>wild\<close> when it
  touches memory outside an array; nothing is promised from then on.
\<close>

section \<open>State\<close>

datatype vnode_type = VFS_NODE_FILE | VFS_NODE_DIR | VFS_NODE_CHARDEV | VFS_NODE_BLKDEV | VFS_NODE_SYMLINK | VFS_NODE_PIPE

datatype vnode_ops = Ops_null | Ramfs_file_ops | Ramfs_dir_ops | Ramfs_symlink_ops

record ramfs_node =
  chunks :: "(nat \<Rightarrow> u8) list"
  chunk_cap :: nat
  children :: "(string \<times> nat) list"
  child_cap :: nat
  link_target :: "string option"
  rn_ino :: u64

record vnode =
  v_type :: vnode_type
  v_mode :: u32
  v_uid :: u32
  v_gid :: u32
  v_size :: u64
  v_ino :: u64
  v_atime :: int
  v_mtime :: int
  v_ctime :: int
  v_ops :: vnode_ops
  v_data :: ramfs_node
  v_ref :: int
  v_mounted :: "nat option"
  v_rdev :: u64
  v_live :: bool

record vfs_mount =
  m_path :: string
  m_device :: string
  m_fstype :: string
  m_root :: nat
  m_used :: bool
  m_priv :: "nat option"
  m_unmount :: bool
  m_sync :: bool

text \<open>The calls of a mounted file system's own hooks, in order.\<close>

datatype fs_call = Call_unmount nat | Call_sync nat

record vfs =
  vnodes :: "vnode list"
  g_next_ino :: u64
  g_mounts :: "vfs_mount list"
  g_vfs_ready :: bool
  g_boot_time :: int
  clock :: int
  mem :: "nat \<Rightarrow> bool"
  mem_asked :: nat
  fs_calls :: "fs_call list"
  wild :: bool
  stale :: bool

definition RAMFS_MAX_CHILDREN :: nat where "RAMFS_MAX_CHILDREN = 1024"
definition RAMFS_CHUNK_SIZE :: nat where "RAMFS_CHUNK_SIZE = 4096"
definition RAMFS_MAX_CHUNKS :: nat where "RAMFS_MAX_CHUNKS = 16 * 1024 * 1024"

definition kmalloc :: "vfs \<Rightarrow> bool \<times> vfs" where
  "kmalloc s = (mem s (mem_asked s), s\<lparr>mem_asked := mem_asked s + 1\<rparr>)"

abbreviation vn :: "vfs \<Rightarrow> nat \<Rightarrow> vnode" where
  "vn s v \<equiv> vnodes s ! v"

definition live :: "vfs \<Rightarrow> nat \<Rightarrow> bool" where
  "live s v \<longleftrightarrow> v < length (vnodes s) \<and> v_live (vn s v)"

definition upd_vnode :: "nat \<Rightarrow> (vnode \<Rightarrow> vnode) \<Rightarrow> vfs \<Rightarrow> vfs" where
  "upd_vnode v g s = s\<lparr>vnodes := (vnodes s)[v := g (vn s v)]\<rparr>"

section \<open>References\<close>

definition vnode_ref :: "nat \<Rightarrow> vfs \<Rightarrow> vfs" where
  "vnode_ref v s = (if live s v then upd_vnode v (\<lambda>n. n\<lparr>v_ref := v_ref n + 1\<rparr>) s else s\<lparr>stale := True\<rparr>)"

text \<open>The release of references below ends because it leaves one live vnode fewer.\<close>

lemma filter_update_less:
  "v < length xs \<Longrightarrow> P (xs ! v) \<Longrightarrow> \<not> P y \<Longrightarrow> length (filter P (xs[v := y])) < length (filter P xs)"
  by (simp add: length_filter_conv_card) (rule psubset_card_mono, auto simp: nth_list_update)

lemma filter_update_same:
  "P (xs ! v) = P y \<Longrightarrow> length (filter P (xs[v := y])) = length (filter P xs)"
  by (cases "v < length xs") (auto simp: length_filter_conv_card nth_list_update intro!: arg_cong [of _ _ card])

text \<open>
  \<open>vnode_unref\<close> with \<open>ramfs_unref\<close>, which it calls on the last reference: the list holds the vnodes whose
  reference is still to be dropped, the entries of a directory that is freed coming first.
\<close>

function unref_list :: "nat list \<Rightarrow> vfs \<Rightarrow> vfs" where
  "unref_list [] s = s"
| "unref_list (v # vs) s =
    (if \<not> live s v then unref_list vs (s\<lparr>stale := True\<rparr>)
     else if v_ref (vn s v) \<le> 1 \<and> v_ops (vn s v) \<noteq> Ops_null
     then unref_list (map snd (children (v_data (vn s v))) @ vs)
            (upd_vnode v (\<lambda>n. n\<lparr>v_ref := v_ref n - 1, v_live := False\<rparr>) s)
     else unref_list vs (upd_vnode v (\<lambda>n. n\<lparr>v_ref := v_ref n - 1\<rparr>) s))"
  by pat_completeness auto

termination
  by (relation "measures [\<lambda>(vs, s). length (filter v_live (vnodes s)), \<lambda>(vs, s). length vs]")
    (auto simp: upd_vnode_def live_def filter_update_less filter_update_same)

declare unref_list.simps [simp del]

definition vnode_unref :: "nat \<Rightarrow> vfs \<Rightarrow> vfs" where
  "vnode_unref v s = unref_list [v] s"

section \<open>The data of files\<close>

definition zero_chunk :: "nat \<Rightarrow> u8" where "zero_chunk = (\<lambda>_. 0)"

definition ramfs_free_chunks :: "ramfs_node \<Rightarrow> ramfs_node" where
  "ramfs_free_chunks rn = rn\<lparr>chunks := [], chunk_cap := 0\<rparr>"

text \<open>\<open>while (newcap < need_chunks) newcap *= 2\<close>; the capacity starts positive, so that \<open>need\<close> rounds are enough.\<close>

fun grow_cap :: "nat \<Rightarrow> nat \<Rightarrow> nat \<Rightarrow> nat" where
  "grow_cap 0 cap need = cap"
| "grow_cap (Suc fuel) cap need = (if cap < need then grow_cap fuel (cap * 2) need else cap)"

text \<open>The pages are allocated one by one; when one fails, \<open>chunk_count\<close> stays as it was.\<close>

fun alloc_pages :: "nat \<Rightarrow> vfs \<Rightarrow> bool \<times> vfs" where
  "alloc_pages 0 s = (True, s)"
| "alloc_pages (Suc n) s = (case kmalloc s of (ok, s) \<Rightarrow> if ok then alloc_pages n s else (False, s))"

definition ramfs_ensure_chunks :: "nat \<Rightarrow> nat \<Rightarrow> vfs \<Rightarrow> unit result \<times> vfs" where
  "ramfs_ensure_chunks v need s =
    (let rn = v_data (vn s v); count = length (chunks rn) in
     if need \<le> count then (Inr (), s)
     else if need > RAMFS_MAX_CHUNKS then (Inl EFBIG, s)
     else
       let (ok, s) = (if need > chunk_cap rn then kmalloc s else (True, s)) in
       if \<not> ok then (Inl ENOMEM, s)
       else
         let newcap = grow_cap need (if chunk_cap rn \<noteq> 0 then chunk_cap rn * 2 else 8) need;
             s = (if need > chunk_cap rn then upd_vnode v (\<lambda>n. n\<lparr>v_data := (v_data n)\<lparr>chunk_cap := newcap\<rparr>\<rparr>) s else s);
             (ok, s) = alloc_pages (need - count) s
         in if \<not> ok then (Inl ENOMEM, s)
            else (Inr (), upd_vnode v (\<lambda>n. n\<lparr>v_data := (v_data n)\<lparr>chunks :=
                   chunks (v_data n) @ replicate (need - count) zero_chunk\<rparr>\<rparr>) s))"

text \<open>The copy loops go chunk by chunk; \<open>left\<close> is \<open>len - done\<close>.\<close>

function read_loop :: "(nat \<Rightarrow> u8) list \<Rightarrow> nat \<Rightarrow> nat \<Rightarrow> u8 list" where
  "read_loop cs pos left =
    (if left = 0 then [] else
     let ci = pos div RAMFS_CHUNK_SIZE; off = pos mod RAMFS_CHUNK_SIZE;
         n = min (RAMFS_CHUNK_SIZE - off) left
     in (if ci < length cs then map (cs ! ci) [off ..< off + n] else replicate n 0) @ read_loop cs (pos + n) (left - n))"
  by pat_completeness auto
termination
  by (relation "measure (\<lambda>(cs, pos, left). left)") (auto simp: RAMFS_CHUNK_SIZE_def)

declare read_loop.simps [simp del]

definition ramfs_file_read :: "nat \<Rightarrow> nat \<Rightarrow> u64 \<Rightarrow> vfs \<Rightarrow> u8 list" where
  "ramfs_file_read v len offset s =
    (if offset \<ge> v_size (vn s v) then [] else
     let avail = unat (v_size (vn s v) - offset); len = (if len > avail then avail else len) in
     if len = 0 then [] else read_loop (chunks (v_data (vn s v))) (unat offset) len)"

text \<open>The write loop stores through the chunk pointers without looking at their number; the flag reports a store past the array.\<close>

definition put_bytes :: "nat \<Rightarrow> u8 list \<Rightarrow> (nat \<Rightarrow> u8) \<Rightarrow> nat \<Rightarrow> u8" where
  "put_bytes off src c = (\<lambda>i. if off \<le> i \<and> i < off + length src then src ! (i - off) else c i)"

function write_loop :: "(nat \<Rightarrow> u8) list \<Rightarrow> nat \<Rightarrow> u8 list \<Rightarrow> bool \<times> (nat \<Rightarrow> u8) list" where
  "write_loop cs pos src =
    (if src = [] then (False, cs) else
     let ci = pos div RAMFS_CHUNK_SIZE; off = pos mod RAMFS_CHUNK_SIZE;
         n = min (RAMFS_CHUNK_SIZE - off) (length src)
     in if ci < length cs then write_loop (cs[ci := put_bytes off (take n src) (cs ! ci)]) (pos + n) (drop n src)
        else (True, cs))"
  by pat_completeness auto
termination
  by (relation "measure (\<lambda>(cs, pos, src). length src)") (auto simp: RAMFS_CHUNK_SIZE_def)

declare write_loop.simps [simp del]

definition ramfs_file_write :: "nat \<Rightarrow> u8 list \<Rightarrow> u64 \<Rightarrow> vfs \<Rightarrow> nat result \<times> vfs" where
  "ramfs_file_write v buf offset s =
    (if buf = [] then (Inr 0, s) else
     let stop = offset + of_nat (length buf) in
     if stop < offset then (Inl EFBIG, s) else
     let need = unat ((stop + of_nat RAMFS_CHUNK_SIZE - 1) div of_nat RAMFS_CHUNK_SIZE) in
     case ramfs_ensure_chunks v need s of
       (Inl r, s) \<Rightarrow> (Inl r, s)
     | (Inr _, s) \<Rightarrow>
         let (out, cs) = write_loop (chunks (v_data (vn s v))) (unat offset) buf;
             s = (if out then s\<lparr>wild := True\<rparr> else s)
         in (Inr (length buf), upd_vnode v (\<lambda>n. n\<lparr>
              v_data := (v_data n)\<lparr>chunks := cs\<rparr>,
              v_size := if stop > v_size n then stop else v_size n,
              v_mtime := if clock s > 0 then clock s else v_mtime n,
              v_ctime := if clock s > 0 then clock s else v_ctime n\<rparr>) s))"

definition ramfs_file_truncate :: "nat \<Rightarrow> u64 \<Rightarrow> vfs \<Rightarrow> vfs" where
  "ramfs_file_truncate v new_size s =
    (if new_size = 0 then upd_vnode v (\<lambda>n. n\<lparr>v_data := ramfs_free_chunks (v_data n), v_size := 0\<rparr>) s
     else if new_size < v_size (vn s v) then
       let keep = unat ((new_size + of_nat RAMFS_CHUNK_SIZE - 1) div of_nat RAMFS_CHUNK_SIZE) in
       upd_vnode v (\<lambda>n. n\<lparr>v_data := (v_data n)\<lparr>chunks := take keep (chunks (v_data n))\<rparr>, v_size := new_size\<rparr>) s
     else s)"

record vfs_stat_t =
  vs_ino :: u64
  vs_type :: vnode_type
  vs_mode :: u32
  vs_uid :: u32
  vs_gid :: u32
  vs_size :: u64
  vs_blocks :: u64
  vs_atime :: int
  vs_mtime :: int
  vs_ctime :: int
  vs_nlink :: u64
  vs_dev :: u64
  vs_blksize :: u64
  vs_rdev :: u64

text \<open>The structure was cleared before, so that the fields it leaves out are zero.\<close>

definition ramfs_stat :: "vnode \<Rightarrow> vfs_stat_t" where
  "ramfs_stat n = \<lparr>vs_ino = rn_ino (v_data n), vs_type = v_type n, vs_mode = v_mode n, vs_uid = v_uid n, vs_gid = v_gid n,
     vs_size = v_size n, vs_blocks = (v_size n + 511) div 512, vs_atime = v_atime n, vs_mtime = v_mtime n, vs_ctime = v_ctime n,
     vs_nlink = 0, vs_dev = 0, vs_blksize = 0, vs_rdev = 0\<rparr>"

section \<open>Directories\<close>

definition ramfs_dir_grow :: "nat \<Rightarrow> vfs \<Rightarrow> unit result \<times> vfs" where
  "ramfs_dir_grow d s =
    (let cap = child_cap (v_data (vn s d)); newcap = (if cap = 0 then 8 else cap * 2) in
     if newcap > RAMFS_MAX_CHILDREN then (Inl ENOSPC, s)
     else let (ok, s) = kmalloc s in
       if \<not> ok then (Inl ENOMEM, s)
       else (Inr (), upd_vnode d (\<lambda>n. n\<lparr>v_data := (v_data n)\<lparr>child_cap := newcap\<rparr>\<rparr>) s))"

definition child_of :: "string \<Rightarrow> (string \<times> nat) list \<Rightarrow> nat option" where
  "child_of name cs = map_option snd (find (\<lambda>c. fst c = name) cs)"

definition ramfs_dir_lookup :: "nat \<Rightarrow> string \<Rightarrow> vfs \<Rightarrow> nat result \<times> vfs" where
  "ramfs_dir_lookup d name s = (case child_of name (children (v_data (vn s d))) of
     Some v \<Rightarrow> (Inr v, vnode_ref v s)
   | None \<Rightarrow> (Inl ENOENT, s))"

text \<open>The index is compared as a signed number; a negative one reads outside the array, the flag says.\<close>

definition ramfs_dir_readdir :: "nat \<Rightarrow> u64 \<Rightarrow> vfs \<Rightarrow> (u64 \<times> vnode_type \<times> string) result \<times> vfs" where
  "ramfs_dir_readdir d index s =
    (let cs = children (v_data (vn s d)) in
     if sint index \<ge> int (length cs) then (Inl ENOENT, s)
     else if unat index \<ge> length cs then (Inl EIO, s\<lparr>wild := True\<rparr>)
     else case cs ! unat index of (name, v) \<Rightarrow> (Inr (v_ino (vn s v), v_type (vn s v), take 255 name), s))"

definition set_children :: "nat \<Rightarrow> (string \<times> nat) list \<Rightarrow> vfs \<Rightarrow> vfs" where
  "set_children d cs s = upd_vnode d (\<lambda>n. n\<lparr>v_data := (v_data n)\<lparr>children := cs\<rparr>, v_size := of_nat (length cs)\<rparr>) s"

definition ramfs_dir_add_child :: "nat \<Rightarrow> string \<Rightarrow> nat \<Rightarrow> vfs \<Rightarrow> unit result \<times> vfs" where
  "ramfs_dir_add_child d name child s =
    (case (if length (children (v_data (vn s d))) \<ge> child_cap (v_data (vn s d)) then ramfs_dir_grow d s else (Inr (), s)) of
       (Inl r, s) \<Rightarrow> (Inl r, s)
     | (Inr _, s) \<Rightarrow>
         let (ok, s) = kmalloc s in
         if \<not> ok then (Inl ENOMEM, s)
         else (Inr (), vnode_ref child (set_children d (children (v_data (vn s d)) @ [(name, child)]) s)))"

text \<open>A new vnode with its node: both cleared, then the fields that are set.\<close>

definition new_vnode :: "vnode_type \<Rightarrow> u32 \<Rightarrow> vfs \<Rightarrow> vnode" where
  "new_vnode ty mode s = \<lparr>v_type = ty, v_mode = mode, v_uid = 0, v_gid = 0, v_size = 0, v_ino = g_next_ino s,
     v_atime = clock s, v_mtime = clock s, v_ctime = clock s, v_ops = Ops_null,
     v_data = \<lparr>chunks = [], chunk_cap = 0, children = [], child_cap = 0, link_target = None, rn_ino = g_next_ino s\<rparr>,
     v_ref = 0, v_mounted = None, v_rdev = 0, v_live = True\<rparr>"

definition ramfs_alloc_vnode :: "vnode_type \<Rightarrow> u32 \<Rightarrow> vfs \<Rightarrow> nat option \<times> vfs" where
  "ramfs_alloc_vnode ty mode s =
    (let (ok, s) = kmalloc s in if \<not> ok then (None, s)
     else let (ok, s) = kmalloc s in if \<not> ok then (None, s)
     else (Some (length (vnodes s)), s\<lparr>vnodes := vnodes s @ [new_vnode ty mode s], g_next_ino := g_next_ino s + 1\<rparr>))"

definition kfree_vnode :: "nat \<Rightarrow> vfs \<Rightarrow> vfs" where
  "kfree_vnode v s = upd_vnode v (\<lambda>n. n\<lparr>v_live := False\<rparr>) s"

definition ramfs_dir_mkdir :: "nat \<Rightarrow> string \<Rightarrow> u32 \<Rightarrow> vfs \<Rightarrow> unit result \<times> vfs" where
  "ramfs_dir_mkdir d name mode s = (case ramfs_dir_lookup d name s of
     (Inr existing, s) \<Rightarrow> (Inl EEXIST, vnode_unref existing s)
   | (Inl _, s) \<Rightarrow>
       (case ramfs_alloc_vnode VFS_NODE_DIR (if mode \<noteq> 0 then mode else 0x1ED) s of
          (None, s) \<Rightarrow> (Inl ENOMEM, s)
        | (Some child, s) \<Rightarrow>
            let s = upd_vnode child (\<lambda>n. n\<lparr>v_ops := Ramfs_dir_ops, v_ref := 1\<rparr>) s in
            (case ramfs_dir_add_child d name child s of
               (Inl r, s) \<Rightarrow> (Inl r, kfree_vnode child s)
             | (Inr _, s) \<Rightarrow> (Inr (), vnode_unref child s))))"

definition ramfs_dir_create :: "nat \<Rightarrow> string \<Rightarrow> u32 \<Rightarrow> vfs \<Rightarrow> nat result \<times> vfs" where
  "ramfs_dir_create d name mode s = (case ramfs_dir_lookup d name s of
     (Inr existing, s) \<Rightarrow> (Inr existing, s)
   | (Inl _, s) \<Rightarrow>
       (case ramfs_alloc_vnode VFS_NODE_FILE (if mode \<noteq> 0 then mode else 0x1A4) s of
          (None, s) \<Rightarrow> (Inl ENOMEM, s)
        | (Some child, s) \<Rightarrow>
            let s = upd_vnode child (\<lambda>n. n\<lparr>v_ops := Ramfs_file_ops, v_ref := 1\<rparr>) s in
            (case ramfs_dir_add_child d name child s of
               (Inl r, s) \<Rightarrow> (Inl r, kfree_vnode child s)
             | (Inr _, s) \<Rightarrow> (Inr child, s))))"

text \<open>The reference of the entry is dropped first, then the entries behind it move down.\<close>

definition ramfs_dir_unlink :: "nat \<Rightarrow> string \<Rightarrow> vfs \<Rightarrow> unit result \<times> vfs" where
  "ramfs_dir_unlink d name s =
    (let cs = children (v_data (vn s d)) in
     case find_slot (\<lambda>c. fst c = name) cs of
       None \<Rightarrow> (Inl ENOENT, s)
     | Some i \<Rightarrow> (Inr (), set_children d (take i cs @ drop (Suc i) cs) (vnode_unref (snd (cs ! i)) s)))"

definition ramfs_readlink :: "nat \<Rightarrow> nat \<Rightarrow> vfs \<Rightarrow> string result" where
  "ramfs_readlink v bufsiz s = (case link_target (v_data (vn s v)) of
     None \<Rightarrow> Inl EINVAL
   | Some t \<Rightarrow> Inr (take bufsiz t))"

definition ramfs_dir_symlink :: "nat \<Rightarrow> string \<Rightarrow> string \<Rightarrow> vfs \<Rightarrow> unit result \<times> vfs" where
  "ramfs_dir_symlink d name target s = (case ramfs_dir_lookup d name s of
     (Inr existing, s) \<Rightarrow> (Inl EEXIST, vnode_unref existing s)
   | (Inl _, s) \<Rightarrow>
       (case ramfs_alloc_vnode VFS_NODE_SYMLINK 0x1FF s of
          (None, s) \<Rightarrow> (Inl ENOMEM, s)
        | (Some child, s) \<Rightarrow>
            let (ok, s) = kmalloc s in
            if \<not> ok then (Inl ENOMEM, kfree_vnode child s)
            else
              let s = upd_vnode child (\<lambda>n. n\<lparr>v_data := (v_data n)\<lparr>link_target := Some target\<rparr>, v_ops := Ramfs_symlink_ops,
                        v_size := of_nat (length target), v_ref := 1\<rparr>) s in
              (case ramfs_dir_add_child d name child s of
                 (Inl r, s) \<Rightarrow> (Inl r, kfree_vnode child s)
               | (Inr _, s) \<Rightarrow> (Inr (), vnode_unref child s))))"

definition ramfs_create_root :: "vfs \<Rightarrow> nat option \<times> vfs" where
  "ramfs_create_root s = (case ramfs_alloc_vnode VFS_NODE_DIR 0x1ED s of
     (None, s) \<Rightarrow> (None, s)
   | (Some root, s) \<Rightarrow> (Some root, upd_vnode root (\<lambda>n. n\<lparr>v_ops := Ramfs_dir_ops, v_ref := 1\<rparr>) s))"

end
