(* ===== verification/Vfs.thy ===== *)
theory Vfs
  imports Ramfs
begin

text \<open>
  Mounts and paths, \<open>kernel/src/fs/vfs.c\<close>: the table of mounts, the choice of the mount a path belongs to
  and the walk along a path that follows symbolic links. The operations a vnode offers are looked up in its
  table; the only tables are those of the file system in memory.
\<close>

section \<open>Mounts\<close>

definition VFS_MAX_PATH :: nat where "VFS_MAX_PATH = 512"
definition VFS_MAX_NAME :: nat where "VFS_MAX_NAME = 256"
definition VFS_MAX_MOUNTS :: nat where "VFS_MAX_MOUNTS = 16"
definition VFS_SYMLINK_MAX :: nat where "VFS_SYMLINK_MAX = 8"

abbreviation sep :: char where "sep \<equiv> CHR ''/''"

definition no_mount :: vfs_mount where
  "no_mount = \<lparr>m_path = [], m_device = [], m_fstype = [], m_root = 0, m_used = False, m_priv = None, m_unmount = False, m_sync = False\<rparr>"

definition mounts_init :: "vfs \<Rightarrow> vfs" where
  "mounts_init s = s\<lparr>g_mounts := replicate VFS_MAX_MOUNTS no_mount, g_vfs_ready := True\<rparr>"

definition upd_mount :: "nat \<Rightarrow> (vfs_mount \<Rightarrow> vfs_mount) \<Rightarrow> vfs \<Rightarrow> vfs" where
  "upd_mount i g s = s\<lparr>g_mounts := (g_mounts s)[i := g (g_mounts s ! i)]\<rparr>"

definition mount_at :: "string \<Rightarrow> vfs \<Rightarrow> nat option" where
  "mount_at path s = find_slot (\<lambda>m. m_used m \<and> m_path m = path) (g_mounts s)"

definition vfs_mount :: "string \<Rightarrow> nat \<Rightarrow> vfs \<Rightarrow> unit result \<times> vfs" where
  "vfs_mount path fs_root s =
    (if mount_at path s \<noteq> None then (Inl EBUSY, s)
     else case (if path = [sep] then Some 0 else map_option Suc (find_slot (\<lambda>m. \<not> m_used m) (tl (g_mounts s)))) of
       None \<Rightarrow> (Inl ENOMEM, s)
     | Some slot \<Rightarrow>
         (Inr (), vnode_ref fs_root (upd_mount slot (\<lambda>m. m\<lparr>m_path := take (VFS_MAX_PATH - 1) path, m_root := fs_root, m_used := True,
            m_priv := None, m_unmount := False\<rparr>) s)))"

definition vfs_mount_fs :: "string \<Rightarrow> nat \<Rightarrow> nat option \<Rightarrow> bool \<Rightarrow> bool \<Rightarrow> vfs \<Rightarrow> unit result \<times> vfs" where
  "vfs_mount_fs path fs_root fs_priv unmount_fn sync_fn s = (case vfs_mount path fs_root s of
     (Inl r, s) \<Rightarrow> (Inl r, s)
   | (Inr _, s) \<Rightarrow> (Inr (), case mount_at path s of
       None \<Rightarrow> s
     | Some i \<Rightarrow> upd_mount i (\<lambda>m. m\<lparr>m_priv := fs_priv, m_unmount := unmount_fn, m_sync := sync_fn\<rparr>) s))"

definition vfs_sync_all :: "vfs \<Rightarrow> vfs" where
  "vfs_sync_all s = s\<lparr>fs_calls := fs_calls s @
     concat (map (\<lambda>m. case m_priv m of Some p \<Rightarrow> if m_used m \<and> m_sync m then [Call_sync p] else [] | None \<Rightarrow> []) (g_mounts s))\<rparr>"

definition vfs_umount :: "string \<Rightarrow> vfs \<Rightarrow> unit result \<times> vfs" where
  "vfs_umount path s = (case mount_at path s of
     None \<Rightarrow> (Inl ENOENT, s)
   | Some i \<Rightarrow>
       let m = g_mounts s ! i;
           s = (case m_priv m of Some p \<Rightarrow> if m_unmount m then s\<lparr>fs_calls := fs_calls s @ [Call_unmount p]\<rparr> else s | None \<Rightarrow> s)
       in (Inr (), upd_mount i (\<lambda>_. no_mount) (vnode_unref (m_root m) s)))"

text \<open>The best mount so far, with the length of its path.\<close>

definition mount_matches :: "string \<Rightarrow> vfs_mount \<Rightarrow> bool" where
  "mount_matches path m \<longleftrightarrow> m_used m \<and> (let mlen = length (m_path m) in
     take mlen path = m_path m \<and> (length path = mlen \<or> (mlen < length path \<and> path ! mlen = sep) \<or> mlen = 1))"

fun find_mount_loop :: "string \<Rightarrow> vfs_mount list \<Rightarrow> nat \<Rightarrow> nat option \<Rightarrow> nat \<Rightarrow> nat option \<times> nat" where
  "find_mount_loop path [] i best best_len = (best, best_len)"
| "find_mount_loop path (m # ms) i best best_len =
    (if mount_matches path m \<and> length (m_path m) > best_len
     then find_mount_loop path ms (Suc i) (Some i) (length (m_path m))
     else find_mount_loop path ms (Suc i) best best_len)"

definition find_mount :: "string \<Rightarrow> vfs \<Rightarrow> (nat \<times> string) option" where
  "find_mount path s = (case find_mount_loop path (g_mounts s) 0 None 0 of
     (None, _) \<Rightarrow> None
   | (Some i, best_len) \<Rightarrow> Some (i, dropWhile (\<lambda>c. c = sep) (drop best_len path)))"

definition vfs_set_mount_info :: "string \<Rightarrow> string option \<Rightarrow> string option \<Rightarrow> vfs \<Rightarrow> unit result \<times> vfs" where
  "vfs_set_mount_info path device fstype s = (case mount_at path s of
     None \<Rightarrow> (Inl ENOENT, s)
   | Some i \<Rightarrow> (Inr (), upd_mount i (\<lambda>m. m\<lparr>
       m_device := (case device of Some d \<Rightarrow> take 31 d | None \<Rightarrow> m_device m),
       m_fstype := (case fstype of Some t \<Rightarrow> take 15 t | None \<Rightarrow> m_fstype m)\<rparr>) s))"

definition vfs_list_mounts :: "nat \<Rightarrow> vfs \<Rightarrow> (string \<times> string \<times> string) list" where
  "vfs_list_mounts max_n s = take max_n (map (\<lambda>m. (m_path m, m_device m, m_fstype m)) (filter m_used (g_mounts s)))"

text \<open>
  The block size and the longest name; the answers of the disk file systems, which the code asks for
  their own types, are arguments.
\<close>

definition vfs_statvfs :: "(nat \<Rightarrow> (nat \<times> nat) result) \<Rightarrow> (nat \<Rightarrow> (nat \<times> nat) result) \<Rightarrow> string \<Rightarrow> vfs \<Rightarrow> (nat \<times> nat) result" where
  "vfs_statvfs ext2_statvfs fat32_statvfs path s = (case find_mount_loop path (g_mounts s) 0 None 0 of
     (None, _) \<Rightarrow> Inl ENOENT
   | (Some i, _) \<Rightarrow>
       let m = g_mounts s ! i in
       if m_fstype m = ''ext2'' then ext2_statvfs (m_root m)
       else if m_fstype m = ''fat32'' then fat32_statvfs (m_root m)
       else Inr (4096, 255))"

section \<open>Paths\<close>

text \<open>The next component, at most 255 characters of it, and what follows.\<close>

definition path_next_component :: "string \<Rightarrow> string \<times> string" where
  "path_next_component src =
    (let src = dropWhile (\<lambda>c. c = sep) src;
         dst = take (VFS_MAX_NAME - 1) (takeWhile (\<lambda>c. c \<noteq> sep) src)
     in (dst, drop (length dst) src))"

lemma path_next_shorter:
  "path_next_component p = (nm, q) \<Longrightarrow> p \<noteq> [] \<Longrightarrow> length q < length p"
proof -
  assume nxt: "path_next_component p = (nm, q)" and "p \<noteq> []"
  let ?r = "dropWhile (\<lambda>c. c = sep) p"
  have le: "length ?r \<le> length p" by (rule length_dropWhile_le)
  have q: "q = drop (length (take 255 (takeWhile (\<lambda>c. c \<noteq> sep) ?r))) ?r"
    using nxt by (auto simp: path_next_component_def VFS_MAX_NAME_def Let_def)
  show "length q < length p"
  proof (cases "?r = []")
    case True
    with q \<open>p \<noteq> []\<close> show ?thesis by simp
  next
    case False
    then have "hd ?r \<noteq> sep" by (rule hd_dropWhile)
    with False have "takeWhile (\<lambda>c. c \<noteq> sep) ?r \<noteq> []" by (cases ?r) auto
    with q False have "length q < length ?r" by (cases "takeWhile (\<lambda>c. c \<noteq> sep) ?r") simp_all
    with le show ?thesis by simp
  qed
qed

text \<open>
  Where the walk along an absolute path starts: the tests of \<open>lookup_path\<close> up to the walk. The depth counts
  the symbolic links followed so far.
\<close>

definition lookup_start :: "string \<Rightarrow> nat \<Rightarrow> vfs \<Rightarrow> (nat \<times> string) result" where
  "lookup_start path depth s =
    (if \<not> g_vfs_ready s then Inl EIO
     else if path = [] \<or> hd path \<noteq> sep then Inl EINVAL
     else if depth \<ge> VFS_SYMLINK_MAX then Inl ELOOP
     else case find_mount path s of
       None \<Rightarrow> Inl ENOENT
     | Some (i, rel) \<Rightarrow> Inr (m_root (g_mounts s ! i), rel))"

text \<open>
  The body of the loop of \<open>walk_from\<close> for one component: the entry is looked up, a symbolic link is followed
  and the reference on \<open>cur\<close>, which the loop holds, passes to the result. \<open>link\<close> is the call that resolves the
  target of a link one level deeper.
\<close>

type_synonym link_fun = "nat \<Rightarrow> string \<Rightarrow> bool \<Rightarrow> vfs \<Rightarrow> nat result \<times> vfs"

definition follow_link :: "link_fun \<Rightarrow> nat \<Rightarrow> nat \<Rightarrow> nat \<Rightarrow> bool \<Rightarrow> vfs \<Rightarrow> nat result \<times> vfs" where
  "follow_link link depth cur nxt follow s =
    (if depth \<ge> VFS_SYMLINK_MAX then (Inl ELOOP, vnode_unref nxt s)
     else if v_ops (vn s nxt) \<noteq> Ramfs_symlink_ops then (Inl EIO, vnode_unref nxt s)
     else case ramfs_readlink nxt (VFS_MAX_PATH - 1) s of
       Inl r \<Rightarrow> (Inl r, vnode_unref nxt s)
     | Inr target \<Rightarrow> link cur target follow (vnode_unref nxt s))"

definition enter_mount :: "nat \<Rightarrow> vfs \<Rightarrow> nat \<times> vfs" where
  "enter_mount cur s = (case v_mounted (vn s cur) of
     None \<Rightarrow> (cur, s)
   | Some m \<Rightarrow> let mroot = m_root (g_mounts s ! m) in (mroot, vnode_unref cur (vnode_ref mroot s)))"

definition walk_step :: "link_fun \<Rightarrow> nat \<Rightarrow> nat \<Rightarrow> string \<Rightarrow> bool \<Rightarrow> bool \<Rightarrow> vfs \<Rightarrow> nat result \<times> vfs" where
  "walk_step link depth cur nm is_last follow_final s =
    (if v_type (vn s cur) \<noteq> VFS_NODE_DIR then (Inl ENOTDIR, vnode_unref cur s)
     else if v_ops (vn s cur) \<noteq> Ramfs_dir_ops then (Inl EIO, vnode_unref cur s)
     else case ramfs_dir_lookup cur nm s of
       (Inl r, s) \<Rightarrow> (Inl r, vnode_unref cur s)
     | (Inr nxt, s) \<Rightarrow>
         (case (if v_type (vn s nxt) = VFS_NODE_SYMLINK \<and> (\<not> is_last \<or> follow_final)
                then follow_link link depth cur nxt (if is_last then follow_final else True) s
                else (Inr nxt, s)) of
            (Inl r, s) \<Rightarrow> (Inl r, vnode_unref cur s)
          | (Inr nxt, s) \<Rightarrow> (case enter_mount nxt (vnode_unref cur s) of (cur, s) \<Rightarrow> (Inr cur, s))))"

function walk_loop :: "link_fun \<Rightarrow> nat \<Rightarrow> nat \<Rightarrow> string \<Rightarrow> bool \<Rightarrow> vfs \<Rightarrow> nat result \<times> vfs" where
  "walk_loop link depth cur p follow_final s =
    (if p = [] then (Inr cur, s)
     else case path_next_component p of (nm, p1) \<Rightarrow>
       if nm = [] then walk_loop link depth cur p1 follow_final s
       else let p2 = dropWhile (\<lambda>c. c = sep) p1 in
         case walk_step link depth cur nm (p2 = []) follow_final s of
           (Inl r, s) \<Rightarrow> (Inl r, s)
         | (Inr cur, s) \<Rightarrow> walk_loop link depth cur p2 follow_final s)"
  by pat_completeness auto
termination
  by (relation "measure (\<lambda>(link, depth, cur, p, f, s). length p)")
    (auto dest: path_next_shorter [OF sym] intro: le_less_trans [OF length_dropWhile_le])

declare walk_loop.simps [simp del]

text \<open>
  \<open>walk_from\<close> and \<open>lookup_path\<close> call each other with the depth one more. The recursion is on the number of
  links that may still be followed, \<open>VFS_SYMLINK_MAX - depth\<close>.
\<close>

definition resolve_link :: "(nat \<Rightarrow> string \<Rightarrow> bool \<Rightarrow> vfs \<Rightarrow> nat result \<times> vfs) \<Rightarrow> nat \<Rightarrow> link_fun" where
  "resolve_link walk depth cur target follow s =
    (if target \<noteq> [] \<and> hd target = sep then
       case lookup_start target depth s of
         Inl r \<Rightarrow> (Inl r, s)
       | Inr (root, rel) \<Rightarrow> if rel = [] then (Inr root, vnode_ref root s) else walk root rel follow s
     else walk cur target follow s)"

fun walk_levels :: "nat \<Rightarrow> nat \<Rightarrow> string \<Rightarrow> bool \<Rightarrow> vfs \<Rightarrow> nat result \<times> vfs" where
  "walk_levels 0 dir rel follow_final s =
     walk_loop (\<lambda>_ _ _ s. (Inl ELOOP, s)) VFS_SYMLINK_MAX dir rel follow_final (vnode_ref dir s)"
| "walk_levels (Suc k) dir rel follow_final s =
     walk_loop (resolve_link (walk_levels k) (VFS_SYMLINK_MAX - k)) (VFS_SYMLINK_MAX - Suc k) dir rel follow_final (vnode_ref dir s)"

definition walk_from :: "nat \<Rightarrow> string \<Rightarrow> bool \<Rightarrow> nat \<Rightarrow> vfs \<Rightarrow> nat result \<times> vfs" where
  "walk_from dir rel follow_final depth s = walk_levels (VFS_SYMLINK_MAX - depth) dir rel follow_final s"

definition lookup_path :: "string \<Rightarrow> bool \<Rightarrow> nat \<Rightarrow> vfs \<Rightarrow> nat result \<times> vfs" where
  "lookup_path path follow_final depth s = (case lookup_start path depth s of
     Inl r \<Rightarrow> (Inl r, s)
   | Inr (root, rel) \<Rightarrow> if rel = [] then (Inr root, vnode_ref root s) else walk_from root rel follow_final depth s)"

text \<open>The recursion as it is written: the call for a link is \<open>lookup_path\<close> or \<open>walk_from\<close> with the depth one more.\<close>

lemma walk_from_unfold:
  assumes "depth < VFS_SYMLINK_MAX"
  shows "walk_from dir rel follow_final depth s = walk_loop (\<lambda>cur target follow s.
      if target \<noteq> [] \<and> hd target = sep then lookup_path target follow (Suc depth) s else walk_from cur target follow (Suc depth) s)
    depth dir rel follow_final (vnode_ref dir s)"
proof -
  obtain k where k: "VFS_SYMLINK_MAX - depth = Suc k" using assms by (metis Suc_diff_Suc)
  then have d: "VFS_SYMLINK_MAX - k = Suc depth" "VFS_SYMLINK_MAX - Suc k = depth" "VFS_SYMLINK_MAX - Suc depth = k"
    using assms by (auto simp: VFS_SYMLINK_MAX_def)
  have "resolve_link (walk_levels k) (Suc depth) = (\<lambda>cur target follow s.
      if target \<noteq> [] \<and> hd target = sep then lookup_path target follow (Suc depth) s else walk_from cur target follow (Suc depth) s)"
    by (intro ext) (simp add: resolve_link_def lookup_path_def walk_from_def d(3) split: sum.split prod.split)
  then show ?thesis by (simp add: walk_from_def k d)
qed

definition vfs_lookup :: "string \<Rightarrow> vfs \<Rightarrow> nat result \<times> vfs" where
  "vfs_lookup path s = lookup_path path True 0 s"

definition vfs_lookup_nofollow :: "string \<Rightarrow> vfs \<Rightarrow> nat result \<times> vfs" where
  "vfs_lookup_nofollow path s = lookup_path path False 0 s"

end
