(* ===== verification/Vfs_Ops.thy ===== *)
theory Vfs_Ops
  imports Vfs Fd Uaccess
begin

text \<open>
  The operations of \<open>kernel/src/fs/vfs.c\<close> on paths and on open files, and the system calls that remove and
  rename directory entries (\<open>kernel/src/syscall/fs/\<close>). The state joins the vnodes and mounts with the table of
  open files; a file pointer is an index into that table. \<open>io_enter\<close> and \<open>io_leave\<close>, which tell a blocking
  driver whether it may sleep, have no effect on the file system in memory and are left out.
\<close>

section \<open>State\<close>

record fsys =
  fs :: vfs
  fd :: fd_state

definition O_WRONLY :: u32 where "O_WRONLY = 1"
definition O_RDWR :: u32 where "O_RDWR = 2"
definition O_ACCMODE :: u32 where "O_ACCMODE = 3"
definition O_CREAT :: u32 where "O_CREAT = 0x40"
definition O_EXCL :: u32 where "O_EXCL = 0x80"
definition O_TRUNC :: u32 where "O_TRUNC = 0x200"
definition O_APPEND :: u32 where "O_APPEND = 0x400"

abbreviation flag :: "u32 \<Rightarrow> u32 \<Rightarrow> bool" where
  "flag flags b \<equiv> flags AND b \<noteq> 0"

definition can_write :: "u32 \<Rightarrow> bool" where
  "can_write flags \<longleftrightarrow> (let acc = flags AND O_ACCMODE in acc = O_WRONLY \<or> acc = O_RDWR)"

text \<open>A file pointer that is not null and whose file has a vnode.\<close>

definition file_vnode :: "nat option \<Rightarrow> fsys \<Rightarrow> (nat \<times> nat) option" where
  "file_vnode fp y = (case fp of
     None \<Rightarrow> None
   | Some i \<Rightarrow> map_option (\<lambda>v. (i, v)) (f_vnode (open_files (fd y) ! i)))"

abbreviation the_file :: "fsys \<Rightarrow> nat \<Rightarrow> vfs_file" where
  "the_file y i \<equiv> open_files (fd y) ! i"

definition set_offset :: "nat \<Rightarrow> u64 \<Rightarrow> fsys \<Rightarrow> fsys" where
  "set_offset i off y = y\<lparr>fd := upd_file i (\<lambda>f. f\<lparr>f_offset := off\<rparr>) (fd y)\<rparr>"

section \<open>Opening and closing\<close>

text \<open>A copy of the path is cut at its last slash; the name is at most 255 characters long.\<close>

definition split_parent :: "string \<Rightarrow> (string \<times> string) result" where
  "split_parent path =
    (let dirpath = take (VFS_MAX_PATH - 1) path;
         up = rev (dropWhile (\<lambda>c. c \<noteq> sep) (rev dirpath));
         filename = take (VFS_MAX_NAME - 1) (drop (length up) dirpath)
     in if up = [] then Inl EINVAL
        else if filename = [] then Inl EINVAL
        else Inr (if length up = 1 then take 1 dirpath else butlast up, filename))"

definition open_create :: "string \<Rightarrow> u32 \<Rightarrow> vfs \<Rightarrow> nat result \<times> vfs" where
  "open_create path mode s = (case split_parent path of
     Inl r \<Rightarrow> (Inl r, s)
   | Inr (dirpath, filename) \<Rightarrow> (case vfs_lookup dirpath s of
       (Inl r, s) \<Rightarrow> (Inl r, s)
     | (Inr dir, s) \<Rightarrow>
         if v_ops (vn s dir) \<noteq> Ramfs_dir_ops then (Inl ENOSYS, vnode_unref dir s)
         else (case ramfs_dir_create dir filename mode s of (ret, s) \<Rightarrow> (ret, vnode_unref dir s))))"

definition open_node :: "string \<Rightarrow> u32 \<Rightarrow> u32 \<Rightarrow> vfs \<Rightarrow> nat result \<times> vfs" where
  "open_node path flags mode s = (case vfs_lookup path s of
     (Inr node, s) \<Rightarrow>
       if flag flags O_CREAT \<and> flag flags O_EXCL then (Inl EEXIST, vnode_unref node s) else (Inr node, s)
   | (Inl r, s) \<Rightarrow> if r = ENOENT \<and> flag flags O_CREAT then open_create path mode s else (Inl r, s))"

definition trunc_node :: "nat \<Rightarrow> vfs \<Rightarrow> vfs" where
  "trunc_node v s =
    (if v_ops (vn s v) = Ramfs_file_ops then ramfs_file_truncate v 0 s else upd_vnode v (\<lambda>n. n\<lparr>v_size := 0\<rparr>) s)"

definition vfs_open :: "string \<Rightarrow> u32 \<Rightarrow> u32 \<Rightarrow> fsys \<Rightarrow> nat result \<times> fsys" where
  "vfs_open path flags mode y = (case open_node path flags mode (fs y) of
     (Inl r, s) \<Rightarrow> (Inl r, y\<lparr>fs := s\<rparr>)
   | (Inr node, s) \<Rightarrow>
       if can_write flags \<and> v_type (vn s node) = VFS_NODE_DIR then (Inl EISDIR, y\<lparr>fs := vnode_unref node s\<rparr>)
       else (case vfs_file_alloc (fd y) of
         (None, d) \<Rightarrow> (Inl ENFILE, y\<lparr>fs := vnode_unref node s, fd := d\<rparr>)
       | (Some i, d) \<Rightarrow>
           let cut = (flag flags O_TRUNC \<and> can_write flags);
               off = (if cut then 0 else if flag flags O_APPEND then v_size (vn s node) else 0)
           in (Inr i, y\<lparr>fs := if cut then trunc_node node s else s,
                fd := upd_file i (\<lambda>f. f\<lparr>f_vnode := Some node, f_flags := flags, f_offset := off\<rparr>) d\<rparr>)))"

text \<open>\<open>vfs_close\<close>: the last reference on a file drops the file's reference on its vnode.\<close>

definition vfs_close :: "nat \<Rightarrow> fsys \<Rightarrow> fsys" where
  "vfs_close i y =
    (let last = (f_refcount (the_file y i) = 1) in
     y\<lparr>fs := (case f_vnode (the_file y i) of Some v \<Rightarrow> if last then vnode_unref v (fs y) else fs y | None \<Rightarrow> fs y),
       fd := vfs_file_free (Some i) (fd y)\<rparr>)"

section \<open>Reading and writing\<close>

definition vfs_read :: "nat option \<Rightarrow> nat \<Rightarrow> fsys \<Rightarrow> u8 list result \<times> fsys" where
  "vfs_read fp len y = (case file_vnode fp y of
     None \<Rightarrow> (Inl EBADF, y)
   | Some (i, v) \<Rightarrow>
       if len = 0 then (Inr [], y)
       else if f_flags (the_file y i) AND O_ACCMODE = O_WRONLY then (Inl EBADF, y)
       else if v_ops (vn (fs y) v) \<noteq> Ramfs_file_ops then (Inl EIO, y)
       else let bs = ramfs_file_read v len (f_offset (the_file y i)) (fs y) in
         (Inr bs, if bs \<noteq> [] then set_offset i (f_offset (the_file y i) + of_nat (length bs)) y else y))"

definition vfs_write :: "nat option \<Rightarrow> u8 list \<Rightarrow> fsys \<Rightarrow> nat result \<times> fsys" where
  "vfs_write fp buf y = (case file_vnode fp y of
     None \<Rightarrow> (Inl EBADF, y)
   | Some (i, v) \<Rightarrow>
       if buf = [] then (Inr 0, y)
       else if f_flags (the_file y i) AND O_ACCMODE = 0 then (Inl EBADF, y)
       else if v_ops (vn (fs y) v) \<noteq> Ramfs_file_ops then (Inl EIO, y)
       else
         let off = (if flag (f_flags (the_file y i)) O_APPEND then v_size (vn (fs y) v) else f_offset (the_file y i));
             y = set_offset i off y
         in (case ramfs_file_write v buf off (fs y) of
               (Inl r, s) \<Rightarrow> (Inl r, y\<lparr>fs := s\<rparr>)
             | (Inr n, s) \<Rightarrow> (Inr n, (if n > 0 then set_offset i (off + of_nat n) y else y)\<lparr>fs := s\<rparr>)))"

definition vfs_pread :: "nat option \<Rightarrow> nat \<Rightarrow> u64 \<Rightarrow> fsys \<Rightarrow> u8 list result" where
  "vfs_pread fp len offset y = (case file_vnode fp y of
     None \<Rightarrow> Inl EBADF
   | Some (i, v) \<Rightarrow>
       if len = 0 then Inr []
       else if f_flags (the_file y i) AND O_ACCMODE = O_WRONLY then Inl EBADF
       else if v_type (vn (fs y) v) = VFS_NODE_CHARDEV \<or> v_type (vn (fs y) v) = VFS_NODE_PIPE then Inl ESPIPE
       else if v_ops (vn (fs y) v) \<noteq> Ramfs_file_ops then Inl EIO
       else Inr (ramfs_file_read v len offset (fs y)))"

definition vfs_pwrite :: "nat option \<Rightarrow> u8 list \<Rightarrow> u64 \<Rightarrow> fsys \<Rightarrow> nat result \<times> fsys" where
  "vfs_pwrite fp buf offset y = (case file_vnode fp y of
     None \<Rightarrow> (Inl EBADF, y)
   | Some (i, v) \<Rightarrow>
       if buf = [] then (Inr 0, y)
       else if f_flags (the_file y i) AND O_ACCMODE = 0 then (Inl EBADF, y)
       else if v_type (vn (fs y) v) = VFS_NODE_CHARDEV \<or> v_type (vn (fs y) v) = VFS_NODE_PIPE then (Inl ESPIPE, y)
       else if v_ops (vn (fs y) v) \<noteq> Ramfs_file_ops then (Inl EIO, y)
       else (case ramfs_file_write v buf offset (fs y) of (r, s) \<Rightarrow> (r, y\<lparr>fs := s\<rparr>)))"

text \<open>The offset is a signed 64-bit number and the sum wraps around; \<open>whence\<close> is 0, 1 or 2.\<close>

definition vfs_seek :: "nat option \<Rightarrow> u64 \<Rightarrow> int \<Rightarrow> fsys \<Rightarrow> u64 result \<times> fsys" where
  "vfs_seek fp offset whence y = (case file_vnode fp y of
     None \<Rightarrow> (Inl EBADF, y)
   | Some (i, v) \<Rightarrow>
       if v_type (vn (fs y) v) = VFS_NODE_CHARDEV \<or> v_type (vn (fs y) v) = VFS_NODE_PIPE then (Inl ESPIPE, y)
       else if whence < 0 \<or> whence > 2 then (Inl EINVAL, y)
       else
         let new_off = (if whence = 0 then offset
                        else if whence = 1 then f_offset (the_file y i) + offset
                        else v_size (vn (fs y) v) + offset)
         in if sint new_off < 0 then (Inl EINVAL, y) else (Inr new_off, set_offset i new_off y))"

section \<open>Attributes\<close>

primrec mode_type_bits :: "vnode_type \<Rightarrow> u32" where
  "mode_type_bits VFS_NODE_FILE = 0x8000"
| "mode_type_bits VFS_NODE_DIR = 0x4000"
| "mode_type_bits VFS_NODE_CHARDEV = 0x2000"
| "mode_type_bits VFS_NODE_BLKDEV = 0x6000"
| "mode_type_bits VFS_NODE_SYMLINK = 0xA000"
| "mode_type_bits VFS_NODE_PIPE = 0x1000"

definition stat_apply_type_bits :: "vfs_stat_t \<Rightarrow> vfs_stat_t" where
  "stat_apply_type_bits st =
    (let st = (if vs_mode st AND 0xF000 = 0 then st\<lparr>vs_mode := vs_mode st OR mode_type_bits (vs_type st)\<rparr> else st);
         st = (if vs_nlink st = 0 then st\<lparr>vs_nlink := if vs_type st = VFS_NODE_DIR then 2 else 1\<rparr> else st)
     in if vs_blksize st = 0 then st\<lparr>vs_blksize := 512\<rparr> else st)"

definition stat_node :: "vnode \<Rightarrow> vfs_stat_t" where
  "stat_node n =
    (let st = (if v_ops n \<noteq> Ops_null then ramfs_stat n
               else \<lparr>vs_ino = v_ino n, vs_type = v_type n, vs_mode = v_mode n, vs_uid = v_uid n, vs_gid = v_gid n,
                 vs_size = v_size n, vs_blocks = 0, vs_atime = 0, vs_mtime = 0, vs_ctime = 0, vs_nlink = 0, vs_dev = 0,
                 vs_blksize = 0, vs_rdev = 0\<rparr>);
         st = stat_apply_type_bits st
     in if v_type n = VFS_NODE_CHARDEV \<or> v_type n = VFS_NODE_BLKDEV then st\<lparr>vs_rdev := v_rdev n\<rparr> else st)"

definition vfs_stat :: "string \<Rightarrow> vfs \<Rightarrow> vfs_stat_t result \<times> vfs" where
  "vfs_stat path s = (case vfs_lookup path s of
     (Inl r, s) \<Rightarrow> (Inl r, s)
   | (Inr node, s) \<Rightarrow> (Inr (stat_node (vn s node)), vnode_unref node s))"

definition vfs_lstat :: "string \<Rightarrow> vfs \<Rightarrow> vfs_stat_t result \<times> vfs" where
  "vfs_lstat path s = (case vfs_lookup_nofollow path s of
     (Inl r, s) \<Rightarrow> (Inl r, s)
   | (Inr node, s) \<Rightarrow> (Inr (stat_node (vn s node)), vnode_unref node s))"

definition vfs_fstat :: "nat option \<Rightarrow> fsys \<Rightarrow> vfs_stat_t result" where
  "vfs_fstat fp y = (case file_vnode fp y of None \<Rightarrow> Inl EBADF | Some (i, v) \<Rightarrow> Inr (stat_node (vn (fs y) v)))"

text \<open>None of the tables has an \<open>ioctl\<close>.\<close>

definition vfs_ioctl :: "nat option \<Rightarrow> u64 \<Rightarrow> fsys \<Rightarrow> u64 result" where
  "vfs_ioctl fp req y = (case file_vnode fp y of None \<Rightarrow> Inl EBADF | Some _ \<Rightarrow> Inl ENOTTY)"

definition truncate_node :: "nat \<Rightarrow> u64 \<Rightarrow> vfs \<Rightarrow> unit result \<times> vfs" where
  "truncate_node v new_size s =
    (if v_type (vn s v) = VFS_NODE_DIR then (Inl EISDIR, s)
     else if v_ops (vn s v) \<noteq> Ramfs_file_ops then (Inl EINVAL, s)
     else (Inr (), upd_vnode v (\<lambda>n. n\<lparr>v_size := new_size\<rparr>) (ramfs_file_truncate v new_size s)))"

definition vfs_ftruncate :: "nat option \<Rightarrow> u64 \<Rightarrow> fsys \<Rightarrow> unit result \<times> fsys" where
  "vfs_ftruncate fp new_size y = (case file_vnode fp y of
     None \<Rightarrow> (Inl EBADF, y)
   | Some (i, v) \<Rightarrow> (case truncate_node v new_size (fs y) of (r, s) \<Rightarrow> (r, y\<lparr>fs := s\<rparr>)))"

definition vfs_truncate :: "string \<Rightarrow> u64 \<Rightarrow> vfs \<Rightarrow> unit result \<times> vfs" where
  "vfs_truncate path new_size s = (case vfs_lookup path s of
     (Inl r, s) \<Rightarrow> (Inl r, s)
   | (Inr node, s) \<Rightarrow> (case truncate_node node new_size s of (r, s) \<Rightarrow> (r, vnode_unref node s)))"

definition chmod_node :: "u32 \<Rightarrow> vnode \<Rightarrow> vnode" where
  "chmod_node mode n = n\<lparr>v_mode := (v_mode n AND NOT 0xFFF) OR (mode AND 0xFFF)\<rparr>"

definition chown_node :: "u32 \<Rightarrow> u32 \<Rightarrow> vnode \<Rightarrow> vnode" where
  "chown_node uid gid n = n\<lparr>v_uid := if uid \<noteq> 0xFFFFFFFF then uid else v_uid n, v_gid := if gid \<noteq> 0xFFFFFFFF then gid else v_gid n\<rparr>"

definition time_node :: "int \<Rightarrow> int \<Rightarrow> vnode \<Rightarrow> vnode" where
  "time_node atime mtime n = n\<lparr>v_atime := if atime > 0 then atime else v_atime n,
     v_mtime := if mtime > 0 then mtime else v_mtime n, v_ctime := if mtime > 0 then mtime else v_ctime n\<rparr>"

text \<open>\<open>vfs_chmod\<close>, \<open>vfs_chown\<close> and \<open>vfs_set_times\<close> look a path up, change the vnode and drop the reference.\<close>

definition on_path :: "(vnode \<Rightarrow> vnode) \<Rightarrow> string \<Rightarrow> vfs \<Rightarrow> unit result \<times> vfs" where
  "on_path g path s = (case vfs_lookup path s of
     (Inl r, s) \<Rightarrow> (Inl r, s)
   | (Inr node, s) \<Rightarrow> (Inr (), vnode_unref node (upd_vnode node g s)))"

definition vfs_chmod :: "string \<Rightarrow> u32 \<Rightarrow> vfs \<Rightarrow> unit result \<times> vfs" where
  "vfs_chmod path mode s = on_path (chmod_node mode) path s"

definition vfs_chown :: "string \<Rightarrow> u32 \<Rightarrow> u32 \<Rightarrow> vfs \<Rightarrow> unit result \<times> vfs" where
  "vfs_chown path uid gid s = on_path (chown_node uid gid) path s"

definition vfs_set_times :: "string \<Rightarrow> int \<Rightarrow> int \<Rightarrow> vfs \<Rightarrow> unit result \<times> vfs" where
  "vfs_set_times path atime mtime s = on_path (time_node atime mtime) path s"

definition vfs_fchmod :: "nat option \<Rightarrow> u32 \<Rightarrow> fsys \<Rightarrow> unit result \<times> fsys" where
  "vfs_fchmod fp mode y = (case file_vnode fp y of
     None \<Rightarrow> (Inl EINVAL, y)
   | Some (i, v) \<Rightarrow> (Inr (), y\<lparr>fs := upd_vnode v (chmod_node mode) (fs y)\<rparr>))"

definition vfs_fchown :: "nat option \<Rightarrow> u32 \<Rightarrow> u32 \<Rightarrow> fsys \<Rightarrow> unit result \<times> fsys" where
  "vfs_fchown fp uid gid y = (case file_vnode fp y of
     None \<Rightarrow> (Inl EINVAL, y)
   | Some (i, v) \<Rightarrow> (Inr (), y\<lparr>fs := upd_vnode v (chown_node uid gid) (fs y)\<rparr>))"

definition vfs_fsync :: "nat option \<Rightarrow> fsys \<Rightarrow> unit result \<times> fsys" where
  "vfs_fsync fp y = (case file_vnode fp y of None \<Rightarrow> (Inl EBADF, y) | Some _ \<Rightarrow> (Inr (), y\<lparr>fs := vfs_sync_all (fs y)\<rparr>))"

section \<open>Directory entries\<close>

definition vfs_readdir :: "nat option \<Rightarrow> fsys \<Rightarrow> (u64 \<times> vnode_type \<times> string) result \<times> fsys" where
  "vfs_readdir fp y = (case file_vnode fp y of
     None \<Rightarrow> (Inl EBADF, y)
   | Some (i, v) \<Rightarrow>
       if v_type (vn (fs y) v) \<noteq> VFS_NODE_DIR then (Inl ENOTDIR, y)
       else if v_ops (vn (fs y) v) \<noteq> Ramfs_dir_ops then (Inl EIO, y)
       else (case ramfs_dir_readdir v (f_offset (the_file y i)) (fs y) of
           (Inl r, s) \<Rightarrow> (Inl r, y\<lparr>fs := s\<rparr>)
         | (Inr e, s) \<Rightarrow> (Inr e, set_offset i (f_offset (the_file y i) + 1) y)))"

text \<open>\<open>vfs_mkdir\<close> and \<open>vfs_symlink\<close> look up the parent and call its operation.\<close>

definition in_parent :: "(nat \<Rightarrow> string \<Rightarrow> vfs \<Rightarrow> unit result \<times> vfs) \<Rightarrow> string \<Rightarrow> vfs \<Rightarrow> unit result \<times> vfs" where
  "in_parent oper path s = (case split_parent path of
     Inl r \<Rightarrow> (Inl r, s)
   | Inr (dirpath, name) \<Rightarrow> (case vfs_lookup dirpath s of
       (Inl r, s) \<Rightarrow> (Inl r, s)
     | (Inr dir, s) \<Rightarrow>
         if v_ops (vn s dir) \<noteq> Ramfs_dir_ops then (Inl ENOSYS, vnode_unref dir s)
         else (case oper dir name s of (r, s) \<Rightarrow> (r, vnode_unref dir s))))"

definition vfs_mkdir :: "string \<Rightarrow> u32 \<Rightarrow> vfs \<Rightarrow> unit result \<times> vfs" where
  "vfs_mkdir path mode s = in_parent (\<lambda>d name. ramfs_dir_mkdir d name mode) path s"

definition vfs_symlink :: "string \<Rightarrow> string \<Rightarrow> vfs \<Rightarrow> unit result \<times> vfs" where
  "vfs_symlink target linkpath s = in_parent (\<lambda>d name. ramfs_dir_symlink d name target) linkpath s"

definition vfs_readlink :: "string \<Rightarrow> nat \<Rightarrow> vfs \<Rightarrow> string result \<times> vfs" where
  "vfs_readlink path bufsiz s =
    (if bufsiz = 0 then (Inl EINVAL, s)
     else case vfs_lookup_nofollow path s of
       (Inl r, s) \<Rightarrow> (Inl r, s)
     | (Inr node, s) \<Rightarrow>
         if v_type (vn s node) \<noteq> VFS_NODE_SYMLINK then (Inl EINVAL, vnode_unref node s)
         else if v_ops (vn s node) \<noteq> Ramfs_symlink_ops then (Inl ENOSYS, vnode_unref node s)
         else (ramfs_readlink node bufsiz s, vnode_unref node s))"

text \<open>The names up to the first failing index; an entry with an empty name does not count.\<close>

definition dir_is_empty :: "nat \<Rightarrow> vfs \<Rightarrow> bool" where
  "dir_is_empty d s \<longleftrightarrow> v_ops (vn s d) \<noteq> Ramfs_dir_ops \<or>
     (\<forall>c \<in> set (children (v_data (vn s d))). take 255 (fst c) \<in> {''.'', ''..'', []})"

definition check_target :: "string \<Rightarrow> bool \<Rightarrow> vfs \<Rightarrow> unit result \<times> vfs" where
  "check_target path want_dir s = (case vfs_lookup_nofollow path s of
     (Inl r, s) \<Rightarrow> (Inl r, s)
   | (Inr node, s) \<Rightarrow>
       let is_dir = (v_type (vn s node) = VFS_NODE_DIR);
           r = (if want_dir \<and> \<not> is_dir then Inl ENOTDIR
                else if \<not> want_dir \<and> is_dir then Inl EISDIR
                else if want_dir \<and> \<not> dir_is_empty node s then Inl ENOTEMPTY else Inr ())
       in (r, vnode_unref node s))"

text \<open>The answers the permission checks of \<open>helpers.c\<close> receive.\<close>

definition perm_view :: "(vfs_stat_t result \<times> vfs) \<Rightarrow> vstat option" where
  "perm_view r = (case fst r of Inl _ \<Rightarrow> None | Inr st \<Rightarrow> Some \<lparr>st_mode = vs_mode st, st_uid = vs_uid st, st_gid = vs_gid st\<rparr>)"

abbreviation stat_view :: "vfs \<Rightarrow> string \<Rightarrow> vstat option" where
  "stat_view s \<equiv> \<lambda>p. perm_view (vfs_stat p s)"

abbreviation lstat_view :: "vfs \<Rightarrow> string \<Rightarrow> vstat option" where
  "lstat_view s \<equiv> \<lambda>p. perm_view (vfs_lstat p s)"

text \<open>
  \<open>unlink\<close> and \<open>rmdir\<close> from the resolved path on. The copy of the path has room for 512 characters but only
  255 are copied, and a longer path leaves it without a terminating zero.
\<close>

definition remove_entry :: "caller option \<Rightarrow> string \<Rightarrow> bool \<Rightarrow> vfs \<Rightarrow> unit result \<times> vfs" where
  "remove_entry cur path want_dir s = (case check_target path want_dir s of
     (Inl r, s) \<Rightarrow> (Inl r, s)
   | (Inr _, s) \<Rightarrow>
       (case syscall_perm_parent (stat_view s) cur path 2 of Inl r \<Rightarrow> (Inl r, s) | Inr _ \<Rightarrow>
       (case syscall_perm_sticky (stat_view s) (lstat_view s) cur path of Inl r \<Rightarrow> (Inl r, s) | Inr _ \<Rightarrow>
         if length path \<ge> 255 then (Inl EINVAL, s\<lparr>wild := True\<rparr>)
         else
           let up = rev (dropWhile (\<lambda>c. c \<noteq> sep) (rev path));
               name = drop (length up) path;
               dirpath = (if length up = 1 then take 1 path else butlast up)
           in if up = [] then (Inl EINVAL, s)
              else case vfs_lookup dirpath s of
                (Inl r, s) \<Rightarrow> (Inl r, s)
              | (Inr dir, s) \<Rightarrow>
                  if v_ops (vn s dir) \<noteq> Ramfs_dir_ops then (Inl ENOSYS, vnode_unref dir s)
                  else (case ramfs_dir_unlink dir name s of (r, s) \<Rightarrow> (r, vnode_unref dir s)))))"

section \<open>Renaming\<close>

text \<open>Into a directory the file goes under its own name, when the result has room.\<close>

definition base_name :: "string \<Rightarrow> string" where
  "base_name path = drop (length (rev (dropWhile (\<lambda>c. c \<noteq> sep) (rev path)))) path"

definition rename_target :: "string \<Rightarrow> string \<Rightarrow> vfs \<Rightarrow> string \<times> vfs" where
  "rename_target oldp newp s = (case vfs_lookup newp s of
     (Inl _, s) \<Rightarrow> (newp, s)
   | (Inr dst, s) \<Rightarrow>
       (if v_type (vn s dst) = VFS_NODE_DIR \<and> length newp + 1 + length (base_name oldp) < 255 then
          let p = (if last newp \<noteq> sep then newp @ [sep] else newp) in p @ take (254 - length p) (base_name oldp)
        else newp, vnode_unref dst s))"

text \<open>\<open>while ((n = vfs_read(src, buf, 512)) > 0) vfs_write(dst, buf, n)\<close>; what the writes answer is not looked at.\<close>

partial_function (option) copy_loop :: "nat \<Rightarrow> nat \<Rightarrow> fsys \<Rightarrow> fsys option" where
  "copy_loop src dst y = (case vfs_read (Some src) 512 y of
     (Inl _, y) \<Rightarrow> Some y
   | (Inr bs, y) \<Rightarrow> if bs = [] then Some y else copy_loop src dst (snd (vfs_write (Some dst) bs y)))"

definition rename_unlink :: "string \<Rightarrow> vfs \<Rightarrow> vfs" where
  "rename_unlink oldp s =
    (let dirp = take 255 oldp; up = rev (dropWhile (\<lambda>c. c \<noteq> sep) (rev dirp)) in
     if up = [] then s
     else case vfs_lookup (if length up = 1 then take 1 dirp else butlast up) s of
       (Inl _, s) \<Rightarrow> s
     | (Inr dir, s) \<Rightarrow>
         vnode_unref dir (if v_ops (vn s dir) = Ramfs_dir_ops then snd (ramfs_dir_unlink dir (drop (length up) dirp) s) else s))"

text \<open>\<open>sys_rename\<close> from the resolved paths on: the permission checks, then a copy and the removal of the old entry.\<close>

definition rename_perms :: "caller option \<Rightarrow> string \<Rightarrow> string \<Rightarrow> vfs \<Rightarrow> unit result" where
  "rename_perms cur oldp newp s =
    (case syscall_perm_parent (stat_view s) cur oldp 2 of Inl r \<Rightarrow> Inl r | Inr _ \<Rightarrow>
    (case syscall_perm_parent (stat_view s) cur newp 2 of Inl r \<Rightarrow> Inl r | Inr _ \<Rightarrow>
    (case syscall_perm_sticky (stat_view s) (lstat_view s) cur oldp of Inl r \<Rightarrow> Inl r | Inr _ \<Rightarrow>
      syscall_perm_sticky (stat_view s) (lstat_view s) cur newp)))"

definition drop_ref :: "nat \<Rightarrow> fsys \<Rightarrow> fsys" where
  "drop_ref v y = y\<lparr>fs := vnode_unref v (fs y)\<rparr>"

definition sys_rename :: "caller option \<Rightarrow> string \<Rightarrow> string \<Rightarrow> fsys \<Rightarrow> (unit result \<times> fsys) option" where
  "sys_rename cur oldp newp y =
    (case rename_perms cur oldp newp (fs y) of Inl r \<Rightarrow> Some (Inl r, y) | Inr _ \<Rightarrow>
    (case vfs_lookup oldp (fs y) of (Inl r, s) \<Rightarrow> Some (Inl r, y\<lparr>fs := s\<rparr>) | (Inr src_node, s) \<Rightarrow>
    (case rename_target oldp newp s of (newp, s) \<Rightarrow>
    (case vfs_open oldp 0 0 (y\<lparr>fs := s\<rparr>) of
       (Inl r, y) \<Rightarrow> Some (Inl r, drop_ref src_node y)
     | (Inr src_f, y) \<Rightarrow>
         (case vfs_open newp (O_WRONLY OR O_CREAT OR O_TRUNC) (v_mode (vn (fs y) src_node)) y of
            (Inl r, y) \<Rightarrow> Some (Inl r, drop_ref src_node (vfs_close src_f y))
          | (Inr dst_f, y) \<Rightarrow>
              (case copy_loop src_f dst_f y of
                 None \<Rightarrow> None
               | Some y \<Rightarrow>
                   let y = drop_ref src_node (vfs_close dst_f (vfs_close src_f y))
                   in Some (Inr (), y\<lparr>fs := rename_unlink oldp (fs y)\<rparr>)))))))"

section \<open>Time\<close>

definition vfs_boot_time :: "vfs \<Rightarrow> int \<times> vfs" where
  "vfs_boot_time s = (let s = (if g_boot_time s = 0 then s\<lparr>g_boot_time := clock s\<rparr> else s) in (g_boot_time s, s))"

definition leap :: "int \<Rightarrow> bool" where
  "leap y \<longleftrightarrow> (y mod 4 = 0 \<and> y mod 100 \<noteq> 0) \<or> y mod 400 = 0"

definition mdays :: "int list" where
  "mdays = [31, 28, 31, 30, 31, 30, 31, 31, 30, 31, 30, 31]"

definition vfs_make_time :: "int \<Rightarrow> int \<Rightarrow> int \<Rightarrow> int \<Rightarrow> int \<Rightarrow> int \<Rightarrow> int" where
  "vfs_make_time year mon day hour minute sec =
    (if year < 1970 \<or> year > 2200 then 0
     else if mon < 1 \<or> mon > 12 then 0
     else if day < 1 \<or> day > 31 then 0
     else if hour < 0 \<or> hour > 23 \<or> minute < 0 \<or> minute > 59 \<or> sec < 0 \<or> sec > 60 then 0
     else
       let days = foldl (\<lambda>d y. d + (if leap y then 366 else 365)) 0 [1970 .. year - 1];
           days = foldl (\<lambda>d m. d + mdays ! nat (m - 1) + (if m = 2 \<and> leap year then 1 else 0)) days [1 .. mon - 1];
           days = days + (day - 1)
       in days * 86400 + hour * 3600 + minute * 60 + sec)"

end
