(* ===== verification/Vfs_Refs.thy ===== *)
theory Vfs_Refs
  imports Vfs_Ops
begin

text \<open>
  Reference counts of vnodes. The count of a live vnode is the number of references to it: entries of live
  directories, mounts, and the references \<open>H\<close> that open files and running calls hold. Nothing refers to a
  vnode that was freed.
\<close>

section \<open>The invariant\<close>

definition entry_refs :: "nat \<Rightarrow> vnode \<Rightarrow> nat" where
  "entry_refs v n = (if v_live n then count_list (map snd (children (v_data n))) v else 0)"

definition links :: "vfs \<Rightarrow> nat \<Rightarrow> nat" where
  "links s v = sum_list (map (entry_refs v) (vnodes s))"

definition mount_refs :: "vfs \<Rightarrow> nat \<Rightarrow> nat" where
  "mount_refs s v = length (filter (\<lambda>m. m_used m \<and> m_root m = v) (g_mounts s))"

definition counted :: "vfs \<Rightarrow> (nat \<Rightarrow> nat) \<Rightarrow> nat \<Rightarrow> bool" where
  "counted s H v \<longleftrightarrow>
    (if live s v then v_ref (vn s v) = int (links s v + mount_refs s v + H v) \<and> 1 \<le> v_ref (vn s v) \<and>
       v_ops (vn s v) \<noteq> Ops_null \<and> v_mounted (vn s v) = None
     else links s v = 0 \<and> mount_refs s v = 0 \<and> H v = 0)"

definition refs_ok :: "vfs \<Rightarrow> (nat \<Rightarrow> nat) \<Rightarrow> bool" where
  "refs_ok s H \<longleftrightarrow> \<not> stale s \<and> (\<forall>v. counted s H v)"

lemma refs_okI: "\<not> stale s \<Longrightarrow> (\<And>v. counted s H v) \<Longrightarrow> refs_ok s H"
  by (simp add: refs_ok_def)

lemma refs_okD:
  assumes "refs_ok s H"
  shows "\<not> stale s" and "live s v \<Longrightarrow> v_ref (vn s v) = int (links s v + mount_refs s v + H v)"
    and "live s v \<Longrightarrow> 1 \<le> v_ref (vn s v)" and "live s v \<Longrightarrow> v_ops (vn s v) \<noteq> Ops_null"
    and "live s v \<Longrightarrow> v_mounted (vn s v) = None" and "0 < H v \<Longrightarrow> live s v" and "0 < links s v \<Longrightarrow> live s v"
    and "0 < mount_refs s v \<Longrightarrow> live s v"
  using assms unfolding refs_ok_def counted_def by (metis gr_implies_not0)+

lemma refs_ok_cong: "refs_ok s H \<Longrightarrow> (\<And>v. H' v = H v) \<Longrightarrow> refs_ok s H'"
  by (metis ext)

section \<open>What an update changes\<close>

lemma vnodes_upd [simp]: "vnodes (upd_vnode v g s) = (vnodes s)[v := g (vn s v)]"
  by (simp add: upd_vnode_def)

lemma upd_vnode_other [simp]:
  "g_mounts (upd_vnode v g s) = g_mounts s" "g_vfs_ready (upd_vnode v g s) = g_vfs_ready s" "stale (upd_vnode v g s) = stale s" "wild (upd_vnode v g s) = wild s"
  "mem (upd_vnode v g s) = mem s" "mem_asked (upd_vnode v g s) = mem_asked s" "clock (upd_vnode v g s) = clock s"
  by (simp_all add: upd_vnode_def)

lemma live_upd: "live (upd_vnode v g s) u \<longleftrightarrow> (if u = v then v < length (vnodes s) \<and> v_live (g (vn s v)) else live s u)"
  by (auto simp: live_def)

lemma live_lt: "live s v \<Longrightarrow> v < length (vnodes s)" "live s v \<Longrightarrow> v_live (vn s v)"
  by (simp_all add: live_def)

lemma mount_refs_upd [simp]: "mount_refs (upd_vnode v g s) u = mount_refs s u"
  by (simp add: mount_refs_def)

lemma sum_list_update_nat:
  "v < length xs \<Longrightarrow> sum_list (map f (xs[v := y])) + f (xs ! v) = sum_list (map f xs) + (f y :: nat)"
  by (induction xs arbitrary: v) (auto split: nat.splits simp: nth_Cons')

lemma links_upd:
  "v < length (vnodes s) \<Longrightarrow> links (upd_vnode v g s) u + entry_refs u (vn s v) = links s u + entry_refs u (g (vn s v))"
  by (simp add: links_def sum_list_update_nat)

lemma entry_le_links: "v < length (vnodes s) \<Longrightarrow> entry_refs u (vn s v) \<le> links s u"
  using elem_le_sum_list [of v "map (entry_refs u) (vnodes s)"] by (simp add: links_def)

lemma entry_live:
  assumes "refs_ok s H" and "live s d" and "(nm, v) \<in> set (children (v_data (vn s d)))"
  shows "live s v"
proof -
  have "v \<in> set (map snd (children (v_data (vn s d))))" using assms(3) by force
  then have "0 < count_list (map snd (children (v_data (vn s d)))) v" by (metis count_list_0_iff not_gr_zero)
  with live_lt [OF assms(2)] entry_le_links [of d s v] have "0 < links s v" by (simp add: entry_refs_def)
  then show ?thesis by (rule refs_okD(7) [OF assms(1)])
qed

lemma child_of_entry: "child_of nm cs = Some v \<Longrightarrow> (nm, v) \<in> set cs"
  unfolding child_of_def by (auto simp: find_Some_iff) (metis fst_conv nth_mem)

lemma mount_root_live:
  assumes "refs_ok s H" and "i < length (g_mounts s)" and "m_used (g_mounts s ! i)"
  shows "live s (m_root (g_mounts s ! i))"
proof -
  have "g_mounts s ! i \<in> set (filter (\<lambda>m. m_used m \<and> m_root m = m_root (g_mounts s ! i)) (g_mounts s))" using assms(2,3) by simp
  then have "0 < mount_refs s (m_root (g_mounts s ! i))" unfolding mount_refs_def by (metis length_pos_if_in_set)
  then show ?thesis by (rule refs_okD(8) [OF assms(1)])
qed

text \<open>Updates that leave references, entries and tables alone.\<close>

definition same_refs :: "vnode \<Rightarrow> vnode \<Rightarrow> bool" where
  "same_refs n n' \<longleftrightarrow> v_ref n' = v_ref n \<and> v_live n' = v_live n \<and> v_ops n' = v_ops n \<and> v_mounted n' = v_mounted n \<and>
     children (v_data n') = children (v_data n)"

lemma links_same: "same_refs (vn s v) (g (vn s v)) \<Longrightarrow> links (upd_vnode v g s) u = links s u"
proof (cases "v < length (vnodes s)")
  case True
  assume "same_refs (vn s v) (g (vn s v))"
  then have "entry_refs u (g (vn s v)) = entry_refs u (vn s v)" by (simp add: same_refs_def entry_refs_def)
  with links_upd [OF True, of g u] show ?thesis by simp
qed (simp add: links_def list_update_beyond)

lemma refs_ok_same:
  assumes ok: "refs_ok s H" and same: "same_refs (vn s v) (g (vn s v))"
  shows "refs_ok (upd_vnode v g s) H"
proof (rule refs_okI)
  show "\<not> stale (upd_vnode v g s)" using refs_okD(1) [OF ok] by simp
  fix u
  have c: "counted s H u" using ok by (simp add: refs_ok_def)
  have l: "live (upd_vnode v g s) u = live s u" using same unfolding live_upd by (auto simp: same_refs_def live_def)
  show "counted (upd_vnode v g s) H u"
  proof (cases "live s u")
    case True
    with c same live_lt(1) [OF True] show ?thesis
      unfolding counted_def l links_same [of s v g u, OF same] mount_refs_upd by (cases "u = v") (auto simp: same_refs_def)
  qed (use c in \<open>simp add: counted_def l links_same [of s v g u, OF same]\<close>)
qed

text \<open>Everything outside the vnodes and mounts is free to change.\<close>

lemma counted_frame: "vnodes s' = vnodes s \<Longrightarrow> g_mounts s' = g_mounts s \<Longrightarrow> counted s' H v = counted s H v"
  by (simp only: counted_def live_def links_def mount_refs_def)

lemma refs_ok_frame:
  "refs_ok s H \<Longrightarrow> vnodes s' = vnodes s \<Longrightarrow> g_mounts s' = g_mounts s \<Longrightarrow> stale s' = stale s \<Longrightarrow> refs_ok s' H"
  by (simp add: refs_ok_def counted_frame [of s' s])

lemma refs_ok_kmalloc: "refs_ok s H \<Longrightarrow> kmalloc s = (b, s') \<Longrightarrow> refs_ok s' H"
  by (rule refs_ok_frame [of s]) (auto simp: kmalloc_def)

section \<open>Taking and dropping a reference\<close>

lemma refs_ok_ref:
  assumes ok: "refs_ok s H" and v: "live s v"
  shows "refs_ok (vnode_ref v s) (H(v := Suc (H v)))"
proof (rule refs_okI)
  let ?g = "\<lambda>n. n\<lparr>v_ref := v_ref n + 1\<rparr>"
  have s': "vnode_ref v s = upd_vnode v ?g s" by (simp add: vnode_ref_def v)
  show "\<not> stale (vnode_ref v s)" using refs_okD(1) [OF ok] by (simp add: s')
  fix u
  have c: "counted s H u" using ok by (simp add: refs_ok_def)
  have l: "live (upd_vnode v ?g s) u = live s u" unfolding live_upd by (auto simp: live_def)
  have k: "links (upd_vnode v ?g s) u = links s u" using links_upd [OF live_lt(1) [OF v], of ?g u] live_lt(2) [OF v] by (simp add: entry_refs_def)
  show "counted (vnode_ref v s) (H(v := Suc (H v))) u"
    unfolding s' counted_def l k mount_refs_upd using c v live_lt(1) [of s u] by (cases "u = v") (auto simp: counted_def)
qed

lemma refs_ok_dec:
  assumes ok: "refs_ok s H" and v: "live s v" "1 < v_ref (vn s v)" "0 < H v"
  shows "refs_ok (upd_vnode v (\<lambda>n. n\<lparr>v_ref := v_ref n - 1\<rparr>) s) (H(v := H v - 1))"
proof (rule refs_okI)
  let ?g = "\<lambda>n. n\<lparr>v_ref := v_ref n - 1\<rparr>"
  show "\<not> stale (upd_vnode v ?g s)" using refs_okD(1) [OF ok] by simp
  fix u
  have c: "counted s H u" using ok by (simp add: refs_ok_def)
  have l: "live (upd_vnode v ?g s) u = live s u" unfolding live_upd by (auto simp: live_def)
  have k: "links (upd_vnode v ?g s) u = links s u" using links_upd [OF live_lt(1) [OF v(1)], of ?g u] live_lt(2) [OF v(1)] by (simp add: entry_refs_def)
  show "counted (upd_vnode v ?g s) (H(v := H v - 1)) u"
    unfolding counted_def l k mount_refs_upd using c v live_lt(1) [of s u] by (cases "u = v") (auto simp: counted_def)
qed

text \<open>The last reference is dropped: the entries of the vnode become references still to be dropped.\<close>

lemma refs_ok_release:
  assumes ok: "refs_ok s H" and v: "live s v" "v_ref (vn s v) \<le> 1" "0 < H v" and g: "\<not> v_live (g (vn s v))"
  shows "refs_ok (upd_vnode v g s)
    (\<lambda>u. (H(v := H v - 1)) u + count_list (map snd (children (v_data (vn s v)))) u)"
proof (rule refs_okI)
  let ?kids = "map snd (children (v_data (vn s v)))"
  show "\<not> stale (upd_vnode v g s)" using refs_okD(1) [OF ok] by simp
  fix u
  have c: "counted s H u" using ok by (simp add: refs_ok_def)
  have l: "live (upd_vnode v g s) u \<longleftrightarrow> u \<noteq> v \<and> live s u" using g by (auto simp: live_upd)
  have k: "links (upd_vnode v g s) u + count_list ?kids u = links s u"
    using links_upd [OF live_lt(1) [OF v(1)], of g u] live_lt(2) [OF v(1)] g by (simp add: entry_refs_def)
  have sole: "links s v = 0" "mount_refs s v = 0" "H v = 1" using refs_okD(2) [OF ok v(1)] v(2,3) by auto
  show "counted (upd_vnode v g s) (\<lambda>u. (H(v := H v - 1)) u + count_list ?kids u) u"
    unfolding counted_def l mount_refs_upd using c k sole live_lt(1) [of s u] by (cases "u = v") (auto simp: counted_def)
qed

lemma refs_ok_unref_list:
  "refs_ok s (\<lambda>v. H v + count_list vs v) \<Longrightarrow> refs_ok (unref_list vs s) H"
proof (induction vs s arbitrary: H rule: unref_list.induct)
  case (1 s)
  then show ?case by (simp add: unref_list.simps)
next
  case (2 v vs s)
  let ?P = "\<lambda>u. H u + count_list (v # vs) u"
  have v: "live s v" by (rule refs_okD(6) [OF "2.prems"]) simp
  have less: "?P(v := ?P v - 1) = (\<lambda>u. H u + count_list vs u)" by auto
  show ?case
  proof (cases "v_ref (vn s v) \<le> 1 \<and> v_ops (vn s v) \<noteq> Ops_null")
    case True
    from refs_ok_release [OF "2.prems" v, of "\<lambda>n. n\<lparr>v_ref := v_ref n - 1, v_live := False\<rparr>"] True
    have "refs_ok (upd_vnode v (\<lambda>n. n\<lparr>v_ref := v_ref n - 1, v_live := False\<rparr>) s)
        (\<lambda>u. H u + count_list (map snd (children (v_data (vn s v))) @ vs) u)"
      unfolding less by (simp add: ac_simps)
    from "2.IH"(2) [OF _ True this] True v show ?thesis by (simp add: unref_list.simps(2))
  next
    case False
    then have "1 < v_ref (vn s v)" using refs_okD(4) [OF "2.prems" v] by simp
    from refs_ok_dec [OF "2.prems" v this] have "refs_ok (upd_vnode v (\<lambda>n. n\<lparr>v_ref := v_ref n - 1\<rparr>) s) (\<lambda>u. H u + count_list vs u)"
      unfolding less by simp
    from "2.IH"(3) [OF _ False this] False v show ?thesis by (auto simp: unref_list.simps(2))
  qed
qed

lemma refs_ok_unref:
  assumes "refs_ok s H" and "0 < H v"
  shows "refs_ok (vnode_unref v s) (H(v := H v - 1))"
  unfolding vnode_unref_def by (rule refs_ok_unref_list, rule refs_ok_cong [OF assms(1)]) (use assms(2) in auto)

text \<open>While another reference is left, dropping one only counts.\<close>

lemma vnode_unref_dec:
  "live s v \<Longrightarrow> 1 < v_ref (vn s v) \<Longrightarrow> vnode_unref v s = upd_vnode v (\<lambda>n. n\<lparr>v_ref := v_ref n - 1\<rparr>) s"
  by (simp add: vnode_unref_def unref_list.simps)

lemma upd_vnode_twice: "upd_vnode v f (upd_vnode v g s) = upd_vnode v (\<lambda>n. f (g n)) s"
  by (cases "v < length (vnodes s)") (simp_all add: upd_vnode_def list_update_beyond)

lemma upd_vnode_id: "g (vn s v) = vn s v \<Longrightarrow> upd_vnode v g s = s"
  by (simp add: upd_vnode_def)

lemma unref_ref [simp]:
  assumes "live s v" and "1 \<le> v_ref (vn s v)"
  shows "vnode_unref v (vnode_ref v s) = s"
proof -
  have "live (vnode_ref v s) v" "1 < v_ref (vn (vnode_ref v s) v)" using assms live_lt(1) [OF assms(1)] unfolding vnode_ref_def by (auto simp: live_upd live_lt)
  from vnode_unref_dec [OF this] show ?thesis using assms(1)
    by (simp add: vnode_ref_def upd_vnode_twice) (rule upd_vnode_id, simp)
qed

end
