(* ===== verification/Vfs_Walk.thy ===== *)
theory Vfs_Walk
  imports Vfs_Refs
begin

text \<open>
  What a path means. \<open>resolve\<close> gives the vnode a path leads to, as a function of the tree alone: the path is
  cut into names and each is looked up in the directory reached so far, symbolic links being replaced by what
  their targets lead to. The walk of \<open>vfs.c\<close>, with all its references taken and dropped on the way, computes
  it and leaves exactly one reference, on the result.
\<close>

section \<open>The specification\<close>

lemma path_next_less: "path_next_component p = (nm, q) \<Longrightarrow> nm \<noteq> [] \<Longrightarrow> length q < length p"
  by (rule path_next_shorter) (auto simp: path_next_component_def Let_def)

function components :: "string \<Rightarrow> string list" where
  "components p = (case path_next_component p of (nm, q) \<Rightarrow> if nm = [] then [] else nm # components q)"
  by pat_completeness auto

termination
  by (relation "measure length") (auto dest: path_next_less [OF sym])

declare components.simps [simp del]

type_synonym link_spec = "nat \<Rightarrow> string \<Rightarrow> bool \<Rightarrow> nat result"

definition res_step :: "link_spec \<Rightarrow> nat \<Rightarrow> vfs \<Rightarrow> nat \<Rightarrow> string \<Rightarrow> bool \<Rightarrow> bool \<Rightarrow> nat result" where
  "res_step link depth s cur nm is_last follow_final =
    (if v_type (vn s cur) \<noteq> VFS_NODE_DIR then Inl ENOTDIR
     else if v_ops (vn s cur) \<noteq> Ramfs_dir_ops then Inl EIO
     else case child_of nm (children (v_data (vn s cur))) of
       None \<Rightarrow> Inl ENOENT
     | Some nxt \<Rightarrow>
         if v_type (vn s nxt) = VFS_NODE_SYMLINK \<and> (\<not> is_last \<or> follow_final) then
           if depth \<ge> VFS_SYMLINK_MAX then Inl ELOOP
           else if v_ops (vn s nxt) \<noteq> Ramfs_symlink_ops then Inl EIO
           else case ramfs_readlink nxt (VFS_MAX_PATH - 1) s of
             Inl r \<Rightarrow> Inl r
           | Inr target \<Rightarrow> link cur target (if is_last then follow_final else True)
         else Inr nxt)"

fun res_names :: "link_spec \<Rightarrow> nat \<Rightarrow> vfs \<Rightarrow> nat \<Rightarrow> string list \<Rightarrow> bool \<Rightarrow> nat result" where
  "res_names link depth s cur [] follow_final = Inr cur"
| "res_names link depth s cur (nm # ns) follow_final =
    (case res_step link depth s cur nm (ns = []) follow_final of
       Inl r \<Rightarrow> Inl r
     | Inr nxt \<Rightarrow> res_names link depth s nxt ns follow_final)"

fun resolve :: "nat \<Rightarrow> vfs \<Rightarrow> nat \<Rightarrow> string \<Rightarrow> bool \<Rightarrow> nat result" where
  "resolve 0 s dir rel follow_final = res_names (\<lambda>_ _ _. Inl ELOOP) VFS_SYMLINK_MAX s dir (components rel) follow_final"
| "resolve (Suc k) s dir rel follow_final = res_names
     (\<lambda>cur target follow.
        if target \<noteq> [] \<and> hd target = sep then
          case lookup_start target (VFS_SYMLINK_MAX - k) s of Inl r \<Rightarrow> Inl r | Inr (root, rel) \<Rightarrow> resolve k s root rel follow
        else resolve k s cur target follow)
     (VFS_SYMLINK_MAX - Suc k) s dir (components rel) follow_final"

definition resolve_path :: "vfs \<Rightarrow> string \<Rightarrow> bool \<Rightarrow> nat \<Rightarrow> nat result" where
  "resolve_path s path follow_final depth = (case lookup_start path depth s of
     Inl r \<Rightarrow> Inl r
   | Inr (root, rel) \<Rightarrow> resolve (VFS_SYMLINK_MAX - depth) s root rel follow_final)"

section \<open>What the tree is made of\<close>

definition same_tree :: "vfs \<Rightarrow> vfs \<Rightarrow> bool" where
  "same_tree s s' \<longleftrightarrow> g_mounts s' = g_mounts s \<and> g_vfs_ready s' = g_vfs_ready s \<and>
    (\<forall>v. v_type (vn s' v) = v_type (vn s v) \<and> v_ops (vn s' v) = v_ops (vn s v) \<and>
         children (v_data (vn s' v)) = children (v_data (vn s v)) \<and> link_target (v_data (vn s' v)) = link_target (v_data (vn s v)))"

lemma same_tree_start: "same_tree s s' \<Longrightarrow> lookup_start path depth s' = lookup_start path depth s"
  by (auto simp: same_tree_def lookup_start_def find_mount_def split: option.split prod.split)

lemma same_tree_step: "same_tree s s' \<Longrightarrow> res_step link depth s' cur nm l f = res_step link depth s cur nm l f"
  by (auto simp: same_tree_def res_step_def ramfs_readlink_def split: option.split)

lemma same_tree_names: "same_tree s s' \<Longrightarrow> res_names link depth s' cur ns f = res_names link depth s cur ns f"
  by (induction ns arbitrary: cur) (auto simp: same_tree_step split: sum.split)

lemma same_tree_resolve: "same_tree s s' \<Longrightarrow> resolve k s' dir rel f = resolve k s dir rel f"
proof (induction k arbitrary: dir rel f)
  case (Suc k)
  show ?case unfolding resolve.simps Suc.IH [OF Suc.prems] same_tree_start [OF Suc.prems] by (rule same_tree_names [OF Suc.prems])
qed (simp add: same_tree_names)

lemma vn_upd: "vn (upd_vnode v g s) u = (if u = v \<and> v < length (vnodes s) then g (vn s v) else vn s u)"
  by (cases "v < length (vnodes s)") (auto simp: list_update_beyond)

lemma same_tree_ref: "same_tree s (vnode_ref v s)"
  unfolding same_tree_def vnode_ref_def by (auto simp: vn_upd simp del: vnodes_upd)

section \<open>Counting commutes\<close>

lemma live_ref: "live s v \<Longrightarrow> live (vnode_ref v s) u = live s u"
  by (auto simp: vnode_ref_def live_upd live_lt)

lemma upd_vnode_commute: "u \<noteq> v \<Longrightarrow> upd_vnode u f (upd_vnode v g s) = upd_vnode v g (upd_vnode u f s)"
  by (simp add: upd_vnode_def list_update_swap)

lemma ref_commute:
  "live s v \<Longrightarrow> live s u \<Longrightarrow> vnode_ref v (vnode_ref u s) = vnode_ref u (vnode_ref v s)"
proof (cases "u = v")
  case False
  assume "live s v" "live s u"
  with False show ?thesis by (simp add: vnode_ref_def live_upd live_lt upd_vnode_commute [of u v])
qed simp

lemma v_ref_ref: "live s v \<Longrightarrow> v_ref (vn (vnode_ref v s) u) = v_ref (vn s u) + (if u = v then 1 else 0)"
  by (auto simp: vnode_ref_def live_lt)

lemma unref_under_ref:
  assumes ok: "refs_ok s H" and v: "live s v" "live s cur"
  shows "vnode_unref cur (vnode_ref v (vnode_ref cur s)) = vnode_ref v s"
proof -
  have "live (vnode_ref v s) cur" "1 \<le> v_ref (vn (vnode_ref v s) cur)"
    using v refs_okD(3) [OF ok v(2)] by (auto simp: live_ref v_ref_ref)
  then show ?thesis unfolding ref_commute [OF v] by (rule unref_ref)
qed

lemma unref_ref_ok: "refs_ok s H \<Longrightarrow> live s v \<Longrightarrow> vnode_unref v (vnode_ref v s) = s"
  using refs_okD(3) by simp

section \<open>The walk computes it\<close>

text \<open>An operation that answers \<open>r\<close>, changes nothing when it fails and takes one reference, on its result, when it succeeds.\<close>

definition exact :: "(vfs \<Rightarrow> nat result \<times> vfs) \<Rightarrow> nat result \<Rightarrow> vfs \<Rightarrow> bool" where
  "exact oper r s \<longleftrightarrow> oper s = (case r of Inl e \<Rightarrow> (Inl e, s) | Inr v \<Rightarrow> (Inr v, vnode_ref v s)) \<and> (\<forall>v. r = Inr v \<longrightarrow> live s v)"

text \<open>The same for the parts of the walk, which are entered with a reference on \<open>cur\<close> and give it up.\<close>

definition passes :: "nat \<Rightarrow> (vfs \<Rightarrow> nat result \<times> vfs) \<Rightarrow> nat result \<Rightarrow> vfs \<Rightarrow> bool" where
  "passes cur oper r s \<longleftrightarrow> exact (\<lambda>s. oper (vnode_ref cur s)) r s"

definition link_exact :: "link_fun \<Rightarrow> link_spec \<Rightarrow> vfs \<Rightarrow> bool" where
  "link_exact link spec s \<longleftrightarrow> (\<forall>cur target f. live s cur \<longrightarrow> exact (link cur target f) (spec cur target f) (vnode_ref cur s))"

lemma follow_link_exact:
  assumes ok: "refs_ok s H" and v: "live s cur" "live s nxt" and link: "depth < VFS_SYMLINK_MAX \<Longrightarrow> link_exact link spec s"
  shows "exact (\<lambda>s. follow_link link depth cur nxt f (vnode_ref nxt s))
    (if depth \<ge> VFS_SYMLINK_MAX then Inl ELOOP else if v_ops (vn s nxt) \<noteq> Ramfs_symlink_ops then Inl EIO
     else case ramfs_readlink nxt (VFS_MAX_PATH - 1) s of Inl r \<Rightarrow> Inl r | Inr target \<Rightarrow> spec cur target f) (vnode_ref cur s)"
proof -
  let ?s = "vnode_ref nxt (vnode_ref cur s)"
  have bk: "vnode_unref nxt ?s = vnode_ref cur s"
    using unref_ref_ok [OF refs_ok_ref [OF ok v(1)]] v by (simp add: live_ref)
  have t: "v_ops (vn ?s nxt) = v_ops (vn s nxt)" "ramfs_readlink nxt n ?s = ramfs_readlink nxt n s" for n
    using same_tree_ref [of "vnode_ref cur s" nxt] same_tree_ref [of s cur] by (simp_all add: same_tree_def ramfs_readlink_def)
  show ?thesis using link v(1)
    by (auto simp: exact_def follow_link_def t bk link_exact_def split: sum.splits)
qed

lemma enter_mount_none: "v_mounted (vn s v) = None \<Longrightarrow> enter_mount v s = (v, s)"
  by (simp add: enter_mount_def)

lemma mounted_ref: "v_mounted (vn (vnode_ref u s) v) = v_mounted (vn s v)"
  unfolding vnode_ref_def by (auto simp: vn_upd simp del: vnodes_upd)

text \<open>Giving up the reference on \<open>cur\<close> at the end of the body.\<close>

lemma leave_exact:
  assumes ok: "refs_ok s H" and cur: "live s cur" and ex: "exact oper r (vnode_ref cur s)"
  shows "(case oper (vnode_ref cur s) of
      (Inl e, s) \<Rightarrow> (Inl e, vnode_unref cur s)
    | (Inr nxt, s) \<Rightarrow> (case enter_mount nxt (vnode_unref cur s) of (cur, s) \<Rightarrow> (Inr cur, s))) =
    (case r of Inl e \<Rightarrow> (Inl e, s) | Inr v \<Rightarrow> (Inr v, vnode_ref v s))" and "r = Inr v \<Longrightarrow> live s v"
proof -
  have live: "live s v" if "r = Inr v" for v using ex that cur by (simp add: exact_def live_ref)
  then show "r = Inr v \<Longrightarrow> live s v" .
  show "(case oper (vnode_ref cur s) of
      (Inl e, s) \<Rightarrow> (Inl e, vnode_unref cur s)
    | (Inr nxt, s) \<Rightarrow> (case enter_mount nxt (vnode_unref cur s) of (cur, s) \<Rightarrow> (Inr cur, s))) =
    (case r of Inl e \<Rightarrow> (Inl e, s) | Inr v \<Rightarrow> (Inr v, vnode_ref v s))"
  proof (cases r)
    case (Inl e)
    with ex show ?thesis by (simp add: exact_def unref_ref_ok [OF ok cur])
  next
    case (Inr v)
    with ex live [OF Inr] refs_okD(5) [OF ok live [OF Inr]] show ?thesis
      by (simp add: exact_def unref_under_ref [OF ok live [OF Inr] cur] enter_mount_none mounted_ref)
  qed
qed

lemma walk_step_exact:
  assumes ok: "refs_ok s H" and cur: "live s cur" and link: "depth < VFS_SYMLINK_MAX \<Longrightarrow> link_exact link spec s"
  shows "passes cur (walk_step link depth cur nm l f) (res_step spec depth s cur nm l f) s"
proof -
  let ?s = "vnode_ref cur s"
  have t: "v_type (vn ?s v) = v_type (vn s v)" "v_ops (vn ?s v) = v_ops (vn s v)"
    "children (v_data (vn ?s v)) = children (v_data (vn s v))" for v
    using same_tree_ref [of s cur] by (simp_all add: same_tree_def)
  have bk: "vnode_unref cur ?s = s" by (rule unref_ref_ok [OF ok cur])
  show ?thesis
  proof (cases "v_type (vn s cur) \<noteq> VFS_NODE_DIR \<or> v_ops (vn s cur) \<noteq> Ramfs_dir_ops \<or> child_of nm (children (v_data (vn s cur))) = None")
    case True
    then show ?thesis by (auto simp: passes_def exact_def walk_step_def res_step_def t bk ramfs_dir_lookup_def)
  next
    case False
    then obtain nxt where nxt: "child_of nm (children (v_data (vn s cur))) = Some nxt" by blast
    have v: "live s nxt" by (rule entry_live [OF ok cur child_of_entry [OF nxt]])
    let ?sym = "v_type (vn s nxt) = VFS_NODE_SYMLINK \<and> (\<not> l \<or> f)"
    let ?op = "\<lambda>s. if ?sym then follow_link link depth cur nxt (if l then f else True) (vnode_ref nxt s) else (Inr nxt, vnode_ref nxt s)"
    have ex: "exact ?op (res_step spec depth s cur nm l f) ?s"
    proof (cases ?sym)
      case True
      then show ?thesis using follow_link_exact [OF ok cur v link, where f = "if l then f else True"] False nxt by (simp add: res_step_def)
    next
      case no: False
      then show ?thesis using False nxt v cur by (auto simp: res_step_def exact_def live_ref)
    qed
    have tv: "v_type (vn (vnode_ref nxt ?s) nxt) = v_type (vn s nxt)"
      using same_tree_ref [of ?s nxt] t by (simp add: same_tree_def)
    have "walk_step link depth cur nm l f ?s = (case ?op ?s of
        (Inl e, s) \<Rightarrow> (Inl e, vnode_unref cur s)
      | (Inr nxt, s) \<Rightarrow> (case enter_mount nxt (vnode_unref cur s) of (cur, s) \<Rightarrow> (Inr cur, s)))"
      using False nxt by (simp add: walk_step_def t tv ramfs_dir_lookup_def)
    then show ?thesis using leave_exact [OF ok cur ex] by (simp add: passes_def exact_def)
  qed
qed

lemma components_Nil_iff: "components p = [] \<longleftrightarrow> dropWhile (\<lambda>c. c = sep) p = []"
proof -
  have "takeWhile (\<lambda>c. c \<noteq> sep) r = [] \<longleftrightarrow> r = [] \<or> hd r = sep" for r by (cases r) auto
  then show ?thesis using hd_dropWhile [of "\<lambda>c. c = sep" p]
    by (subst components.simps) (auto simp: path_next_component_def VFS_MAX_NAME_def Let_def)
qed

lemma components_Nil [simp]: "components [] = []"
  unfolding components_Nil_iff by simp

lemma components_dropWhile: "components (dropWhile (\<lambda>c. c = sep) p) = components p"
  by (subst (1 2) components.simps) (simp add: path_next_component_def Let_def)

lemma walk_loop_exact:
  assumes ok: "refs_ok s H" and link: "depth < VFS_SYMLINK_MAX \<Longrightarrow> link_exact link spec s"
  shows "live s cur \<Longrightarrow> passes cur (walk_loop link depth cur p f) (res_names spec depth s cur (components p) f) s"
proof (induction p arbitrary: cur rule: measure_induct_rule [of length])
  case (less p)
  show ?case
  proof (cases "p = []")
    case True
    then show ?thesis using less.prems by (simp add: walk_loop.simps passes_def exact_def)
  next
    case False
    obtain nm q where nq: "path_next_component p = (nm, q)" by (cases "path_next_component p")
    have shorter: "length q < length p" by (rule path_next_shorter [OF nq False])
    show ?thesis
    proof (cases "nm = []")
      case True
      then have "components p = []" using nq by (subst components.simps) simp
      moreover from this nq have "q = []" unfolding components_Nil_iff
        by (simp add: path_next_component_def Let_def del: dropWhile_eq_Nil_conv)
      ultimately show ?thesis using less.IH [OF shorter less.prems] nq True False
        by (simp add: passes_def walk_loop.simps [of _ _ _ p])
    next
      case nm: False
      let ?q = "dropWhile (\<lambda>c. c = sep) q" and ?r = "res_step spec depth s cur nm (components q = []) f"
      have len: "length ?q < length p" using shorter length_dropWhile_le [of "\<lambda>c. c = sep" q] by simp
      have comps: "components p = nm # components q" using nq nm by (subst components.simps) simp
      have step: "exact (\<lambda>s. walk_step link depth cur nm (?q = []) f (vnode_ref cur s)) ?r s"
        unfolding components_Nil_iff by (rule walk_step_exact [OF ok less.prems link, unfolded passes_def])
      have loop: "walk_loop link depth cur p f (vnode_ref cur s) = (case walk_step link depth cur nm (?q = []) f (vnode_ref cur s) of
          (Inl r, s) \<Rightarrow> (Inl r, s) | (Inr cur, s) \<Rightarrow> walk_loop link depth cur ?q f s)"
        using nq nm False by (simp add: walk_loop.simps [of _ _ _ p] Let_def)
      show ?thesis
      proof (cases ?r)
        case (Inl e)
        then show ?thesis using step loop by (simp add: passes_def exact_def comps)
      next
        case (Inr c)
        with step have "live s c" by (simp add: exact_def)
        from less.IH [OF len this] Inr step loop show ?thesis
          by (simp add: passes_def exact_def comps components_dropWhile)
      qed
    qed
  qed
qed

lemma find_mount_loop_index:
  "find_mount_loop path ms i best n = (Some j, n') \<Longrightarrow> best = Some j \<or> (i \<le> j \<and> j < i + length ms \<and> mount_matches path (ms ! (j - i)))"
proof (induction ms arbitrary: i best n)
  case (Cons m ms)
  then show ?case by (force simp: nth_Cons' split: if_splits)
qed simp

lemma lookup_start_live:
  assumes "refs_ok s H" and "lookup_start path depth s = Inr (root, rel)"
  shows "live s root"
proof -
  obtain i n where "find_mount_loop path (g_mounts s) 0 None 0 = (Some i, n)" and root: "root = m_root (g_mounts s ! i)"
    using assms(2) by (auto simp: lookup_start_def find_mount_def split: if_splits option.splits prod.splits)
  with find_mount_loop_index have "i < length (g_mounts s)" "m_used (g_mounts s ! i)" by (force simp: mount_matches_def)+
  from mount_root_live [OF assms(1) this] show ?thesis by (simp add: root)
qed

lemma resolve_Nil: "resolve k s dir [] f = Inr dir"
  by (cases k) simp_all

lemma walk_levels_exact:
  "refs_ok s H \<Longrightarrow> live s dir \<Longrightarrow> exact (walk_levels k dir rel f) (resolve k s dir rel f) s"
proof (induction k arbitrary: s H dir rel f)
  case 0
  then show ?case using walk_loop_exact [of s H VFS_SYMLINK_MAX] by (simp add: passes_def)
next
  case (Suc k)
  let ?spec = "\<lambda>cur target follow. if target \<noteq> [] \<and> hd target = sep then
          case lookup_start target (VFS_SYMLINK_MAX - k) s of Inl r \<Rightarrow> Inl r | Inr (root, rel) \<Rightarrow> resolve k s root rel follow
        else resolve k s cur target follow"
  have "link_exact (resolve_link (walk_levels k) (VFS_SYMLINK_MAX - k)) ?spec s"
    unfolding link_exact_def
  proof (intro allI impI)
    fix cur target and follow :: bool
    assume cur: "live s cur"
    let ?s = "vnode_ref cur s"
    have ok: "refs_ok ?s (H(cur := Suc (H cur)))" by (rule refs_ok_ref [OF Suc.prems(1) cur])
    have IH: "exact (walk_levels k d rel follow) (resolve k s d rel follow) ?s" if "live ?s d" for d rel
      using Suc.IH [OF ok that] unfolding same_tree_resolve [OF same_tree_ref] .
    have start: "lookup_start target d ?s = lookup_start target d s" for d by (rule same_tree_start [OF same_tree_ref])
    show "exact (resolve_link (walk_levels k) (VFS_SYMLINK_MAX - k) cur target follow) (?spec cur target follow) ?s"
    proof (cases "target \<noteq> [] \<and> hd target = sep")
      case False
      then have "resolve_link (walk_levels k) (VFS_SYMLINK_MAX - k) cur target follow = walk_levels k cur target follow"
        and "?spec cur target follow = resolve k s cur target follow" by (auto simp: resolve_link_def fun_eq_iff)
      with IH [of cur target] cur show ?thesis by (simp only: live_ref)
    next
      case True
      show ?thesis
      proof (cases "lookup_start target (VFS_SYMLINK_MAX - k) s")
        case (Inl e)
        then show ?thesis using True by (simp add: exact_def resolve_link_def start)
      next
        case (Inr a)
        obtain root rel where a: "a = (root, rel)" by (cases a)
        have root: "live ?s root" by (rule lookup_start_live [OF ok, of target "VFS_SYMLINK_MAX - k" _ rel]) (simp add: start Inr a)
        have "resolve k s root [] follow = Inr root" by (rule resolve_Nil)
        then show ?thesis using IH [OF root] True Inr a root by (auto simp: exact_def resolve_link_def start)
      qed
    qed
  qed
  from walk_loop_exact [OF Suc.prems(1) this Suc.prems(2)] show ?case by (simp add: passes_def exact_def)
qed

lemma lookup_path_exact_of:
  assumes ok: "refs_ok s H"
  shows "exact (lookup_path path f depth) (resolve_path s path f depth) s"
proof (cases "lookup_start path depth s")
  case (Inl e)
  then show ?thesis by (simp add: exact_def lookup_path_def resolve_path_def)
next
  case (Inr a)
  obtain root rel where a: "a = (root, rel)" by (cases a)
  have root: "live s root" by (rule lookup_start_live [OF ok Inr [unfolded a]])
  show ?thesis using walk_levels_exact [OF ok root] Inr a root
    by (auto simp: exact_def lookup_path_def resolve_path_def walk_from_def resolve_Nil)
qed

end
