(* ===== verification/Vfs_Entries.thy ===== *)
theory Vfs_Entries
  imports Vfs_Walk
begin

text \<open>
  The operations on directories of the file system in memory keep the reference counts: making and removing
  entries, creating files, directories and links, on every path through their errors.
\<close>

abbreviation hold :: "(nat \<Rightarrow> nat) \<Rightarrow> nat \<Rightarrow> nat \<Rightarrow> nat" where
  "hold H v \<equiv> H(v := Suc (H v))"

lemma hold_live: "refs_ok s (hold H v) \<Longrightarrow> live s v"
  by (erule refs_okD(6)) simp

lemma refs_ok_drop: "refs_ok s (hold H v) \<Longrightarrow> refs_ok (vnode_unref v s) H"
  using refs_ok_unref [of s "hold H v" v] by simp

section \<open>Storing and removing entries\<close>

lemma links_children:
  assumes "live s d"
  shows "links (set_children d cs s) u + count_list (map snd (children (v_data (vn s d)))) u = links s u + count_list (map snd cs) u"
  using links_upd [OF live_lt(1) [OF assms], of "\<lambda>n. n\<lparr>v_data := (v_data n)\<lparr>children := cs\<rparr>, v_size := of_nat (length cs)\<rparr>" u] live_lt(2) [OF assms]
  by (simp add: entry_refs_def set_children_def)

lemma set_children_simps [simp]:
  "live (set_children d cs s) u = live s u" "stale (set_children d cs s) = stale s" "mount_refs (set_children d cs s) u = mount_refs s u"
  "v_ref (vn (set_children d cs s) u) = v_ref (vn s u)" "v_ops (vn (set_children d cs s) u) = v_ops (vn s u)"
  "v_mounted (vn (set_children d cs s) u) = v_mounted (vn s u)"
  by (auto simp: set_children_def live_upd live_def vn_upd simp del: vnodes_upd) (auto simp: live_def)

text \<open>A new entry and the reference it holds.\<close>

lemma refs_ok_link:
  assumes ok: "refs_ok s H" and d: "live s d" and c: "live s c"
  shows "refs_ok (vnode_ref c (set_children d (children (v_data (vn s d)) @ [(nm, c)]) s)) H"
proof (rule refs_okI)
  let ?s = "set_children d (children (v_data (vn s d)) @ [(nm, c)]) s"
  have k: "links ?s u = links s u + (if u = c then 1 else 0)" for u using links_children [OF d, of "children (v_data (vn s d)) @ [(nm, c)]" u] by auto
  have s': "vnode_ref c ?s = upd_vnode c (\<lambda>n. n\<lparr>v_ref := v_ref n + 1\<rparr>) ?s" using c by (simp add: vnode_ref_def)
  have lk: "links (vnode_ref c ?s) u = links ?s u" for u
    using links_upd [of c ?s "\<lambda>n. n\<lparr>v_ref := v_ref n + 1\<rparr>" u] live_lt [of ?s c] c by (simp add: s' entry_refs_def)
  show "\<not> stale (vnode_ref c ?s)" using refs_okD(1) [OF ok] by (simp add: s')
  fix u
  have "counted s H u" using ok by (simp add: refs_ok_def)
  then show "counted (vnode_ref c ?s) H u"
    using c live_lt(1) [of ?s c] unfolding counted_def lk k live_ref [of ?s c u, simplified, OF c]
    by (auto simp: s' vn_upd simp del: vnodes_upd)
qed

text \<open>Without the entry its reference is one the caller holds.\<close>

lemma refs_ok_unlink:
  assumes ok: "refs_ok s H" and d: "live s d" and cs: "children (v_data (vn s d)) = as @ (nm, c) # bs"
  shows "refs_ok (set_children d (as @ bs) s) (hold H c)"
proof (rule refs_okI)
  let ?s = "set_children d (as @ bs) s"
  have k: "links ?s u + (if u = c then 1 else 0) = links s u" for u using links_children [OF d, of "as @ bs" u] by (auto simp: cs)
  have c: "live s c" by (rule entry_live [OF ok d, of nm]) (simp add: cs)
  show "\<not> stale ?s" using refs_okD(1) [OF ok] by simp
  fix u
  have "counted s H u" using ok by (simp add: refs_ok_def)
  then show "counted ?s (hold H c) u" using k [of u] c unfolding counted_def by (cases "u = c") auto
qed

section \<open>New vnodes\<close>

definition grown :: "vfs \<Rightarrow> vnode \<Rightarrow> vfs" where
  "grown s n = s\<lparr>vnodes := vnodes s @ [n], g_next_ino := g_next_ino s + 1\<rparr>"

lemma grown_upd: "upd_vnode (length (vnodes s)) g (grown s n) = grown s (g n)"
  by (simp add: grown_def upd_vnode_def)

lemma grown_live: "live (grown s n) u \<longleftrightarrow> live s u \<or> (u = length (vnodes s) \<and> v_live n)"
  by (auto simp: grown_def live_def nth_append)

lemma grown_old: "live s u \<Longrightarrow> vn (grown s n) u = vn s u"
  by (simp add: grown_def live_def nth_append)

lemma grown_new: "vn (grown s n) (length (vnodes s)) = n"
  by (simp add: grown_def)

lemma grown_links: "links (grown s n) u = links s u + entry_refs u n"
  by (simp add: grown_def links_def)

lemma grown_other [simp]: "mount_refs (grown s n) u = mount_refs s u" "stale (grown s n) = stale s"
  by (simp_all add: grown_def mount_refs_def)

lemma grown_frame: "refs_ok s H \<Longrightarrow> \<not> v_live n \<Longrightarrow> refs_ok (grown s n) H"
proof (rule refs_okI)
  assume ok: "refs_ok s H" and n: "\<not> v_live n"
  then show "\<not> stale (grown s n)" using refs_okD(1) by simp
  fix u
  have "counted s H u" using ok by (simp add: refs_ok_def)
  with n show "counted (grown s n) H u" by (auto simp: counted_def grown_live grown_old grown_links entry_refs_def)
qed

lemma refs_ok_new:
  assumes ok: "refs_ok s H" and n: "v_live n" "v_ref n = 1" "v_ops n \<noteq> Ops_null" "v_mounted n = None" "children (v_data n) = []"
  shows "refs_ok (grown s n) (H(length (vnodes s) := 1))"
proof (rule refs_okI)
  show "\<not> stale (grown s n)" using refs_okD(1) [OF ok] by simp
  fix u
  have c: "counted s H u" using ok by (simp add: refs_ok_def)
  have "\<not> live s (length (vnodes s))" by (simp add: live_def)
  with c n show "counted (grown s n) (H(length (vnodes s) := 1)) u"
    by (cases "u = length (vnodes s)") (auto simp: counted_def grown_live grown_old grown_new grown_links entry_refs_def)
qed

text \<open>What \<open>ramfs_alloc_vnode\<close> makes: no references, no operations, no entries.\<close>

definition blank :: "vnode \<Rightarrow> bool" where
  "blank n \<longleftrightarrow> v_live n \<and> v_mounted n = None \<and> children (v_data n) = []"

lemma alloc_vnode_cases:
  assumes "refs_ok s H" and "ramfs_alloc_vnode ty mode s = (r, s')"
  obtains (fail) "r = None" "refs_ok s' H"
  | (made) t n where "r = Some (length (vnodes t))" "s' = grown t n" "refs_ok t H" "vnodes t = vnodes s" "blank n" "v_type n = ty"
proof -
  obtain b1 s1 b2 s2 where k: "kmalloc s = (b1, s1)" "kmalloc s1 = (b2, s2)" by (metis prod.collapse)
  have ok: "refs_ok s1 H" "refs_ok s2 H" using refs_ok_kmalloc k assms(1) by blast+
  have v: "vnodes s1 = vnodes s" "vnodes s2 = vnodes s" using k by (auto simp: kmalloc_def)
  show thesis
  proof (cases "b1 \<and> b2")
    case True
    with assms(2) k have "r = Some (length (vnodes s2))" "s' = grown s2 (new_vnode ty mode s2)"
      by (simp_all add: ramfs_alloc_vnode_def grown_def)
    with made [OF _ _ ok(2) v(2)] show thesis by (simp add: blank_def new_vnode_def)
  next
    case False
    with assms(2) k ok fail show thesis by (auto simp: ramfs_alloc_vnode_def split: if_splits)
  qed
qed

section \<open>Operations\<close>

lemma live_same: "same_refs (vn s v) (g (vn s v)) \<Longrightarrow> live (upd_vnode v g s) u = live s u"
  unfolding live_upd by (auto simp: same_refs_def live_def)

lemma dir_grow_ok:
  assumes "refs_ok s H" and "ramfs_dir_grow d s = (r, s')"
  shows "refs_ok s' H" and "\<And>u. live s' u = live s u" and "\<And>u. same_refs (vn s u) (vn s' u)"
proof -
  obtain b t where k: "kmalloc s = (b, t)" by (metis prod.collapse)
  have t: "refs_ok t H" using refs_ok_kmalloc [OF assms(1) k] .
  have v: "vnodes t = vnodes s" using k by (auto simp: kmalloc_def)
  have same: "same_refs (vn t d) ((vn t d)\<lparr>v_data := (v_data (vn t d))\<lparr>child_cap := c\<rparr>\<rparr>)" for c by (simp add: same_refs_def)
  let ?upd = "\<lambda>c. upd_vnode d (\<lambda>n. n\<lparr>v_data := (v_data n)\<lparr>child_cap := c\<rparr>\<rparr>) t"
  have c: "s' = s \<or> s' = t \<or> (\<exists>c. s' = ?upd c)" using assms(2) k by (auto simp: ramfs_dir_grow_def Let_def split: if_splits)
  have u: "refs_ok (?upd c) H" for c by (rule refs_ok_same [OF t]) (rule same)
  show "refs_ok s' H" using c assms(1) t u by blast
  show "live s' x = live s x" for x
  proof -
    have "live t x = live s x" by (simp add: live_def v)
    moreover have "live (?upd c) x = live t x" for c by (rule live_same) (rule same)
    ultimately show ?thesis using c by auto
  qed
  show "same_refs (vn s x) (vn s' x)" for x
    using c by (auto simp: v vn_upd same_refs_def simp del: vnodes_upd split: if_splits)
qed

text \<open>A new entry, or an error that leaves the references of all vnodes alone.\<close>

lemma add_child_ok:
  assumes ok: "refs_ok s H" and d: "live s d" and c: "live s c" and add: "ramfs_dir_add_child d nm c s = (r, s')"
  shows "refs_ok s' H" and "r = Inl e \<Longrightarrow> live s' c \<and> same_refs (vn s c) (vn s' c)"
proof -
  let ?full = "length (children (v_data (vn s d))) \<ge> child_cap (v_data (vn s d))"
  obtain r1 t where g: "(if ?full then ramfs_dir_grow d s else (Inr (), s)) = (r1, t)" by (metis prod.collapse)
  have t: "refs_ok t H" "live t u = live s u" "same_refs (vn s u) (vn t u)" for u
    using g dir_grow_ok [OF ok, of d r1 t] ok by (auto simp: same_refs_def split: if_splits)
  obtain b t2 where k: "kmalloc t = (b, t2)" by (metis prod.collapse)
  have v: "vnodes t2 = vnodes t" using k by (auto simp: kmalloc_def)
  have t2: "refs_ok t2 H" "live t2 u = live s u" for u using refs_ok_kmalloc [OF t(1) k] t(2) v by (simp_all add: live_def)
  have res: "(r, s') = (case r1 of Inl e \<Rightarrow> (Inl e, t) | Inr _ \<Rightarrow> if \<not> b then (Inl ENOMEM, t2)
      else (Inr (), vnode_ref c (set_children d (children (v_data (vn t2 d)) @ [(nm, c)]) t2)))"
    using add g k by (cases r1) (auto simp: ramfs_dir_add_child_def)
  show "refs_ok s' H" using res t(1) t2(1) refs_ok_link [OF t2(1)] d c by (auto simp: t2(2) split: sum.splits if_splits)
  show "r = Inl e \<Longrightarrow> live s' c \<and> same_refs (vn s c) (vn s' c)"
    using res c t2(2) t(2,3) v by (auto split: sum.splits if_splits)
qed

lemma dir_lookup_exact:
  assumes "refs_ok s H" and "live s d"
  shows "exact (ramfs_dir_lookup d nm) (case child_of nm (children (v_data (vn s d))) of None \<Rightarrow> Inl ENOENT | Some v \<Rightarrow> Inr v) s"
  using entry_live [OF assms child_of_entry] by (auto simp: exact_def ramfs_dir_lookup_def split: option.splits)

text \<open>The common end of \<open>create\<close>, \<open>mkdir\<close> and \<open>symlink\<close>: a vnode with one reference gets its entry, or is freed again.\<close>

lemma enter_new_ok:
  assumes ok: "refs_ok t H" and d: "live t d" and n: "v_live n" "v_ref n = 1" "v_ops n \<noteq> Ops_null" "v_mounted n = None" "children (v_data n) = []"
    and add: "ramfs_dir_add_child d nm (length (vnodes t)) (grown t n) = (r, s')"
  shows "r = Inl e \<Longrightarrow> refs_ok (kfree_vnode (length (vnodes t)) s') H" and "r = Inr () \<Longrightarrow> refs_ok s' (hold H (length (vnodes t)))"
proof -
  let ?c = "length (vnodes t)"
  have zero: "H ?c = 0" using refs_okD(6) [OF ok, of ?c] by (auto simp: live_def)
  have new: "refs_ok (grown t n) (hold H ?c)" using refs_ok_new [OF ok n] by (simp add: zero)
  have c: "live (grown t n) ?c" by (rule hold_live [OF new])
  have d': "live (grown t n) d" using d by (simp add: grown_live)
  note out = add_child_ok [OF new d' c add]
  show "r = Inr () \<Longrightarrow> refs_ok s' (hold H ?c)" using out(1) .
  assume "r = Inl e"
  with out(2) have "live s' ?c" "same_refs n (vn s' ?c)" by (simp_all add: grown_new)
  with refs_ok_release [OF out(1), of ?c "\<lambda>n. n\<lparr>v_live := False\<rparr>"] n show "refs_ok (kfree_vnode ?c s') H"
    by (simp add: same_refs_def kfree_vnode_def zero) (erule refs_ok_cong, simp add: zero)
qed

lemma dir_create_ok:
  assumes ok: "refs_ok s H" and d: "live s d" and cr: "ramfs_dir_create d nm mode s = (r, s')"
  shows "refs_ok s' (case r of Inl _ \<Rightarrow> H | Inr v \<Rightarrow> hold H v)"
proof (cases "child_of nm (children (v_data (vn s d)))")
  case (Some v)
  with cr show ?thesis using refs_ok_ref [OF ok entry_live [OF ok d child_of_entry [OF Some]]]
    by (auto simp: ramfs_dir_create_def ramfs_dir_lookup_def)
next
  case None
  obtain a t where al: "ramfs_alloc_vnode VFS_NODE_FILE (if mode \<noteq> 0 then mode else 0x1A4) s = (a, t)" by (metis prod.collapse)
  from ok al show ?thesis
  proof (cases rule: alloc_vnode_cases)
    case fail
    with cr None al show ?thesis by (auto simp: ramfs_dir_create_def ramfs_dir_lookup_def)
  next
    case (made t0 n)
    let ?n = "n\<lparr>v_ops := Ramfs_file_ops, v_ref := 1\<rparr>" and ?c = "length (vnodes t0)"
    obtain q s2 where add: "ramfs_dir_add_child d nm ?c (grown t0 ?n) = (q, s2)" by (metis prod.collapse)
    have "live t0 d" using d made(4) by (simp add: live_def)
    note out = enter_new_ok [OF made(3) this _ _ _ _ _ add]
    have "(r, s') = (case q of Inl e \<Rightarrow> (Inl e, kfree_vnode ?c s2) | Inr _ \<Rightarrow> (Inr ?c, s2))"
      using cr None al made(1,2) add by (simp add: ramfs_dir_create_def ramfs_dir_lookup_def grown_upd Let_def split: sum.splits)
    with out made(5) show ?thesis by (auto simp: blank_def split: sum.splits)
  qed
qed

lemma dir_mkdir_ok:
  assumes ok: "refs_ok s H" and d: "live s d"
  shows "refs_ok (snd (ramfs_dir_mkdir d nm mode s)) H"
proof (cases "child_of nm (children (v_data (vn s d)))")
  case (Some v)
  then show ?thesis using unref_ref_ok [OF ok entry_live [OF ok d child_of_entry [OF Some]]] ok
    by (simp add: ramfs_dir_mkdir_def ramfs_dir_lookup_def)
next
  case None
  obtain a t where al: "ramfs_alloc_vnode VFS_NODE_DIR (if mode \<noteq> 0 then mode else 0x1ED) s = (a, t)" by (metis prod.collapse)
  from ok al show ?thesis
  proof (cases rule: alloc_vnode_cases)
    case fail
    with None al show ?thesis by (simp add: ramfs_dir_mkdir_def ramfs_dir_lookup_def)
  next
    case (made t0 n)
    let ?n = "n\<lparr>v_ops := Ramfs_dir_ops, v_ref := 1\<rparr>" and ?c = "length (vnodes t0)"
    obtain q s2 where add: "ramfs_dir_add_child d nm ?c (grown t0 ?n) = (q, s2)" by (metis prod.collapse)
    have "live t0 d" using d made(4) by (simp add: live_def)
    note out = enter_new_ok [OF made(3) this _ _ _ _ _ add]
    have "snd (ramfs_dir_mkdir d nm mode s) = (case q of Inl e \<Rightarrow> kfree_vnode ?c s2 | Inr _ \<Rightarrow> vnode_unref ?c s2)"
      using None al made(1,2) add by (simp add: ramfs_dir_mkdir_def ramfs_dir_lookup_def grown_upd Let_def split: sum.splits)
    with out made(5) refs_ok_drop show ?thesis by (auto simp: blank_def split: sum.splits)
  qed
qed

lemma dir_symlink_ok:
  assumes ok: "refs_ok s H" and d: "live s d"
  shows "refs_ok (snd (ramfs_dir_symlink d nm target s)) H"
proof (cases "child_of nm (children (v_data (vn s d)))")
  case (Some v)
  then show ?thesis using unref_ref_ok [OF ok entry_live [OF ok d child_of_entry [OF Some]]] ok
    by (simp add: ramfs_dir_symlink_def ramfs_dir_lookup_def)
next
  case None
  obtain a t where al: "ramfs_alloc_vnode VFS_NODE_SYMLINK 0x1FF s = (a, t)" by (metis prod.collapse)
  from ok al show ?thesis
  proof (cases rule: alloc_vnode_cases)
    case fail
    with None al show ?thesis by (simp add: ramfs_dir_symlink_def ramfs_dir_lookup_def)
  next
    case (made t0 n)
    let ?n = "n\<lparr>v_data := (v_data n)\<lparr>link_target := Some target\<rparr>, v_ops := Ramfs_symlink_ops, v_size := of_nat (length target), v_ref := 1\<rparr>"
    define t1 where "t1 = t0\<lparr>mem_asked := mem_asked t0 + 1\<rparr>"
    let ?c = "length (vnodes t1)"
    have v: "vnodes t1 = vnodes t0" by (simp add: t1_def)
    have t: "refs_ok t1 H" by (rule refs_ok_frame [OF made(3)]) (simp_all add: t1_def)
    have k: "kmalloc t = (mem t0 (mem_asked t0), grown t1 n)" by (simp add: made(2) kmalloc_def grown_def t1_def)
    obtain q s2 where add: "ramfs_dir_add_child d nm ?c (grown t1 ?n) = (q, s2)" by (metis prod.collapse)
    have "live t1 d" using d made(4) by (simp add: live_def v)
    note out = enter_new_ok [OF t this _ _ _ _ _ add]
    have "refs_ok (kfree_vnode ?c (grown t1 n)) H" unfolding kfree_vnode_def grown_upd by (rule grown_frame [OF t]) simp
    moreover have "snd (ramfs_dir_symlink d nm target s) = (if \<not> mem t0 (mem_asked t0) then kfree_vnode ?c (grown t1 n)
        else case q of Inl e \<Rightarrow> kfree_vnode ?c s2 | Inr _ \<Rightarrow> vnode_unref ?c s2)"
      using None al made(1) k add by (simp add: ramfs_dir_symlink_def ramfs_dir_lookup_def grown_upd v [symmetric] Let_def split: sum.splits)
    ultimately show ?thesis using out made(5) refs_ok_drop by (auto simp: blank_def split: sum.splits)
  qed
qed

section \<open>Removing an entry\<close>

lemma unref_list_dead: "d < length (vnodes s) \<Longrightarrow> \<not> live s d \<Longrightarrow> \<not> live (unref_list vs s) d"
proof (induction vs s rule: unref_list.induct)
  case (1 s)
  then show ?case by (simp add: unref_list.simps)
next
  case (2 v vs s)
  show ?case
  proof (cases "live s v")
    case False
    with "2.IH"(1) "2.prems" show ?thesis by (simp add: unref_list.simps(2) live_def)
  next
    case True
    with "2.prems"(2) have "v \<noteq> d" by blast
    with "2.IH"(2,3) "2.prems" True show ?thesis by (auto simp: unref_list.simps(2) live_upd)
  qed
qed

text \<open>While the directory stays, the release of its entry and the removal from its list can be swapped.\<close>

definition entries_only :: "(vnode \<Rightarrow> vnode) \<Rightarrow> bool" where
  "entries_only g \<longleftrightarrow> (\<forall>n r. v_ref (g n) = v_ref n \<and> v_live (g n) = v_live n \<and> v_ops (g n) = v_ops n \<and> g (n\<lparr>v_ref := r\<rparr>) = (g n)\<lparr>v_ref := r\<rparr>)"

lemma unref_list_swap:
  assumes g: "entries_only g"
  shows "d < length (vnodes s) \<Longrightarrow> live (unref_list vs (upd_vnode d g s)) d \<Longrightarrow>
    unref_list vs (upd_vnode d g s) = upd_vnode d g (unref_list vs s)"
proof (induction vs s rule: unref_list.induct)
  case (1 s)
  then show ?case by (simp add: unref_list.simps)
next
  case (2 v vs s)
  let ?t = "upd_vnode d g s" and ?dec = "\<lambda>n. n\<lparr>v_ref := v_ref n - 1\<rparr>"
  let ?free = "\<lambda>n. n\<lparr>v_ref := v_ref n - 1, v_live := False\<rparr>"
  have lv: "live ?t v = live s v" using g unfolding live_upd by (auto simp: entries_only_def live_def)
  have same: "v_ref (vn ?t v) = v_ref (vn s v)" "v_ops (vn ?t v) = v_ops (vn s v)"
    using g by (auto simp: vn_upd entries_only_def simp del: vnodes_upd)
  show ?case
  proof (cases "live s v")
    case False
    have "?t\<lparr>stale := True\<rparr> = upd_vnode d g (s\<lparr>stale := True\<rparr>)" by (simp add: upd_vnode_def)
    with "2.IH"(1) [OF False] "2.prems" False lv show ?thesis by (simp add: unref_list.simps(2))
  next
    case live: True
    show ?thesis
    proof (cases "v_ref (vn s v) \<le> 1 \<and> v_ops (vn s v) \<noteq> Ops_null")
      case True
      have unf: "unref_list (v # vs) ?t = unref_list (map snd (children (v_data (vn ?t v))) @ vs) (upd_vnode v ?free ?t)"
        using live True lv same by (simp add: unref_list.simps(2))
      have "v \<noteq> d"
      proof
        assume "v = d"
        then have "\<not> live (upd_vnode v ?free ?t) d" by (simp add: live_upd)
        from unref_list_dead [OF _ this] "2.prems" unf show False by simp
      qed
      then have "vn ?t v = vn s v" "upd_vnode v ?free ?t = upd_vnode d g (upd_vnode v ?free s)"
        by (simp_all add: upd_vnode_commute [of v d])
      with "2.IH"(2) [OF _ True] "2.prems" live True unf show ?thesis by (simp add: unref_list.simps(2) del: vnodes_upd) (simp)
    next
      case False
      have "upd_vnode v ?dec ?t = upd_vnode d g (upd_vnode v ?dec s)"
        using g by (cases "v = d") (simp_all add: upd_vnode_twice upd_vnode_commute [of v d] entries_only_def)
      with "2.IH"(3) [OF _ False] "2.prems" live False lv same show ?thesis by (auto simp: unref_list.simps(2))
    qed
  qed
qed

lemma dir_unlink_ok:
  assumes ok: "refs_ok s H" and d: "0 < H d"
  shows "refs_ok (snd (ramfs_dir_unlink d nm s)) H"
proof (cases "find_slot (\<lambda>c. fst c = nm) (children (v_data (vn s d)))")
  case None
  then show ?thesis using ok by (simp add: ramfs_dir_unlink_def)
next
  case (Some i)
  let ?cs = "children (v_data (vn s d))"
  let ?rest = "take i ?cs @ drop (Suc i) ?cs" and ?c = "snd (?cs ! i)"
  let ?g = "\<lambda>n. n\<lparr>v_data := (v_data n)\<lparr>children := ?rest\<rparr>, v_size := of_nat (length ?rest)\<rparr>"
  have live: "live s d" by (rule refs_okD(6) [OF ok d])
  have "?cs = take i ?cs @ (fst (?cs ! i), ?c) # drop (Suc i) ?cs" using find_slot_lt [OF Some] by (simp add: id_take_nth_drop)
  from refs_ok_drop [OF refs_ok_unlink [OF ok live this]] have ok': "refs_ok (vnode_unref ?c (set_children d ?rest s)) H" .
  have "live (vnode_unref ?c (set_children d ?rest s)) d" by (rule refs_okD(6) [OF ok' d])
  then have "vnode_unref ?c (set_children d ?rest s) = set_children d ?rest (vnode_unref ?c s)"
    unfolding vnode_unref_def set_children_def by (intro unref_list_swap live_lt(1) [OF live]) (simp_all add: entries_only_def)
  with ok' Some show ?thesis by (simp add: ramfs_dir_unlink_def Let_def)
qed

end
