(* ===== verification/Vfs_Calls.thy ===== *)
theory Vfs_Calls
  imports Vfs_Entries
begin

text \<open>
  The operations on paths and mounts keep the reference counts. What they share is a contract: an operation
  that yields a vnode yields it with one reference, which the caller owns and gives back.
\<close>

section \<open>Operations that yield a vnode\<close>

locale vnode_source =
  fixes get :: "vfs \<Rightarrow> nat result \<times> vfs" and ready :: "vfs \<Rightarrow> bool"
  assumes get_ok: "refs_ok s H \<Longrightarrow> ready s \<Longrightarrow> get s = (r, s') \<Longrightarrow> refs_ok s' (case r of Inl _ \<Rightarrow> H | Inr v \<Rightarrow> hold H v)"
begin

lemma get_Inl: "refs_ok s H \<Longrightarrow> ready s \<Longrightarrow> get s = (Inl e, s') \<Longrightarrow> refs_ok s' H"
  using get_ok [of s H "Inl e" s'] by simp

lemma get_Inr: "refs_ok s H \<Longrightarrow> ready s \<Longrightarrow> get s = (Inr v, s') \<Longrightarrow> refs_ok s' (hold H v)"
  using get_ok [of s H "Inr v" s'] by simp

text \<open>Whoever works on the vnode while holding the reference and then drops it has kept the counts.\<close>

lemma use_ok:
  assumes "refs_ok s H" and "ready s" and "\<And>v s'. refs_ok s' (hold H v) \<Longrightarrow> refs_ok (snd (work v s')) (hold H v)"
  shows "refs_ok (snd (case get s of (Inl e, s') \<Rightarrow> (Inl e, s') | (Inr v, s') \<Rightarrow> (case work v s' of (r, s') \<Rightarrow> (r, vnode_unref v s')))) H"
proof (cases "get s")
  case (Pair r s')
  show ?thesis
  proof (cases r)
    case (Inl e)
    then show ?thesis using get_Inl [OF assms(1,2)] Pair by simp
  next
    case (Inr v)
    have "refs_ok (snd (work v s')) (hold H v)" using assms(3) get_Inr [OF assms(1,2)] Pair Inr by simp
    from refs_ok_drop [OF this] show ?thesis using Pair Inr by (cases "work v s'") simp
  qed
qed

end

lemma exact_ok:
  "exact oper q s \<Longrightarrow> refs_ok s H \<Longrightarrow> oper s = (r, s') \<Longrightarrow> refs_ok s' (case r of Inl _ \<Rightarrow> H | Inr v \<Rightarrow> hold H v)"
  using refs_ok_ref by (auto simp: exact_def split: sum.splits)

interpretation by_path: vnode_source "vfs_lookup path" "\<lambda>_. True"
  by unfold_locales (metis exact_ok lookup_path_exact_of vfs_lookup_def)

interpretation by_path_nofollow: vnode_source "vfs_lookup_nofollow path" "\<lambda>_. True"
  by unfold_locales (metis exact_ok lookup_path_exact_of vfs_lookup_nofollow_def)

interpretation by_name: vnode_source "ramfs_dir_lookup d nm" "\<lambda>s. live s d"
  by unfold_locales (rule exact_ok [OF dir_lookup_exact])

interpretation by_create: vnode_source "ramfs_dir_create d nm mode" "\<lambda>s. live s d"
  by unfold_locales (rule dir_create_ok)

text \<open>The look-up alone: what it answers and what it does to the state.\<close>

lemma lookup_cases:
  assumes "refs_ok s H"
  obtains (err) e where "vfs_lookup path s = (Inl e, s)" "resolve_path s path True 0 = Inl e"
  | (node) v where "vfs_lookup path s = (Inr v, vnode_ref v s)" "live s v" "resolve_path s path True 0 = Inr v"
  using lookup_path_exact_of [OF assms, of path True 0] unfolding vfs_lookup_def exact_def by (cases "resolve_path s path True 0") auto

lemma lookup_nofollow_cases:
  assumes "refs_ok s H"
  obtains (err) e where "vfs_lookup_nofollow path s = (Inl e, s)" "resolve_path s path False 0 = Inl e"
  | (node) v where "vfs_lookup_nofollow path s = (Inr v, vnode_ref v s)" "live s v" "resolve_path s path False 0 = Inr v"
  using lookup_path_exact_of [OF assms, of path False 0] unfolding vfs_lookup_nofollow_def exact_def by (cases "resolve_path s path False 0") auto

lemma open_create_ok:
  assumes ok: "refs_ok s H" and op: "open_create path mode s = (r, s')"
  shows "refs_ok s' (case r of Inl _ \<Rightarrow> H | Inr v \<Rightarrow> hold H v)"
proof (cases "split_parent path")
  case (Inl e)
  with op ok show ?thesis by (auto simp: open_create_def)
next
  case (Inr a)
  obtain dirpath nm where a: "a = (dirpath, nm)" by (cases a)
  from ok show ?thesis
  proof (cases rule: lookup_cases [of _ _ dirpath])
    case (err e)
    show ?thesis using op ok Inr a err(1) by (auto simp: open_create_def)
  next
    case (node d)
    have held: "refs_ok (vnode_ref d s) (hold H d)" by (rule refs_ok_ref [OF ok node(2)])
    obtain q t where cr: "ramfs_dir_create d nm mode (vnode_ref d s) = (q, t)" by (metis prod.collapse)
    have "refs_ok t (case q of Inl _ \<Rightarrow> hold H d | Inr v \<Rightarrow> hold (hold H d) v)"
      using by_create.get_ok [OF held hold_live [OF held] cr] .
    then have "refs_ok (vnode_unref d t) (case q of Inl _ \<Rightarrow> H | Inr v \<Rightarrow> hold H v)"
      by (cases q) (auto intro: refs_ok_drop simp: fun_upd_twist elim!: refs_ok_cong [THEN refs_ok_drop] split: if_splits)
    with op Inr a node(1) cr refs_ok_drop [OF held] show ?thesis by (auto simp: open_create_def split: if_splits)
  qed
qed

lemma open_node_ok:
  assumes ok: "refs_ok s H" and op: "open_node path flags mode s = (r, s')"
  shows "refs_ok s' (case r of Inl _ \<Rightarrow> H | Inr v \<Rightarrow> hold H v)"
  using ok
proof (cases rule: lookup_cases [of _ _ path])
  case (err e)
  show ?thesis using op ok err(1) open_create_ok [OF ok, of path mode r s'] by (auto simp: open_node_def split: if_splits)
next
  case (node v)
  show ?thesis using op node(1) refs_ok_ref [OF ok node(2)] unref_ref_ok [OF ok node(2)] ok by (auto simp: open_node_def split: if_splits)
qed

interpretation by_open: vnode_source "open_node path flags mode" "\<lambda>_. True"
  by unfold_locales (rule open_node_ok)

section \<open>Data\<close>

text \<open>Reading and writing the bytes of a file changes no reference.\<close>

lemma refs_ok_wild: "refs_ok s H \<Longrightarrow> refs_ok (s\<lparr>wild := x\<rparr>) H"
  by (erule refs_ok_frame) simp_all

lemma alloc_pages_frame:
  "alloc_pages n s = (b, s') \<Longrightarrow> vnodes s' = vnodes s \<and> g_mounts s' = g_mounts s \<and> stale s' = stale s \<and> wild s' = wild s \<and> clock s' = clock s"
proof (induction n arbitrary: s)
  case (Suc n)
  show ?case using Suc.prems Suc.IH [of "snd (kmalloc s)"] by (auto simp: kmalloc_def split: if_splits prod.splits)
qed simp

lemma ensure_chunks_ok:
  assumes ok: "refs_ok s H"
  shows "refs_ok (snd (ramfs_ensure_chunks v need s)) H"
proof -
  have frame: "refs_ok t' H" if "alloc_pages n t = (b, t')" "refs_ok t H" for n t b t'
    using alloc_pages_frame [OF that(1)] refs_ok_frame [OF that(2)] by simp
  have upd: "refs_ok (upd_vnode v g t) H" if "refs_ok t H" "\<And>n. same_refs n (g n)" for g t by (rule refs_ok_same [OF that(1)]) (rule that(2))
  show ?thesis using ok by (auto simp: ramfs_ensure_chunks_def Let_def same_refs_def intro!: upd intro: frame refs_ok_kmalloc split: prod.splits)
qed

lemma file_write_ok:
  assumes ok: "refs_ok s H"
  shows "refs_ok (snd (ramfs_file_write v buf off s)) H"
proof -
  obtain r t where e: "ramfs_ensure_chunks v (unat ((off + of_nat (length buf) + of_nat RAMFS_CHUNK_SIZE - 1) div of_nat RAMFS_CHUNK_SIZE)) s = (r, t)"
    by (metis prod.collapse)
  have t: "refs_ok t H" using ensure_chunks_ok [OF ok] e by (metis snd_conv)
  have upd: "refs_ok (upd_vnode v g t') H" if "refs_ok t' H" "\<And>n. same_refs n (g n)" for g t' by (rule refs_ok_same [OF that(1)]) (rule that(2))
  show ?thesis using ok t e by (auto simp: ramfs_file_write_def Let_def same_refs_def intro!: upd refs_ok_wild split: sum.splits prod.splits)
qed

lemma same_tree_ok: "refs_ok s H \<Longrightarrow> (\<And>n. same_refs n (g n)) \<Longrightarrow> refs_ok (upd_vnode v g s) H"
  by (erule refs_ok_same)

lemma file_truncate_ok: "refs_ok s H \<Longrightarrow> refs_ok (ramfs_file_truncate v n s) H"
  by (auto simp: ramfs_file_truncate_def ramfs_free_chunks_def Let_def same_refs_def intro!: same_tree_ok)

lemma trunc_node_ok: "refs_ok s H \<Longrightarrow> refs_ok (trunc_node v s) H"
  by (auto simp: trunc_node_def same_refs_def intro!: same_tree_ok file_truncate_ok)

lemma truncate_node_ok: "refs_ok s H \<Longrightarrow> refs_ok (snd (truncate_node v n s)) H"
  by (auto simp: truncate_node_def same_refs_def intro!: same_tree_ok file_truncate_ok)

section \<open>Paths\<close>

lemma same_refs_attrs [simp]: "same_refs n (chmod_node m n)" "same_refs n (chown_node u g n)" "same_refs n (time_node a b n)"
  by (simp_all add: chmod_node_def chown_node_def time_node_def same_refs_def)

lemma on_path_ok:
  assumes "refs_ok s H" and "\<And>n. same_refs n (g n)"
  shows "refs_ok (snd (on_path g path s)) H"
  using by_path.use_ok [OF assms(1), of "\<lambda>v s. (Inr (), upd_vnode v g s)" path] same_tree_ok [OF _ assms(2)]
  by (auto simp: on_path_def split: prod.splits sum.splits)

lemma vfs_truncate_ok: "refs_ok s H \<Longrightarrow> refs_ok (snd (vfs_truncate path n s)) H"
  using by_path.use_ok [of s H "\<lambda>v s. truncate_node v n s" path] truncate_node_ok by (simp add: vfs_truncate_def)

text \<open>A question about a path leaves the state as it was.\<close>

lemma vfs_stat_pure:
  assumes "refs_ok s H"
  shows "snd (vfs_stat path s) = s" and "snd (vfs_lstat path s) = s"
proof -
  show "snd (vfs_stat path s) = s" using assms
    by (cases rule: lookup_cases [of _ _ path]) (simp_all add: vfs_stat_def unref_ref_ok [OF assms])
  show "snd (vfs_lstat path s) = s" using assms
    by (cases rule: lookup_nofollow_cases [of _ _ path]) (simp_all add: vfs_lstat_def unref_ref_ok [OF assms])
qed

lemma check_target_pure: "refs_ok s H \<Longrightarrow> snd (check_target path w s) = s"
  by (cases rule: lookup_nofollow_cases [of s H path]) (simp_all add: check_target_def Let_def unref_ref_ok)

lemma vfs_readlink_pure: "refs_ok s H \<Longrightarrow> snd (vfs_readlink path n s) = s"
  by (cases rule: lookup_nofollow_cases [of s H path]) (simp_all add: vfs_readlink_def unref_ref_ok)

lemma in_parent_ok:
  assumes "refs_ok s H" and "\<And>d nm s'. refs_ok s' (hold H d) \<Longrightarrow> refs_ok (snd (oper d nm s')) (hold H d)"
  shows "refs_ok (snd (in_parent oper path s)) H"
proof (cases "split_parent path")
  case (Inr a)
  then show ?thesis
    using by_path.use_ok [OF assms(1), of "\<lambda>d s. if v_ops (vn s d) \<noteq> Ramfs_dir_ops then (Inl ENOSYS, s) else oper d (snd a) s" "fst a"] assms(2)
    by (auto simp: in_parent_def split: prod.splits sum.splits if_splits)
qed (use assms(1) in \<open>simp add: in_parent_def\<close>)

lemma vfs_mkdir_ok: "refs_ok s H \<Longrightarrow> refs_ok (snd (vfs_mkdir path mode s)) H"
  unfolding vfs_mkdir_def by (erule in_parent_ok) (blast intro: dir_mkdir_ok hold_live)

lemma vfs_symlink_ok: "refs_ok s H \<Longrightarrow> refs_ok (snd (vfs_symlink target path s)) H"
  unfolding vfs_symlink_def by (erule in_parent_ok) (blast intro: dir_symlink_ok hold_live)

lemma unlink_in_ok:
  assumes "refs_ok s H"
  shows "refs_ok (snd (case vfs_lookup dirpath s of
      (Inl r, s) \<Rightarrow> (Inl r, s)
    | (Inr dir, s) \<Rightarrow> if v_ops (vn s dir) \<noteq> Ramfs_dir_ops then (Inl ENOSYS, vnode_unref dir s)
        else (case ramfs_dir_unlink dir nm s of (r, s) \<Rightarrow> (r, vnode_unref dir s)))) H"
  using by_path.use_ok [OF assms, of "\<lambda>d s. if v_ops (vn s d) \<noteq> Ramfs_dir_ops then (Inl ENOSYS, s) else ramfs_dir_unlink d nm s" dirpath]
    dir_unlink_ok [of _ "hold H _"]
  by (auto split: prod.splits sum.splits if_splits)

lemma remove_entry_ok:
  assumes ok: "refs_ok s H"
  shows "refs_ok (snd (remove_entry cur path w s)) H"
proof -
  obtain r where ct: "check_target path w s = (r, s)" using check_target_pure [OF ok] by (metis prod.collapse)
  show ?thesis unfolding remove_entry_def ct
    by (cases r; cases "syscall_perm_parent (stat_view s) cur path 2"; cases "syscall_perm_sticky (stat_view s) (lstat_view s) cur path")
      (simp_all add: Let_def ok refs_ok_wild [OF ok] unlink_in_ok [OF ok] del: not_None_eq)
qed

lemma rename_target_pure: "refs_ok s H \<Longrightarrow> snd (rename_target oldp newp s) = s"
  by (cases rule: lookup_cases [of s H newp]) (simp_all add: rename_target_def unref_ref_ok)

lemma rename_unlink_ok:
  assumes ok: "refs_ok s H"
  shows "refs_ok (rename_unlink oldp s) H"
proof -
  have "refs_ok (case vfs_lookup dirpath s of
      (Inl _, s) \<Rightarrow> s
    | (Inr dir, s) \<Rightarrow> vnode_unref dir (if v_ops (vn s dir) = Ramfs_dir_ops then snd (ramfs_dir_unlink dir nm s) else s)) H" for dirpath nm
    using ok
  proof (cases rule: lookup_cases [of _ _ dirpath])
    case (node d)
    have "refs_ok (vnode_ref d s) (hold H d)" by (rule refs_ok_ref [OF ok node(2)])
    with dir_unlink_ok [OF this] show ?thesis by (auto simp: node(1) intro: refs_ok_drop)
  qed (use ok in simp)
  then show ?thesis using ok by (simp add: rename_unlink_def Let_def)
qed

section \<open>Mounts\<close>

definition mounts_ok :: "vfs \<Rightarrow> bool" where
  "mounts_ok s \<longleftrightarrow> g_mounts s \<noteq> [] \<and> (m_used (hd (g_mounts s)) \<longrightarrow> m_path (hd (g_mounts s)) = [sep])"

lemma counted_mounts:
  assumes "counted s H v" and "vnodes s' = vnodes s" and "mount_refs s' v + H' v = mount_refs s v + H v"
  shows "counted s' H' v"
  using assms unfolding counted_def live_def links_def by auto

lemma mount_refs_upd_mount:
  "i < length (g_mounts s) \<Longrightarrow> mount_refs (upd_mount i g s) v + (if m_used (g_mounts s ! i) \<and> m_root (g_mounts s ! i) = v then 1 else 0) =
    mount_refs s v + (if m_used (g (g_mounts s ! i)) \<and> m_root (g (g_mounts s ! i)) = v then 1 else 0)"
proof -
  have len: "length (filter P xs) = sum_list (map (\<lambda>x. if P x then 1 else 0) xs)" for P and xs :: "vfs_mount list" by (induction xs) auto
  show "i < length (g_mounts s) \<Longrightarrow> ?thesis"
    unfolding mount_refs_def len upd_mount_def
    using sum_list_update_nat [of i "g_mounts s" "\<lambda>m. if m_used m \<and> m_root m = v then 1 else 0"] by simp
qed

lemma refs_ok_mount_slot:
  assumes ok: "refs_ok s H" and i: "i < length (g_mounts s)" "\<not> m_used (g_mounts s ! i)" and r: "live s root"
  shows "refs_ok (vnode_ref root (upd_mount i (\<lambda>m. m\<lparr>m_path := p, m_root := root, m_used := True, m_priv := None, m_unmount := False\<rparr>) s)) H"
proof -
  let ?t = "vnode_ref root s"
  let ?g = "\<lambda>m. m\<lparr>m_path := p, m_root := root, m_used := True, m_priv := None, m_unmount := False\<rparr>"
  have t: "refs_ok ?t (hold H root)" by (rule refs_ok_ref [OF ok r])
  have m: "g_mounts ?t = g_mounts s" by (simp add: vnode_ref_def r)
  have "refs_ok (upd_mount i ?g ?t) H"
  proof (rule refs_okI)
    show "\<not> stale (upd_mount i ?g ?t)" using refs_okD(1) [OF t] by (simp add: upd_mount_def)
    fix v
    have "counted ?t (hold H root) v" using t by (simp add: refs_ok_def)
    then show "counted (upd_mount i ?g ?t) H v"
      by (rule counted_mounts) (use mount_refs_upd_mount [of i ?t ?g v] i in \<open>auto simp: m upd_mount_def\<close>)
  qed
  moreover have "vnode_ref root (upd_mount i ?g s) = upd_mount i ?g ?t"
    using r by (simp add: vnode_ref_def upd_mount_def upd_vnode_def live_def)
  ultimately show ?thesis by simp
qed

lemma vfs_mount_ok:
  assumes ok: "refs_ok s H" and m: "mounts_ok s" and r: "live s root"
  shows "refs_ok (snd (vfs_mount path root s)) H" and "mounts_ok (snd (vfs_mount path root s))"
proof -
  let ?slot = "if path = [sep] then Some 0 else map_option Suc (find_slot (\<lambda>m. \<not> m_used m) (tl (g_mounts s)))"
  have free: "i < length (g_mounts s) \<and> \<not> m_used (g_mounts s ! i)" if "mount_at path s = None" "?slot = Some i" for i
  proof (cases "path = [sep]")
    case True
    with that m show ?thesis by (cases "g_mounts s") (auto simp: mounts_ok_def mount_at_def split: if_splits)
  next
    case False
    with that(2) find_slot_SomeD [of "\<lambda>m. \<not> m_used m" "tl (g_mounts s)"] show ?thesis by (auto simp: nth_tl)
  qed
  show "refs_ok (snd (vfs_mount path root s)) H"
    using ok free refs_ok_mount_slot [OF ok _ _ r] by (auto simp: vfs_mount_def split: option.splits)
  have head: "mounts_ok (vnode_ref root (upd_mount i g s))" if "i \<noteq> 0 \<or> m_path (g (g_mounts s ! i)) = [sep]" for i g
    using m that by (cases "g_mounts s"; cases i) (auto simp: mounts_ok_def vnode_ref_def upd_mount_def)
  show "mounts_ok (snd (vfs_mount path root s))"
    using m by (auto simp: vfs_mount_def VFS_MAX_PATH_def intro!: head split: option.splits if_splits)
qed

lemma unref_list_mounts: "unref_list vs (s\<lparr>g_mounts := x\<rparr>) = (unref_list vs s)\<lparr>g_mounts := x\<rparr>"
proof (induction vs s rule: unref_list.induct)
  case (2 v vs s)
  have l: "live (s\<lparr>g_mounts := x\<rparr>) v = live s v" by (simp add: live_def)
  have u: "upd_vnode v g (s\<lparr>g_mounts := x\<rparr>) = (upd_vnode v g s)\<lparr>g_mounts := x\<rparr>" for g by (simp add: upd_vnode_def)
  have st: "s\<lparr>g_mounts := x, stale := True\<rparr> = s\<lparr>stale := True\<rparr>\<lparr>g_mounts := x\<rparr>" by simp
  show ?case
  proof (cases "live s v")
    case True
    then show ?thesis using 2(2,3) by (auto simp: unref_list.simps(2) l u)
  next
    case False
    then show ?thesis using 2(1) by (simp add: unref_list.simps(2) l st)
  qed
qed (simp add: unref_list.simps)

lemma unref_list_g_mounts: "g_mounts (unref_list vs s) = g_mounts s"
proof (induction vs s rule: unref_list.induct)
  case (2 v vs s)
  then show ?case by (cases "live s v") (auto simp: unref_list.simps(2))
qed (simp add: unref_list.simps)

lemma refs_ok_upd_mount:
  assumes ok: "refs_ok s H" and g: "m_used (g (g_mounts s ! i)) = m_used (g_mounts s ! i)" "m_root (g (g_mounts s ! i)) = m_root (g_mounts s ! i)"
  shows "refs_ok (upd_mount i g s) H"
proof (cases "i < length (g_mounts s)")
  case True
  show ?thesis
  proof (rule refs_okI)
    show "\<not> stale (upd_mount i g s)" using refs_okD(1) [OF ok] by (simp add: upd_mount_def)
    fix v
    have "counted s H v" using ok by (simp add: refs_ok_def)
    then show "counted (upd_mount i g s) H v"
      by (rule counted_mounts) (use mount_refs_upd_mount [OF True, of g v] g in \<open>auto simp: upd_mount_def\<close>)
  qed
next
  case False
  then have "upd_mount i g s = s" by (simp add: upd_mount_def list_update_beyond)
  then show ?thesis using ok by simp
qed

lemma umount_slot_ok:
  assumes ok: "refs_ok s H" and i: "i < length (g_mounts s)" "m_used (g_mounts s ! i)"
  shows "refs_ok (upd_mount i (\<lambda>_. no_mount) (vnode_unref (m_root (g_mounts s ! i)) s)) H"
proof -
  let ?r = "m_root (g_mounts s ! i)" and ?t = "upd_mount i (\<lambda>_. no_mount) s"
  have "refs_ok ?t (hold H ?r)"
  proof (rule refs_okI)
    show "\<not> stale ?t" using refs_okD(1) [OF ok] by (simp add: upd_mount_def)
    fix v
    have "counted s H v" using ok by (simp add: refs_ok_def)
    then show "counted ?t (hold H ?r) v"
      by (rule counted_mounts) (use mount_refs_upd_mount [OF i(1), of "\<lambda>_. no_mount" v] i in \<open>auto simp: upd_mount_def no_mount_def\<close>)
  qed
  then have "refs_ok (vnode_unref ?r ?t) H" by (rule refs_ok_drop)
  moreover have "vnode_unref ?r ?t = upd_mount i (\<lambda>_. no_mount) (vnode_unref ?r s)"
    by (simp add: vnode_unref_def upd_mount_def unref_list_mounts unref_list_g_mounts)
  ultimately show ?thesis by simp
qed

lemma vfs_umount_ok:
  assumes ok: "refs_ok s H" and m: "mounts_ok s"
  shows "refs_ok (snd (vfs_umount path s)) H" and "mounts_ok (snd (vfs_umount path s))"
proof -
  have calls: "refs_ok (s\<lparr>fs_calls := x\<rparr>) H" for x by (rule refs_ok_frame [OF ok]) simp_all
  have slot: "refs_ok (upd_mount i (\<lambda>_. no_mount) (vnode_unref (m_root (g_mounts s ! i)) (s\<lparr>fs_calls := x\<rparr>))) H"
    "refs_ok (upd_mount i (\<lambda>_. no_mount) (vnode_unref (m_root (g_mounts s ! i)) s)) H" if "mount_at path s = Some i" for i x
    using umount_slot_ok [OF calls, of i] umount_slot_ok [OF ok, of i] find_slot_SomeD [OF that [unfolded mount_at_def]] by auto
  show "refs_ok (snd (vfs_umount path s)) H" using ok slot by (auto simp: vfs_umount_def Let_def split: option.splits)
  have "mounts_ok (upd_mount i (\<lambda>_. no_mount) (vnode_unref v s'))" if "g_mounts s' = g_mounts s" for i v s'
    using m that by (cases "g_mounts s"; cases i) (auto simp: mounts_ok_def upd_mount_def vnode_unref_def unref_list_g_mounts no_mount_def)
  then show "mounts_ok (snd (vfs_umount path s))" using m by (auto simp: vfs_umount_def Let_def split: option.splits)
qed

end
