(* ===== verification/Vfs_Sys.thy ===== *)
theory Vfs_Sys
  imports Vfs_Calls
begin

text \<open>
  Whole runs. The state of the virtual file system is well formed when the reference counts of all vnodes are
  exact, the open files being among the holders, and every call keeps it so.
\<close>

section \<open>Mounts stay\<close>

lemma mounts_ref [simp]: "g_mounts (vnode_ref v s) = g_mounts s"
  by (simp add: vnode_ref_def)

lemma mounts_unref [simp]: "g_mounts (vnode_unref v s) = g_mounts s"
  by (simp add: vnode_unref_def unref_list_g_mounts)

lemma mounts_simple [simp]: "g_mounts (set_children d cs s) = g_mounts s" "g_mounts (kfree_vnode v s) = g_mounts s"
  "g_mounts (snd (kmalloc s)) = g_mounts s"
  by (simp_all add: set_children_def kfree_vnode_def kmalloc_def)

lemma mounts_grow [simp]: "g_mounts (snd (ramfs_dir_grow d s)) = g_mounts s"
  by (simp add: ramfs_dir_grow_def kmalloc_def Let_def)

lemma mounts_add_child [simp]: "g_mounts (snd (ramfs_dir_add_child d nm c s)) = g_mounts s"
  using mounts_grow [of d s] by (auto simp: ramfs_dir_add_child_def kmalloc_def Let_def split: sum.splits prod.splits simp del: mounts_grow)

lemma mounts_alloc [simp]: "g_mounts (snd (ramfs_alloc_vnode ty m s)) = g_mounts s"
  by (simp add: ramfs_alloc_vnode_def kmalloc_def Let_def)

lemma mounts_lookup [simp]: "g_mounts (snd (ramfs_dir_lookup d nm s)) = g_mounts s"
  by (simp add: ramfs_dir_lookup_def split: option.splits)

lemmas mounts_step = mounts_alloc mounts_add_child mounts_lookup

lemma mounts_enter:
  "ramfs_alloc_vnode ty m s = (a, s') \<Longrightarrow> g_mounts s' = g_mounts s"
  "ramfs_dir_add_child d nm c s = (r, s') \<Longrightarrow> g_mounts s' = g_mounts s"
  "ramfs_dir_lookup d nm s = (q, s') \<Longrightarrow> g_mounts s' = g_mounts s"
  using mounts_step by (metis snd_conv)+

lemma mounts_dir [simp]:
  "g_mounts (snd (ramfs_dir_create d nm m s)) = g_mounts s" "g_mounts (snd (ramfs_dir_mkdir d nm m s)) = g_mounts s"
  "g_mounts (snd (ramfs_dir_symlink d nm t s)) = g_mounts s" "g_mounts (snd (ramfs_dir_unlink d nm s)) = g_mounts s"
  by (auto simp: ramfs_dir_create_def ramfs_dir_mkdir_def ramfs_dir_symlink_def ramfs_dir_unlink_def kmalloc_def Let_def
      dest!: mounts_enter split: sum.splits prod.splits option.splits)

lemma mounts_pages [simp]: "g_mounts (snd (alloc_pages n s)) = g_mounts s"
  using alloc_pages_frame [of n s] by (metis prod.collapse)

lemma mounts_ensure [simp]: "g_mounts (snd (ramfs_ensure_chunks v n s)) = g_mounts s"
  by (simp add: ramfs_ensure_chunks_def kmalloc_def Let_def split_beta)

lemma mounts_write [simp]: "g_mounts (snd (ramfs_file_write v bs off s)) = g_mounts s"
proof -
  obtain r t where e: "ramfs_ensure_chunks v (unat ((off + of_nat (length bs) + of_nat RAMFS_CHUNK_SIZE - 1) div of_nat RAMFS_CHUNK_SIZE)) s = (r, t)"
    by (metis prod.collapse)
  have "g_mounts t = g_mounts s" using mounts_ensure e by (metis snd_conv)
  then show ?thesis using e by (auto simp: ramfs_file_write_def Let_def split: sum.splits prod.splits)
qed

lemma mounts_data [simp]:
  "g_mounts (ramfs_file_truncate v z s) = g_mounts s" "g_mounts (trunc_node v s) = g_mounts s" "g_mounts (snd (truncate_node v z s)) = g_mounts s"
  by (simp_all add: ramfs_file_truncate_def trunc_node_def truncate_node_def Let_def)

lemma mounts_path:
  assumes ok: "refs_ok s H"
  shows "g_mounts (snd (vfs_lookup path s)) = g_mounts s"
  using ok by (cases rule: lookup_cases [of _ _ path]) simp_all

lemma mounts_lookupD: "refs_ok s H \<Longrightarrow> vfs_lookup path s = (r, s') \<Longrightarrow> g_mounts s' = g_mounts s"
  using mounts_path by (metis snd_conv)

lemma mounts_calls:
  assumes ok: "refs_ok s H"
  shows "g_mounts (snd (on_path g path s)) = g_mounts s" and "g_mounts (snd (vfs_truncate path z s)) = g_mounts s"
    and "(\<And>d nm s. g_mounts (snd (oper d nm s)) = g_mounts s) \<Longrightarrow> g_mounts (snd (in_parent oper path s)) = g_mounts s"
    and "g_mounts (snd (open_node path flags mode s)) = g_mounts s"
    and "g_mounts (rename_unlink path s) = g_mounts s"
proof -
  have tr: "g_mounts s2 = g_mounts s1" if "truncate_node v z s1 = (r, s2)" for v r s1 s2 using mounts_data(3) [of v z s1] that by simp
  have cr: "g_mounts s2 = g_mounts s1" if "ramfs_dir_create d nm mode s1 = (r, s2)" for d nm r s1 s2 using mounts_dir(1) [of d nm mode s1] that by simp
  show "g_mounts (snd (on_path g path s)) = g_mounts s"
    by (auto simp: on_path_def dest: mounts_lookupD [OF ok] split: prod.splits sum.splits)
  show "g_mounts (snd (vfs_truncate path z s)) = g_mounts s"
    by (auto simp: vfs_truncate_def dest!: mounts_lookupD [OF ok] tr split: prod.splits sum.splits)
  show "g_mounts (snd (in_parent oper path s)) = g_mounts s" if "\<And>d nm s. g_mounts (snd (oper d nm s)) = g_mounts s"
    by (auto simp: in_parent_def dest!: mounts_lookupD [OF ok] split: prod.splits sum.splits) (metis that snd_conv)
  have cm: "g_mounts (snd (open_create path mode s)) = g_mounts s"
    by (auto simp: open_create_def dest!: mounts_lookupD [OF ok] cr split: prod.splits sum.splits)
  show "g_mounts (snd (open_node path flags mode s)) = g_mounts s"
    using ok by (cases rule: lookup_cases [of _ _ path]) (simp_all add: open_node_def cm)
  show "g_mounts (rename_unlink path s) = g_mounts s"
    by (auto simp: rename_unlink_def Let_def dest!: mounts_lookupD [OF ok] split: prod.splits sum.splits)
qed

lemma mounts_remove:
  assumes ok: "refs_ok s H"
  shows "g_mounts (snd (remove_entry cur path w s)) = g_mounts s"
proof -
  obtain r where ct: "check_target path w s = (r, s)" using check_target_pure [OF ok] by (metis prod.collapse)
  have un: "g_mounts s2 = g_mounts s1" if "ramfs_dir_unlink d nm s1 = (r, s2)" for d nm r s1 s2 using mounts_dir(4) [of d nm s1] that by simp
  show ?thesis unfolding remove_entry_def ct
    by (cases r; cases "syscall_perm_parent (stat_view s) cur path 2"; cases "syscall_perm_sticky (stat_view s) (lstat_view s) cur path")
      (auto simp: Let_def dest!: mounts_lookupD [OF ok] un split: prod.splits sum.splits)
qed

section \<open>Well-formed states\<close>

definition file_refs :: "fd_state \<Rightarrow> nat \<Rightarrow> nat" where
  "file_refs d v = count_list (map f_vnode (open_files d)) (Some v)"

definition files_ok :: "fd_state \<Rightarrow> bool" where
  "files_ok d \<longleftrightarrow> (\<forall>f \<in> set (open_files d). 0 \<le> f_refcount f \<and> (f_refcount f = 0 \<longrightarrow> f_vnode f = None))"

text \<open>\<open>E\<close> are the references of a call that is running.\<close>

definition fsys_held :: "fsys \<Rightarrow> (nat \<Rightarrow> nat) \<Rightarrow> bool" where
  "fsys_held y E \<longleftrightarrow> mounts_ok (fs y) \<and> files_ok (fd y) \<and> refs_ok (fs y) (\<lambda>v. file_refs (fd y) v + E v)"

definition fsys_ok :: "fsys \<Rightarrow> bool" where
  "fsys_ok y \<longleftrightarrow> fsys_held y (\<lambda>_. 0)"

lemma fsys_heldD:
  assumes "fsys_held y E"
  shows "mounts_ok (fs y)" and "files_ok (fd y)" and "refs_ok (fs y) (\<lambda>v. file_refs (fd y) v + E v)"
  using assms by (simp_all add: fsys_held_def)

text \<open>A call that only works on the vnodes.\<close>

lemma held_fs:
  assumes "fsys_held y E" and "refs_ok s (\<lambda>v. file_refs (fd y) v + E' v)" and "g_mounts s = g_mounts (fs y)"
  shows "fsys_held (y\<lparr>fs := s\<rparr>) E'"
  using assms by (simp add: fsys_held_def mounts_ok_def)

section \<open>The table of open files\<close>

lemma file_refs_upd:
  assumes "i < length (open_files d)"
  shows "file_refs (upd_file i g d) v + (if f_vnode (open_files d ! i) = Some v then 1 else 0) =
    file_refs d v + (if f_vnode (g (open_files d ! i)) = Some v then 1 else 0)"
proof -
  have len: "count_list (map f_vnode xs) a = sum_list (map (\<lambda>f. if f_vnode f = a then 1 else 0) xs)" for xs a by (induction xs) auto
  show ?thesis unfolding file_refs_def len upd_file_def
    using sum_list_update_nat [OF assms, of "\<lambda>f. if f_vnode f = Some v then 1 else 0"] by simp
qed

lemma files_ok_upd:
  "files_ok d \<Longrightarrow> 0 \<le> f_refcount (g (open_files d ! i)) \<and> (f_refcount (g (open_files d ! i)) = 0 \<longrightarrow> f_vnode (g (open_files d ! i)) = None) \<Longrightarrow>
    files_ok (upd_file i g d)"
  unfolding files_ok_def upd_file_def by (auto dest!: set_update_subset_insert [THEN subsetD])

text \<open>The file a descriptor names, if it is open.\<close>

definition handle :: "nat \<Rightarrow> fsys \<Rightarrow> nat option" where
  "handle i y = (if i < length (open_files (fd y)) \<and> 0 < f_refcount (the_file y i) then Some i else None)"

lemma handle_Some: "handle i y = Some j \<longleftrightarrow> j = i \<and> i < length (open_files (fd y)) \<and> 0 < f_refcount (the_file y i)"
  by (auto simp: handle_def)

lemma file_vnode_handle:
  assumes "file_vnode (handle i y) y = Some (j, v)"
  shows "j = i" and "i < length (open_files (fd y))" and "0 < f_refcount (the_file y i)" and "f_vnode (the_file y i) = Some v"
  using assms by (auto simp: file_vnode_def handle_def split: if_splits)

lemma held_offset:
  assumes "fsys_held y E" and "0 < f_refcount (the_file y i)" and "i < length (open_files (fd y))"
  shows "fsys_held (set_offset i off y) E"
proof -
  have "file_refs (upd_file i (\<lambda>f. f\<lparr>f_offset := off\<rparr>) (fd y)) v = file_refs (fd y) v" for v
    using file_refs_upd [OF assms(3), of "\<lambda>f. f\<lparr>f_offset := off\<rparr>" v] by simp
  then show ?thesis using assms by (auto simp: fsys_held_def set_offset_def intro!: files_ok_upd)
qed

lemma held_get:
  assumes "fsys_held y E" and "0 < f_refcount (the_file y i)" and "i < length (open_files (fd y))"
  shows "fsys_held (y\<lparr>fd := file_get i (fd y)\<rparr>) E"
proof -
  have "file_refs (file_get i (fd y)) v = file_refs (fd y) v" for v
    using file_refs_upd [OF assms(3), of "\<lambda>f. f\<lparr>f_refcount := f_refcount f + 1\<rparr>" v] by (simp add: file_get_def)
  moreover have "files_ok (file_get i (fd y))" using assms unfolding file_get_def by (intro files_ok_upd) (auto simp: fsys_held_def)
  ultimately show ?thesis using assms by (simp add: fsys_held_def)
qed

lemma held_close:
  assumes held: "fsys_held y E" and h: "handle i y = Some i"
  shows "fsys_held (vfs_close i y) E"
proof -
  let ?f = "the_file y i"
  have i: "i < length (open_files (fd y))" and pos: "0 < f_refcount ?f" using h by (simp_all add: handle_Some)
  show ?thesis
  proof (cases "f_refcount ?f = 1")
    case False
    let ?g = "\<lambda>f. f\<lparr>f_refcount := f_refcount f - 1\<rparr>"
    have d: "vfs_file_free (Some i) (fd y) = upd_file i ?g (fd y)" using False by (simp add: vfs_file_free_def file_dec_def Let_def)
    have "file_refs (upd_file i ?g (fd y)) v = file_refs (fd y) v" for v using file_refs_upd [OF i, of ?g v] by simp
    moreover have "files_ok (upd_file i ?g (fd y))" using fsys_heldD(2) [OF held] pos False by (intro files_ok_upd) auto
    ultimately show ?thesis using held False by (simp add: fsys_held_def vfs_close_def d split: option.split)
  next
    case True
    let ?g = "\<lambda>f. f\<lparr>f_refcount := f_refcount f - 1, f_vnode := None\<rparr>"
    have of: "open_files (vfs_file_free (Some i) (fd y)) = open_files (upd_file i ?g (fd y))"
      using True i by (simp add: vfs_file_free_def file_dec_def file_finish_def upd_file_def)
    have refs: "file_refs (vfs_file_free (Some i) (fd y)) v + (if f_vnode ?f = Some v then 1 else 0) = file_refs (fd y) v" for v
      using file_refs_upd [OF i, of ?g v] unfolding file_refs_def of by simp
    have "files_ok (upd_file i ?g (fd y))" using fsys_heldD(2) [OF held] True by (intro files_ok_upd) auto
    then have ok: "files_ok (vfs_file_free (Some i) (fd y))" by (simp add: files_ok_def of)
    show ?thesis
    proof (cases "f_vnode ?f")
      case None
      with refs held ok show ?thesis by (simp add: fsys_held_def vfs_close_def)
    next
      case (Some v)
      let ?H = "\<lambda>u. file_refs (vfs_file_free (Some i) (fd y)) u + E u"
      have "hold ?H v u = file_refs (fd y) u + E u" for u using refs [of u] Some by (cases "u = v") simp_all
      then have "refs_ok (fs y) (hold ?H v)" by (rule refs_ok_cong [OF fsys_heldD(3) [OF held]])
      from refs_ok_drop [OF this] held ok True Some show ?thesis by (simp add: fsys_held_def vfs_close_def mounts_ok_def)
    qed
  qed
qed

lemma file_alloc_cases:
  assumes "files_ok d" and "vfs_file_alloc d = (r, d')"
  obtains (full) "r = None" "d' = d"
  | (slot) i where "r = Some i" "i < length (open_files d)" "f_vnode (open_files d ! i) = None"
      "d' = upd_file i (\<lambda>_. \<lparr>f_vnode = None, f_offset = 0, f_flags = 0, f_refcount = 1\<rparr>) d"
proof (cases "find_slot (\<lambda>f. f_refcount f = 0) (open_files d)")
  case None
  with assms(2) full show thesis by (simp add: vfs_file_alloc_def)
next
  case (Some i)
  from find_slot_SomeD [OF Some] assms(1) have "i < length (open_files d)" "f_vnode (open_files d ! i) = None" by (auto simp: files_ok_def)
  moreover have "r = Some i" "d' = upd_file i (\<lambda>_. \<lparr>f_vnode = None, f_offset = 0, f_flags = 0, f_refcount = 1\<rparr>) d"
    using assms(2) Some by (simp_all add: vfs_file_alloc_def)
  ultimately show thesis using slot by blast
qed

lemma held_open:
  assumes held: "fsys_held y E" and op: "vfs_open path flags mode y = (r, y')"
  shows "fsys_held y' E" and "r = Inr i \<Longrightarrow> handle i y' = Some i"
proof -
  let ?H = "\<lambda>v. file_refs (fd y) v + E v"
  have ok: "refs_ok (fs y) ?H" by (rule fsys_heldD(3) [OF held])
  obtain q s where node: "open_node path flags mode (fs y) = (q, s)" by (metis prod.collapse)
  have m: "g_mounts s = g_mounts (fs y)" using mounts_calls(4) [OF ok, of path flags mode] node by simp
  have "fsys_held y' E \<and> (\<forall>i. r = Inr i \<longrightarrow> handle i y' = Some i)"
  proof (cases q)
    case (Inl e)
    with by_open.get_Inl [OF ok _ node [unfolded Inl]] op node held_fs [OF held _ m] show ?thesis by (auto simp: vfs_open_def)
  next
    case (Inr v)
    have s: "refs_ok s (hold ?H v)" using by_open.get_Inr [OF ok] node Inr by simp
    have drop: "fsys_held (y\<lparr>fs := vnode_unref v s\<rparr>) E" by (rule held_fs [OF held refs_ok_drop [OF s]]) (simp add: m)
    obtain a d where al: "vfs_file_alloc (fd y) = (a, d)" by (metis prod.collapse)
    show ?thesis
    proof (cases "can_write flags \<and> v_type (vn s v) = VFS_NODE_DIR")
      case True
      with op node Inr drop show ?thesis by (auto simp: vfs_open_def)
    next
      case False
      from fsys_heldD(2) [OF held] al show ?thesis
      proof (cases rule: file_alloc_cases)
        case full
        with op node Inr False al drop show ?thesis by (auto simp: vfs_open_def)
      next
        case (slot i)
        let ?cut = "flag flags O_TRUNC \<and> can_write flags"
        let ?off = "if ?cut then 0 else if flag flags O_APPEND then v_size (vn s v) else 0"
        let ?g = "\<lambda>_. \<lparr>f_vnode = Some v, f_offset = ?off, f_flags = flags, f_refcount = 1\<rparr>"
        have y': "r = Inr i" "y' = y\<lparr>fs := if ?cut then trunc_node v s else s, fd := upd_file i ?g (fd y)\<rparr>"
          using op node Inr False al slot(1,2,4) by (simp_all add: vfs_open_def Let_def upd_file_def)
        have refs: "file_refs (upd_file i ?g (fd y)) u + E u = hold ?H v u" for u
          using file_refs_upd [OF slot(2), of ?g u] slot(3) by (auto split: if_splits)
        have "files_ok (upd_file i ?g (fd y))" using fsys_heldD(2) [OF held] by (intro files_ok_upd) auto
        moreover have "refs_ok (fs y') (hold ?H v)" using s trunc_node_ok [OF s, of v] by (simp add: y'(2))
        from refs_ok_cong [OF this refs] have "refs_ok (fs y') (\<lambda>u. file_refs (upd_file i ?g (fd y)) u + E u)" .
        ultimately have "fsys_held y' E" using fsys_heldD(1) [OF held] by (simp add: y'(2) fsys_held_def mounts_ok_def m)
        moreover have "handle i y' = Some i" using slot(2) by (simp add: handle_Some y'(2) upd_file_def)
        ultimately show ?thesis using y'(1) by simp
      qed
    qed
  qed
  then show "fsys_held y' E" and "r = Inr i \<Longrightarrow> handle i y' = Some i" by simp_all
qed

end
