(* ===== verification/Vfs_Run.thy ===== *)
theory Vfs_Run
  imports Vfs_Sys
begin

text \<open>
  Every call on files and paths returns and keeps the state well formed, and so does every sequence of them.
\<close>

section \<open>Calls on open files\<close>

lemma handle_simps [simp]: "handle i (set_offset j off y) = handle i y" "handle i (y\<lparr>fs := s\<rparr>) = handle i y"
  by (cases "i = j"; auto simp: handle_def set_offset_def upd_file_def)+

lemma offset_simps [simp]: "fs (set_offset i off y) = fs y" "open_files (fd (set_offset i off y)) = (open_files (fd y))[i := (the_file y i)\<lparr>f_offset := off\<rparr>]"
  by (simp_all add: set_offset_def upd_file_def)

lemma file_vnodeD:
  "file_vnode (handle i y) y = Some (j, v) \<Longrightarrow>
    j = i \<and> i < length (open_files (fd y)) \<and> 0 < f_refcount (the_file y i) \<and> f_vnode (the_file y i) = Some v"
  by (blast dest: file_vnode_handle)

lemma held_read: "fsys_held y E \<Longrightarrow> fsys_held (snd (vfs_read (handle i y) len y)) E"
  by (auto simp: vfs_read_def Let_def dest!: file_vnodeD intro!: held_offset split: option.split)

lemma held_seek: "fsys_held y E \<Longrightarrow> fsys_held (snd (vfs_seek (handle i y) off wh y)) E"
  by (auto simp: vfs_seek_def Let_def dest!: file_vnodeD intro!: held_offset split: option.split)

lemma held_write_node:
  assumes "fsys_held y E" and "ramfs_file_write v buf off (fs y) = (r, s)"
  shows "fsys_held (y\<lparr>fs := s\<rparr>) E"
  using held_fs [OF assms(1)] file_write_ok [OF fsys_heldD(3) [OF assms(1)], of v buf off] mounts_write [of v buf off "fs y"] assms(2) by simp

lemma held_write:
  assumes held: "fsys_held y E"
  shows "fsys_held (snd (vfs_write (handle i y) buf y)) E"
proof (cases "file_vnode (handle i y) y")
  case None
  then show ?thesis using held by (simp add: vfs_write_def)
next
  case (Some a)
  obtain j v where a: "a = (j, v)" by (cases a)
  note h = file_vnode_handle [OF Some [unfolded a]]
  let ?off = "if flag (f_flags (the_file y i)) O_APPEND then v_size (vn (fs y) v) else f_offset (the_file y i)"
  let ?y = "set_offset i ?off y"
  have y: "fsys_held ?y E" by (rule held_offset [OF held h(3,2)])
  obtain r s where w: "ramfs_file_write v buf ?off (fs ?y) = (r, s)" by (metis prod.collapse)
  have "fsys_held (?y\<lparr>fs := s\<rparr>) E" by (rule held_write_node [OF y w])
  moreover have "fsys_held (set_offset i off ?y\<lparr>fs := s\<rparr>) E" for off
    by (rule held_write_node [of _ _ v buf ?off r]) (use held_offset [OF y, of i off] h w in simp_all)
  ultimately show ?thesis using held Some a h(1) w by (auto simp: vfs_write_def Let_def split: sum.splits)
qed

lemma held_pwrite: "fsys_held y E \<Longrightarrow> fsys_held (snd (vfs_pwrite (handle i y) buf off y)) E"
  by (auto simp: vfs_pwrite_def dest: held_write_node split: option.split prod.splits)

lemma held_upd: "fsys_held y E \<Longrightarrow> (\<And>n. same_refs n (g n)) \<Longrightarrow> fsys_held (y\<lparr>fs := upd_vnode v g (fs y)\<rparr>) E"
  by (rule held_fs) (auto intro: same_tree_ok fsys_heldD(3))

lemma held_truncate_node:
  assumes "fsys_held y E" and "truncate_node v z (fs y) = (r, s)"
  shows "fsys_held (y\<lparr>fs := s\<rparr>) E"
  using held_fs [OF assms(1)] truncate_node_ok [OF fsys_heldD(3) [OF assms(1)], of v z] mounts_data(3) [of v z "fs y"] assms(2) by simp

lemma held_ftruncate: "fsys_held y E \<Longrightarrow> fsys_held (snd (vfs_ftruncate fp z y)) E"
  by (auto simp: vfs_ftruncate_def dest: held_truncate_node split: option.split prod.splits)

lemma held_fattr: "fsys_held y E \<Longrightarrow> fsys_held (snd (vfs_fchmod fp m y)) E" "fsys_held y E \<Longrightarrow> fsys_held (snd (vfs_fchown fp u g y)) E"
  by (auto simp: vfs_fchmod_def vfs_fchown_def intro!: held_upd split: option.split)

lemma held_fsync: "fsys_held y E \<Longrightarrow> fsys_held (snd (vfs_fsync fp y)) E"
  by (auto simp: vfs_fsync_def vfs_sync_all_def intro!: held_fs intro: refs_ok_frame [OF fsys_heldD(3)] split: option.split)

lemma held_readdir:
  assumes held: "fsys_held y E"
  shows "fsys_held (snd (vfs_readdir (handle i y) y)) E"
proof -
  have "fsys_held (y\<lparr>fs := fs y\<lparr>wild := True\<rparr>\<rparr>) E" by (rule held_fs [OF held]) (auto intro: refs_ok_wild fsys_heldD(3) [OF held])
  then show ?thesis using held
    by (auto simp: vfs_readdir_def ramfs_dir_readdir_def Let_def dest!: file_vnodeD intro!: held_offset split: option.split prod.splits)
qed

section \<open>Renaming returns\<close>

lemma read_loop_length: "length (read_loop cs pos left) = left"
proof (induction cs pos left rule: read_loop.induct)
  case (1 cs pos left)
  show ?case
  proof (cases "left = 0")
    case True
    then show ?thesis by (simp add: read_loop.simps)
  next
    case False
    then show ?thesis using 1 by (subst read_loop.simps) (simp add: Let_def)
  qed
qed

lemma file_read_length:
  "length (ramfs_file_read v len off s) = min len (unat (v_size (vn s v)) - unat off)"
proof (cases "off \<ge> v_size (vn s v)")
  case True
  then show ?thesis by (simp add: ramfs_file_read_def word_le_nat_alt)
next
  case False
  then have "unat (v_size (vn s v) - off) = unat (v_size (vn s v)) - unat off" by (intro unat_sub) simp
  with False show ?thesis by (auto simp: ramfs_file_read_def Let_def read_loop_length min_def)
qed

lemma vnodes_pages [simp]: "vnodes (snd (alloc_pages n s)) = vnodes s"
  using alloc_pages_frame [of n s] by (metis prod.collapse)

lemma ensure_other: "u \<noteq> v \<Longrightarrow> vn (snd (ramfs_ensure_chunks v n s)) u = vn s u"
  by (simp add: ramfs_ensure_chunks_def kmalloc_def Let_def split_beta)

lemma file_write_other:
  assumes "u \<noteq> v"
  shows "vn (snd (ramfs_file_write v buf off s)) u = vn s u"
proof -
  obtain r t where e: "ramfs_ensure_chunks v (unat ((off + of_nat (length buf) + of_nat RAMFS_CHUNK_SIZE - 1) div of_nat RAMFS_CHUNK_SIZE)) s = (r, t)"
    by (metis prod.collapse)
  have "vn t u = vn s u" using ensure_other [OF assms] e by (metis snd_conv)
  with e assms show ?thesis by (auto simp: ramfs_file_write_def Let_def split: sum.splits prod.splits)
qed

text \<open>One round of the copy: the source comes nearer to its end, which the write does not move.\<close>

definition copying :: "nat \<Rightarrow> nat \<Rightarrow> nat \<Rightarrow> (nat \<Rightarrow> nat) \<Rightarrow> fsys \<Rightarrow> bool" where
  "copying src dst v E y \<longleftrightarrow> fsys_held y E \<and> src \<noteq> dst \<and> handle src y = Some src \<and> handle dst y = Some dst \<and>
     f_vnode (the_file y src) = Some v \<and>
     (f_vnode (the_file y dst) = Some v \<longrightarrow> v_size (vn (fs y) v) \<le> f_offset (the_file y src))"

abbreviation to_read :: "nat \<Rightarrow> nat \<Rightarrow> fsys \<Rightarrow> nat" where
  "to_read src v y \<equiv> unat (v_size (vn (fs y) v)) - unat (f_offset (the_file y src))"

lemma set_offset_twice: "set_offset i a (set_offset i b y) = set_offset i a y"
  by (cases "i < length (open_files (fd y))") (simp_all add: set_offset_def upd_file_def list_update_beyond)

lemma the_file_offset:
  "f_vnode (the_file (set_offset i off y) j) = f_vnode (the_file y j)"
  "j \<noteq> i \<Longrightarrow> f_offset (the_file (set_offset i off y) j) = f_offset (the_file y j)"
  by (cases "i = j"; cases "i < length (open_files (fd y))"; simp add: list_update_beyond)+

lemma write_shape:
  obtains (same) "snd (vfs_write (Some dst) bs y) = y"
  | (wrote) a w off r s where "f_vnode (the_file y dst) = Some w" "ramfs_file_write w bs off (fs y) = (r, s)"
      "snd (vfs_write (Some dst) bs y) = set_offset dst a y\<lparr>fs := s\<rparr>"
proof (cases "f_vnode (the_file y dst) = None \<or> bs = [] \<or> f_flags (the_file y dst) AND O_ACCMODE = 0 \<or>
    v_ops (vn (fs y) (the (f_vnode (the_file y dst)))) \<noteq> Ramfs_file_ops")
  case True
  then have "snd (vfs_write (Some dst) bs y) = y"
    by (cases "f_vnode (the_file y dst)") (auto simp: vfs_write_def file_vnode_def)
  then show thesis by (rule same)
next
  case False
  then obtain w where w: "f_vnode (the_file y dst) = Some w" by auto
  let ?off = "if flag (f_flags (the_file y dst)) O_APPEND then v_size (vn (fs y) w) else f_offset (the_file y dst)"
  obtain r s where rs: "ramfs_file_write w bs ?off (fs y) = (r, s)" by (metis prod.collapse)
  have "\<exists>a. snd (vfs_write (Some dst) bs y) = set_offset dst a y\<lparr>fs := s\<rparr>"
    using False w rs by (cases r) (auto simp: vfs_write_def file_vnode_def Let_def set_offset_twice)
  with wrote [OF w rs] show thesis by blast
qed

lemma write_keeps:
  assumes "src \<noteq> dst" and "f_vnode (the_file y dst) \<noteq> Some v" and "y' = snd (vfs_write (Some dst) bs y)"
  shows "handle j y' = handle j y" and "f_vnode (the_file y' j) = f_vnode (the_file y j)" and "f_offset (the_file y' src) = f_offset (the_file y src)"
    and "vn (fs y') v = vn (fs y) v"
proof -
  have "handle j y' = handle j y \<and> f_vnode (the_file y' j) = f_vnode (the_file y j) \<and>
      f_offset (the_file y' src) = f_offset (the_file y src) \<and> vn (fs y') v = vn (fs y) v"
  proof (cases rule: write_shape [of dst bs y])
    case same
    then show ?thesis using assms(3) by simp
  next
    case (wrote a w off r s)
    have "vn s v = vn (fs y) v" using file_write_other [of v w bs off "fs y"] wrote(1,2) assms(2) by auto
    then show ?thesis using assms wrote(3) by (simp add: the_file_offset del: offset_simps(2))
  qed
  then show "handle j y' = handle j y" "f_vnode (the_file y' j) = f_vnode (the_file y j)" "f_offset (the_file y' src) = f_offset (the_file y src)"
    "vn (fs y') v = vn (fs y) v" by blast+
qed

lemma read_round:
  assumes c: "copying src dst v E y" and rd: "vfs_read (Some src) 512 y = (Inr bs, y1)" "bs \<noteq> []" and y2: "y2 = snd (vfs_write (Some dst) bs y1)"
  shows "copying src dst v E y2" and "to_read src v y2 < to_read src v y"
proof -
  let ?off = "f_offset (the_file y src)" and ?sz = "v_size (vn (fs y) v)"
  have held: "fsys_held y E" and ne: "src \<noteq> dst" and h: "handle src y = Some src" "handle dst y = Some dst"
    and v: "f_vnode (the_file y src) = Some v" using c by (simp_all add: copying_def)
  have src: "src < length (open_files (fd y))" using h(1) by (simp add: handle_Some)
  have bs: "bs = ramfs_file_read v 512 ?off (fs y)" and y1: "y1 = set_offset src (?off + of_nat (length bs)) y"
    using rd v by (auto simp: vfs_read_def file_vnode_def Let_def split: if_splits)
  have len: "length bs = min 512 (unat ?sz - unat ?off)" unfolding bs by (rule file_read_length)
  have lt: "unat ?off < unat ?sz" "0 < length bs" using len rd(2) by (cases bs; simp)+
  then have fwd: "unat (?off + of_nat (length bs)) = unat ?off + length bs"
    using len unsigned_less [where 'a = nat, of ?sz] by (subst unat_add_lem [THEN iffD1]) (auto simp: unsigned_of_nat take_bit_eq_mod)
  have other: "f_vnode (the_file y1 dst) \<noteq> Some v" using c lt(1) ne by (auto simp: copying_def y1 word_le_nat_alt)
  note keep = write_keeps [OF ne other y2]
  have held1: "fsys_held y1 E" using held_read [OF held, of src 512] rd(1) h(1) by simp
  have held2: "fsys_held y2 E" using held_write [OF held1, of dst bs] y2 h(2) by (simp add: y1)
  show "copying src dst v E y2"
    using held2 ne h v keep other src by (simp add: copying_def y1)
  have "unat (f_offset (the_file y2 src)) = unat ?off + length bs" using keep(3) src fwd by (simp add: y1)
  then show "to_read src v y2 < to_read src v y" unfolding keep(4) using lt by (simp add: diff_less_mono2 y1)
qed

lemma copy_loop_returns:
  "copying src dst v E y \<Longrightarrow> \<exists>y'. copy_loop src dst y = Some y' \<and> fsys_held y' E \<and> handle src y' = Some src \<and> handle dst y' = Some dst"
proof (induction "to_read src v y" arbitrary: y rule: less_induct)
  case less
  obtain r y1 where rd: "vfs_read (Some src) 512 y = (r, y1)" by (metis prod.collapse)
  have h: "fsys_held y E" "handle src y = Some src" "handle dst y = Some dst" using less.prems by (simp_all add: copying_def)
  have y1: "fsys_held y1 E" using held_read [OF h(1), of src 512] rd h(2) by simp
  have h1: "handle j y1 = handle j y" for j using rd by (auto simp: vfs_read_def Let_def split: option.splits prod.splits if_splits)
  show ?case
  proof (cases "\<exists>bs. r = Inr bs \<and> bs \<noteq> []")
    case False
    then have "copy_loop src dst y = Some y1" using rd by (subst copy_loop.simps) (auto split: sum.splits)
    with y1 h h1 show ?thesis by auto
  next
    case True
    then obtain bs where bs: "r = Inr bs" "bs \<noteq> []" by blast
    note round = read_round [OF less.prems rd [unfolded bs(1)] bs(2) refl]
    have "copy_loop src dst y = copy_loop src dst (snd (vfs_write (Some dst) bs y1))"
      using rd bs by (subst copy_loop.simps) simp
    with less.hyps [OF round(2) round(1)] show ?thesis by simp
  qed
qed

lemma open_keeps:
  assumes held: "fsys_held y E" and op: "vfs_open path flags mode y = (r, y')" and j: "handle j y = Some j"
  shows "handle j y' = Some j" and "the_file y' j = the_file y j" and "r = Inr i \<Longrightarrow> i \<noteq> j"
proof -
  obtain a d where al: "vfs_file_alloc (fd y) = (a, d)" by (metis prod.collapse)
  have slot: "f_refcount (the_file y i) = 0" if "a = Some i" for i
    using al that find_slot_SomeD [of "\<lambda>f. f_refcount f = 0" "open_files (fd y)"] by (auto simp: vfs_file_alloc_def split: option.splits)
  have new: "i \<noteq> j" if "a = Some i" for i using slot [OF that] j by (auto simp: handle_Some)
  from fsys_heldD(2) [OF held] al
  have d: "a = None \<and> d = fd y \<or> (\<exists>i g. a = Some i \<and> i \<noteq> j \<and> d = upd_file i g (fd y))"
    by (cases rule: file_alloc_cases) (use new in auto)
  have "handle j y' = Some j \<and> the_file y' j = the_file y j \<and> (\<forall>i. r = Inr i \<longrightarrow> i \<noteq> j)"
    using op j al d by (auto simp: vfs_open_def handle_def upd_file_def Let_def split: sum.splits prod.splits option.splits if_splits)
  then show "handle j y' = Some j" "the_file y' j = the_file y j" "r = Inr i \<Longrightarrow> i \<noteq> j" by blast+
qed

text \<open>What is opened for writing with \<open>O_TRUNC\<close> is empty.\<close>

lemma open_trunc_empty:
  assumes held: "fsys_held y E" and op: "vfs_open path (O_WRONLY OR O_CREAT OR O_TRUNC) mode y = (Inr i, y')"
    and v: "f_vnode (the_file y' i) = Some v"
  shows "v_size (vn (fs y') v) = 0"
proof -
  let ?fl = "O_WRONLY OR O_CREAT OR O_TRUNC"
  have fl: "flag ?fl O_TRUNC" "can_write ?fl" by (simp_all add: O_WRONLY_def O_CREAT_def O_TRUNC_def can_write_def O_ACCMODE_def)
  obtain q s where node: "open_node path ?fl mode (fs y) = (q, s)" by (metis prod.collapse)
  obtain a d where al: "vfs_file_alloc (fd y) = (a, d)" by (metis prod.collapse)
  from op node al obtain w where w: "q = Inr w" "a = Some i" "fs y' = trunc_node w s" "fd y' = upd_file i (\<lambda>f. f\<lparr>f_vnode := Some w, f_flags := ?fl, f_offset := 0\<rparr>) d"
    by (auto simp: vfs_open_def fl Let_def split: sum.splits option.splits if_splits)
  have "i < length (open_files d)" using fsys_heldD(2) [OF held] al w(2) by (cases rule: file_alloc_cases) (auto simp: upd_file_def)
  with w(4) v have "v = w" by (simp add: upd_file_def)
  moreover have "live s w" using by_open.get_Inr [OF fsys_heldD(3) [OF held] _ node [unfolded w(1)]] hold_live by blast
  ultimately show ?thesis using w(3) live_lt(1) by (auto simp: trunc_node_def ramfs_file_truncate_def)
qed

lemma held_drop: "fsys_held y (hold E v) \<Longrightarrow> fsys_held (drop_ref v y) E"
proof -
  assume held: "fsys_held y (hold E v)"
  have "refs_ok (fs y) (hold (\<lambda>u. file_refs (fd y) u + E u) v)" by (rule refs_ok_cong [OF fsys_heldD(3) [OF held]]) simp
  from held_fs [OF held refs_ok_drop [OF this]] show ?thesis by (simp add: drop_ref_def)
qed

lemma held_take:
  assumes held: "fsys_held y E" and v: "live (fs y) v"
  shows "fsys_held (y\<lparr>fs := vnode_ref v (fs y)\<rparr>) (hold E v)"
proof (rule held_fs [OF held])
  show "refs_ok (vnode_ref v (fs y)) (\<lambda>u. file_refs (fd y) u + hold E v u)"
    by (rule refs_ok_cong [OF refs_ok_ref [OF fsys_heldD(3) [OF held] v]]) simp
qed simp

lemma close_keeps: "i \<noteq> j \<Longrightarrow> handle j y = Some j \<Longrightarrow> handle j (vfs_close i y) = Some j"
  by (auto simp: handle_def vfs_close_def vfs_file_free_def file_dec_def file_finish_def upd_file_def Let_def nth_list_update split: if_splits)

text \<open>Everything after the look-up of the old path, with the reference on its vnode held.\<close>

lemma rename_body:
  assumes held: "fsys_held y (hold E v)" and op: "vfs_open oldp 0 0 y = (Inr src, y1)"
    and op2: "vfs_open newp (O_WRONLY OR O_CREAT OR O_TRUNC) mode y1 = (Inr dst, y2)"
  shows "\<exists>y3. copy_loop src dst y2 = Some y3 \<and> fsys_held (drop_ref v (vfs_close dst (vfs_close src y3))) E"
proof -
  have h1: "fsys_held y1 (hold E v)" "handle src y1 = Some src" using held_open [OF held op] by auto
  have h2: "fsys_held y2 (hold E v)" "handle dst y2 = Some dst" using held_open [OF h1(1) op2] by auto
  note keep = open_keeps [OF h1(1) op2 h1(2)]
  have ne: "dst \<noteq> src" by (rule keep(3)) simp
  obtain u where u: "f_vnode (the_file y1 src) = Some u"
    using op by (auto simp: vfs_open_def upd_file_def Let_def vfs_file_alloc_def dest!: find_slot_lt split: sum.splits prod.splits option.splits if_splits)
  have "copying src dst u (hold E v) y2"
    using h2 ne keep u open_trunc_empty [OF h1(1) op2, of u] by (auto simp: copying_def)
  from copy_loop_returns [OF this] obtain y3 where y3: "copy_loop src dst y2 = Some y3" "fsys_held y3 (hold E v)"
    "handle src y3 = Some src" "handle dst y3 = Some dst" by blast
  have "fsys_held (vfs_close dst (vfs_close src y3)) (hold E v)"
    using held_close [OF held_close [OF y3(2,3)] close_keeps [OF ne [symmetric] y3(4)]] .
  with y3(1) held_drop show ?thesis by blast
qed

lemma rename_returns:
  assumes held: "fsys_held y E"
  shows "\<exists>r y'. sys_rename cur oldp newp y = Some (r, y') \<and> fsys_held y' E"
proof (cases "rename_perms cur oldp newp (fs y)")
  case (Inl e)
  then show ?thesis using held by (simp add: sys_rename_def)
next
  case perm: (Inr a)
  have ok: "refs_ok (fs y) (\<lambda>v. file_refs (fd y) v + E v)" by (rule fsys_heldD(3) [OF held])
  from ok show ?thesis
  proof (cases rule: lookup_cases [of _ _ oldp])
    case (err e)
    then show ?thesis using held perm by (simp add: sys_rename_def)
  next
    case (node v)
    let ?y = "y\<lparr>fs := vnode_ref v (fs y)\<rparr>"
    have y: "fsys_held ?y (hold E v)" by (rule held_take [OF held node(2)])
    obtain np where np: "rename_target oldp newp (vnode_ref v (fs y)) = (np, vnode_ref v (fs y))"
      using rename_target_pure [OF fsys_heldD(3) [OF y], of oldp newp] by (metis fsys.select_convs(1) fsys.update_convs(1) fsys.surjective prod.collapse)
    obtain r1 y1 where op: "vfs_open oldp 0 0 ?y = (r1, y1)" by (metis prod.collapse)
    have h1: "fsys_held y1 (hold E v)" using held_open(1) [OF y op] .
    let ?mode = "v_mode (vn (fs y1) v)"
    obtain r2 y2 where op2: "vfs_open np (O_WRONLY OR O_CREAT OR O_TRUNC) ?mode y1 = (r2, y2)" by (metis prod.collapse)
    have h2: "fsys_held y2 (hold E v)" using held_open(1) [OF h1 op2] .
    show ?thesis
    proof (cases r1)
      case (Inl e)
      then show ?thesis using held_drop [OF h1] perm node(1) np op by (simp add: sys_rename_def)
    next
      case src: (Inr src)
      show ?thesis
      proof (cases r2)
        case (Inl e)
        have "fsys_held (vfs_close src y2) (hold E v)"
          using held_close [OF h2] open_keeps(1) [OF h1 op2] held_open(2) [OF y op] src by blast
        from held_drop [OF this] show ?thesis using perm node(1) np op op2 src Inl by (simp add: sys_rename_def)
      next
        case dst: (Inr dst)
        from rename_body [OF y op [unfolded src] op2 [unfolded dst]] obtain y3 where
          y3: "copy_loop src dst y2 = Some y3" "fsys_held (drop_ref v (vfs_close dst (vfs_close src y3))) E" by blast
        have "fsys_held (drop_ref v (vfs_close dst (vfs_close src y3))\<lparr>fs := rename_unlink oldp (fs (drop_ref v (vfs_close dst (vfs_close src y3))))\<rparr>) E"
          by (rule held_fs [OF y3(2) rename_unlink_ok [OF fsys_heldD(3) [OF y3(2)]] mounts_calls(5) [OF fsys_heldD(3) [OF y3(2)]]])
        then show ?thesis using perm node(1) np op op2 src dst y3(1) by (simp add: sys_rename_def Let_def)
      qed
    qed
  qed
qed

end
