(* ===== verification/Vfs_Props.thy ===== *)
theory Vfs_Props
  imports Vfs_Run
begin

text \<open>
  What the virtual file system promises: whatever is called, in whatever order and whether or not memory is
  left, the reference counts of vnodes are exact; a path leads where the tree says; the mount of a path is the
  one with the longest matching name. And where it leaves its contracts.
\<close>

section \<open>Runs\<close>

text \<open>The boot sequence of \<open>kernel.c\<close> for a file system in memory: create a root, mount it, name it, give up the own reference.\<close>

definition mount_ramfs :: "string \<Rightarrow> vfs \<Rightarrow> vfs" where
  "mount_ramfs path s = (let info = \<lambda>s. snd (vfs_set_mount_info path (Some ''ramfs'') (Some ''ramfs'') s) in case ramfs_create_root s of
     (None, s) \<Rightarrow> info s
   | (Some root, s) \<Rightarrow> vnode_unref root (info (snd (vfs_mount path root s))))"

datatype fs_op =
    Open string u32 u32 | Close nat | Dup nat | Read nat nat | Write nat "u8 list" | Pwrite nat "u8 list" u64
  | Seek nat u64 int | Readdir nat | Fsync nat | Ftruncate nat u64 | Fchmod nat u32 | Fchown nat u32 u32
  | Truncate string u64 | Chmod string u32 | Chown string u32 u32 | Set_times string int int
  | Mkdir string u32 | Symlink string string | Remove "caller option" string bool | Rename "caller option" string string
  | Mount string | Umount string

definition on_fs :: "(vfs \<Rightarrow> 'a \<times> vfs) \<Rightarrow> fsys \<Rightarrow> fsys option" where
  "on_fs oper y = Some (y\<lparr>fs := snd (oper (fs y))\<rparr>)"

primrec run_op :: "fs_op \<Rightarrow> fsys \<Rightarrow> fsys option" where
  "run_op (Open path flags mode) y = Some (snd (vfs_open path flags mode y))"
| "run_op (Close i) y = Some (case handle i y of Some j \<Rightarrow> vfs_close j y | None \<Rightarrow> y)"
| "run_op (Dup i) y = Some (case handle i y of Some j \<Rightarrow> y\<lparr>fd := file_get j (fd y)\<rparr> | None \<Rightarrow> y)"
| "run_op (Read i len) y = Some (snd (vfs_read (handle i y) len y))"
| "run_op (Write i buf) y = Some (snd (vfs_write (handle i y) buf y))"
| "run_op (Pwrite i buf off) y = Some (snd (vfs_pwrite (handle i y) buf off y))"
| "run_op (Seek i off whence) y = Some (snd (vfs_seek (handle i y) off whence y))"
| "run_op (Readdir i) y = Some (snd (vfs_readdir (handle i y) y))"
| "run_op (Fsync i) y = Some (snd (vfs_fsync (handle i y) y))"
| "run_op (Ftruncate i n) y = Some (snd (vfs_ftruncate (handle i y) n y))"
| "run_op (Fchmod i mode) y = Some (snd (vfs_fchmod (handle i y) mode y))"
| "run_op (Fchown i uid gid) y = Some (snd (vfs_fchown (handle i y) uid gid y))"
| "run_op (Truncate path n) y = on_fs (vfs_truncate path n) y"
| "run_op (Chmod path mode) y = on_fs (vfs_chmod path mode) y"
| "run_op (Chown path uid gid) y = on_fs (vfs_chown path uid gid) y"
| "run_op (Set_times path a m) y = on_fs (vfs_set_times path a m) y"
| "run_op (Mkdir path mode) y = on_fs (vfs_mkdir path mode) y"
| "run_op (Symlink target path) y = on_fs (vfs_symlink target path) y"
| "run_op (Remove cur path want_dir) y = on_fs (remove_entry cur path want_dir) y"
| "run_op (Rename cur oldp newp) y = map_option snd (sys_rename cur oldp newp y)"
| "run_op (Mount path) y = Some (y\<lparr>fs := mount_ramfs path (fs y)\<rparr>)"
| "run_op (Umount path) y = on_fs (vfs_umount path) y"

text \<open>After \<open>vfs_init\<close>: no vnodes, no mounts, no open files; \<open>m\<close> says which allocations succeed.\<close>

definition boot_fs :: "(nat \<Rightarrow> bool) \<Rightarrow> int \<Rightarrow> fsys" where
  "boot_fs m now = \<lparr>fs = mounts_init \<lparr>vnodes = [], g_next_ino = 1, g_mounts = [], g_vfs_ready = False, g_boot_time = 0,
     clock = now, mem = m, mem_asked = 0, fs_calls = [], wild = False, stale = False\<rparr>, fd = vfs_init\<rparr>"

lemma boot_ok: "fsys_held (boot_fs m now) (\<lambda>_. 0)"
proof -
  have "count_list (replicate n None) (Some v) = 0" for n and v :: nat by (induction n) simp_all
  then have "refs_ok (fs (boot_fs m now)) (\<lambda>v. file_refs (fd (boot_fs m now)) v + 0)"
    by (simp add: refs_ok_def counted_def live_def links_def mount_refs_def boot_fs_def mounts_init_def no_mount_def
        file_refs_def vfs_init_def map_replicate)
  moreover have "files_ok (fd (boot_fs m now))" by (simp add: files_ok_def boot_fs_def vfs_init_def)
  moreover have "mounts_ok (fs (boot_fs m now))"
    by (simp add: mounts_ok_def boot_fs_def mounts_init_def VFS_MAX_MOUNTS_def no_mount_def numeral_eq_Suc)
  ultimately show ?thesis by (simp add: fsys_held_def)
qed

lemma set_mount_info_ok:
  "refs_ok s H \<Longrightarrow> refs_ok (snd (vfs_set_mount_info path dev ty s)) H"
  "mounts_ok s \<Longrightarrow> mounts_ok (snd (vfs_set_mount_info path dev ty s))"
proof -
  show "refs_ok s H \<Longrightarrow> refs_ok (snd (vfs_set_mount_info path dev ty s)) H"
    by (auto simp: vfs_set_mount_info_def intro!: refs_ok_upd_mount split: option.split)
  have "mounts_ok (upd_mount i g s)" if "mounts_ok s" "\<And>m. m_used (g m) = m_used m" "\<And>m. m_path (g m) = m_path m" for i g
    using that by (cases "g_mounts s"; cases i) (auto simp: mounts_ok_def upd_mount_def)
  then show "mounts_ok s \<Longrightarrow> mounts_ok (snd (vfs_set_mount_info path dev ty s))"
    by (auto simp: vfs_set_mount_info_def split: option.split)
qed

lemma mount_ramfs_ok:
  assumes ok: "refs_ok s H" and m: "mounts_ok s"
  shows "refs_ok (mount_ramfs path s) H" and "mounts_ok (mount_ramfs path s)"
proof -
  obtain a t where al: "ramfs_alloc_vnode VFS_NODE_DIR 0x1ED s = (a, t)" by (metis prod.collapse)
  have mt: "g_mounts t = g_mounts s" using mounts_enter(1) [OF al] .
  have "refs_ok (mount_ramfs path s) H \<and> mounts_ok (mount_ramfs path s)" using ok al
  proof (cases rule: alloc_vnode_cases)
    case fail
    with al m mt have "refs_ok t H" "mounts_ok t" "mount_ramfs path s = snd (vfs_set_mount_info path (Some ''ramfs'') (Some ''ramfs'') t)"
      by (simp_all add: mount_ramfs_def ramfs_create_root_def mounts_ok_def)
    then show ?thesis using set_mount_info_ok by simp
  next
    case (made t0 n)
    let ?r = "length (vnodes t0)" and ?n = "n\<lparr>v_ops := Ramfs_dir_ops, v_ref := 1\<rparr>"
    have zero: "H ?r = 0" using refs_okD(6) [OF made(3), of ?r] by (auto simp: live_def)
    have new: "refs_ok (grown t0 ?n) (hold H ?r)"
      using refs_ok_new [OF made(3), of ?n] made(5) by (simp add: zero blank_def)
    have mg: "mounts_ok (grown t0 ?n)" using m mt made(2) by (simp add: mounts_ok_def grown_def)
    let ?m = "snd (vfs_set_mount_info path (Some ''ramfs'') (Some ''ramfs'') (snd (vfs_mount path ?r (grown t0 ?n))))"
    have "refs_ok ?m (hold H ?r)" "mounts_ok ?m" using set_mount_info_ok vfs_mount_ok [OF new mg hold_live [OF new]] by blast+
    moreover have "mount_ramfs path s = vnode_unref ?r ?m"
      using al made(1,2) by (simp add: mount_ramfs_def ramfs_create_root_def grown_upd)
    ultimately show ?thesis using refs_ok_drop by (simp add: mounts_ok_def)
  qed
  then show "refs_ok (mount_ramfs path s) H" and "mounts_ok (mount_ramfs path s)" by blast+
qed

lemma on_fs_ok:
  assumes "fsys_held y E" and "\<And>H. refs_ok (fs y) H \<Longrightarrow> refs_ok (snd (oper (fs y))) H"
    and "\<And>H. refs_ok (fs y) H \<Longrightarrow> g_mounts (snd (oper (fs y))) = g_mounts (fs y)"
  shows "\<exists>y'. on_fs oper y = Some y' \<and> fsys_held y' E"
  unfolding on_fs_def using held_fs [OF assms(1) assms(2) [OF fsys_heldD(3) [OF assms(1)]] assms(3) [OF fsys_heldD(3) [OF assms(1)]]] by simp

lemma path_calls_ok:
  assumes "refs_ok s H"
  shows "refs_ok (snd (vfs_chmod path mode s)) H" "refs_ok (snd (vfs_chown path u g s)) H" "refs_ok (snd (vfs_set_times path a b s)) H"
    and "g_mounts (snd (vfs_chmod path mode s)) = g_mounts s" "g_mounts (snd (vfs_chown path u g s)) = g_mounts s"
    and "g_mounts (snd (vfs_set_times path a b s)) = g_mounts s"
    and "g_mounts (snd (vfs_mkdir path mode s)) = g_mounts s" "g_mounts (snd (vfs_symlink target path s)) = g_mounts s"
  using on_path_ok [OF assms] mounts_calls(1,3) [OF assms]
  by (simp_all add: vfs_chmod_def vfs_chown_def vfs_set_times_def vfs_mkdir_def vfs_symlink_def)

lemma run_op_ok: "fsys_held y E \<Longrightarrow> \<exists>y'. run_op op y = Some y' \<and> fsys_held y' E"
proof (cases op)
  case (Open path flags mode)
  assume "fsys_held y E"
  then show ?thesis using held_open(1) [of y E path flags mode] by (simp add: Open) (metis prod.collapse)
next
  case (Rename cur oldp newp)
  assume "fsys_held y E"
  then show ?thesis using rename_returns [of y E cur oldp newp] by (auto simp: Rename)
next
  case (Mount path)
  assume held: "fsys_held y E"
  then show ?thesis using mount_ramfs_ok [OF fsys_heldD(3) [OF held] fsys_heldD(1) [OF held]] by (simp add: Mount fsys_held_def)
next
  case (Umount path)
  assume held: "fsys_held y E"
  then show ?thesis using vfs_umount_ok [OF fsys_heldD(3) [OF held] fsys_heldD(1) [OF held]] by (simp add: Umount fsys_held_def on_fs_def)
next
  case (Close i)
  assume "fsys_held y E"
  then show ?thesis using held_close [of y E i] by (auto simp: Close handle_def)
next
  case (Dup i)
  assume "fsys_held y E"
  then show ?thesis using held_get [of y E i] by (auto simp: Dup handle_def)
qed (auto intro!: on_fs_ok held_read held_write held_pwrite held_seek held_readdir held_fsync held_ftruncate held_fattr
    intro: path_calls_ok mounts_calls vfs_truncate_ok vfs_mkdir_ok vfs_symlink_ok remove_entry_ok mounts_remove)

lemma run_ok: "fsys_held y E \<Longrightarrow> \<exists>y'. foldo run_op ops y = Some y' \<and> fsys_held y' E"
proof (induction ops arbitrary: y)
  case (Cons op ops)
  from run_op_ok [OF Cons.prems] obtain y1 where "run_op op y = Some y1" "fsys_held y1 E" by blast
  with Cons.IH show ?case by simp
qed simp

lemma reached_ok:
  assumes "foldo run_op ops (boot_fs m now) = Some y"
  shows "refs_ok (fs y) (file_refs (fd y))"
  using run_ok [OF boot_ok, of ops m now] assms by (auto simp: fsys_held_def)

section \<open>What the code guarantees\<close>


text \<open>C4: A path leads where the tree says: the lookup answers what \<open>resolve_path\<close> computes from the names and the directories alone, with
  symbolic links followed to the same depth. It takes one reference, on the vnode it answers, and is otherwise without effect; when it
  fails it has no effect at all.\<close>

theorem lookup_exact:
  assumes "foldo run_op ops (boot_fs m now) = Some y"
  shows "lookup_path path follow_final depth (fs y) = (case resolve_path (fs y) path follow_final depth of
      Inl e \<Rightarrow> (Inl e, fs y)
    | Inr v \<Rightarrow> (Inr v, vnode_ref v (fs y)))"
  using lookup_path_exact_of [OF reached_ok [OF assms]] by (simp add: exact_def)

text \<open>The search keeps the longest match.\<close>

lemma find_mount_loop_best:
  assumes "find_mount_loop path ms i best n = (b, n')"
  shows "n \<le> n'" and "\<And>m. m \<in> set ms \<Longrightarrow> mount_matches path m \<Longrightarrow> length (m_path m) \<le> n'"
    and "(b = best \<and> n' = n) \<or> (\<exists>j < length ms. b = Some (i + j) \<and> mount_matches path (ms ! j) \<and> length (m_path (ms ! j)) = n' \<and> n < n')"
proof -
  have "n \<le> n' \<and> (\<forall>m \<in> set ms. mount_matches path m \<longrightarrow> length (m_path m) \<le> n') \<and>
    ((b = best \<and> n' = n) \<or> (\<exists>j < length ms. b = Some (i + j) \<and> mount_matches path (ms ! j) \<and> length (m_path (ms ! j)) = n' \<and> n < n'))"
    using assms
  proof (induction ms arbitrary: i best n)
    case (Cons m ms)
    have shift: "\<exists>j < length (m # ms). b = Some (i + j) \<and> mount_matches path ((m # ms) ! j) \<and> length (m_path ((m # ms) ! j)) = n' \<and> n < n'"
      if "j < length ms" "b = Some (Suc i + j)" "mount_matches path (ms ! j) \<and> length (m_path (ms ! j)) = n' \<and> n < n'" for j
      by (rule exI [of _ "Suc j"]) (use that in simp)
    show ?case
    proof (cases "mount_matches path m \<and> n < length (m_path m)")
      case True
      with Cons.prems have "find_mount_loop path ms (Suc i) (Some i) (length (m_path m)) = (b, n')" by simp
      note IH = Cons.IH [OF this]
      have "\<exists>j < length (m # ms). b = Some (i + j) \<and> mount_matches path ((m # ms) ! j) \<and> length (m_path ((m # ms) ! j)) = n' \<and> n < n'"
      proof (cases "b = Some i \<and> n' = length (m_path m)")
        case now: True
        show ?thesis by (rule exI [of _ 0]) (use now True in simp)
      next
        case later: False
        with IH True obtain j where "j < length ms" "b = Some (Suc i + j)"
          "mount_matches path (ms ! j) \<and> length (m_path (ms ! j)) = n' \<and> n < n'" by auto
        then show ?thesis by (rule shift)
      qed
      with IH True show ?thesis by auto
    next
      case False
      with Cons.prems have "find_mount_loop path ms (Suc i) best n = (b, n')" by simp
      note IH = Cons.IH [OF this]
      show ?thesis
      proof (cases "b = best \<and> n' = n")
        case True
        with IH False show ?thesis by auto
      next
        case later: False
        with IH obtain j where j: "j < length ms" "b = Some (Suc i + j)"
          "mount_matches path (ms ! j) \<and> length (m_path (ms ! j)) = n' \<and> n < n'" by auto
        from shift [OF j] IH False show ?thesis by auto
      qed
    qed
  qed simp
  then show "n \<le> n'" and "\<And>m. m \<in> set ms \<Longrightarrow> mount_matches path m \<Longrightarrow> length (m_path m) \<le> n'"
    and "(b = best \<and> n' = n) \<or> (\<exists>j < length ms. b = Some (i + j) \<and> mount_matches path (ms ! j) \<and> length (m_path (ms ! j)) = n' \<and> n < n')"
    by blast+
qed

text \<open>C12: The mount a path belongs to is in use, its name is the path, a prefix of it that ends at a slash, or a single character that begins
  it, and no other such mount has a longer name; the rest of the path follows without leading slashes. There is none only when no mount
  with a name matches.\<close>

theorem find_mount_longest:
  "case find_mount path s of
     None \<Rightarrow> \<forall>m \<in> set (g_mounts s). mount_matches path m \<longrightarrow> m_path m = []
   | Some (i, rel) \<Rightarrow> i < length (g_mounts s) \<and> mount_matches path (g_mounts s ! i) \<and>
       (\<forall>m \<in> set (g_mounts s). mount_matches path m \<longrightarrow> length (m_path m) \<le> length (m_path (g_mounts s ! i))) \<and>
       (\<exists>seps. path = m_path (g_mounts s ! i) @ seps @ rel \<and> set seps \<subseteq> {sep}) \<and> (rel = [] \<or> hd rel \<noteq> sep)"
proof -
  obtain b n where l: "find_mount_loop path (g_mounts s) 0 None 0 = (b, n)" by (metis prod.collapse)
  note best = find_mount_loop_best [OF l]
  show ?thesis
  proof (cases b)
    case None
    with best(3) have "n = 0" by auto
    with best(2) None show ?thesis by (auto simp: find_mount_def l)
  next
    case (Some i)
    with best(3) have i: "i < length (g_mounts s)" "mount_matches path (g_mounts s ! i)" "length (m_path (g_mounts s ! i)) = n" by auto
    let ?rest = "drop n path" and ?rel = "dropWhile (\<lambda>c. c = sep) (drop n path)"
    have path: "path = m_path (g_mounts s ! i) @ takeWhile (\<lambda>c. c = sep) ?rest @ ?rel"
      using i(2,3) by (simp add: mount_matches_def Let_def) (metis append_take_drop_id)
    have seps: "set (takeWhile (\<lambda>c. c = sep) ?rest) \<subseteq> {sep}" by (auto dest: set_takeWhileD)
    have rel: "?rel = [] \<or> hd ?rel \<noteq> sep" using hd_dropWhile [of "\<lambda>c. c = sep" ?rest] by blast
    have long: "\<forall>m \<in> set (g_mounts s). mount_matches path m \<longrightarrow> length (m_path m) \<le> length (m_path (g_mounts s ! i))"
      using best(2) i(3) by simp
    have "find_mount path s = Some (i, ?rel)" using Some by (simp add: find_mount_def l)
    moreover have "\<exists>seps. path = m_path (g_mounts s ! i) @ seps @ ?rel \<and> set seps \<subseteq> {sep}" using path seps by blast
    ultimately show ?thesis using i(1,2) long rel by (simp del: dropWhile_eq_Nil_conv)
  qed
qed

end
