(* ===== verification/Ramfs_Data.thy ===== *)
theory Ramfs_Data
  imports Vfs_Ops
begin

text \<open>
  The bytes of a file. The chunks of a file in memory are one sequence of bytes, zero behind the last chunk;
  its contents are the first \<open>size\<close> of them. Reading takes from the contents, writing lays bytes over them and
  fills a gap with zeros, as long as the bytes behind the end are zero. Truncation does not keep them zero.
\<close>

section \<open>Contents\<close>

definition byte_at :: "(nat \<Rightarrow> u8) list \<Rightarrow> nat \<Rightarrow> u8" where
  "byte_at cs i = (if i div RAMFS_CHUNK_SIZE < length cs then (cs ! (i div RAMFS_CHUNK_SIZE)) (i mod RAMFS_CHUNK_SIZE) else 0)"

definition contents :: "vfs \<Rightarrow> nat \<Rightarrow> u8 list" where
  "contents s v = map (byte_at (chunks (v_data (vn s v)))) [0 ..< unat (v_size (vn s v))]"





section \<open>Chunk by chunk\<close>





section \<open>Enough chunks\<close>

text \<open>Doubling reaches what is needed.\<close>

lemma grow_cap_pow: "0 < cap \<Longrightarrow> need \<le> grow_cap fuel cap need \<or> cap * 2 ^ fuel \<le> grow_cap fuel cap need"
proof (induction fuel arbitrary: cap)
  case (Suc fuel)
  then show ?case using Suc.IH [of "cap * 2"] by (auto simp: mult.assoc)
qed simp

lemma grow_cap_enough: "0 < cap \<Longrightarrow> need \<le> grow_cap need cap need"
proof -
  assume "0 < cap"
  have "need < 2 ^ need" by (rule less_exp)
  also have "\<dots> \<le> cap * 2 ^ need" using \<open>0 < cap\<close> by simp
  finally show ?thesis using grow_cap_pow [OF \<open>0 < cap\<close>, of need need] by linarith
qed




lemma chunk_number:
  fixes x :: u64
  assumes "unat x + 4095 < 2 ^ 64"
  shows "unat ((x + of_nat RAMFS_CHUNK_SIZE - 1) div of_nat RAMFS_CHUNK_SIZE) = (unat x + 4095) div 4096"
proof -
  have "unat (x + 4095) = unat x + 4095" using assms by (subst unat_add_lem [THEN iffD1]) simp_all
  then have "unat ((x + 4095) div 4096) = (unat x + 4095) div 4096" by (simp add: unat_div)
  moreover have "x + of_nat RAMFS_CHUNK_SIZE - 1 = x + 4095" by (simp add: RAMFS_CHUNK_SIZE_def)
  moreover have "of_nat RAMFS_CHUNK_SIZE = (4096 :: u64)" by (simp add: RAMFS_CHUNK_SIZE_def)
  ultimately show ?thesis by (simp only:)
qed

lemma unat_stop: "unat off + n < 2 ^ 64 \<Longrightarrow> unat (off + of_nat n :: u64) = unat off + n"
  by (subst unat_add_lem [THEN iffD1]) (simp_all add: unsigned_of_nat take_bit_eq_mod)



section \<open>What the code guarantees\<close>


section \<open>Where it stops\<close>

text \<open>C31: A file that is cut to \<open>k\<close> bytes and then extended again does not read as zeros behind \<open>k\<close>: up to the end of the page the bytes
  that were cut off are back.\<close>

theorem truncate_regrow_exposes:
  assumes v: "v < length (vnodes s)" "v_type (vn s v) = VFS_NODE_FILE" "v_ops (vn s v) = Ramfs_file_ops"
    and k: "0 < k" "k < v_size (vn s v)" "unat k + 4095 < 2 ^ 64"
    and m: "k \<le> m" "m \<le> v_size (vn s v)" "unat m \<le> (unat k + 4095) div 4096 * 4096"
    and cut: "truncate_node v k s = (r1, s1)" and grow: "truncate_node v m s1 = (r2, s2)"
  shows "r1 = Inr () \<and> r2 = Inr () \<and> contents s1 v = take (unat k) (contents s v) \<and> contents s2 v = take (unat m) (contents s v)"
proof -
  let ?keep = "(unat k + 4095) div 4096" and ?cs = "chunks (v_data (vn s v))"
  have keep: "byte_at (take ?keep ?cs) i = byte_at ?cs i" if "i < ?keep * 4096" for i
  proof -
    have "i div 4096 < ?keep" by (rule less_mult_imp_div_less [OF that])
    then show ?thesis by (simp add: byte_at_def RAMFS_CHUNK_SIZE_def)
  qed
  have k0: "k \<noteq> 0" using k(1) by auto
  have s1: "r1 = Inr ()" "vn s1 v = (vn s v)\<lparr>v_data := (v_data (vn s v))\<lparr>chunks := take ?keep ?cs\<rparr>, v_size := k\<rparr>" "length (vnodes s1) = length (vnodes s)"
    using cut v k(2) k0 chunk_number [OF k(3)] by (auto simp: truncate_node_def ramfs_file_truncate_def upd_vnode_def Let_def)
  have m0: "m \<noteq> 0" using m(1) k(1) by auto
  have s2: "r2 = Inr ()" "vn s2 v = (vn s1 v)\<lparr>v_size := m\<rparr>"
    using grow v s1 m(1) m0 by (auto simp: truncate_node_def ramfs_file_truncate_def upd_vnode_def)
  have le: "unat k \<le> unat (v_size (vn s v))" "unat m \<le> unat (v_size (vn s v))" "unat k \<le> ?keep * 4096"
    using k(2) m(2) by (simp_all add: word_less_nat_alt word_le_nat_alt)
  have "contents s1 v = take (unat k) (contents s v)" "contents s2 v = take (unat m) (contents s v)"
    using le m(3) by (auto simp: contents_def s1(2) s2(2) take_map take_upt keep intro!: map_cong)
  then show ?thesis using s1(1) s2(1) by simp
qed

text \<open>C32: The end of a write is rounded up to whole pages in 64 bits. When that wraps around, no chunk is asked for and the write goes
  through chunk pointers far outside the array; \<open>pwrite\<close> takes such an offset from its caller.\<close>

theorem pwrite_overruns:
  assumes f: "file_vnode fp y = Some (i, v)" "f_flags (the_file y i) AND O_ACCMODE \<noteq> 0"
    and v: "v_type (vn (fs y) v) = VFS_NODE_FILE" "v_ops (vn (fs y) v) = Ramfs_file_ops" "length (chunks (v_data (vn (fs y) v))) \<le> RAMFS_MAX_CHUNKS"
    and buf: "buf \<noteq> []" "length buf \<le> 2 ^ 32" "2 ^ 64 - 4096 < unat off + length buf" "unat off + length buf < 2 ^ 64"
  shows "\<exists>y'. vfs_pwrite fp buf off y = (Inr (length buf), y') \<and> wild (fs y')"
proof -
  let ?stop = "off + of_nat (length buf) :: u64" and ?cs = "chunks (v_data (vn (fs y) v))"
  have stop: "unat ?stop = unat off + length buf" by (rule unat_stop [OF buf(4)])
  then have up: "\<not> ?stop < off" by (simp add: word_less_nat_alt)
  have "unat (?stop + 4095) = (unat ?stop + 4095) mod 2 ^ 64" by (simp add: unat_word_ariths)
  also have "\<dots> = unat ?stop + 4095 - 2 ^ 64" using stop buf(3,4) by (simp add: mod_if)
  finally have "unat (?stop + 4095) < 4096" using stop buf(4) by simp
  then have "unat ((?stop + 4095) div 4096) = 0" by (simp add: unat_div)
  then have need: "unat ((?stop + of_nat RAMFS_CHUNK_SIZE - 1) div of_nat RAMFS_CHUNK_SIZE) = 0" by (simp add: RAMFS_CHUNK_SIZE_def add.commute)
  have "2 ^ 24 * 4096 \<le> unat off" using buf(2,3) by simp
  then have "2 ^ 24 \<le> unat off div 4096" by (simp add: div_le_mono [of _ _ 4096, simplified])
  then have "\<not> unat off div RAMFS_CHUNK_SIZE < length ?cs" using v(3) by (simp add: RAMFS_MAX_CHUNKS_def RAMFS_CHUNK_SIZE_def)
  then have "write_loop ?cs (unat off) buf = (True, ?cs)" using buf(1) by (subst write_loop.simps) (simp add: Let_def)
  moreover have "ramfs_ensure_chunks v 0 (fs y) = (Inr (), fs y)" by (simp add: ramfs_ensure_chunks_def)
  ultimately show ?thesis using f v buf(1) up need by (simp add: vfs_pwrite_def ramfs_file_write_def Let_def upd_vnode_def)
qed

end
