(* ===== verification/Vfs_Limits.thy ===== *)
theory Vfs_Limits
  imports Vfs_Props Ramfs_Data
begin

text \<open>
  Where paths and names leave their contracts: long names, exclusive creation through a symbolic link, and
  renaming a file to itself.
\<close>

section \<open>Long names\<close>

text \<open>A name of more than 255 characters is not refused: the walk takes its first 255 characters for one name and the rest for the next,
  just as if a slash stood between them.\<close>

theorem long_name_splits:
  assumes "255 < length nm" and "sep \<notin> set nm"
  shows "walk_from dir nm follow_final depth s = walk_from dir (take 255 nm @ [sep] @ drop 255 nm) follow_final depth s"
proof -
  let ?a = "take 255 nm" and ?b = "drop 255 nm"
  have no: "takeWhile (\<lambda>c. c \<noteq> sep) xs = xs" "dropWhile (\<lambda>c. c = sep) xs = xs" if "set xs \<subseteq> set nm" for xs
    using that assms(2) by (auto simp: takeWhile_eq_all_conv dropWhile_eq_self_iff) (metis hd_in_set subsetD)
  have ab: "set ?a \<subseteq> set nm" "set ?b \<subseteq> set nm" by (simp_all add: set_take_subset set_drop_subset)
  have ne: "?a \<noteq> []" "nm \<noteq> []" using assms(1) by auto
  have hd: "dropWhile (\<lambda>c. c = sep) (?a @ [sep] @ ?b) = ?a @ [sep] @ ?b"
    using ab(1) ne assms(2) by (cases ?a) (auto simp: dropWhile_eq_self_iff)
  have "takeWhile (\<lambda>c. c \<noteq> sep) (?a @ [sep] @ ?b) = ?a" using no(1) [OF ab(1)] assms(2) ab(1)
    by (subst takeWhile_append2) auto
  then have next2: "path_next_component (?a @ [sep] @ ?b) = (?a, [sep] @ ?b)"
    using assms(1) unfolding path_next_component_def hd by (simp add: VFS_MAX_NAME_def Let_def)
  have next1: "path_next_component nm = (?a, ?b)"
    using assms(1) unfolding path_next_component_def no [OF subset_refl] by (simp add: VFS_MAX_NAME_def Let_def no [OF subset_refl])
  have "walk_loop link d dir nm follow_final t = walk_loop link d dir (?a @ [sep] @ ?b) follow_final t" for link d t
    using ne next1 next2 no(2) [OF ab(2)] by (simp add: walk_loop.simps [of _ _ _ nm] walk_loop.simps [of _ _ _ "?a @ sep # ?b"] Let_def split: prod.split sum.split)
  then show ?thesis unfolding walk_from_def by (cases "VFS_SYMLINK_MAX - depth") simp_all
qed

section \<open>Exclusive creation\<close>

lemma free_slot:
  "find_slot (\<lambda>f. f_refcount f = 0) (open_files d) = Some i \<Longrightarrow>
    vfs_file_alloc d = (Some i, upd_file i (\<lambda>_. \<lparr>f_vnode = None, f_offset = 0, f_flags = 0, f_refcount = 1\<rparr>) d)"
  by (simp add: vfs_file_alloc_def)

text \<open>C33: \<open>open\<close> with \<open>O_CREAT\<close> and \<open>O_EXCL\<close> succeeds although the name exists, when it is a symbolic link whose target does not: the lookup
  that follows the link finds nothing, and the creation takes the entry it finds, the link itself, which is what the new file then is.\<close>

theorem open_excl_dangling:
  assumes y: "foldo run_op ops (boot_fs m now) = Some y"
    and dangling: "resolve_path (fs y) path True 0 = Inl ENOENT"
    and parent: "split_parent path = Inr (dirpath, nm)" "resolve_path (fs y) dirpath True 0 = Inr d" "v_ops (vn (fs y) d) = Ramfs_dir_ops"
    and exists: "child_of nm (children (v_data (vn (fs y) d))) = Some l" "v_type (vn (fs y) l) = VFS_NODE_SYMLINK"
    and flags: "flag flags O_CREAT" "flag flags O_EXCL" and slot: "find_slot (\<lambda>f. f_refcount f = 0) (open_files (fd y)) = Some i"
  shows "\<exists>y'. vfs_open path flags mode y = (Inr i, y') \<and> f_vnode (the_file y' i) = Some l"
proof -
  let ?s = "fs y"
  have ok: "refs_ok ?s (file_refs (fd y))" by (rule reached_ok [OF y])
  have look: "vfs_lookup path ?s = (Inl ENOENT, ?s)" using ok by (cases rule: lookup_cases [of _ _ path]) (use dangling in auto)
  have d: "vfs_lookup dirpath ?s = (Inr d, vnode_ref d ?s)" "live ?s d" using ok by (cases rule: lookup_cases [of _ _ dirpath], use parent in auto)+
  have l: "live ?s l" by (rule entry_live [OF ok d(2) child_of_entry [OF exists(1)]])
  have t: "children (v_data (vn (vnode_ref d ?s) d)) = children (v_data (vn ?s d))" "v_ops (vn (vnode_ref d ?s) d) = v_ops (vn ?s d)"
    using same_tree_ref [of ?s d] by (simp_all add: same_tree_def)
  have "open_create path mode ?s = (Inr l, vnode_ref l ?s)"
    using parent d exists(1) unref_under_ref [OF ok l d(2)] by (simp add: open_create_def t ramfs_dir_create_def ramfs_dir_lookup_def)
  then have node: "open_node path flags mode ?s = (Inr l, vnode_ref l ?s)" using look flags by (simp add: open_node_def)
  have "v_type (vn (vnode_ref l ?s) l) \<noteq> VFS_NODE_DIR" using same_tree_ref [of ?s l] exists(2) by (simp add: same_tree_def)
  then show ?thesis using node free_slot [OF slot] find_slot_lt [OF slot] by (simp add: vfs_open_def Let_def upd_file_def)
qed

section \<open>Renaming a file to itself\<close>

lemma trunc_node_upd:
  "trunc_node v s = upd_vnode v (\<lambda>n. n\<lparr>v_data := if v_ops n = Ramfs_file_ops then ramfs_free_chunks (v_data n) else v_data n, v_size := 0\<rparr>) s"
  by (simp add: trunc_node_def ramfs_file_truncate_def upd_vnode_def)

lemma trunc_ref_commute:
  assumes v: "live s v"
  shows "trunc_node v (vnode_ref v s) = vnode_ref v (trunc_node v s)"
proof -
  let ?g = "\<lambda>n. n\<lparr>v_data := if v_ops n = Ramfs_file_ops then ramfs_free_chunks (v_data n) else v_data n, v_size := 0\<rparr>"
    and ?h = "\<lambda>n. n\<lparr>v_ref := v_ref n + 1\<rparr>"
  have "(\<lambda>n. ?g (?h n)) = (\<lambda>n. ?h (?g n))" by (rule ext) simp
  then have "upd_vnode v ?g (upd_vnode v ?h s) = upd_vnode v ?h (upd_vnode v ?g s)" unfolding upd_vnode_twice by (rule arg_cong)
  moreover have "vnode_ref v (trunc_node v s) = upd_vnode v ?h (upd_vnode v ?g s)"
    using v by (simp add: vnode_ref_def trunc_node_upd live_upd live_lt)
  moreover have "trunc_node v (vnode_ref v s) = upd_vnode v ?g (upd_vnode v ?h s)" using v by (simp add: vnode_ref_def trunc_node_upd)
  ultimately show ?thesis by metis
qed

lemma same_tree_trunc: "same_tree s (trunc_node v s)"
  by (auto simp: same_tree_def trunc_node_def ramfs_file_truncate_def ramfs_free_chunks_def vn_upd simp del: vnodes_upd)

lemma same_tree_path: "same_tree s s' \<Longrightarrow> resolve_path s' path f depth = resolve_path s path f depth"
  by (simp add: resolve_path_def same_tree_start same_tree_resolve split: sum.split prod.split)

lemma lookup_at:
  "refs_ok s H \<Longrightarrow> resolve_path s path True 0 = Inr v \<Longrightarrow> vfs_lookup path s = (Inr v, vnode_ref v s) \<and> live s v"
  by (cases rule: lookup_cases [of s H path]) auto

lemma open_file_at:
  assumes ok: "refs_ok (fs y) H" and path: "resolve_path (fs y) path True 0 = Inr v" "v_type (vn (fs y) v) \<noteq> VFS_NODE_DIR"
    and flags: "\<not> flag flags O_EXCL" "\<not> flag flags O_APPEND" and slot: "find_slot (\<lambda>f. f_refcount f = 0) (open_files (fd y)) = Some i"
  shows "vfs_open path flags mode y = (Inr i,
    y\<lparr>fs := (if flag flags O_TRUNC \<and> can_write flags then trunc_node v (vnode_ref v (fs y)) else vnode_ref v (fs y)),
      fd := upd_file i (\<lambda>_. \<lparr>f_vnode = Some v, f_offset = 0, f_flags = flags, f_refcount = 1\<rparr>) (fd y)\<rparr>)"
proof -
  have "open_node path flags mode (fs y) = (Inr v, vnode_ref v (fs y))" using lookup_at [OF ok path(1)] flags(1) by (simp add: open_node_def)
  moreover have "v_type (vn (vnode_ref v (fs y)) v) \<noteq> VFS_NODE_DIR" using same_tree_ref [of "fs y" v] path(2) by (simp add: same_tree_def)
  ultimately show ?thesis using free_slot [OF slot] find_slot_lt [OF slot] flags(2) by (simp add: vfs_open_def Let_def upd_file_def)
qed

lemma close_last:
  assumes "i < length (open_files (fd y))" and "f_refcount (the_file y i) = 1" and "f_vnode (the_file y i) = Some v"
  shows "fs (vfs_close i y) = vnode_unref v (fs y)" and "j \<noteq> i \<Longrightarrow> the_file (vfs_close i y) j = the_file y j"
    and "length (open_files (fd (vfs_close i y))) = length (open_files (fd y))"
  using assms by (simp_all add: vfs_close_def vfs_file_free_def file_dec_def file_finish_def upd_file_def)

lemma cut_last_slash: "sep \<notin> set nm \<Longrightarrow> rev (dropWhile (\<lambda>c. c \<noteq> sep) (rev (dir @ [sep] @ nm))) = dir @ [sep]"
  by (simp add: dropWhile_append)

text \<open>Two files that can be opened one after the other.\<close>

lemma two_slots:
  assumes "2 \<le> length (filter P xs)"
  obtains i j where "find_slot P xs = Some i" "i \<noteq> j" "\<And>x. \<not> P x \<Longrightarrow> find_slot P (xs[i := x]) = Some j"
proof -
  from assms have "filter P xs \<noteq> []" by auto
  then obtain i where i: "find_slot P xs = Some i" by (metis filter_empty_conv find_slot_None not_None_eq)
  note at = find_slot_SomeD [OF i]
  have len: "length (filter P (xs[i := x])) + 1 = length (filter P xs)" if "\<not> P x" for x
  proof -
    have "length (filter P zs) = sum_list (map (\<lambda>z. if P z then 1 else 0) zs)" for zs by (induction zs) auto
    with sum_list_update_nat [of i xs "\<lambda>z. if P z then 1 else 0" x] at that show ?thesis by simp
  qed
  show thesis
  proof (cases "\<exists>x. \<not> P x")
    case False
    then show thesis using that [OF i, of "Suc i"] by simp
  next
    case True
    then obtain x0 where x0: "\<not> P x0" by blast
    have "filter P (xs[i := x0]) \<noteq> []" using len [OF x0] assms by auto
    then obtain j where j: "find_slot P (xs[i := x0]) = Some j" by (metis filter_empty_conv find_slot_None not_None_eq)
    have "i \<noteq> j" using find_slot_SomeD [OF j] x0 at by auto
    moreover have "find_slot P (xs[i := x]) = Some j" if "\<not> P x" for x
      using find_slot_SomeD [OF j] \<open>i \<noteq> j\<close> x0 that at unfolding find_slot_Some by (auto simp: nth_list_update)
    ultimately show thesis using that [OF i] by blast
  qed
qed

text \<open>The copy of a file onto itself: the file was emptied when it was opened for writing, so that nothing is left to copy.\<close>

lemma self_copy:
  assumes ok: "refs_ok (fs y) H" and path: "resolve_path (fs y) path True 0 = Inr v" "v_type (vn (fs y) v) = VFS_NODE_FILE" "v_ops (vn (fs y) v) = Ramfs_file_ops"
    and slots: "2 \<le> length (filter (\<lambda>f. f_refcount f = 0) (open_files (fd y)))"
  obtains i j y1 y2 where "vfs_open path 0 0 y = (Inr i, y1)" "vfs_open path (O_WRONLY OR O_CREAT OR O_TRUNC) mode y1 = (Inr j, y2)"
    "copy_loop i j y2 = Some y2" "fs (vfs_close j (vfs_close i y2)) = trunc_node v (fs y)"
proof -
  let ?P = "\<lambda>f. f_refcount f = 0" and ?W = "O_WRONLY OR O_CREAT OR O_TRUNC" and ?s = "fs y" and ?R = "vnode_ref v"
  obtain i j where i: "find_slot ?P (open_files (fd y)) = Some i" and ij: "i \<noteq> j"
    and j: "\<And>x. \<not> ?P x \<Longrightarrow> find_slot ?P ((open_files (fd y))[i := x]) = Some j" using two_slots [OF slots] by blast
  have v: "live ?s v" using lookup_at [OF ok path(1)] by blast
  let ?f = "\<lambda>fl. \<lparr>f_vnode = Some v, f_offset = 0, f_flags = fl, f_refcount = 1\<rparr>"
  define y1 where "y1 = y\<lparr>fs := ?R ?s, fd := upd_file i (\<lambda>_. ?f 0) (fd y)\<rparr>"
  have op1: "vfs_open path 0 0 y = (Inr i, y1)" using open_file_at [OF ok path(1) _ _ _ i, of 0 0] path(2) by (simp add: y1_def)
  have ok1: "refs_ok (fs y1) (hold H v)" using refs_ok_ref [OF ok v] by (simp add: y1_def)
  have t1: "resolve_path (fs y1) path True 0 = Inr v" "v_type (vn (fs y1) v) = VFS_NODE_FILE"
    using same_tree_path [OF same_tree_ref [of ?s v], of path True 0] path same_tree_ref [of ?s v] by (simp_all add: y1_def same_tree_def)
  have slot2: "find_slot ?P (open_files (fd y1)) = Some j" using j [of "?f 0"] by (simp add: y1_def upd_file_def)
  define y2 where "y2 = y1\<lparr>fs := ?R (?R (trunc_node v ?s)), fd := upd_file j (\<lambda>_. ?f ?W) (fd y1)\<rparr>"
  have fl: "\<not> flag ?W O_EXCL" "\<not> flag ?W O_APPEND" "flag ?W O_TRUNC" "can_write ?W"
    by (simp_all add: O_WRONLY_def O_CREAT_def O_TRUNC_def O_EXCL_def O_APPEND_def can_write_def O_ACCMODE_def)
  have com: "trunc_node v (?R (?R ?s)) = ?R (?R (trunc_node v ?s))" using v by (simp add: trunc_ref_commute live_ref)
  have op2: "vfs_open path ?W mode y1 = (Inr j, y2)"
    using open_file_at [OF ok1 t1(1) _ fl(1,2) slot2, of mode] t1(2) fl(3,4) com by (simp add: y2_def y1_def)
  have lt: "i < length (open_files (fd y))" "j < length (open_files (fd y))"
    using find_slot_lt [OF i] find_slot_lt [OF slot2] by (simp_all add: y1_def upd_file_def)
  have fi: "the_file y2 i = ?f 0" "the_file y2 j = ?f ?W" "length (open_files (fd y2)) = length (open_files (fd y))"
    using lt ij by (simp_all add: y2_def y1_def upd_file_def)
  let ?T = "trunc_node v ?s"
  have okT: "refs_ok ?T H" by (rule trunc_node_ok [OF ok])
  have vT: "live ?T v" using v by (simp add: trunc_node_upd live_upd live_lt)
  have tree: "same_tree ?T (?R ?T)" "same_tree (?R ?T) (?R (?R ?T))" by (rule same_tree_ref)+
  have sz: "v_size (vn (?R (?R ?T)) v) = 0" using v vT by (simp add: vnode_ref_def live_upd live_lt trunc_node_upd)
  have ops: "v_ops (vn (fs y2) v) = Ramfs_file_ops" using tree same_tree_trunc [of ?s v] path(3) by (simp add: y2_def same_tree_def)
  have "vfs_read (Some i) 512 y2 = (Inr [], y2)"
    using fi(1) ops sz by (simp add: vfs_read_def file_vnode_def O_ACCMODE_def O_WRONLY_def ramfs_file_read_def) (simp add: y2_def)
  then have copy: "copy_loop i j y2 = Some y2" by (subst copy_loop.simps) simp
  have c1: "fs (vfs_close i y2) = ?R ?T" using close_last(1) [of i y2 v] fi lt unref_ref_ok [OF refs_ok_ref [OF okT vT], of v] vT
    by (simp add: y2_def live_ref)
  have "fs (vfs_close j (vfs_close i y2)) = ?T"
    using close_last(1) [of j "vfs_close i y2" v] close_last(2,3) [of i y2 v] fi lt ij c1 unref_ref_ok [OF okT vT] by simp
  with op1 op2 copy that show thesis by blast
qed

text \<open>Removing the entry of a vnode that nothing else refers to.\<close>

lemma dead_unref: "v < length (vnodes s) \<Longrightarrow> \<not> live s v \<Longrightarrow> \<not> live (vnode_unref u s) v"
  unfolding vnode_unref_def by (rule unref_list_dead)

lemma unref_list_length: "length (vnodes (unref_list vs s)) = length (vnodes s)"
proof (induction vs s rule: unref_list.induct)
  case (2 v vs s)
  then show ?case by (cases "live s v") (auto simp: unref_list.simps(2))
qed (simp add: unref_list.simps)

lemma unref_last_dead:
  assumes "live s v" and "v_ref (vn s v) \<le> 1" and "v_ops (vn s v) \<noteq> Ops_null"
  shows "\<not> live (vnode_unref v s) v"
proof -
  let ?t = "upd_vnode v (\<lambda>n. n\<lparr>v_ref := v_ref n - 1, v_live := False\<rparr>) s"
  have "\<not> live ?t v" by (simp add: live_upd)
  then have "\<not> live (unref_list (map snd (children (v_data (vn s v)))) ?t) v" by (rule unref_list_dead [rotated]) (use live_lt [OF assms(1)] in simp)
  then show ?thesis using assms by (simp add: vnode_unref_def unref_list.simps(2))
qed

lemma find_slot_find: "find_slot P xs = Some i \<Longrightarrow> find P xs = Some (xs ! i)"
  by (induction xs arbitrary: i) (auto split: if_splits)

lemma find_slot_exists: "find P xs = Some x \<Longrightarrow> \<exists>i. find_slot P xs = Some i"
  by (induction xs) (auto split: if_splits)

lemma rename_unlink_kills:
  assumes ok: "refs_ok t H" and v: "live t v" and path: "path = dir @ [sep] @ nm" "sep \<notin> set nm" "length path \<le> 255"
    and parent: "resolve_path t (if dir = [] then [sep] else dir) True 0 = Inr d" "v_ops (vn t d) = Ramfs_dir_ops"
      "child_of nm (children (v_data (vn t d))) = Some v" and sole: "v_ref (vn t v) = 1" "d \<noteq> v"
  shows "\<not> live (rename_unlink path t) v"
proof -
  let ?t = "vnode_ref d t" and ?cs = "children (v_data (vn t d))"
  have d: "vfs_lookup (if dir = [] then [sep] else dir) t = (Inr d, ?t)" "live t d" using lookup_at [OF ok parent(1)] by blast+
  have tree: "v_ops (vn ?t u) = v_ops (vn t u)" "children (v_data (vn ?t u)) = children (v_data (vn t u))" for u
    using same_tree_ref [of t d] by (simp_all add: same_tree_def)
  obtain x where x: "find (\<lambda>c. fst c = nm) ?cs = Some x" "snd x = v" using parent(3) by (auto simp: child_of_def)
  obtain k where k: "find_slot (\<lambda>c. fst c = nm) ?cs = Some k" using find_slot_exists [OF x(1)] by blast
  have kv: "snd (?cs ! k) = v" using find_slot_find [OF k] x by simp
  have lv: "live ?t v" "v_ref (vn ?t v) \<le> 1" using v sole d(2) by (simp_all add: live_ref v_ref_ref)
  have "v_ops (vn ?t v) \<noteq> Ops_null" using refs_okD(4) [OF ok v] tree by simp
  from unref_last_dead [OF lv this] have dead: "\<not> live (vnode_unref v ?t) v" .
  have len: "v < length (vnodes (vnode_unref v ?t))" using live_lt(1) [OF lv(1)] by (simp add: vnode_unref_def unref_list_length)
  let ?u = "set_children d (take k ?cs @ drop (Suc k) ?cs) (vnode_unref v ?t)"
  have "v < length (vnodes ?u)" using len by (simp add: set_children_def)
  moreover have "\<not> live ?u v" using dead by simp
  ultimately have "\<not> live (vnode_unref d ?u) v" by (rule dead_unref)
  moreover have "rename_unlink path t = vnode_unref d ?u"
    using cut_last_slash [OF path(2), of dir] path d(1) parent(2) k kv tree
    by (cases "dir = []") (simp_all add: rename_unlink_def Let_def ramfs_dir_unlink_def butlast_append)
  ultimately show ?thesis by simp
qed

text \<open>C34: Renaming a file to its own name, which should do nothing, deletes it: the call opens the file for writing before it has read it,
  copies nothing, removes the entry and reports success. If the entry was the only reference, the file is gone.\<close>

theorem rename_to_itself_destroys:
  assumes y: "foldo run_op ops (boot_fs m now) = Some y"
    and path: "path = dir @ [sep] @ nm" "sep \<notin> set nm" "length path \<le> 255" and perm: "rename_perms cur path path (fs y) = Inr ()"
    and reg: "resolve_path (fs y) path True 0 = Inr v" "v_type (vn (fs y) v) = VFS_NODE_FILE" "v_ops (vn (fs y) v) = Ramfs_file_ops" "v_ref (vn (fs y) v) = 1"
    and parent: "resolve_path (fs y) (if dir = [] then [sep] else dir) True 0 = Inr d" "v_ops (vn (fs y) d) = Ramfs_dir_ops"
      "child_of nm (children (v_data (vn (fs y) d))) = Some v"
    and slots: "2 \<le> length (filter (\<lambda>f. f_refcount f = 0) (open_files (fd y)))"
  shows "\<exists>y'. sys_rename cur path path y = Some (Inr (), y') \<and> \<not> live (fs y') v"
proof -
  let ?s = "fs y" and ?R = "vnode_ref v" and ?T = "trunc_node v (fs y)" and ?H = "file_refs (fd y)" and ?y = "y\<lparr>fs := vnode_ref v (fs y)\<rparr>"
  have ok: "refs_ok ?s ?H" by (rule reached_ok [OF y])
  have look: "vfs_lookup path ?s = (Inr v, ?R ?s)" "live ?s v" using lookup_at [OF ok reg(1)] by blast+
  have okR: "refs_ok (fs ?y) (hold ?H v)" using refs_ok_ref [OF ok look(2)] by simp
  have treeR: "resolve_path (fs ?y) path True 0 = Inr v" "v_type (vn (fs ?y) v) = VFS_NODE_FILE" "v_ops (vn (fs ?y) v) = Ramfs_file_ops"
    using same_tree_path [OF same_tree_ref [of ?s v], of path True 0] same_tree_ref [of ?s v] reg by (simp_all add: same_tree_def)
  have target: "rename_target path path (?R ?s) = (path, ?R ?s)"
  proof -
    have "vfs_lookup path (?R ?s) = (Inr v, ?R (?R ?s))" "live (?R ?s) v" using lookup_at [OF okR treeR(1)] by simp_all
    moreover have "v_type (vn (?R (?R ?s)) v) = VFS_NODE_FILE" using same_tree_ref [of "?R ?s" v] treeR(2) by (simp add: same_tree_def)
    ultimately show ?thesis using unref_ref_ok [OF okR, of v] by (simp add: rename_target_def)
  qed
  obtain i j y1 y2 where op: "vfs_open path 0 0 ?y = (Inr i, y1)"
    "vfs_open path (O_WRONLY OR O_CREAT OR O_TRUNC) (v_mode (vn (fs y1) v)) y1 = (Inr j, y2)"
    "copy_loop i j y2 = Some y2" "fs (vfs_close j (vfs_close i y2)) = trunc_node v (?R ?s)"
  proof -
    have free: "2 \<le> length (filter (\<lambda>f. f_refcount f = 0) (open_files (fd ?y)))" using slots by simp
    obtain i0 y1 where first: "vfs_open path 0 0 ?y = (Inr i0, y1)" by (rule self_copy [OF okR treeR free, of 0]) blast
    obtain i j y1' y2 where all: "vfs_open path 0 0 ?y = (Inr i, y1')"
      "vfs_open path (O_WRONLY OR O_CREAT OR O_TRUNC) (v_mode (vn (fs y1) v)) y1' = (Inr j, y2)"
      "copy_loop i j y2 = Some y2" "fs (vfs_close j (vfs_close i y2)) = trunc_node v (fs ?y)"
      by (rule self_copy [OF okR treeR free, of "v_mode (vn (fs y1) v)"]) blast
    have "y1' = y1" using first all(1) by simp
    with all show thesis by (intro that [of i y1 j y2]) simp_all
  qed
  let ?y4 = "drop_ref v (vfs_close j (vfs_close i y2))"
  have okT: "refs_ok ?T ?H" by (rule trunc_node_ok [OF ok])
  have vT: "live ?T v" using look(2) by (simp add: trunc_node_upd live_upd live_lt)
  have fs4: "fs ?y4 = ?T" using unref_ref_ok [OF okT vT] by (simp add: drop_ref_def op(4) trunc_ref_commute [OF look(2)])
  have "sys_rename cur path path y = Some (Inr (), ?y4\<lparr>fs := rename_unlink path (fs ?y4)\<rparr>)"
    using perm look(1) target op by (simp add: sys_rename_def Let_def)
  moreover have "\<not> live (rename_unlink path ?T) v"
  proof (rule rename_unlink_kills [OF okT vT path])
    have tree: "v_ops (vn ?T u) = v_ops (vn ?s u)" "children (v_data (vn ?T u)) = children (v_data (vn ?s u))" for u
      using same_tree_trunc [of ?s v] by (simp_all add: same_tree_def)
    show "resolve_path ?T (if dir = [] then [sep] else dir) True 0 = Inr d" using parent(1) same_tree_path [OF same_tree_trunc [of ?s v]] by metis
    show "v_ops (vn ?T d) = Ramfs_dir_ops" using parent(2) tree by simp
    show "child_of nm (children (v_data (vn ?T d))) = Some v" using parent(3) tree by simp
    show "v_ref (vn ?T v) = 1" using reg(4) look(2) by (simp add: trunc_node_upd vn_upd live_lt del: vnodes_upd)
    show "d \<noteq> v" using parent(2) reg(3) by auto
  qed
  ultimately show ?thesis using fs4 by simp
qed

end
