(* ===== verification/Vfs_Demo.thy ===== *)
theory Vfs_Demo
  imports Vfs_Limits
begin

text \<open>
  The contracts of the virtual file system on one small run: file systems in memory are mounted on the root and on a directory of it,
  a file is created, opened twice and closed once, another is created and closed, and a symbolic link is made that leads nowhere.
\<close>

section \<open>The run\<close>

definition demo_ops :: "fs_op list" where
  "demo_ops = [Mount ''/'', Mkdir ''/d'' 0x1ED, Mount ''/d'', Open ''/f'' (O_WRONLY OR O_CREAT) 0x1A4, Dup 0, Close 0,
     Open ''/g'' (O_WRONLY OR O_CREAT) 0x1A4, Close 1, Symlink ''x'' ''/l'']"

definition demo_fs :: fsys where
  "demo_fs = the (foldo run_op demo_ops (boot_fs (\<lambda>_. True) 0))"

lemma demo_returns: "foldo run_op demo_ops (boot_fs (\<lambda>_. True) 0) = Some demo_fs"
  using run_ok [OF boot_ok, of demo_ops "\<lambda>_. True" 0] by (auto simp: demo_fs_def)

definition demo_facts :: "fsys \<Rightarrow> bool" where
  "demo_facts y \<longleftrightarrow>
    map (\<lambda>p. resolve_path (fs y) p True 0) [''/'', ''/d'', ''/f'', ''/g'', ''/l''] = [Inr 0, Inr 2, Inr 3, Inr 4, Inl ENOENT] \<and>
    find_mount ''/d/x'' (fs y) = Some (1, ''x'') \<and> 0 < length (g_mounts (fs y)) \<and> mount_matches ''/d/x'' (g_mounts (fs y) ! 0) \<and>
    length (vnodes (fs y)) = 6 \<and>
    map (\<lambda>v. (v_type (vn (fs y) v), v_ops (vn (fs y) v), v_ref (vn (fs y) v), v_size (vn (fs y) v), length (chunks (v_data (vn (fs y) v))))) [3, 4, 5]
    = [(VFS_NODE_FILE, Ramfs_file_ops, 2, 0, 0), (VFS_NODE_FILE, Ramfs_file_ops, 1, 0, 0), (VFS_NODE_SYMLINK, Ramfs_symlink_ops, 1, 1, 0)] \<and>
    v_ops (vn (fs y) 0) = Ramfs_dir_ops \<and> children (v_data (vn (fs y) 0)) = [(''d'', 1), (''f'', 3), (''g'', 4), (''l'', 5)] \<and>
    file_vnode (Some 0) y = Some (0, 3) \<and> f_flags (the_file y 0) AND O_ACCMODE = 1 \<and>
    find_slot (\<lambda>f. f_refcount f = 0) (open_files (fd y)) = Some 1 \<and>
    2 \<le> length (filter (\<lambda>f. f_refcount f = 0) (open_files (fd y))) \<and>
    rename_perms None ''/g'' ''/g'' (fs y) = Inr ()"

lemma demo_eval: "demo_facts demo_fs"
  by code_simp

lemmas demo = demo_eval [unfolded demo_facts_def]


section \<open>What it shows\<close>

theorem lookup_witness: "lookup_path ''/g'' True 0 (fs demo_fs) = (Inr 4, vnode_ref 4 (fs demo_fs))"
  using lookup_exact [OF demo_returns, of "''/g''" True 0] demo by simp

theorem find_mount_witness:
  "mount_matches ''/d/x'' (g_mounts (fs demo_fs) ! 1) \<and> mount_matches ''/d/x'' (g_mounts (fs demo_fs) ! 0) \<and>
   length (m_path (g_mounts (fs demo_fs) ! 0)) \<le> length (m_path (g_mounts (fs demo_fs) ! 1))"
proof -
  show ?thesis using find_mount_longest [where path = "''/d/x''" and s = "fs demo_fs"] demo by (auto simp del: One_nat_def)
qed


text \<open>A file of five bytes in its first chunk, cut to two and extended to four.\<close>

definition five_bytes :: vfs where
  "five_bytes = upd_vnode 3 (\<lambda>n. n\<lparr>v_data := (v_data n)\<lparr>chunks := [\<lambda>i. if i < 5 then of_nat (i + 1) else 0], chunk_cap := 8\<rparr>, v_size := 5\<rparr>) (fs demo_fs)"

theorem truncate_witness:
  "\<exists>s1 s2. truncate_node 3 2 five_bytes = (Inr (), s1) \<and> truncate_node 3 4 s1 = (Inr (), s2) \<and> contents s1 3 = [1, 2] \<and> contents s2 3 = [1, 2, 3, 4]"
proof -
  let ?s = five_bytes
  obtain r1 s1 r2 s2 where cut: "truncate_node 3 2 ?s = (r1, s1)" and grow: "truncate_node 3 4 s1 = (r2, s2)" by (metis prod.collapse)
  have "3 < length (vnodes (fs demo_fs))" using demo by simp
  then have node: "vn ?s 3 = (vn (fs demo_fs) 3)\<lparr>v_data := (v_data (vn (fs demo_fs) 3))\<lparr>chunks := [\<lambda>i. if i < 5 then of_nat (i + 1) else 0], chunk_cap := 8\<rparr>, v_size := 5\<rparr>"
    and len: "3 < length (vnodes ?s)" by (simp_all add: five_bytes_def upd_vnode_def)
  have "contents ?s 3 = [1, 2, 3, 4, 5]" by (simp add: contents_def node byte_at_def RAMFS_CHUNK_SIZE_def upt_rec)
  moreover have "r1 = Inr () \<and> r2 = Inr () \<and> contents s1 3 = take (unat (2 :: u64)) (contents ?s 3) \<and> contents s2 3 = take (unat (4 :: u64)) (contents ?s 3)"
    using demo by (intro truncate_regrow_exposes [OF len _ _ _ _ _ _ _ _ cut grow]) (simp_all add: node)
  ultimately show ?thesis using cut grow by auto
qed

theorem pwrite_witness: "\<exists>y'. vfs_pwrite (Some 0) [1] 0xFFFFFFFFFFFFFFF0 demo_fs = (Inr 1, y') \<and> wild (fs y')"
proof -
  have "file_vnode (Some 0) demo_fs = Some (0, 3)" "f_flags (the_file demo_fs 0) AND O_ACCMODE \<noteq> 0" using demo by simp_all
  moreover have "v_type (vn (fs demo_fs) 3) = VFS_NODE_FILE" "v_ops (vn (fs demo_fs) 3) = Ramfs_file_ops"
    "length (chunks (v_data (vn (fs demo_fs) 3))) \<le> RAMFS_MAX_CHUNKS" using demo by simp_all
  ultimately have "\<exists>y'. vfs_pwrite (Some 0) [1] 0xFFFFFFFFFFFFFFF0 demo_fs = (Inr (length [1 :: u8]), y') \<and> wild (fs y')"
    by (rule pwrite_overruns) simp_all
  then show ?thesis by simp
qed

theorem long_name_witness:
  "walk_from 0 (replicate 300 CHR ''a'') True 0 (fs demo_fs) =
   walk_from 0 (replicate 255 CHR ''a'' @ [sep] @ replicate 45 CHR ''a'') True 0 (fs demo_fs)"
proof -
  have "255 < length (replicate 300 CHR ''a'')" "sep \<notin> set (replicate 300 CHR ''a'')" by simp_all
  from long_name_splits [OF this, of 0 True 0 "fs demo_fs"] show ?thesis by (simp add: min_def)
qed

theorem open_excl_witness:
  "\<exists>y'. vfs_open ''/l'' (O_CREAT OR O_EXCL) 0 demo_fs = (Inr 1, y') \<and> f_vnode (the_file y' 1) = Some 5"
proof (rule open_excl_dangling [OF demo_returns])
  show "resolve_path (fs demo_fs) ''/l'' True 0 = Inl ENOENT" "resolve_path (fs demo_fs) ''/'' True 0 = Inr 0" using demo by simp_all
  show "split_parent ''/l'' = Inr (''/'', ''l'')" by code_simp
  show "v_ops (vn (fs demo_fs) 0) = Ramfs_dir_ops" using demo by simp
  show "child_of ''l'' (children (v_data (vn (fs demo_fs) 0))) = Some 5" using demo by (simp add: child_of_def)
  show "v_type (vn (fs demo_fs) 5) = VFS_NODE_SYMLINK" using demo by simp
  show "flag (O_CREAT OR O_EXCL) O_CREAT" "flag (O_CREAT OR O_EXCL) O_EXCL" by (simp_all add: O_CREAT_def O_EXCL_def)
  show "find_slot (\<lambda>f. f_refcount f = 0) (open_files (fd demo_fs)) = Some 1" using demo by blast
qed

theorem rename_witness: "\<exists>y'. sys_rename None ''/g'' ''/g'' demo_fs = Some (Inr (), y') \<and> \<not> live (fs y') 4"
proof (rule rename_to_itself_destroys [OF demo_returns, where dir = "[]" and nm = "''g''" and d = 0])
  show "''/g'' = [] @ [sep] @ ''g''" "sep \<notin> set ''g''" "length ''/g'' \<le> 255" by simp_all
  show "rename_perms None ''/g'' ''/g'' (fs demo_fs) = Inr ()" using demo by blast
  show "resolve_path (fs demo_fs) ''/g'' True 0 = Inr 4" using demo by simp
  show "resolve_path (fs demo_fs) (if [] = [] then [sep] else []) True 0 = Inr 0" using demo by simp
  show "v_type (vn (fs demo_fs) 4) = VFS_NODE_FILE" "v_ops (vn (fs demo_fs) 4) = Ramfs_file_ops" "v_ref (vn (fs demo_fs) 4) = 1" using demo by simp_all
  show "v_ops (vn (fs demo_fs) 0) = Ramfs_dir_ops" "child_of ''g'' (children (v_data (vn (fs demo_fs) 0))) = Some 4"
    using demo by (simp_all add: child_of_def)
  show "2 \<le> length (filter (\<lambda>f. f_refcount f = 0) (open_files (fd demo_fs)))" using demo by blast
qed

end
