(* ===== verification/Spec2Isabelle.thy ===== *)
theory Spec2Isabelle
  imports Sem Vmalloc Sched_Props Uaccess_Props Pipe_Props Signal_Props Fd_Props Flock_Props Net_Demo Vfs_Demo
begin

text \<open>
  A verification library for the Cervus kernel (\<open>src/kernel\<close>). The C code is written out as HOL functions on explicit
  states, every one of them executable, and the theorems are about these functions.

  \<^bold>\<open>Conventions.\<close> C integers are words of their width where wrap-around can be observed, and \<open>int\<close> or \<open>nat\<close> where the
  code keeps them in range. A call that returns a negative error number is a sum type with the error on the left. An access
  outside the object that a pointer names is the value \<open>Fault\<close>, or sets a flag of the state, so that safety of memory is
  a statement about the model. Whether an allocation succeeds, what another machine answers and what the clock says are arguments
  or streams in the state. Locks are not modelled as such: what runs under one lock is one step, and where the code releases a lock
  between two accesses the model has two steps, which other processors may separate.

  \<^bold>\<open>Memory.\<close>
  \<^item> \<open>Pmm\<close>, \<open>Pmm_Alloc\<close>: the buddy allocator, \<open>memory/pmm.c\<close>. The free lists are threaded through the free
    pages of a store of 64-bit cells, as in the code. Allocation, release and initialisation are shown to do what they say to the set
    of free frames, no frame is lost or handed out twice, and a request above \<open>2^63\<close> pages never returns.
  \<^item> \<open>Vmm\<close>, \<open>Vmm_Map\<close>: page tables of four levels, \<open>memory/vmm.c\<close>, in the same store. Mapping and unmapping a page
    change the translation of that page only; inside a large page the code writes into the page itself.
  \<^item> \<open>Paging\<close>: regions of pages and the calls \<open>brk\<close> and \<open>munmap\<close>. \<open>Vmalloc\<close>: the kernel's own address space.
  \<^item> \<open>Uaccess\<close>, \<open>Uaccess_Props\<close>: copies between kernel and user, \<open>syscall/helpers.c\<close>, and the normalisation of paths,
    which is shown equal to folding the components of the path over a stack.

  \<^bold>\<open>Tasks.\<close>
  \<^item> \<open>Sched\<close>, \<open>Sched_Run\<close>, \<open>Sched_Props\<close>: \<open>sched/sched.c\<close> as steps of several processors on shared run queues. Every
    reachable state keeps a task on at most one processor, a runnable task is never lost, sleepers are woken in time, and the choice of
    the next task is the one the priorities prescribe, which lets a task starve.
  \<^item> \<open>Signal\<close>, \<open>Signal_Props\<close>: \<open>signal/signal.c\<close> and signal descriptors.
  \<^item> \<open>Sem\<close>: semaphore sets, \<open>syscall/mem/sem.c\<close>.

  \<^bold>\<open>Files.\<close>
  \<^item> \<open>Fd\<close>, \<open>Fd_Props\<close>: open files and descriptor tables of \<open>fs/vfs.c\<close>, whose reference counts are exact after every
    sequence of calls.
  \<^item> \<open>Ramfs\<close>: vnodes, their reference counts and the file system in memory, \<open>fs/ramfs.c\<close>. \<open>Vfs\<close>: the mount table and
    the walk along a path, \<open>fs/vfs.c\<close> up to \<open>vfs_lookup_nofollow\<close>. \<open>Vfs_Ops\<close>: the file calls of \<open>fs/vfs.c\<close> and, from
    the resolved path on, \<open>unlink\<close>, \<open>rmdir\<close> and \<open>rename\<close> of \<open>syscall/fs\<close>. A vnode is named by its place in the list
    of all vnodes ever allocated; a use after its release sets a flag.
  \<^item> \<open>Vfs_Refs\<close> has the invariant: the count of every vnode is the number of directory entries, mounts and open files that refer to
    it plus what the running call holds. \<open>Vfs_Walk\<close> defines where a path leads by the tree alone and shows that the walk, with all
    references it takes and drops, answers just that. \<open>Vfs_Entries\<close>, \<open>Vfs_Calls\<close>, \<open>Vfs_Sys\<close> carry the invariant through
    the calls; the locale \<open>vnode_source\<close> states what a call may assume of whatever gave it a vnode, and is interpreted for the lookups,
    the creation and the opening of files. \<open>Vfs_Run\<close> shows that the copy loop of \<open>rename\<close> ends.
  \<^item> \<open>Vfs_Props\<close>: after any calls in any order, with any allocations failing, the counts are exact and nothing freed was used;
    lookups and the choice of the mount are correct. \<open>Ramfs_Data\<close>: reading and writing are those of a sequence of bytes.
    \<open>Vfs_Limits\<close>: where the calls leave their contracts. \<open>Vfs_Demo\<close> runs them.
  \<^item> \<open>Flock\<close>, \<open>Flock_Props\<close>: record locks, \<open>fs/flock.c\<close>, refined to one owner set per byte.
  \<^item> \<open>Ring\<close>, \<open>Pipe\<close>, \<open>Pipe_Props\<close>: \<open>syscall/io/pipe.c\<close>. \<open>Ring\<close> has the locale of bounded queues that pipes and
    signal descriptors interpret.

  \<^bold>\<open>Network.\<close>
  \<^item> \<open>Net\<close>, \<open>Ip\<close>, \<open>Ip_Input\<close>: devices, ARP, the loopback queue, IP with fragments, ICMP and UDP, \<open>net/*.c\<close>.
  \<^item> \<open>Ip_Packet\<close>, \<open>Ip_Frag\<close>, \<open>Ip_Reasm\<close>, \<open>Ip_Send\<close>: headers and checksums, the reassembly table and the pieces
    a datagram is cut into. \<open>Ip_Props\<close>, \<open>Net_Props\<close>, \<open>Udp_Props\<close>: what is delivered is what was sent, in whatever order it
    arrives; hostile packets touch nothing outside the buffers; where the code leaves these contracts. \<open>Net_Demo\<close> runs them.

  \<^bold>\<open>Bounds and fuel.\<close> Walks over free lists carry the number of pages as fuel; no list is longer, which the invariant shows. The
  doubling loop of the allocator ends after 64 rounds or never, and the model returns \<open>None\<close> in the second case. Loops over arrays are
  recursion over the indices. The walk along a path nests once per symbolic link, and the code refuses the ninth, so that the
  levels of \<open>walk_levels\<close> count down from there; the release of a vnode ends because it leaves one live vnode fewer; \<open>grow_cap\<close>
  doubles a positive capacity and has as many rounds as chunks are needed.

  \<^bold>\<open>Not modelled.\<close> Drivers, interrupt entry, boot and assembly work on hardware registers. The file systems on disks
  read and write blocks of such devices, and the synthetic ones print the state of the kernel. The C library, the shell and the
  programs in user space run above the calls modelled here.
\<close>

end
